(* ===== verification/HG_Prelude.thy ===== *)
theory HG_Prelude
  imports Main "HOL-Library.Word" "HOL-Library.Monad_Syntax"
begin

text \<open>
  Shared vocabulary of the development: the machine types of the target (a 32-bit ARM with
  unsigned \<^verbatim>\<open>char\<close>, compiled with \<^verbatim>\<open>arm-none-eabi-gcc -O0\<close>), C strings as byte lists, the
  little-endian layout of a 32-bit word, slices and patches of byte arrays, and the generic
  lemmas about them that the components share.

  A C function that may fault (dereference a dangling pointer) or loop for ever returns an
  \<^typ>\<open>'a option\<close>: \<^term>\<open>None\<close> means that the call does not return normally.
\<close>

unbundle bit_operations_syntax

type_synonym u8 = "8 word"
type_synonym u16 = "16 word"
type_synonym u32 = "32 word"

named_theorems slice_simps \<open>slices and patches of byte arrays\<close>
named_theorems layout_simps \<open>byte layout of C structures\<close>

section \<open>C strings\<close>

text \<open>The bytes of a string literal, without the terminating NUL.\<close>

definition cstr :: "string \<Rightarrow> u8 list" where
  "cstr s = map of_char s"

lemma length_cstr [simp]: "length (cstr s) = length s"
  by (simp add: cstr_def)

section \<open>Little-endian words\<close>

definition le32 :: "u32 \<Rightarrow> u8 list" where
  "le32 w = [ucast w, ucast (drop_bit 8 w), ucast (drop_bit 16 w), ucast (drop_bit 24 w)]"

definition de32 :: "u8 list \<Rightarrow> u32" where
  "de32 bs = ucast (bs ! 0) OR push_bit 8 (ucast (bs ! 1)) OR push_bit 16 (ucast (bs ! 2))
     OR push_bit 24 (ucast (bs ! 3))"

lemma length_le32 [simp, layout_simps]: "length (le32 w) = 4"
  by (simp add: le32_def)

lemma de32_le32 [simp, layout_simps]: "de32 (le32 w) = w"
proof (rule bit_word_eqI)
  fix n :: nat assume "n < LENGTH(32)"
  then have "n < 32" by simp
  then consider "n < 8" | "8 \<le> n \<and> n < 16" | "16 \<le> n \<and> n < 24" | "24 \<le> n \<and> n < 32"
    by linarith
  then show "bit (de32 (le32 w)) n \<longleftrightarrow> bit w n"
    by cases (auto simp: de32_def le32_def bit_simps)
qed

lemma de32_append [simp, layout_simps]: "length xs = 4 \<Longrightarrow> de32 (xs @ ys) = de32 xs"
  by (simp add: de32_def nth_append)

section \<open>Slices and patches\<close>

text \<open>
  \<open>bslice off n xs\<close> is what a read of \<open>n\<close> bytes at \<open>off\<close> returns; \<open>patch off ys xs\<close> is the
  array after \<open>ys\<close> has been stored at \<open>off\<close>.
\<close>

definition bslice :: "nat \<Rightarrow> nat \<Rightarrow> 'a list \<Rightarrow> 'a list" where
  "bslice off n xs = take n (drop off xs)"

definition patch :: "nat \<Rightarrow> 'a list \<Rightarrow> 'a list \<Rightarrow> 'a list" where
  "patch off ys xs = take off xs @ ys @ drop (off + length ys) xs"

lemma length_bslice [simp, slice_simps]: "off + n \<le> length xs \<Longrightarrow> length (bslice off n xs) = n"
  by (simp add: bslice_def)

lemma length_bslice_le: "length (bslice off n xs) \<le> n"
  by (simp add: bslice_def)

lemma bslice_0 [simp, slice_simps]: "bslice off 0 xs = []"
  by (simp add: bslice_def)

lemma bslice_all [simp, slice_simps]: "bslice 0 (length xs) xs = xs"
  by (simp add: bslice_def)

lemma length_patch [simp, slice_simps]:
  "off + length ys \<le> length xs \<Longrightarrow> length (patch off ys xs) = length xs"
  by (simp add: patch_def)

lemma patch_Nil [simp, slice_simps]: "patch off [] xs = xs"
  by (simp add: patch_def)

lemma bslice_append: "bslice off (m + n) xs = bslice off m xs @ bslice (off + m) n xs"
  by (simp add: bslice_def take_add add.commute)

lemma nth_patch:
  "off + length ys \<le> length xs \<Longrightarrow> i < length xs \<Longrightarrow>
   patch off ys xs ! i = (if off \<le> i \<and> i < off + length ys then ys ! (i - off) else xs ! i)"
  by (auto simp: patch_def nth_append)

lemma bslice_patch_same [simp, slice_simps]:
  "off + length ys \<le> length xs \<Longrightarrow> n = length ys \<Longrightarrow> bslice off n (patch off ys xs) = ys"
  by (simp add: bslice_def patch_def)

lemma bslice_patch_before [slice_simps]:
  "a + n \<le> off \<Longrightarrow> off + length ys \<le> length xs \<Longrightarrow> bslice a n (patch off ys xs) = bslice a n xs"
  by (rule nth_equalityI) (auto simp: bslice_def nth_patch)

lemma bslice_patch_after [slice_simps]:
  "off + length ys \<le> a \<Longrightarrow> a + n \<le> length xs \<Longrightarrow> bslice a n (patch off ys xs) = bslice a n xs"
  by (rule nth_equalityI) (auto simp: bslice_def nth_patch)

text \<open>Two stores next to each other are one store.\<close>

lemma patch_patch_adjacent:
  assumes "off + length ys + length zs \<le> length xs"
  shows "patch (off + length ys) zs (patch off ys xs) = patch off (ys @ zs) xs"
  using assms by (simp add: patch_def ac_simps)

lemma bslice_replicate [slice_simps]:
  "off + n \<le> m \<Longrightarrow> bslice off n (replicate m x) = replicate n x"
  by (simp add: bslice_def)

text \<open>A buffer after the first bytes of it have been overwritten by \<open>bs\<close>.\<close>

definition overlay :: "'a list \<Rightarrow> 'a list \<Rightarrow> 'a list" where
  "overlay bs old = bs @ drop (length bs) old"

lemma length_overlay [simp]: "length bs \<le> length old \<Longrightarrow> length (overlay bs old) = length old"
  by (simp add: overlay_def)

lemma overlay_full [simp]: "length bs = length old \<Longrightarrow> overlay bs old = bs"
  by (simp add: overlay_def)

section \<open>Unsigned arithmetic without wrap-around\<close>

lemma unat_add_no_wrap:
  fixes a b :: u32
  shows "unat a + unat b < 2 ^ 32 \<Longrightarrow> unat (a + b) = unat a + unat b"
  by (simp add: unat_word_ariths)

lemma unat_sub_le: "b \<le> a \<Longrightarrow> unat (a - b) = unat a - unat (b :: u32)"
  by (simp add: unat_sub)

section \<open>Bits of words\<close>

lemma bit_u8_lt: "bit (w :: u8) n \<Longrightarrow> n < 8"
  using bit_imp_le_length [of w n] by simp

lemma bit_u32_lt: "bit (w :: u32) n \<Longrightarrow> n < 32"
  using bit_imp_le_length [of w n] by simp

lemma xor_right_cancel [simp]: "a XOR c = b XOR c \<longleftrightarrow> a = (b :: 'a :: len word)"
  by (metis xor.assoc xor.right_neutral xor_self_eq)

lemma xor_left_cancel [simp]: "c XOR a = c XOR b \<longleftrightarrow> a = (b :: 'a :: len word)"
  by (metis xor.commute xor_right_cancel)

lemma unat_ucast_u8_u32 [simp]: "unat (ucast (a :: u8) :: u32) = unat a"
proof -
  have "unat a < 2 ^ LENGTH(8)"
    by (rule unsigned_less)
  then show ?thesis
    by (simp add: unsigned_ucast_eq take_bit_nat_eq_self_iff)
qed

lemma ucast_u8_u32_inj [simp]: "(ucast a :: u32) = ucast (b :: u8) \<longleftrightarrow> a = b"
  by (metis unat_ucast_u8_u32 word_unat_eq_iff)

lemma unat_ucast_u8_u16 [simp]: "unat (ucast (a :: u8) :: u16) = unat a"
proof -
  have "unat a < 2 ^ LENGTH(8)"
    by (rule unsigned_less)
  then show ?thesis
    by (simp add: unsigned_ucast_eq take_bit_nat_eq_self_iff)
qed

lemma ucast_u8_u16_inj [simp]: "(ucast a :: u16) = ucast (b :: u8) \<longleftrightarrow> a = b"
  by (metis unat_ucast_u8_u16 word_unat_eq_iff)

section \<open>Searching loops\<close>

text \<open>A \<open>for\<close> loop over \<open>k\<close> indices from \<open>i\<close> on that stops at the first index with \<open>p\<close>.\<close>

fun find_loop :: "(nat \<Rightarrow> bool) \<Rightarrow> nat \<Rightarrow> nat \<Rightarrow> nat option" where
  "find_loop p i 0 = None"
| "find_loop p i (Suc k) = (if p i then Some i else find_loop p (Suc i) k)"

lemma find_loop_Some:
  "find_loop p i k = Some j \<longleftrightarrow> i \<le> j \<and> j < i + k \<and> p j \<and> (\<forall>l. i \<le> l \<and> l < j \<longrightarrow> \<not> p l)"
proof (induction p i k rule: find_loop.induct)
  case (2 p i k)
  then show ?case
    by (cases "p i") (force simp: Suc_le_eq dest: le_neq_implies_less)+
qed simp

lemma find_loop_None: "find_loop p i k = None \<longleftrightarrow> (\<forall>l. i \<le> l \<and> l < i + k \<longrightarrow> \<not> p l)"
proof (induction p i k rule: find_loop.induct)
  case (2 p i k)
  then show ?case
    by (force simp: Suc_le_eq dest: le_neq_implies_less)
qed auto

lemma find_loop_cong:
  "(\<And>j. i \<le> j \<Longrightarrow> j < i + k \<Longrightarrow> p j = q j) \<Longrightarrow> find_loop p i k = find_loop q i k"
  by (induction p i k arbitrary: q rule: find_loop.induct) auto

end
