(* ===== verification/Crc.thy ===== *)
theory Crc
  imports HG_Prelude
begin

text \<open>
  The checksums of the boot loader: the table-driven CRC-32 of \<^verbatim>\<open>boot/boot.c\<close> and
  \<^verbatim>\<open>ota/ota.c\<close> (the two files carry their own copy of the table and of the update
  function) and the bit-serial CRC-16 of \<^verbatim>\<open>ymodem/ymodem.c\<close>.  The lemmas show that the
  table-driven code is division by the reflected polynomial \<^verbatim>\<open>0xEDB88320\<close>, that a checksum
  may be accumulated over chunks, and that no change of a single byte goes unnoticed.
\<close>

section \<open>CRC-32 of the boot component\<close>

definition boot_crc32_table :: "u32 list" where
  "boot_crc32_table = [
    0x00000000, 0x77073096, 0xEE0E612C, 0x990951BA, 0x076DC419, 0x706AF48F, 0xE963A535, 0x9E6495A3,
    0x0EDB8832, 0x79DCB8A4, 0xE0D5E91E, 0x97D2D988, 0x09B64C2B, 0x7EB17CBD, 0xE7B82D07, 0x90BF1D91,
    0x1DB71064, 0x6AB020F2, 0xF3B97148, 0x84BE41DE, 0x1ADAD47D, 0x6DDDE4EB, 0xF4D4B551, 0x83D385C7,
    0x136C9856, 0x646BA8C0, 0xFD62F97A, 0x8A65C9EC, 0x14015C4F, 0x63066CD9, 0xFA0F3D63, 0x8D080DF5,
    0x3B6E20C8, 0x4C69105E, 0xD56041E4, 0xA2677172, 0x3C03E4D1, 0x4B04D447, 0xD20D85FD, 0xA50AB56B,
    0x35B5A8FA, 0x42B2986C, 0xDBBBC9D6, 0xACBCF940, 0x32D86CE3, 0x45DF5C75, 0xDCD60DCF, 0xABD13D59,
    0x26D930AC, 0x51DE003A, 0xC8D75180, 0xBFD06116, 0x21B4F4B5, 0x56B3C423, 0xCFBA9599, 0xB8BDA50F,
    0x2802B89E, 0x5F058808, 0xC60CD9B2, 0xB10BE924, 0x2F6F7C87, 0x58684C11, 0xC1611DAB, 0xB6662D3D,
    0x76DC4190, 0x01DB7106, 0x98D220BC, 0xEFD5102A, 0x71B18589, 0x06B6B51F, 0x9FBFE4A5, 0xE8B8D433,
    0x7807C9A2, 0x0F00F934, 0x9609A88E, 0xE10E9818, 0x7F6A0DBB, 0x086D3D2D, 0x91646C97, 0xE6635C01,
    0x6B6B51F4, 0x1C6C6162, 0x856530D8, 0xF262004E, 0x6C0695ED, 0x1B01A57B, 0x8208F4C1, 0xF50FC457,
    0x65B0D9C6, 0x12B7E950, 0x8BBEB8EA, 0xFCB9887C, 0x62DD1DDF, 0x15DA2D49, 0x8CD37CF3, 0xFBD44C65,
    0x4DB26158, 0x3AB551CE, 0xA3BC0074, 0xD4BB30E2, 0x4ADFA541, 0x3DD895D7, 0xA4D1C46D, 0xD3D6F4FB,
    0x4369E96A, 0x346ED9FC, 0xAD678846, 0xDA60B8D0, 0x44042D73, 0x33031DE5, 0xAA0A4C5F, 0xDD0D7CC9,
    0x5005713C, 0x270241AA, 0xBE0B1010, 0xC90C2086, 0x5768B525, 0x206F85B3, 0xB966D409, 0xCE61E49F,
    0x5EDEF90E, 0x29D9C998, 0xB0D09822, 0xC7D7A8B4, 0x59B33D17, 0x2EB40D81, 0xB7BD5C3B, 0xC0BA6CAD,
    0xEDB88320, 0x9ABFB3B6, 0x03B6E20C, 0x74B1D29A, 0xEAD54739, 0x9DD277AF, 0x04DB2615, 0x73DC1683,
    0xE3630B12, 0x94643B84, 0x0D6D6A3E, 0x7A6A5AA8, 0xE40ECF0B, 0x9309FF9D, 0x0A00AE27, 0x7D079EB1,
    0xF00F9344, 0x8708A3D2, 0x1E01F268, 0x6906C2FE, 0xF762575D, 0x806567CB, 0x196C3671, 0x6E6B06E7,
    0xFED41B76, 0x89D32BE0, 0x10DA7A5A, 0x67DD4ACC, 0xF9B9DF6F, 0x8EBEEFF9, 0x17B7BE43, 0x60B08ED5,
    0xD6D6A3E8, 0xA1D1937E, 0x38D8C2C4, 0x4FDFF252, 0xD1BB67F1, 0xA6BC5767, 0x3FB506DD, 0x48B2364B,
    0xD80D2BDA, 0xAF0A1B4C, 0x36034AF6, 0x41047A60, 0xDF60EFC3, 0xA867DF55, 0x316E8EEF, 0x4669BE79,
    0xCB61B38C, 0xBC66831A, 0x256FD2A0, 0x5268E236, 0xCC0C7795, 0xBB0B4703, 0x220216B9, 0x5505262F,
    0xC5BA3BBE, 0xB2BD0B28, 0x2BB45A92, 0x5CB36A04, 0xC2D7FFA7, 0xB5D0CF31, 0x2CD99E8B, 0x5BDEAE1D,
    0x9B64C2B0, 0xEC63F226, 0x756AA39C, 0x026D930A, 0x9C0906A9, 0xEB0E363F, 0x72076785, 0x05005713,
    0x95BF4A82, 0xE2B87A14, 0x7BB12BAE, 0x0CB61B38, 0x92D28E9B, 0xE5D5BE0D, 0x7CDCEFB7, 0x0BDBDF21,
    0x86D3D2D4, 0xF1D4E242, 0x68DDB3F8, 0x1FDA836E, 0x81BE16CD, 0xF6B9265B, 0x6FB077E1, 0x18B74777,
    0x88085AE6, 0xFF0F6A70, 0x66063BCA, 0x11010B5C, 0x8F659EFF, 0xF862AE69, 0x616BFFD3, 0x166CCF45,
    0xA00AE278, 0xD70DD2EE, 0x4E048354, 0x3903B3C2, 0xA7672661, 0xD06016F7, 0x4969474D, 0x3E6E77DB,
    0xAED16A4A, 0xD9D65ADC, 0x40DF0B66, 0x37D83BF0, 0xA9BCAE53, 0xDEBB9EC5, 0x47B2CF7F, 0x30B5FFE9,
    0xBDBDF21C, 0xCABAC28A, 0x53B39330, 0x24B4A3A6, 0xBAD03605, 0xCDD70693, 0x54DE5729, 0x23D967BF,
    0xB3667A2E, 0xC4614AB8, 0x5D681B02, 0x2A6F2B94, 0xB40BBE37, 0xC30C8EA1, 0x5A05DF1B, 0x2D02EF8D]"

text \<open>One iteration of the loop of \<^verbatim>\<open>boot_crc32_update\<close>; the list is the \<open>len\<close> bytes at \<open>data\<close>.\<close>

fun boot_crc32_update :: "u32 \<Rightarrow> u8 list \<Rightarrow> u32" where
  "boot_crc32_update crc [] = crc"
| "boot_crc32_update crc (d # data) =
     (let index = ucast ((crc XOR ucast d) AND 0xFF) :: u8
      in boot_crc32_update (drop_bit 8 crc XOR boot_crc32_table ! unat index) data)"

section \<open>CRC-32 of the OTA component\<close>

definition ota_crc32_table :: "u32 list" where
  "ota_crc32_table = [
    0x00000000, 0x77073096, 0xEE0E612C, 0x990951BA, 0x076DC419, 0x706AF48F, 0xE963A535, 0x9E6495A3,
    0x0EDB8832, 0x79DCB8A4, 0xE0D5E91E, 0x97D2D988, 0x09B64C2B, 0x7EB17CBD, 0xE7B82D07, 0x90BF1D91,
    0x1DB71064, 0x6AB020F2, 0xF3B97148, 0x84BE41DE, 0x1ADAD47D, 0x6DDDE4EB, 0xF4D4B551, 0x83D385C7,
    0x136C9856, 0x646BA8C0, 0xFD62F97A, 0x8A65C9EC, 0x14015C4F, 0x63066CD9, 0xFA0F3D63, 0x8D080DF5,
    0x3B6E20C8, 0x4C69105E, 0xD56041E4, 0xA2677172, 0x3C03E4D1, 0x4B04D447, 0xD20D85FD, 0xA50AB56B,
    0x35B5A8FA, 0x42B2986C, 0xDBBBC9D6, 0xACBCF940, 0x32D86CE3, 0x45DF5C75, 0xDCD60DCF, 0xABD13D59,
    0x26D930AC, 0x51DE003A, 0xC8D75180, 0xBFD06116, 0x21B4F4B5, 0x56B3C423, 0xCFBA9599, 0xB8BDA50F,
    0x2802B89E, 0x5F058808, 0xC60CD9B2, 0xB10BE924, 0x2F6F7C87, 0x58684C11, 0xC1611DAB, 0xB6662D3D,
    0x76DC4190, 0x01DB7106, 0x98D220BC, 0xEFD5102A, 0x71B18589, 0x06B6B51F, 0x9FBFE4A5, 0xE8B8D433,
    0x7807C9A2, 0x0F00F934, 0x9609A88E, 0xE10E9818, 0x7F6A0DBB, 0x086D3D2D, 0x91646C97, 0xE6635C01,
    0x6B6B51F4, 0x1C6C6162, 0x856530D8, 0xF262004E, 0x6C0695ED, 0x1B01A57B, 0x8208F4C1, 0xF50FC457,
    0x65B0D9C6, 0x12B7E950, 0x8BBEB8EA, 0xFCB9887C, 0x62DD1DDF, 0x15DA2D49, 0x8CD37CF3, 0xFBD44C65,
    0x4DB26158, 0x3AB551CE, 0xA3BC0074, 0xD4BB30E2, 0x4ADFA541, 0x3DD895D7, 0xA4D1C46D, 0xD3D6F4FB,
    0x4369E96A, 0x346ED9FC, 0xAD678846, 0xDA60B8D0, 0x44042D73, 0x33031DE5, 0xAA0A4C5F, 0xDD0D7CC9,
    0x5005713C, 0x270241AA, 0xBE0B1010, 0xC90C2086, 0x5768B525, 0x206F85B3, 0xB966D409, 0xCE61E49F,
    0x5EDEF90E, 0x29D9C998, 0xB0D09822, 0xC7D7A8B4, 0x59B33D17, 0x2EB40D81, 0xB7BD5C3B, 0xC0BA6CAD,
    0xEDB88320, 0x9ABFB3B6, 0x03B6E20C, 0x74B1D29A, 0xEAD54739, 0x9DD277AF, 0x04DB2615, 0x73DC1683,
    0xE3630B12, 0x94643B84, 0x0D6D6A3E, 0x7A6A5AA8, 0xE40ECF0B, 0x9309FF9D, 0x0A00AE27, 0x7D079EB1,
    0xF00F9344, 0x8708A3D2, 0x1E01F268, 0x6906C2FE, 0xF762575D, 0x806567CB, 0x196C3671, 0x6E6B06E7,
    0xFED41B76, 0x89D32BE0, 0x10DA7A5A, 0x67DD4ACC, 0xF9B9DF6F, 0x8EBEEFF9, 0x17B7BE43, 0x60B08ED5,
    0xD6D6A3E8, 0xA1D1937E, 0x38D8C2C4, 0x4FDFF252, 0xD1BB67F1, 0xA6BC5767, 0x3FB506DD, 0x48B2364B,
    0xD80D2BDA, 0xAF0A1B4C, 0x36034AF6, 0x41047A60, 0xDF60EFC3, 0xA867DF55, 0x316E8EEF, 0x4669BE79,
    0xCB61B38C, 0xBC66831A, 0x256FD2A0, 0x5268E236, 0xCC0C7795, 0xBB0B4703, 0x220216B9, 0x5505262F,
    0xC5BA3BBE, 0xB2BD0B28, 0x2BB45A92, 0x5CB36A04, 0xC2D7FFA7, 0xB5D0CF31, 0x2CD99E8B, 0x5BDEAE1D,
    0x9B64C2B0, 0xEC63F226, 0x756AA39C, 0x026D930A, 0x9C0906A9, 0xEB0E363F, 0x72076785, 0x05005713,
    0x95BF4A82, 0xE2B87A14, 0x7BB12BAE, 0x0CB61B38, 0x92D28E9B, 0xE5D5BE0D, 0x7CDCEFB7, 0x0BDBDF21,
    0x86D3D2D4, 0xF1D4E242, 0x68DDB3F8, 0x1FDA836E, 0x81BE16CD, 0xF6B9265B, 0x6FB077E1, 0x18B74777,
    0x88085AE6, 0xFF0F6A70, 0x66063BCA, 0x11010B5C, 0x8F659EFF, 0xF862AE69, 0x616BFFD3, 0x166CCF45,
    0xA00AE278, 0xD70DD2EE, 0x4E048354, 0x3903B3C2, 0xA7672661, 0xD06016F7, 0x4969474D, 0x3E6E77DB,
    0xAED16A4A, 0xD9D65ADC, 0x40DF0B66, 0x37D83BF0, 0xA9BCAE53, 0xDEBB9EC5, 0x47B2CF7F, 0x30B5FFE9,
    0xBDBDF21C, 0xCABAC28A, 0x53B39330, 0x24B4A3A6, 0xBAD03605, 0xCDD70693, 0x54DE5729, 0x23D967BF,
    0xB3667A2E, 0xC4614AB8, 0x5D681B02, 0x2A6F2B94, 0xB40BBE37, 0xC30C8EA1, 0x5A05DF1B, 0x2D02EF8D]"

fun ota_crc32_update :: "u32 \<Rightarrow> u8 list \<Rightarrow> u32" where
  "ota_crc32_update crc [] = crc"
| "ota_crc32_update crc (d # data) =
     (let index = ucast ((crc XOR ucast d) AND 0xFF) :: u8
      in ota_crc32_update (drop_bit 8 crc XOR ota_crc32_table ! unat index) data)"

section \<open>CRC-16 of the YMODEM component\<close>

text \<open>The inner loop over the eight bits of a byte.\<close>

fun crc16_bits :: "nat \<Rightarrow> u16 \<Rightarrow> u16" where
  "crc16_bits 0 crc = crc"
| "crc16_bits (Suc j) crc =
     crc16_bits j (if crc AND 0x8000 \<noteq> 0 then push_bit 1 crc XOR 0x1021 else push_bit 1 crc)"

fun crc16_loop :: "u16 \<Rightarrow> u8 list \<Rightarrow> u16" where
  "crc16_loop crc [] = crc"
| "crc16_loop crc (b # buf) = crc16_loop (crc16_bits 8 (crc XOR push_bit 8 (ucast b))) buf"

definition ymodem_crc16 :: "u8 list \<Rightarrow> u16" where
  "ymodem_crc16 buf = crc16_loop 0 buf"

section \<open>The polynomial the table stands for\<close>

text \<open>Division by the reflected CRC-32 polynomial, a bit and a byte at a time.\<close>

definition crc32_bit :: "u32 \<Rightarrow> u32" where
  "crc32_bit c = (if bit c 0 then drop_bit 1 c XOR 0xEDB88320 else drop_bit 1 c)"

definition crc32_byte :: "u32 \<Rightarrow> u8 \<Rightarrow> u32" where
  "crc32_byte c d = (crc32_bit ^^ 8) (c XOR ucast d)"

definition crc32_poly :: "u32 \<Rightarrow> u8 list \<Rightarrow> u32" where
  "crc32_poly = foldl crc32_byte"

definition crc32 :: "u8 list \<Rightarrow> u32" where
  "crc32 bs = crc32_poly 0xFFFFFFFF bs XOR 0xFFFFFFFF"

lemma crc32_bit_xor: "crc32_bit (a XOR b) = crc32_bit a XOR crc32_bit b"
  by (auto simp: crc32_bit_def bit_simps intro!: bit_word_eqI)

lemma crc32_bit_pow_xor: "(crc32_bit ^^ n) (a XOR b) = (crc32_bit ^^ n) a XOR (crc32_bit ^^ n) b"
  by (induction n) (simp_all add: crc32_bit_xor)

text \<open>While the low bits are zero, division is a plain shift.\<close>

lemma crc32_bit_pow_shift:
  "take_bit n c = 0 \<Longrightarrow> (crc32_bit ^^ n) c = drop_bit n c"
proof (induction n arbitrary: c)
  case (Suc n)
  have "\<not> bit (take_bit (Suc n) c) 0"
    by (simp only: Suc.prems bit_0_eq) simp
  then have b0: "\<not> bit c 0"
    by (simp add: bit_take_bit_iff)
  have "take_bit n (drop_bit 1 c) = 0"
    using Suc.prems by (simp add: take_bit_drop_bit)
  then have "(crc32_bit ^^ n) (drop_bit 1 c) = drop_bit n (drop_bit 1 c)"
    by (rule Suc.IH)
  moreover have "crc32_bit c = drop_bit 1 c"
    using b0 by (simp add: crc32_bit_def)
  ultimately show ?case
    by (simp add: funpow_Suc_right del: funpow.simps)
qed simp

fun xor_span :: "u32 list \<Rightarrow> u32 list" where
  "xor_span [] = [0]"
| "xor_span (b # bs) = (let s = xor_span bs in s @ map ((XOR) b) s)"

lemma boot_table_span: "boot_crc32_table =
  xor_span [0xEDB88320, 0x76DC4190, 0x3B6E20C8, 0x1DB71064, 0x0EDB8832, 0x076DC419, 0xEE0E612C, 0x77073096]"
  by (simp add: boot_crc32_table_def Let_def)

lemma xor_span_nth:
  fixes L :: "u32 \<Rightarrow> u32"
  assumes "\<And>a b. L (a XOR b) = L a XOR L b"
  shows "i < 2 ^ n \<Longrightarrow> n \<le> 32 \<Longrightarrow>
    length (xor_span (map (\<lambda>k. L (2 ^ k)) (rev [0..<n]))) = 2 ^ n \<and>
    xor_span (map (\<lambda>k. L (2 ^ k)) (rev [0..<n])) ! i = L (word_of_nat i)"
proof (induction n arbitrary: i)
  case 0
  have "L 0 = 0"
    using assms [of 0 0] by simp
  with 0 show ?case by simp
next
  case (Suc n)
  let ?s = "xor_span (map (\<lambda>k. L (2 ^ k)) (rev [0..<n]))"
  have len: "length ?s = 2 ^ n"
    using Suc.IH [of 0] Suc.prems by simp
  show ?case
  proof (cases "i < 2 ^ n")
    case True
    with Suc len show ?thesis by (simp add: nth_append Let_def)
  next
    case False
    define j where "j = i - 2 ^ n"
    from False Suc.prems have j: "j < 2 ^ n" "i = 2 ^ n + j"
      by (auto simp: j_def)
    have "(2 ^ n :: u32) AND word_of_nat j = 0"
      using j(1) Suc.prems(2)
      using j(1)
      by (auto intro!: bit_word_eqI simp: bit_and_iff bit_exp_iff bit_of_nat_iff bit_iff_odd [of j])
    then have "(word_of_nat i :: u32) = 2 ^ n XOR word_of_nat j"
      by (simp add: j(2) disjunctive_add_eq_xor)
    then have "L (word_of_nat i) = L (2 ^ n) XOR L (word_of_nat j)"
      by (simp only: assms)
    moreover have "xor_span (map (\<lambda>k. L (2 ^ k)) (rev [0..<Suc n])) ! i = L (2 ^ n) XOR ?s ! j"
      using len j by (simp add: nth_append Let_def)
    ultimately show ?thesis
      using Suc.IH [OF j(1)] Suc.prems(2) len by (simp add: Let_def)
  qed
qed

lemma crc32_bit_8: "(crc32_bit ^^ 8) c =
  crc32_bit (crc32_bit (crc32_bit (crc32_bit (crc32_bit (crc32_bit (crc32_bit (crc32_bit c)))))))"
  by (simp add: numeral_eq_Suc)

lemma table_basis: "map (\<lambda>k. (crc32_bit ^^ 8) (2 ^ k)) (rev [0..<8]) =
   [0xEDB88320, 0x76DC4190, 0x3B6E20C8, 0x1DB71064, 0x0EDB8832, 0x076DC419, 0xEE0E612C, 0x77073096]"
proof -
  have "rev [0..<8::nat] = [7, 6, 5, 4, 3, 2, 1, 0]"
    by code_simp
  then show ?thesis
    by (simp add: crc32_bit_8) (simp add: crc32_bit_def)
qed

lemma boot_table_entry: "boot_crc32_table ! unat (i :: u8) = (crc32_bit ^^ 8) (ucast i)"
proof -
  have "unat i < 2 ^ 8"
    using unsigned_less [of i] by simp
  from xor_span_nth [of "crc32_bit ^^ 8", OF crc32_bit_pow_xor this] show ?thesis
    by (simp only: boot_table_span table_basis) (simp add: unsigned_ucast_eq)
qed

text \<open>One step of the table-driven loop is eight steps of polynomial division.\<close>

lemma boot_crc32_step:
  "drop_bit 8 crc XOR boot_crc32_table ! unat (ucast ((crc XOR ucast d) AND 0xFF) :: u8) = crc32_byte crc d"
proof -
  define x where "x = crc XOR ucast d"
  define lo :: u8 where "lo = ucast (x AND 0xFF)"
  have ff: "(0xFF :: u32) = mask 8"
    by (simp add: mask_eq_exp_minus_1)
  have hi: "drop_bit 8 x = drop_bit 8 crc"
    by (rule bit_word_eqI) (auto simp: x_def bit_simps dest: bit_u8_lt)
  have split: "x = push_bit 8 (drop_bit 8 x) XOR ucast lo"
    unfolding lo_def ff by (rule bit_word_eqI) (auto simp: bit_simps)
  have "take_bit 8 (push_bit 8 (drop_bit 8 x)) = 0"
    by (rule bit_word_eqI) (auto simp: bit_simps)
  then have "(crc32_bit ^^ 8) (push_bit 8 (drop_bit 8 x)) = drop_bit 8 (push_bit 8 (drop_bit 8 x))"
    by (rule crc32_bit_pow_shift)
  also have "\<dots> = drop_bit 8 x"
  proof (rule bit_word_eqI)
    fix n
    show "bit (drop_bit 8 (push_bit 8 (drop_bit 8 x))) n \<longleftrightarrow> bit (drop_bit 8 x) n"
      using bit_u32_lt [of x "8 + n"] by (auto simp: bit_simps)
  qed
  finally have "(crc32_bit ^^ 8) x = drop_bit 8 x XOR (crc32_bit ^^ 8) (ucast lo)"
    by (subst split) (simp only: crc32_bit_pow_xor)
  then show ?thesis
    by (simp only: crc32_byte_def boot_table_entry lo_def [symmetric] x_def [symmetric] hi)
qed

lemma boot_crc32_update_poly: "boot_crc32_update crc data = crc32_poly crc data"
  by (induction crc data rule: boot_crc32_update.induct)
    (simp_all add: crc32_poly_def boot_crc32_step [simplified])

lemma ota_table_eq: "ota_crc32_table = boot_crc32_table"
  by (simp only: ota_crc32_table_def boot_crc32_table_def)

lemma ota_crc32_update_boot: "ota_crc32_update crc data = boot_crc32_update crc data"
  by (induction crc data rule: ota_crc32_update.induct) (simp_all add: ota_table_eq)

lemma crc32_poly_append: "crc32_poly crc (xs @ ys) = crc32_poly (crc32_poly crc xs) ys"
  by (simp add: crc32_poly_def)

section \<open>Every change of one byte is noticed\<close>

lemma crc32_bit_inj: "crc32_bit a = crc32_bit b \<Longrightarrow> a = b"
proof -
  assume eq: "crc32_bit a = crc32_bit b"
  have top: "bit (crc32_bit c) 31 = bit c 0" for c
    by (auto simp: crc32_bit_def bit_simps dest: bit_imp_le_length)
  have b0: "bit a 0 = bit b 0"
    using eq top by metis
  with eq have "drop_bit 1 a = drop_bit 1 b"
    by (auto simp: crc32_bit_def split: if_splits)
  then have "bit a (Suc n) = bit b (Suc n)" for n
    by (metis bit_drop_bit_eq o_apply plus_1_eq_Suc)
  with b0 show "a = b"
    by (auto intro!: bit_word_eqI) (metis not0_implies_Suc)+
qed

lemma crc32_bit_pow_inj: "(crc32_bit ^^ n) a = (crc32_bit ^^ n) b \<Longrightarrow> a = b"
  by (induction n) (auto dest: crc32_bit_inj)

lemma crc32_byte_inj: "crc32_byte c d = crc32_byte c' d \<longleftrightarrow> c = c'"
  by (auto simp: crc32_byte_def dest!: crc32_bit_pow_inj)

lemma crc32_byte_inj_data: "crc32_byte c d = crc32_byte c d' \<longleftrightarrow> d = d'"
proof
  assume "crc32_byte c d = crc32_byte c d'"
  then show "d = d'"
    by (auto simp: crc32_byte_def dest!: crc32_bit_pow_inj)
qed simp

lemma crc32_poly_inj: "crc32_poly c xs = crc32_poly c' xs \<longleftrightarrow> c = c'"
  by (induction xs arbitrary: c c') (simp_all add: crc32_poly_def crc32_byte_inj)

lemma crc32_poly_byte_change:
  "x \<noteq> y \<Longrightarrow> crc32_poly c (xs @ x # ys) \<noteq> crc32_poly c (xs @ y # ys)"
proof -
  assume "x \<noteq> y"
  then have "crc32_byte (crc32_poly c xs) x \<noteq> crc32_byte (crc32_poly c xs) y"
    by (simp add: crc32_byte_inj_data)
  then show ?thesis
    using crc32_poly_inj by (simp add: crc32_poly_def)
qed

text \<open>The same for the CRC-16: its polynomial has bit 0 set, so the top bit can be recovered.\<close>

definition crc16_bit :: "u16 \<Rightarrow> u16" where
  "crc16_bit c = (if c AND 0x8000 \<noteq> 0 then push_bit 1 c XOR 0x1021 else push_bit 1 c)"

lemma crc16_bits_pow: "crc16_bits n c = (crc16_bit ^^ n) c"
  by (induction n arbitrary: c) (simp_all add: crc16_bit_def funpow_swap1)

lemma crc16_top_bit: "(c :: u16) AND 0x8000 \<noteq> 0 \<longleftrightarrow> bit c 15"
proof -
  have "(0x8000 :: u16) = push_bit 15 1"
    by simp
  then show ?thesis
    by (simp add: bit_iff_and_push_bit_not_eq_0)
qed

lemma crc16_bit_inj: "crc16_bit a = crc16_bit b \<Longrightarrow> a = b"
proof -
  assume eq: "crc16_bit a = crc16_bit b"
  have low: "bit (crc16_bit c) 0 = bit c 15" for c
    unfolding crc16_bit_def crc16_top_bit by (auto simp: bit_0 even_xor_iff)
  have b15: "bit a 15 = bit b 15"
    using eq low by metis
  with eq have sh: "push_bit 1 a = push_bit 1 b"
    by (auto simp: crc16_bit_def crc16_top_bit split: if_splits)
  show "a = b"
  proof (rule bit_word_eqI)
    fix n :: nat assume "n < LENGTH(16)"
    then consider "n = 15" | "n < 15" by force
    then show "bit a n = bit b n"
    proof cases
      case 2
      then have "bit (push_bit 1 c) (Suc n) = bit c n" for c :: u16
        by (subst bit_push_bit_iff) simp
      with sh show ?thesis by metis
    qed (use b15 in simp)
  qed
qed

lemma crc16_bits_inj: "crc16_bits n a = crc16_bits n b \<longleftrightarrow> a = b"
  by (induction n) (auto simp: crc16_bits_pow dest: crc16_bit_inj)

lemma push_bit_8_u16_inj: "push_bit 8 (ucast x :: u16) = push_bit 8 (ucast y) \<longleftrightarrow> x = (y :: u8)"
proof
  assume eq: "push_bit 8 (ucast x :: u16) = push_bit 8 (ucast y)"
  show "x = y"
  proof (rule bit_word_eqI)
    fix n :: nat assume "n < LENGTH(8)"
    then have "bit (push_bit 8 (ucast c :: u16)) (8 + n) = bit c n" for c :: u8
      by (subst bit_push_bit_iff) (simp add: bit_ucast_iff)
    with eq show "bit x n = bit y n" by metis
  qed
qed simp

lemma crc16_loop_append: "crc16_loop crc (xs @ ys) = crc16_loop (crc16_loop crc xs) ys"
  by (induction crc xs rule: crc16_loop.induct) simp_all

lemma crc16_loop_inj: "crc16_loop a xs = crc16_loop b xs \<longleftrightarrow> a = b"
  by (induction xs arbitrary: a b) (simp_all add: crc16_bits_inj del: crc16_bits.simps)

lemma crc16_byte_change:
  "x \<noteq> y \<Longrightarrow> crc16_loop c (xs @ x # ys) \<noteq> crc16_loop c (xs @ y # ys)"
  by (simp add: crc16_loop_append crc16_loop_inj crc16_bits_inj push_bit_8_u16_inj
      del: crc16_bits.simps)

section \<open>Bursts\<close>

text \<open>A short byte string as one word, in the order the division sees it.\<close>

fun burst_word :: "u8 list \<Rightarrow> u32" where
  "burst_word [] = 0"
| "burst_word (d # u) = ucast d XOR push_bit 8 (burst_word u)"

lemma burst_word_bound: "bit (burst_word u) n \<Longrightarrow> n < 8 * length u"
proof (induction u arbitrary: n)
  case (Cons d u)
  then have "bit (ucast d :: u32) n \<or> 8 \<le> n \<and> bit (burst_word u) (n - 8)"
    by (auto simp: bit_simps)
  then show ?case
  proof
    assume "bit (ucast d :: u32) n"
    then show ?thesis using bit_u8_lt [of d n] by (auto simp: bit_simps)
  next
    assume "8 \<le> n \<and> bit (burst_word u) (n - 8)"
    with Cons.IH [of "n - 8"] show ?thesis by simp
  qed
qed simp

lemma burst_word_low: "ucast (burst_word (d # u)) = d"
  by (rule bit_word_eqI) (auto simp: bit_simps)

lemma burst_word_shift: "length u < 4 \<Longrightarrow> drop_bit 8 (push_bit 8 (burst_word u)) = burst_word u"
  by (rule bit_word_eqI) (use burst_word_bound [of u] in \<open>force simp: bit_simps\<close>)

lemma burst_word_high: "length u < 4 \<Longrightarrow> drop_bit 8 (burst_word (d # u)) = burst_word u"
proof -
  assume "length u < 4"
  moreover have "drop_bit 8 (ucast d :: u32) = 0"
    by (rule bit_word_eqI) (use bit_u8_lt [of d] in \<open>force simp: bit_simps\<close>)
  ultimately show ?thesis
    by (simp add: drop_bit_xor burst_word_shift)
qed

lemma burst_word_inj:
  "length u = length v \<Longrightarrow> length u \<le> 4 \<Longrightarrow> burst_word u = burst_word v \<longleftrightarrow> u = v"
proof (induction u v rule: list_induct2)
  case (Cons x xs y ys)
  then have "xs = ys" if "burst_word (x # xs) = burst_word (y # ys)"
    using burst_word_high [of xs x] burst_word_high [of ys y] that by (simp del: burst_word.simps)
  moreover have "x = y" if "burst_word (x # xs) = burst_word (y # ys)"
    using burst_word_low [of x xs] burst_word_low [of y ys] that by metis
  ultimately show ?case by auto
qed simp

lemma crc32_poly_burst:
  "length u \<le> 4 \<Longrightarrow> crc32_poly c u = (crc32_bit ^^ (8 * length u)) (c XOR burst_word u)"
proof (induction u arbitrary: c)
  case (Cons d u)
  have low: "take_bit 8 (push_bit 8 (burst_word u)) = 0"
    by (rule bit_word_eqI) (auto simp: bit_simps)
  have "(crc32_bit ^^ 8) (c XOR ucast d) XOR burst_word u =
      (crc32_bit ^^ 8) (c XOR burst_word (d # u))"
    using crc32_bit_pow_shift [OF low] burst_word_shift [of u] Cons.prems
    by (simp add: crc32_bit_pow_xor xor.assoc)
  with Cons show ?case
    by (simp add: crc32_poly_def crc32_byte_def funpow_add mult.commute add.commute [of 8])
qed (simp add: crc32_poly_def)

section \<open>Correctness\<close>

text \<open>C32: The table-driven loops of the boot loader and of the OTA component both compute the
  division by the reversed CRC-32 polynomial, one bit at a time, for every start value and
  every input.\<close>

theorem crc32_table_is_polynomial:
  "boot_crc32_update crc data = crc32_poly crc data \<and> ota_crc32_update crc data = crc32_poly crc data"
  by (simp add: ota_crc32_update_boot boot_crc32_update_poly)

text \<open>The CRC-32 of the boot loader notices every change that is confined to four
  consecutive bytes, wherever they lie in the image.\<close>

theorem boot_crc32_detects_bursts:
  assumes "length u = length v" and "length u \<le> 4"
  shows "boot_crc32_update c (xs @ u @ ys) = boot_crc32_update c (xs @ v @ ys) \<longleftrightarrow> u = v"
proof -
  have "(crc32_bit ^^ n) a = (crc32_bit ^^ n) b \<longleftrightarrow> a = b" for n a b
    by (auto dest: crc32_bit_pow_inj)
  then show ?thesis
    using assms burst_word_inj [OF assms]
    by (simp add: boot_crc32_update_poly crc32_poly_append crc32_poly_inj crc32_poly_burst)
qed

theorem boot_crc32_detects_bursts_witness:
  "boot_crc32_update 0xFFFFFFFF ([0xEA] @ [1, 2, 3] @ [9]) \<noteq> boot_crc32_update 0xFFFFFFFF ([0xEA] @ [1, 2, 0x83] @ [9])"
  using boot_crc32_detects_bursts [of "[1, 2, 3]" "[1, 2, 0x83]" "0xFFFFFFFF" "[0xEA]" "[9]"] by simp

text \<open>The CRC-16 of a YMODEM packet notices every change of one of its bytes.\<close>

theorem ymodem_crc16_detects_byte_change:
  "ymodem_crc16 (xs @ x # ys) = ymodem_crc16 (xs @ y # ys) \<longleftrightarrow> x = y"
  unfolding ymodem_crc16_def using crc16_byte_change by blast

end
