(* ===== verification/Partition.thy ===== *)
theory Partition
  imports HG_Prelude
begin

text \<open>
  The partition manager of \<^verbatim>\<open>hgboot/partition/partition.c\<close>: the table of storage devices, the
  table of partitions, and the operations that register, unregister and access them.  A pointer
  into the device table is its address (\<open>dev_base\<close> plus 28 bytes per entry); the driver behind
  a device is reached through the address of its operation structure, which the environment
  \<open>E\<close> maps to the driver's functions.  The logging macros are not modelled: they only print.
\<close>

section \<open>Constants and return codes\<close>

definition PARTITION_DEV_NAME_MAX :: nat where "PARTITION_DEV_NAME_MAX = 16"
definition PARTITION_NAME_MAX :: nat where "PARTITION_NAME_MAX = 16"
definition PARTITION_DEV_MAX :: nat where "PARTITION_DEV_MAX = 5"
definition PARTITION_MAX :: nat where "PARTITION_MAX = 20"

lemmas partition_limits = PARTITION_DEV_NAME_MAX_def PARTITION_NAME_MAX_def PARTITION_DEV_MAX_def
  PARTITION_MAX_def

datatype partition_errcode = PARTITION_OK | PARTITION_ERR_PARAM | PARTITION_ERR_SIZE
  | PARTITION_ERR_FULL | PARTITION_ERR_EXIST | PARTITION_ERR_NOEXIST | PARTITION_ERR_UNKNOWN

fun part_code :: "partition_errcode \<Rightarrow> int" where
  "part_code PARTITION_OK = 0"
| "part_code PARTITION_ERR_PARAM = -1"
| "part_code PARTITION_ERR_SIZE = -2"
| "part_code PARTITION_ERR_FULL = -3"
| "part_code PARTITION_ERR_EXIST = -4"
| "part_code PARTITION_ERR_NOEXIST = -5"
| "part_code PARTITION_ERR_UNKNOWN = -6"

section \<open>Device drivers and tables\<close>

text \<open>
  A driver's functions over the state \<open>'d\<close> of its device; a NULL function pointer is
  \<^term>\<open>None\<close>.  A read returns its code and the bytes it has stored from the start of the
  buffer on.  A call that does not return is \<^term>\<open>None\<close>.
\<close>

record 'd dev_ops =
  op_init :: "('d \<Rightarrow> (int \<times> 'd) option) option"
  op_read :: "(u32 \<Rightarrow> u32 \<Rightarrow> 'd \<Rightarrow> (int \<times> u8 list \<times> 'd) option) option"
  op_write :: "(u32 \<Rightarrow> u8 list \<Rightarrow> u32 \<Rightarrow> 'd \<Rightarrow> (int \<times> 'd) option) option"
  op_erase :: "(u32 \<Rightarrow> u32 \<Rightarrow> 'd \<Rightarrow> (int \<times> 'd) option) option"

record part_device =
  pd_name :: "u8 list"
  pd_size :: u32
  pd_ops :: u32
  pd_id :: u32

record part_entry =
  pt_name :: "u8 list"
  pt_start :: u32
  pt_size :: u32
  pt_dev :: u32
  pt_id :: u32

record part_tables =
  dev_table :: "part_device list"
  part_table :: "part_entry list"
  dev_num :: u32
  part_num :: u32
  dev_base :: u32

text \<open>The tables as they are in the BSS section at start-up.\<close>

definition part_tables_init :: "u32 \<Rightarrow> part_tables" where
  "part_tables_init base =
     \<lparr>dev_table = replicate 5 \<lparr>pd_name = replicate 16 0, pd_size = 0, pd_ops = 0, pd_id = 0\<rparr>,
      part_table = replicate 20 \<lparr>pt_name = replicate 16 0, pt_start = 0, pt_size = 0, pt_dev = 0, pt_id = 0\<rparr>,
      dev_num = 0, part_num = 0, dev_base = base\<rparr>"

text \<open>The bytes of the structures (28 and 32 of them).\<close>

definition dev_bytes :: "part_device \<Rightarrow> u8 list" where
  "dev_bytes d = pd_name d @ le32 (pd_size d) @ le32 (pd_ops d) @ le32 (pd_id d)"

definition part_bytes :: "part_entry \<Rightarrow> u8 list" where
  "part_bytes p = pt_name p @ le32 (pt_start p) @ le32 (pt_size p) @ le32 (pt_dev p) @ le32 (pt_id p)"

definition part_of_bytes :: "u8 list \<Rightarrow> part_entry" where
  "part_of_bytes bs = \<lparr>pt_name = bslice 0 16 bs, pt_start = de32 (bslice 16 4 bs),
     pt_size = de32 (bslice 20 4 bs), pt_dev = de32 (bslice 24 4 bs), pt_id = de32 (bslice 28 4 bs)\<rparr>"

text \<open>The memory that a pointer to entry \<open>i\<close> (so to its name) points to.\<close>

definition dev_mem :: "part_tables \<Rightarrow> nat \<Rightarrow> u8 list" where
  "dev_mem T i = concat (map dev_bytes (drop i (dev_table T)))"

definition part_mem :: "part_tables \<Rightarrow> nat \<Rightarrow> u8 list" where
  "part_mem T i = concat (map part_bytes (drop i (part_table T)))"

section \<open>String and memory helpers\<close>

text \<open>
  The first byte at a pointer.  A C string is given by its bytes up to the NUL, which may be
  left out: the bytes behind the end of the list read as NUL.
\<close>

definition byte_at :: "u8 list \<Rightarrow> u8" where
  "byte_at s = (case s of [] \<Rightarrow> 0 | c # _ \<Rightarrow> c)"

fun partition_strlen :: "u8 list \<Rightarrow> u32" where
  "partition_strlen [] = 0"
| "partition_strlen (c # s) = (if c = 0 then 0 else 1 + partition_strlen s)"

text \<open>
  On a NUL the code leaves \<open>d\<close> where it is and stores \<open>n - 1\<close> further NULs from there,
  so the last of the \<open>n\<close> bytes keeps its old value.
\<close>

fun partition_strncpy :: "u8 list \<Rightarrow> u8 list \<Rightarrow> nat \<Rightarrow> u8 list" where
  "partition_strncpy dst src 0 = dst"
| "partition_strncpy [] src (Suc n) = []"
| "partition_strncpy (d # ds) src (Suc n) =
     (if byte_at src = 0 then patch 0 (replicate n 0) (0 # ds)
      else byte_at src # partition_strncpy ds (tl src) n)"

fun partition_strncmp :: "u8 list \<Rightarrow> u8 list \<Rightarrow> nat \<Rightarrow> int" where
  "partition_strncmp cs ct 0 = 0"
| "partition_strncmp cs ct (Suc n) =
     (let res = sint (byte_at cs - byte_at ct)
      in if res \<noteq> 0 \<or> byte_at cs = 0 then res else partition_strncmp (tl cs) (tl ct) n)"

text \<open>The two loops of \<open>partition_memmove\<close>; the positions index one memory array.\<close>

fun move_down :: "nat \<Rightarrow> nat \<Rightarrow> nat \<Rightarrow> 'a list \<Rightarrow> 'a list" where
  "move_down tmp s 0 m = m"
| "move_down tmp s (Suc n) m = move_down tmp s n (m[tmp + n := m ! (s + n)])"

fun move_up :: "nat \<Rightarrow> nat \<Rightarrow> nat \<Rightarrow> 'a list \<Rightarrow> 'a list" where
  "move_up tmp s 0 m = m"
| "move_up tmp s (Suc n) m = move_up (Suc tmp) (Suc s) n (m[tmp := m ! s])"

definition partition_memmove :: "nat \<Rightarrow> nat \<Rightarrow> nat \<Rightarrow> 'a list \<Rightarrow> 'a list" where
  "partition_memmove dest src n m =
     (if src < dest \<and> dest < src + n then move_down dest src n m else move_up dest src n m)"

section \<open>Lookup\<close>

definition partition_device_find :: "part_tables \<Rightarrow> u8 list \<Rightarrow> nat option" where
  "partition_device_find T dev_name =
     find_loop (\<lambda>i. 0 = partition_strncmp dev_name (dev_mem T i) (unat (partition_strlen dev_name)))
       0 (unat (dev_num T))"

definition partition_find :: "part_tables \<Rightarrow> u8 list \<Rightarrow> nat option" where
  "partition_find T name =
     find_loop (\<lambda>i. 0 = partition_strncmp name (part_mem T i) (unat (partition_strlen name)))
       0 (unat (part_num T))"

text \<open>The address of a device entry, and the entry an address points to (a fault if none).\<close>

definition dev_addr :: "part_tables \<Rightarrow> nat \<Rightarrow> u32" where
  "dev_addr T i = dev_base T + 28 * word_of_nat i"

definition dev_deref :: "part_tables \<Rightarrow> u32 \<Rightarrow> part_device option" where
  "dev_deref T a =
     (let off = unat (a - dev_base T)
      in if off mod 28 = 0 \<and> off div 28 < length (dev_table T) then Some (dev_table T ! (off div 28))
         else None)"

section \<open>Registration\<close>

definition partition_device_register ::
  "u8 list option \<Rightarrow> u32 \<Rightarrow> u32 \<Rightarrow> part_tables \<Rightarrow> partition_errcode \<times> part_tables" where
  "partition_device_register dev_name ops sz T =
     (case dev_name of
        None \<Rightarrow> (PARTITION_ERR_PARAM, T)
      | Some nm \<Rightarrow>
          if ops = 0 then (PARTITION_ERR_PARAM, T)
          else if unat (dev_num T) \<ge> PARTITION_DEV_MAX then (PARTITION_ERR_FULL, T)
          else if partition_device_find T nm \<noteq> None then (PARTITION_ERR_EXIST, T)
          else
            let i = unat (dev_num T);
                d = dev_table T ! i;
                n = (if unat (partition_strlen nm) \<ge> PARTITION_DEV_NAME_MAX then PARTITION_DEV_NAME_MAX
                     else unat (partition_strlen nm));
                d' = d\<lparr>pd_name := partition_strncpy (pd_name d) nm n, pd_size := sz, pd_ops := ops,
                       pd_id := dev_num T\<rparr>
            in (PARTITION_OK, T\<lparr>dev_table := (dev_table T)[i := d'], dev_num := dev_num T + 1\<rparr>))"

definition partition_register ::
  "u8 list option \<Rightarrow> u8 list option \<Rightarrow> u32 \<Rightarrow> u32 \<Rightarrow> part_tables \<Rightarrow> partition_errcode \<times> part_tables" where
  "partition_register partition_name dev_name start sz T =
     (case (partition_name, dev_name) of
        (Some nm, Some dn) \<Rightarrow>
          if unat (part_num T) \<ge> PARTITION_MAX then (PARTITION_ERR_FULL, T)
          else (case partition_device_find T dn of
            None \<Rightarrow> (PARTITION_ERR_NOEXIST, T)
          | Some k \<Rightarrow>
              if partition_find T nm \<noteq> None then (PARTITION_ERR_EXIST, T)
              else if start + sz > pd_size (dev_table T ! k) then (PARTITION_ERR_SIZE, T)
              else
                let i = unat (part_num T);
                    p = part_table T ! i;
                    n = (if unat (partition_strlen nm) \<ge> PARTITION_NAME_MAX then PARTITION_NAME_MAX
                         else unat (partition_strlen nm));
                    p' = p\<lparr>pt_name := patch 0 (take n nm) (pt_name p), pt_dev := dev_addr T k,
                           pt_start := start, pt_size := sz, pt_id := part_num T\<rparr>
                in (PARTITION_OK, T\<lparr>part_table := (part_table T)[i := p'], part_num := part_num T + 1\<rparr>))
      | _ \<Rightarrow> (PARTITION_ERR_PARAM, T))"

text \<open>
  Unregistering moves the entries behind the removed one.  A move that leaves the table (its
  length \<open>partition_num - part->id\<close> is unsigned) is a fault.
\<close>

definition partition_unregister ::
  "u8 list option \<Rightarrow> part_tables \<Rightarrow> (partition_errcode \<times> part_tables) option" where
  "partition_unregister partition_name T =
     (case partition_name of
        None \<Rightarrow> Some (PARTITION_ERR_PARAM, T)
      | Some nm \<Rightarrow>
          (case partition_find T nm of
             None \<Rightarrow> Some (PARTITION_ERR_NOEXIST, T)
           | Some i \<Rightarrow>
               let pid = pt_id (part_table T ! i);
                   num = part_num T - 1;
                   n = unat (num - pid)
               in do {
                    tab \<leftarrow> (if pid = num then Some (part_table T)
                            else if unat pid + 1 + n \<le> length (part_table T)
                            then Some (partition_memmove (unat pid) (unat pid + 1) n (part_table T))
                            else None);
                    let last = tab ! unat num;
                    Some (PARTITION_OK,
                          T\<lparr>part_table := tab[unat num := last\<lparr>pt_name := replicate 16 0\<rparr>],
                            part_num := num\<rparr>)
                  }))"

text \<open>
  The loop of \<open>partition_device_unregister\<close>: it runs over the first \<open>partition_dev_num\<close> entries
  of the \<^emph>\<open>partition\<close> table.
\<close>

fun unregister_loop :: "u32 \<Rightarrow> nat \<Rightarrow> nat \<Rightarrow> part_tables \<Rightarrow> part_tables option" where
  "unregister_loop dev i 0 T = Some T"
| "unregister_loop dev i (Suc k) T =
     (if pt_dev (part_table T ! i) = dev
      then do {
        (r, T') \<leftarrow> partition_unregister (Some (part_mem T i)) T;
        unregister_loop dev (Suc i) k T'
      }
      else unregister_loop dev (Suc i) k T)"

text \<open>
  The move that closes the gap copies device entries, as bytes, into the partition table: that
  is what the code does (its first argument is \<open>&partition_table[dev->id]\<close>).
\<close>

definition move_dev_bytes :: "nat \<Rightarrow> nat \<Rightarrow> part_tables \<Rightarrow> part_tables option" where
  "move_dev_bytes k n T =
     (if 32 * k + 28 * n \<le> 32 * length (part_table T) \<and> k + 1 + n \<le> length (dev_table T)
      then let mem = patch (32 * k) (take (28 * n) (dev_mem T (k + 1))) (part_mem T 0)
           in Some (T\<lparr>part_table :=
                map (\<lambda>i. part_of_bytes (bslice (32 * i) 32 mem)) [0..<length (part_table T)]\<rparr>)
      else None)"

definition partition_device_unregister ::
  "u8 list option \<Rightarrow> part_tables \<Rightarrow> (partition_errcode \<times> part_tables) option" where
  "partition_device_unregister dev_name T =
     (case dev_name of
        None \<Rightarrow> Some (PARTITION_ERR_PARAM, T)
      | Some nm \<Rightarrow>
          (case partition_device_find T nm of
             None \<Rightarrow> Some (PARTITION_ERR_NOEXIST, T)
           | Some k \<Rightarrow> do {
               T1 \<leftarrow> unregister_loop (dev_addr T k) 0 (unat (dev_num T)) T;
               let num = dev_num T1 - 1;
               let did = pd_id (dev_table T1 ! k);
               T2 \<leftarrow> (if did = num then Some T1 else move_dev_bytes (unat did) (unat (num - did)) T1);
               Some (PARTITION_OK,
                     T2\<lparr>dev_table := (dev_table T2)[unat num := (dev_table T2 ! unat num)\<lparr>pd_name := replicate 16 0\<rparr>],
                       dev_num := num\<rparr>)
             }))"

section \<open>Access\<close>

text \<open>
  The environment \<open>E\<close> maps the address of an operation structure to the driver's functions.
  \<open>buf_null\<close> tells whether the caller's buffer pointer is NULL.
\<close>

type_synonym 'd ops_env = "u32 \<Rightarrow> 'd dev_ops option"

definition partition_device_init ::
  "'d ops_env \<Rightarrow> part_tables \<Rightarrow> u8 list option \<Rightarrow> 'd \<Rightarrow> (int \<times> 'd) option" where
  "partition_device_init E T dev_name s =
     (case dev_name of
        None \<Rightarrow> Some (part_code PARTITION_ERR_PARAM, s)
      | Some nm \<Rightarrow>
          (case partition_device_find T nm of
             None \<Rightarrow> Some (part_code PARTITION_ERR_NOEXIST, s)
           | Some k \<Rightarrow> do {
               ops \<leftarrow> E (pd_ops (dev_table T ! k));
               (case op_init ops of
                  None \<Rightarrow> Some (part_code PARTITION_ERR_UNKNOWN, s)
                | Some f \<Rightarrow> f s)
             }))"

definition partition_read ::
  "'d ops_env \<Rightarrow> part_tables \<Rightarrow> u8 list option \<Rightarrow> bool \<Rightarrow> u32 \<Rightarrow> u32 \<Rightarrow> 'd \<Rightarrow> (int \<times> u8 list \<times> 'd) option" where
  "partition_read E T partition_name buf_null offset len s =
     (case partition_name of
        None \<Rightarrow> Some (part_code PARTITION_ERR_PARAM, [], s)
      | Some nm \<Rightarrow>
          if buf_null then Some (part_code PARTITION_ERR_PARAM, [], s)
          else (case partition_find T nm of
            None \<Rightarrow> Some (part_code PARTITION_ERR_NOEXIST, [], s)
          | Some i \<Rightarrow>
              let part = part_table T ! i
              in if offset + len > pt_size part then Some (part_code PARTITION_ERR_SIZE, [], s)
                 else do {
                   dev \<leftarrow> dev_deref T (pt_dev part);
                   ops \<leftarrow> E (pd_ops dev);
                   (case op_read ops of
                      None \<Rightarrow> Some (part_code PARTITION_ERR_UNKNOWN, [], s)
                    | Some f \<Rightarrow> f (pt_start part + offset) len s)
                 }))"

definition partition_write ::
  "'d ops_env \<Rightarrow> part_tables \<Rightarrow> u8 list option \<Rightarrow> u8 list option \<Rightarrow> u32 \<Rightarrow> u32 \<Rightarrow> 'd \<Rightarrow> (int \<times> 'd) option" where
  "partition_write E T partition_name buf offset len s =
     (case (partition_name, buf) of
        (Some nm, Some bs) \<Rightarrow>
          (case partition_find T nm of
            None \<Rightarrow> Some (part_code PARTITION_ERR_NOEXIST, s)
          | Some i \<Rightarrow>
              let part = part_table T ! i
              in if offset + len > pt_size part then Some (part_code PARTITION_ERR_SIZE, s)
                 else do {
                   dev \<leftarrow> dev_deref T (pt_dev part);
                   ops \<leftarrow> E (pd_ops dev);
                   (case op_write ops of
                      None \<Rightarrow> Some (part_code PARTITION_ERR_UNKNOWN, s)
                    | Some f \<Rightarrow> f (pt_start part + offset) bs len s)
                 })
      | _ \<Rightarrow> Some (part_code PARTITION_ERR_PARAM, s))"

definition partition_erase ::
  "'d ops_env \<Rightarrow> part_tables \<Rightarrow> u8 list option \<Rightarrow> u32 \<Rightarrow> u32 \<Rightarrow> 'd \<Rightarrow> (int \<times> 'd) option" where
  "partition_erase E T partition_name offset len s =
     (case partition_name of
        None \<Rightarrow> Some (part_code PARTITION_ERR_PARAM, s)
      | Some nm \<Rightarrow>
          (case partition_find T nm of
            None \<Rightarrow> Some (part_code PARTITION_ERR_NOEXIST, s)
          | Some i \<Rightarrow>
              let part = part_table T ! i
              in if offset + len > pt_size part then Some (part_code PARTITION_ERR_SIZE, s)
                 else do {
                   dev \<leftarrow> dev_deref T (pt_dev part);
                   ops \<leftarrow> E (pd_ops dev);
                   (case op_erase ops of
                      None \<Rightarrow> Some (part_code PARTITION_ERR_UNKNOWN, s)
                    | Some f \<Rightarrow> f (pt_start part + offset) len s)
                 }))"

definition partition_erase_all ::
  "'d ops_env \<Rightarrow> part_tables \<Rightarrow> u8 list option \<Rightarrow> 'd \<Rightarrow> (int \<times> 'd) option" where
  "partition_erase_all E T partition_name s =
     (case partition_name of
        None \<Rightarrow> Some (part_code PARTITION_ERR_PARAM, s)
      | Some nm \<Rightarrow>
          (case partition_find T nm of
            None \<Rightarrow> Some (part_code PARTITION_ERR_NOEXIST, s)
          | Some i \<Rightarrow>
              let part = part_table T ! i
              in do {
                   dev \<leftarrow> dev_deref T (pt_dev part);
                   ops \<leftarrow> E (pd_ops dev);
                   (case op_erase ops of
                      None \<Rightarrow> Some (part_code PARTITION_ERR_UNKNOWN, s)
                    | Some f \<Rightarrow> f (pt_start part) (pt_size part) s)
                 }))"

end
