(* ===== verification/Partition_Facts.thy ===== *)
theory Partition_Facts
  imports Partition "HOL-Library.Sublist"
begin

text \<open>
  Facts about the partition manager: its string and memory helpers, the bounds that every
  operation keeps, the registry that registering builds, lookup by prefix, and the range of the
  addresses an access hands to the driver.
\<close>

section \<open>The helpers do what their names say\<close>

lemma move_up_nth:
  "tmp + n \<le> length m \<Longrightarrow> s + n \<le> length m \<Longrightarrow> tmp \<le> s \<or> s + n \<le> tmp \<Longrightarrow>
   length (move_up tmp s n m) = length m \<and>
   (\<forall>i < length m. move_up tmp s n m ! i = (if tmp \<le> i \<and> i < tmp + n then m ! (s + (i - tmp)) else m ! i))"
proof (induction tmp s n m rule: move_up.induct)
  case (2 tmp s n m)
  let ?m = "m[tmp := m ! s]"
  from 2 have IH: "length (move_up (Suc tmp) (Suc s) n ?m) = length m"
    "\<And>i. i < length m \<Longrightarrow> move_up (Suc tmp) (Suc s) n ?m ! i =
      (if Suc tmp \<le> i \<and> i < Suc tmp + n then ?m ! (Suc s + (i - Suc tmp)) else ?m ! i)"
    by auto
  have "move_up (Suc tmp) (Suc s) n ?m ! i =
      (if tmp \<le> i \<and> i < tmp + Suc n then m ! (s + (i - tmp)) else m ! i)" if i: "i < length m" for i
  proof -
    consider "i < tmp" | "i = tmp" | "tmp < i" by linarith
    then show ?thesis
    proof cases
      case 3
      then have "Suc s + (i - Suc tmp) = s + (i - tmp)" "i < tmp + Suc n \<Longrightarrow> s + (i - tmp) \<noteq> tmp"
        using "2.prems" by auto
      with 3 i show ?thesis by (auto simp: IH(2))
    qed (use i in \<open>auto simp: IH(2)\<close>)
  qed
  with IH(1) show ?case by simp
qed auto

lemma move_down_nth:
  "tmp + n \<le> length m \<Longrightarrow> s + n \<le> length m \<Longrightarrow> s < tmp \<Longrightarrow>
   length (move_down tmp s n m) = length m \<and>
   (\<forall>i < length m. move_down tmp s n m ! i = (if tmp \<le> i \<and> i < tmp + n then m ! (s + (i - tmp)) else m ! i))"
proof (induction tmp s n m rule: move_down.induct)
  case (2 tmp s n m)
  let ?m = "m[tmp + n := m ! (s + n)]"
  from 2 have IH: "length (move_down tmp s n ?m) = length m"
    "\<And>i. i < length m \<Longrightarrow> move_down tmp s n ?m ! i =
      (if tmp \<le> i \<and> i < tmp + n then ?m ! (s + (i - tmp)) else ?m ! i)"
    by auto
  have "move_down tmp s n ?m ! i =
      (if tmp \<le> i \<and> i < tmp + Suc n then m ! (s + (i - tmp)) else m ! i)" if i: "i < length m" for i
  proof -
    consider "i < tmp + n" | "i = tmp + n" | "tmp + n < i" by linarith
    then show ?thesis
      by cases (use i "2.prems" in \<open>auto simp: IH(2)\<close>)
  qed
  with IH(1) show ?case by simp
qed auto

lemma partition_memmove_patch:
  assumes "dest + n \<le> length m" and "src + n \<le> length m"
  shows "partition_memmove dest src n m = patch dest (bslice src n m) m"
proof (cases "src < dest \<and> dest < src + n")
  case True
  then show ?thesis
    using assms move_down_nth [of dest n m src]
    by (intro nth_equalityI) (auto simp: partition_memmove_def nth_patch bslice_def)
next
  case False
  then show ?thesis
    using assms move_up_nth [of dest n m src]
    by (intro nth_equalityI) (auto simp: partition_memmove_def nth_patch bslice_def)
qed

lemma byte_at_simps [simp]: "byte_at [] = 0" "byte_at (c # s) = c"
  by (simp_all add: byte_at_def)

lemma sint_0_iff [simp]: "sint (a :: u8) = 0 \<longleftrightarrow> a = 0"
  by (metis signed_0 signed_word_eqI)

lemma sint_diff_0 [simp]: "sint (a - b :: u8) = 0 \<longleftrightarrow> a = b"
  by (metis eq_iff_diff_eq_0 sint_0_iff)

lemma partition_strncmp_0:
  "0 \<notin> set nm \<Longrightarrow> partition_strncmp nm ct (length nm) = 0 \<longleftrightarrow> take (length nm) ct = nm"
proof (induction nm arbitrary: ct)
  case (Cons c nm)
  then show ?case by (cases ct) (auto simp: Let_def sint_0_iff)
qed simp

lemma partition_strlen_length:
  "0 \<notin> set nm \<Longrightarrow> partition_strlen nm = word_of_nat (length nm)"
  by (induction nm) auto

lemma unat_partition_strlen:
  "0 \<notin> set nm \<Longrightarrow> length nm < 2 ^ 32 \<Longrightarrow> unat (partition_strlen nm) = length nm"
  by (simp add: partition_strlen_length unat_of_nat take_bit_nat_eq_self_iff)

lemma partition_strncpy_take:
  "0 \<notin> set nm \<Longrightarrow> n \<le> length nm \<Longrightarrow> n \<le> length d \<Longrightarrow> partition_strncpy d nm n = patch 0 (take n nm) d"
proof (induction d nm n rule: partition_strncpy.induct)
  case (3 d ds src n)
  then obtain c src' where "src = c # src'" by (cases src) auto
  with 3 show ?case by (auto simp: patch_def)
qed (auto simp: patch_def)

section \<open>Bounds of the tables\<close>

text \<open>The part of the invariant that every operation keeps, whatever its arguments.\<close>

definition tables_wf :: "part_tables \<Rightarrow> bool" where
  "tables_wf T \<longleftrightarrow> length (dev_table T) = PARTITION_DEV_MAX \<and> length (part_table T) = PARTITION_MAX \<and>
     unat (dev_num T) \<le> PARTITION_DEV_MAX \<and> unat (part_num T) \<le> PARTITION_MAX \<and>
     (\<forall>d \<in> set (dev_table T). length (pd_name d) = PARTITION_DEV_NAME_MAX) \<and>
     (\<forall>p \<in> set (part_table T). length (pt_name p) = PARTITION_NAME_MAX)"

lemma part_mem_unfold:
  "i < length (part_table T) \<Longrightarrow> part_mem T i = part_bytes (part_table T ! i) @ part_mem T (Suc i)"
  by (simp add: part_mem_def Cons_nth_drop_Suc [symmetric])

lemma dev_mem_unfold:
  "i < length (dev_table T) \<Longrightarrow> dev_mem T i = dev_bytes (dev_table T ! i) @ dev_mem T (Suc i)"
  by (simp add: dev_mem_def Cons_nth_drop_Suc [symmetric])

text \<open>A C string that fits a name field and its terminator.\<close>

definition name_ok :: "u8 list \<Rightarrow> bool" where
  "name_ok nm \<longleftrightarrow> nm \<noteq> [] \<and> length nm < PARTITION_NAME_MAX \<and> 0 \<notin> set nm"

lemma partition_find_prefix:
  assumes "tables_wf T" and "name_ok nm"
  shows "partition_find T nm =
    find_loop (\<lambda>i. take (length nm) (pt_name (part_table T ! i)) = nm) 0 (unat (part_num T))"
  unfolding partition_find_def
proof (rule find_loop_cong)
  fix j assume "0 \<le> j" "j < 0 + unat (part_num T)"
  with assms have j: "j < length (part_table T)" "length (pt_name (part_table T ! j)) = 16"
    by (auto simp: tables_wf_def partition_limits)
  with assms(2) show "(0 = partition_strncmp nm (part_mem T j) (unat (partition_strlen nm))) =
      (take (length nm) (pt_name (part_table T ! j)) = nm)"
    by (auto simp: name_ok_def partition_limits unat_partition_strlen partition_strncmp_0
        part_mem_unfold part_bytes_def eq_commute [of 0])
qed

lemma partition_device_find_prefix:
  assumes "tables_wf T" and "name_ok nm"
  shows "partition_device_find T nm =
    find_loop (\<lambda>i. take (length nm) (pd_name (dev_table T ! i)) = nm) 0 (unat (dev_num T))"
  unfolding partition_device_find_def
proof (rule find_loop_cong)
  fix j assume "0 \<le> j" "j < 0 + unat (dev_num T)"
  with assms have j: "j < length (dev_table T)" "length (pd_name (dev_table T ! j)) = 16"
    by (auto simp: tables_wf_def partition_limits)
  with assms(2) show "(0 = partition_strncmp nm (dev_mem T j) (unat (partition_strlen nm))) =
      (take (length nm) (pd_name (dev_table T ! j)) = nm)"
    by (auto simp: name_ok_def partition_limits unat_partition_strlen partition_strncmp_0
        dev_mem_unfold dev_bytes_def eq_commute [of 0])
qed

lemma partition_find_bound: "partition_find T nm = Some i \<Longrightarrow> i < unat (part_num T)"
  by (simp add: partition_find_def find_loop_Some)

lemma partition_device_find_bound: "partition_device_find T nm = Some i \<Longrightarrow> i < unat (dev_num T)"
  by (simp add: partition_device_find_def find_loop_Some)

lemma unat_suc_word: "unat (w :: u32) < n \<Longrightarrow> n < 2 ^ 32 \<Longrightarrow> unat (w + 1) = Suc (unat w)"
  by (simp add: unat_word_ariths)

lemma unat_pred_word: "0 < unat (w :: u32) \<Longrightarrow> unat (w - 1) = unat w - 1"
  by (metis One_nat_def Suc_leI unat_1 unat_sub word_le_nat_alt)

lemma length_strncpy [simp]: "n \<le> length d \<Longrightarrow> length (partition_strncpy d s n) = length d"
  by (induction d s n rule: partition_strncpy.induct) auto

lemma set_list_updateD: "x \<in> set (xs[i := y]) \<Longrightarrow> x \<in> set xs \<or> x = y"
  using set_update_subset_insert [of xs i y] by blast



lemma set_patch: "x \<in> set (patch off ys xs) \<Longrightarrow> x \<in> set ys \<or> x \<in> set xs"
  by (auto simp: patch_def dest: in_set_takeD in_set_dropD)

lemma set_bslice: "x \<in> set (bslice off n xs) \<Longrightarrow> x \<in> set xs"
  by (auto simp: bslice_def dest: in_set_takeD in_set_dropD)

text \<open>The entries in use, and the effect of \<open>partition_unregister\<close> on them.\<close>

definition entries :: "part_tables \<Rightarrow> part_entry list" where
  "entries T = take (unat (part_num T)) (part_table T)"

definition remove_nth :: "nat \<Rightarrow> 'a list \<Rightarrow> 'a list" where
  "remove_nth k xs = take k xs @ drop (Suc k) xs"

lemma length_entries: "tables_wf T \<Longrightarrow> length (entries T) = unat (part_num T)"
  by (simp add: entries_def tables_wf_def partition_limits)

lemma nth_entries: "i < unat (part_num T) \<Longrightarrow> entries T ! i = part_table T ! i"
  by (simp add: entries_def)

lemma partition_unregister_effect:
  assumes wf: "tables_wf T" and found: "partition_find T nm = Some i"
    and k: "k = unat (pt_id (part_table T ! i))" and le: "k < unat (part_num T)"
  shows "\<exists>T'. partition_unregister (Some nm) T = Some (PARTITION_OK, T') \<and> tables_wf T' \<and>
    part_num T' = part_num T - 1 \<and> entries T' = remove_nth k (entries T) \<and>
    dev_table T' = dev_table T \<and> dev_num T' = dev_num T \<and> dev_base T' = dev_base T"
proof -
  let ?num = "part_num T - 1" and ?id = "pt_id (part_table T ! i)"
  have i: "i < unat (part_num T)"
    using found by (rule partition_find_bound)
  have num: "unat ?num = unat (part_num T) - 1"
    using i by (intro unat_pred_word) simp
  have len: "length (part_table T) = 20" "unat (part_num T) \<le> 20"
    using wf by (auto simp: tables_wf_def partition_limits)
  have n: "unat (?num - ?id) = unat ?num - k"
    using le num k by (intro unat_sub_le [THEN trans]) (auto simp: word_le_nat_alt)
  define tab where "tab = (if ?id = ?num then part_table T
      else partition_memmove k (k + 1) (unat ?num - k) (part_table T))"
  have tab: "tab = patch k (bslice (Suc k) (unat ?num - k) (part_table T)) (part_table T)"
    using le len num k by (auto simp: tab_def partition_memmove_patch)
  define T' where "T' = T\<lparr>part_table := tab[unat ?num := (tab ! unat ?num)\<lparr>pt_name := replicate 16 0\<rparr>],
      part_num := ?num\<rparr>"
  have "partition_unregister (Some nm) T = Some (PARTITION_OK, T')"
    using le len num
    by (auto simp: partition_unregister_def found Let_def n k [symmetric] T'_def tab_def)
  moreover have "entries T' = remove_nth k (entries T)"
  proof (rule nth_equalityI)
    show "length (entries T') = length (remove_nth k (entries T))"
      using le len num by (simp add: entries_def remove_nth_def T'_def tab)
    fix j assume "j < length (entries T')"
    then have "j < unat ?num" by (simp add: entries_def T'_def)
    then show "entries T' ! j = remove_nth k (entries T) ! j"
      using le len num
      by (auto simp: entries_def remove_nth_def T'_def tab nth_patch nth_append bslice_def
          intro!: arg_cong [where f = "(!) (part_table T)"])
  qed
  moreover have "tables_wf T'"
    using wf len le num unfolding T'_def tab
    by (auto simp: tables_wf_def partition_limits dest!: set_list_updateD set_patch set_bslice)
  ultimately show ?thesis
    by (auto simp: T'_def)
qed





section \<open>The registry\<close>

text \<open>
  What registering alone maintains: the entries in use carry their own index and a proper,
  NUL-padded name, the unused slots have empty names, and every partition lies on a registered
  device (up to the wrap-around of \<open>start + size\<close>, which the code does not exclude).
\<close>

definition padded :: "u8 list \<Rightarrow> u8 list" where
  "padded nm = nm @ replicate (16 - length nm) 0"

definition registry :: "part_tables \<Rightarrow> bool" where
  "registry T \<longleftrightarrow> tables_wf T \<and>
     (\<forall>i < unat (part_num T). pt_id (part_table T ! i) = word_of_nat i \<and>
        (\<exists>nm. name_ok nm \<and> pt_name (part_table T ! i) = padded nm) \<and>
        (\<exists>k < unat (dev_num T). pt_dev (part_table T ! i) = dev_addr T k \<and>
           pt_start (part_table T ! i) + pt_size (part_table T ! i) \<le> pd_size (dev_table T ! k))) \<and>
     (\<forall>i < PARTITION_MAX. unat (part_num T) \<le> i \<longrightarrow> pt_name (part_table T ! i) = replicate 16 0) \<and>
     (\<forall>i < unat (dev_num T). pd_id (dev_table T ! i) = word_of_nat i \<and>
        (\<exists>nm. name_ok nm \<and> pd_name (dev_table T ! i) = padded nm)) \<and>
     (\<forall>i < PARTITION_DEV_MAX. unat (dev_num T) \<le> i \<longrightarrow> pd_name (dev_table T ! i) = replicate 16 0)"

lemma registry_wf: "registry T \<Longrightarrow> tables_wf T"
  by (simp add: registry_def)

lemma registry_init: "registry (part_tables_init base)"
  by (simp add: registry_def tables_wf_def part_tables_init_def partition_limits)

lemma length_padded [simp]: "name_ok nm \<Longrightarrow> length (padded nm) = 16"
  by (simp add: padded_def name_ok_def partition_limits)

lemma take_padded:
  assumes "name_ok q" and "name_ok nm"
  shows "take (length q) (padded nm) = q \<longleftrightarrow> prefix q nm"
proof
  assume eq: "take (length q) (padded nm) = q"
  have "length q \<le> length nm"
  proof (rule ccontr)
    assume "\<not> length q \<le> length nm"
    then have "q ! length nm = 0"
      using assms by (subst eq [symmetric]) (auto simp: padded_def nth_append name_ok_def partition_limits)
    with \<open>\<not> length q \<le> length nm\<close> assms(1) show False
      by (metis name_ok_def not_le nth_mem)
  qed
  with eq show "prefix q nm"
    by (metis append_eq_conv_conj padded_def take_append take_is_prefix diff_is_0_eq take0 append_Nil2)
next
  assume "prefix q nm"
  then show "take (length q) (padded nm) = q"
    by (auto simp: prefix_def padded_def)
qed

lemma padded_inj: "name_ok a \<Longrightarrow> name_ok b \<Longrightarrow> padded a = padded b \<longleftrightarrow> a = b"
proof -
  have "takeWhile (\<lambda>c. c \<noteq> 0) (padded nm) = nm" if "name_ok nm" for nm
    using that by (auto simp: padded_def name_ok_def takeWhile_append2 takeWhile_eq_Nil_iff
        intro!: takeWhile_append2 [THEN trans])
  then show "name_ok a \<Longrightarrow> name_ok b \<Longrightarrow> padded a = padded b \<longleftrightarrow> a = b"
    by metis
qed

lemma zeros_no_match: "name_ok q \<Longrightarrow> take (length q) (replicate 16 0) \<noteq> q"
  by (cases q) (auto simp: name_ok_def numeral_eq_Suc)

lemma dev_deref_addr:
  assumes "tables_wf T" and "k < PARTITION_DEV_MAX"
  shows "dev_deref T (dev_addr T k) = Some (dev_table T ! k)"
proof -
  have "unat (28 * word_of_nat k :: u32) = 28 * k"
    using assms(2) by (simp add: unat_word_ariths unat_of_nat partition_limits take_bit_nat_eq_self_iff take_bit_eq_mod)
  with assms show ?thesis
    by (simp add: dev_deref_def dev_addr_def tables_wf_def partition_limits)
qed

lemma part_device_overwritten:
  "(d :: part_device)\<lparr>pd_name := a, pd_size := b, pd_ops := c, pd_id := e\<rparr> =
   \<lparr>pd_name = a, pd_size = b, pd_ops = c, pd_id = e\<rparr>"
  by (cases d) simp

lemma part_entry_overwritten:
  "(p :: part_entry)\<lparr>pt_name := a, pt_dev := d, pt_start := b, pt_size := c, pt_id := e\<rparr> =
   \<lparr>pt_name = a, pt_start = b, pt_size = c, pt_dev = d, pt_id = e\<rparr>"
  by (cases p) simp

lemma partition_device_register_ok:
  fixes ops sz :: u32
  assumes reg: "registry T" and nm: "name_ok nm" and "ops \<noteq> 0" and room: "unat (dev_num T) < PARTITION_DEV_MAX"
    and new: "partition_device_find T nm = None"
  defines "d \<equiv> \<lparr>pd_name = padded nm, pd_size = sz, pd_ops = ops, pd_id = dev_num T\<rparr>"
  shows "partition_device_register (Some nm) ops sz T =
    (PARTITION_OK, T\<lparr>dev_table := (dev_table T)[unat (dev_num T) := d], dev_num := dev_num T + 1\<rparr>)"
proof -
  let ?old = "dev_table T ! unat (dev_num T)"
  have "pd_name ?old = replicate 16 0"
    using reg room by (simp add: registry_def)
  moreover have "length nm < 16" "0 \<notin> set nm" "unat (partition_strlen nm) = length nm"
    using nm by (auto simp: name_ok_def partition_limits unat_partition_strlen)
  ultimately show ?thesis
    using assms by (simp add: partition_device_register_def Let_def partition_limits
        partition_strncpy_take patch_def padded_def part_device_overwritten)
qed

lemma partition_register_ok:
  fixes start sz :: u32
  assumes reg: "registry T" and nm: "name_ok nm" and room: "unat (part_num T) < PARTITION_MAX"
    and dev: "partition_device_find T dn = Some k" and new: "partition_find T nm = None"
    and fits: "start + sz \<le> pd_size (dev_table T ! k)"
  defines "p \<equiv> \<lparr>pt_name = padded nm, pt_start = start, pt_size = sz, pt_dev = dev_addr T k, pt_id = part_num T\<rparr>"
  shows "partition_register (Some nm) (Some dn) start sz T =
      (PARTITION_OK, T\<lparr>part_table := (part_table T)[unat (part_num T) := p], part_num := part_num T + 1\<rparr>)"
proof -
  let ?old = "part_table T ! unat (part_num T)"
  have "pt_name ?old = replicate 16 0"
    using reg room by (simp add: registry_def)
  moreover have "length nm < 16" "unat (partition_strlen nm) = length nm"
    using nm by (auto simp: name_ok_def partition_limits unat_partition_strlen)
  ultimately show ?thesis
    using assms by (simp add: partition_register_def Let_def partition_limits not_less patch_def padded_def
        part_entry_overwritten)
qed

lemma registry_device_register:
  assumes "registry T" and "name_ok nm"
  shows "registry (snd (partition_device_register (Some nm) ops sz T))"
proof (cases "ops \<noteq> 0 \<and> unat (dev_num T) < PARTITION_DEV_MAX \<and> partition_device_find T nm = None")
  case False
  with assms show ?thesis
    by (auto simp: partition_device_register_def)
next
  case True
  with assms have eq: "snd (partition_device_register (Some nm) ops sz T) =
    T\<lparr>dev_table := (dev_table T)[unat (dev_num T) := \<lparr>pd_name = padded nm, pd_size = sz, pd_ops = ops, pd_id = dev_num T\<rparr>],
      dev_num := dev_num T + 1\<rparr>"
    by (simp add: partition_device_register_ok)
  have num: "unat (dev_num T + 1) = Suc (unat (dev_num T))"
    using True by (simp add: unat_suc_word [of _ 5] partition_limits)
  show ?thesis
    using assms True unfolding eq
    by (auto simp: registry_def tables_wf_def num nth_list_update less_Suc_eq partition_limits dev_addr_def
        dest!: set_list_updateD)
qed

lemma registry_register:
  assumes "registry T" and "name_ok nm"
  shows "registry (snd (partition_register (Some nm) (Some dn) start sz T))"
proof (cases "unat (part_num T) < PARTITION_MAX \<and> partition_find T nm = None \<and>
    (\<exists>k. partition_device_find T dn = Some k \<and> start + sz \<le> pd_size (dev_table T ! k))")
  case False
  with assms show ?thesis
    by (auto simp: partition_register_def not_less split: option.splits)
next
  case True
  then obtain k where k: "partition_device_find T dn = Some k" "start + sz \<le> pd_size (dev_table T ! k)"
    by blast
  with True assms have eq: "snd (partition_register (Some nm) (Some dn) start sz T) =
    T\<lparr>part_table := (part_table T)[unat (part_num T) :=
        \<lparr>pt_name = padded nm, pt_start = start, pt_size = sz, pt_dev = dev_addr T k, pt_id = part_num T\<rparr>],
      part_num := part_num T + 1\<rparr>"
    by (simp add: partition_register_ok)
  have num: "unat (part_num T + 1) = Suc (unat (part_num T))"
    using True by (simp add: unat_suc_word [of _ 20] partition_limits)
  show ?thesis
    using assms True partition_device_find_bound [OF k(1)] k(2) unfolding eq
    by (auto simp: registry_def tables_wf_def num nth_list_update less_Suc_eq partition_limits dev_addr_def
        dest!: set_list_updateD)
qed

section \<open>Lookup in the registry\<close>

text \<open>Lookup is by prefix: the first partition whose name starts with the given one.\<close>

lemma partition_find_registry:
  assumes "registry T" and "name_ok q"
  shows "partition_find T q = Some i \<longleftrightarrow>
    i < unat (part_num T) \<and>
    (\<exists>nm. name_ok nm \<and> pt_name (part_table T ! i) = padded nm \<and> prefix q nm) \<and>
    (\<forall>j < i. \<not> (\<exists>nm. name_ok nm \<and> pt_name (part_table T ! j) = padded nm \<and> prefix q nm))"
proof -
  have match: "take (length q) (pt_name (part_table T ! j)) = q \<longleftrightarrow>
      (\<exists>nm. name_ok nm \<and> pt_name (part_table T ! j) = padded nm \<and> prefix q nm)"
    if "j < unat (part_num T)" for j
    using assms that take_padded [OF assms(2)] unfolding registry_def by metis
  show ?thesis
    unfolding partition_find_prefix [OF registry_wf [OF assms(1)] assms(2)] find_loop_Some
    using match by auto
qed

lemma partition_find_registry_None:
  assumes "registry T" and "name_ok q"
  shows "partition_find T q = None \<longleftrightarrow>
    (\<forall>j < unat (part_num T). \<not> (\<exists>nm. name_ok nm \<and> pt_name (part_table T ! j) = padded nm \<and> prefix q nm))"
  using partition_find_registry [OF assms] partition_find_prefix [OF registry_wf [OF assms(1)] assms(2)]
    take_padded [OF assms(2)] assms(1)
  by (auto simp: find_loop_None registry_def)

text \<open>A pointer to a name field works as the name itself.\<close>

lemma strncmp_name_field:
  "0 \<notin> set nm \<Longrightarrow> partition_strncmp (nm @ r) ct (length nm) = partition_strncmp nm ct (length nm)"
  by (induction nm arbitrary: ct) (auto simp: Let_def)

lemma strlen_name_field: "0 \<notin> set nm \<Longrightarrow> partition_strlen (nm @ 0 # r) = partition_strlen nm"
  by (induction nm) auto

lemma partition_find_name_field:
  "name_ok nm \<Longrightarrow> partition_find T (nm @ 0 # r) = partition_find T nm"
  by (simp add: partition_find_def strlen_name_field strncmp_name_field name_ok_def
      unat_partition_strlen partition_limits)

section \<open>Accesses\<close>

lemma partition_read_eq:
  assumes "partition_find T nm = Some i" and "dev_deref T (pt_dev (part_table T ! i)) = Some d"
    and "E (pd_ops d) = Some ops" and "op_read ops = Some f"
  shows "partition_read E T (Some nm) False off len s =
    (if off + len > pt_size (part_table T ! i) then Some (-2, [], s)
     else f (pt_start (part_table T ! i) + off) len s)"
  using assms by (simp add: partition_read_def Let_def)

lemma partition_write_eq:
  assumes "partition_find T nm = Some i" and "dev_deref T (pt_dev (part_table T ! i)) = Some d"
    and "E (pd_ops d) = Some ops" and "op_write ops = Some f"
  shows "partition_write E T (Some nm) (Some bs) off len s =
    (if off + len > pt_size (part_table T ! i) then Some (-2, s)
     else f (pt_start (part_table T ! i) + off) bs len s)"
  using assms by (simp add: partition_write_def Let_def)

lemma partition_erase_eq:
  assumes "partition_find T nm = Some i" and "dev_deref T (pt_dev (part_table T ! i)) = Some d"
    and "E (pd_ops d) = Some ops" and "op_erase ops = Some f"
  shows "partition_erase E T (Some nm) off len s =
    (if off + len > pt_size (part_table T ! i) then Some (-2, s)
     else f (pt_start (part_table T ! i) + off) len s)"
  using assms by (simp add: partition_erase_def Let_def)

lemma partition_erase_all_eq:
  assumes "partition_find T nm = Some i" and "dev_deref T (pt_dev (part_table T ! i)) = Some d"
    and "E (pd_ops d) = Some ops" and "op_erase ops = Some f"
  shows "partition_erase_all E T (Some nm) s =
    f (pt_start (part_table T ! i)) (pt_size (part_table T ! i)) s"
  using assms by (simp add: partition_erase_all_def Let_def)

lemmas partition_access_eqs = partition_read_eq partition_write_eq partition_erase_eq partition_erase_all_eq

lemma access_in_range:
  fixes start sz off len :: u32
  assumes "off + len \<le> sz" and "unat off + unat len < 2 ^ 32" and "unat start + unat sz < 2 ^ 32"
  shows "unat start \<le> unat (start + off)" and "unat (start + off) + unat len \<le> unat start + unat sz"
proof -
  have "unat off + unat len \<le> unat sz"
    using assms(1,2) by (simp add: word_le_nat_alt unat_add_no_wrap)
  moreover from this assms(3) have "unat (start + off) = unat start + unat off"
    by (intro unat_add_no_wrap) simp
  ultimately show "unat start \<le> unat (start + off)"
    "unat (start + off) + unat len \<le> unat start + unat sz" by simp_all
qed

section \<open>Properties\<close>

text \<open>C31: Lookup finds the first registered partition whose name starts with the given
  string, and nothing else: a name that is a proper prefix of a registered one also matches.\<close>

theorem partition_find_is_prefix_lookup:
  assumes "registry T" and "name_ok q"
  shows "partition_find T q = Some i \<longleftrightarrow>
    i < unat (part_num T) \<and>
    (\<exists>nm. name_ok nm \<and> pt_name (part_table T ! i) = padded nm \<and> prefix q nm) \<and>
    (\<forall>j < i. \<not> (\<exists>nm. name_ok nm \<and> pt_name (part_table T ! j) = padded nm \<and> prefix q nm))"
  by (rule partition_find_registry [OF assms])











text \<open>C29: What registering a partition really checks.  It succeeds exactly when the table has room, a
  registered device's name starts with the given one, no registered partition's name starts with the new
  one, and the 32-bit sum \<open>start + size\<close>, which may have wrapped around, does not pass the device's
  size.  So it refuses a new name that is only a proper prefix of a registered one (\<open>APP\<close> after \<open>APP1\<close>),
  and accepts a range that ends outside the device when the sum wraps.  On success the entry is appended,
  lookup by the full name returns it, and the registry invariant is kept; otherwise nothing changes.\<close>

theorem partition_register_appends:
  assumes "registry T" and "name_ok nm"
  shows "case partition_register (Some nm) (Some dn) start sz T of (r, T') \<Rightarrow>
    registry T' \<and>
    (r = PARTITION_OK \<longleftrightarrow> unat (part_num T) < PARTITION_MAX \<and> partition_find T nm = None \<and>
       (\<exists>k. partition_device_find T dn = Some k \<and> start + sz \<le> pd_size (dev_table T ! k))) \<and>
    (if r = PARTITION_OK
     then entries T' = entries T @ [\<lparr>pt_name = padded nm, pt_start = start, pt_size = sz,
            pt_dev = dev_addr T (the (partition_device_find T dn)), pt_id = part_num T\<rparr>] \<and>
          partition_find T' nm = Some (unat (part_num T))
     else T' = T)"
proof (cases "unat (part_num T) < PARTITION_MAX \<and> partition_find T nm = None \<and>
    (\<exists>k. partition_device_find T dn = Some k \<and> start + sz \<le> pd_size (dev_table T ! k))")
  case False
  with assms show ?thesis
    by (auto simp: partition_register_def not_less split: option.splits)
next
  case True
  then obtain k where k: "partition_device_find T dn = Some k" "start + sz \<le> pd_size (dev_table T ! k)"
    by blast
  define p where "p = \<lparr>pt_name = padded nm, pt_start = start, pt_size = sz, pt_dev = dev_addr T k, pt_id = part_num T\<rparr>"
  define T' where "T' = T\<lparr>part_table := (part_table T)[unat (part_num T) := p], part_num := part_num T + 1\<rparr>"
  have eq: "partition_register (Some nm) (Some dn) start sz T = (PARTITION_OK, T')"
    using True k assms by (simp add: partition_register_ok T'_def p_def)
  have reg: "registry T'"
    using registry_register [OF assms, of dn start sz] by (simp add: eq)
  have num: "unat (part_num T + 1) = Suc (unat (part_num T))" "unat (part_num T) < length (part_table T)"
    using True registry_wf [OF assms(1)]
    by (auto simp: unat_suc_word [of _ 20] partition_limits tables_wf_def)
  have "partition_find T' nm = Some (unat (part_num T))"
    using True num assms(2) unfolding partition_find_registry [OF reg assms(2)]
      partition_find_registry_None [OF assms]
    by (auto simp: T'_def p_def)
  moreover have "entries T' = entries T @ [p]"
    using num by (simp add: entries_def T'_def take_Suc_conv_app_nth)
  ultimately show ?thesis
    using True k reg by (auto simp: eq p_def)
qed

definition demo_tables :: part_tables where
  "demo_tables = snd (partition_device_register (Some (cstr ''nand'')) 0x1000 0x10000 (part_tables_init 0x8000))"

lemma name_ok_cstr:
  "s \<noteq> [] \<Longrightarrow> length s < 16 \<Longrightarrow> (\<forall>c \<in> set s. (of_char c :: u8) \<noteq> 0) \<Longrightarrow> name_ok (cstr s)"
  by (auto simp: name_ok_def cstr_def partition_limits)

lemma demo_tables_eq: "demo_tables = (part_tables_init 0x8000)\<lparr>
   dev_table := (dev_table (part_tables_init 0x8000))
     [0 := \<lparr>pd_name = padded (cstr ''nand''), pd_size = 0x10000, pd_ops = 0x1000, pd_id = 0\<rparr>],
   dev_num := 1\<rparr>"
proof -
  have "partition_device_find (part_tables_init 0x8000) (cstr ''nand'') = None"
    by (simp add: partition_device_find_def part_tables_init_def)
  then show ?thesis
    unfolding demo_tables_def
    by (subst partition_device_register_ok)
      (use registry_init [of "0x8000"] in \<open>auto simp: name_ok_cstr part_tables_init_def partition_limits\<close>)
qed

lemma demo_registry: "registry demo_tables"
  unfolding demo_tables_def by (intro registry_device_register registry_init name_ok_cstr) simp_all

lemma demo_device: "partition_device_find demo_tables (cstr ''nand'') = Some 0"
proof -
  have "name_ok (cstr ''nand'')"
    by (rule name_ok_cstr) simp_all
  then show ?thesis
    unfolding partition_device_find_prefix [OF registry_wf [OF demo_registry] \<open>name_ok _\<close>] find_loop_Some
    by (simp add: demo_tables_eq part_tables_init_def padded_def)
qed

theorem partition_register_appends_witness:
  "registry demo_tables \<and> name_ok (cstr ''APP1'') \<and>
   partition_find (snd (partition_register (Some (cstr ''APP1'')) (Some (cstr ''nand'')) 0 4096 demo_tables))
     (cstr ''APP1'') = Some 0"
proof -
  have nm: "name_ok (cstr ''APP1'')"
    by (rule name_ok_cstr) simp_all
  have "partition_find demo_tables (cstr ''APP1'') = None"
    by (simp add: partition_find_def demo_tables_eq part_tables_init_def)
  with partition_register_appends [OF demo_registry nm, of "cstr ''nand''" 0 4096] demo_device nm demo_registry
  show ?thesis
    by (auto simp: demo_tables_eq part_tables_init_def partition_limits split: prod.splits if_splits)
qed

text \<open>C27: As long as \<open>offset + len\<close> does not wrap around, an access that reaches the driver stays
  between the first and the last byte of its partition.\<close>

theorem partition_access_confined:
  assumes "partition_find T nm = Some i"
    and "unat off + unat len < 2 ^ 32"
    and "unat (pt_start (part_table T ! i)) + unat (pt_size (part_table T ! i)) < 2 ^ 32"
  defines "lo \<equiv> unat (pt_start (part_table T ! i))"
    and "hi \<equiv> unat (pt_start (part_table T ! i)) + unat (pt_size (part_table T ! i))"
  shows
    "(partition_read E T (Some nm) False off len s = Some (r, bs, s') \<longrightarrow> r < 0 \<and> bs = [] \<and> s' = s \<or>
       (\<exists>a ops f. E a = Some ops \<and> op_read ops = Some f \<and>
          f (pt_start (part_table T ! i) + off) len s = Some (r, bs, s') \<and>
          lo \<le> unat (pt_start (part_table T ! i) + off) \<and>
          unat (pt_start (part_table T ! i) + off) + unat len \<le> hi)) \<and>
     (partition_write E T (Some nm) (Some data) off len s = Some (r, s') \<longrightarrow> r < 0 \<and> s' = s \<or>
       (\<exists>a ops f. E a = Some ops \<and> op_write ops = Some f \<and>
          f (pt_start (part_table T ! i) + off) data len s = Some (r, s') \<and>
          lo \<le> unat (pt_start (part_table T ! i) + off) \<and>
          unat (pt_start (part_table T ! i) + off) + unat len \<le> hi)) \<and>
     (partition_erase E T (Some nm) off len s = Some (r, s') \<longrightarrow> r < 0 \<and> s' = s \<or>
       (\<exists>a ops f. E a = Some ops \<and> op_erase ops = Some f \<and>
          f (pt_start (part_table T ! i) + off) len s = Some (r, s') \<and>
          lo \<le> unat (pt_start (part_table T ! i) + off) \<and>
          unat (pt_start (part_table T ! i) + off) + unat len \<le> hi))"
proof (cases "off + len > pt_size (part_table T ! i)")
  case True
  with assms(1) show ?thesis
    by (auto simp: partition_read_def partition_write_def partition_erase_def)
next
  case False
  then have le: "off + len \<le> pt_size (part_table T ! i)" by simp
  note range = access_in_range [OF le assms(2,3)]
  show ?thesis
    unfolding lo_def hi_def
    using assms(1) False range
    by (intro conjI impI)
      (auto simp: partition_read_def partition_write_def partition_erase_def bind_eq_Some_conv Let_def
        split: option.splits)
qed

text \<open>The range check is done modulo \<open>2^32\<close>: an offset of \<open>0xFFFFFFFF\<close> with a length of 2
  passes it on every non-empty partition, and the driver is asked for the byte before the
  partition.\<close>

theorem partition_read_escapes:
  assumes "partition_find T nm = Some i" and "dev_deref T (pt_dev (part_table T ! i)) = Some d"
    and "E (pd_ops d) = Some ops" and "op_read ops = Some f" and "0 < pt_size (part_table T ! i)"
  shows "partition_read E T (Some nm) False 0xFFFFFFFF 2 s = f (pt_start (part_table T ! i) - 1) 2 s"
proof -
  have sum: "(0xFFFFFFFF + 2 > pt_size (part_table T ! i)) = False"
    using assms(5) by (simp add: word_less_nat_alt)
  have "(0xFFFFFFFF :: u32) = -1" by simp
  then have addr: "pt_start (part_table T ! i) + 0xFFFFFFFF = pt_start (part_table T ! i) - 1"
    by (metis diff_conv_add_uminus)
  have "partition_read E T (Some nm) False 0xFFFFFFFF 2 s =
    (if 0xFFFFFFFF + 2 > pt_size (part_table T ! i) then Some (-2, [], s)
     else f (pt_start (part_table T ! i) + 0xFFFFFFFF) 2 s)"
    by (rule partition_read_eq [where d = d and ops = ops]) (use assms in auto)
  then show ?thesis
    by (simp only: sum addr if_False)
qed

text \<open>Unregistering the first of three partitions leaves the others with stale ids, so
  that unregistering the second one afterwards removes the third instead.\<close>

theorem partition_unregister_removes_wrong_entry:
  assumes reg: "registry T" and three: "unat (part_num T) = 3"
    and names: "pt_name (part_table T ! 0) = padded a" "pt_name (part_table T ! 1) = padded b"
      "pt_name (part_table T ! 2) = padded c"
    and ok: "name_ok a" "name_ok b" "name_ok c"
    and apart: "\<not> prefix b a" "\<not> prefix c b"
  shows "\<exists>T1 T2. partition_unregister (Some a) T = Some (PARTITION_OK, T1) \<and>
    partition_unregister (Some b) T1 = Some (PARTITION_OK, T2) \<and>
    partition_find T2 b = Some 0 \<and> partition_find T2 c = None"
proof -
  have wf: "tables_wf T" and ids: "\<And>i. i < 3 \<Longrightarrow> pt_id (part_table T ! i) = word_of_nat i"
    using reg three by (auto simp: registry_def)
  have "entries T = map ((!) (part_table T)) [0..<3]"
    by (rule nth_equalityI) (simp_all add: length_entries [OF wf] three nth_entries)
  then have ents: "entries T = [part_table T ! 0, part_table T ! 1, part_table T ! 2]"
    by (simp add: upt_rec numeral_2_eq_2)
  have "partition_find T a = Some 0"
    unfolding partition_find_prefix [OF wf ok(1)] find_loop_Some
    using three names take_padded [OF ok(1) ok(1)] by simp
  from partition_unregister_effect [OF wf this refl] three ids [of 0] obtain T1 where
    T1: "partition_unregister (Some a) T = Some (PARTITION_OK, T1)" "tables_wf T1"
      "part_num T1 = part_num T - 1" "entries T1 = remove_nth 0 (entries T)"
    by auto
  have num1: "unat (part_num T1) = 2"
    using T1(3) three by (simp add: unat_pred_word)
  have ents1: "entries T1 = [part_table T ! 1, part_table T ! 2]"
    by (simp add: T1(4) ents remove_nth_def)
  then have tab1: "part_table T1 ! 0 = part_table T ! 1" "part_table T1 ! 1 = part_table T ! 2"
    using nth_entries [of 0 T1] nth_entries [of 1 T1] num1 by simp_all
  have "partition_find T1 b = Some 0"
    unfolding partition_find_prefix [OF T1(2) ok(2)] find_loop_Some
    using num1 names tab1 take_padded [OF ok(2) ok(2)] by simp
  from partition_unregister_effect [OF T1(2) this refl] num1 tab1 ids [of 1] obtain T2 where
    T2: "partition_unregister (Some b) T1 = Some (PARTITION_OK, T2)" "tables_wf T2"
      "part_num T2 = part_num T1 - 1" "entries T2 = remove_nth 1 (entries T1)"
    by auto
  have num2: "unat (part_num T2) = 1"
    using T2(3) num1 by (simp add: unat_pred_word)
  have "entries T2 = [part_table T ! 1]"
    by (simp add: T2(4) ents1 remove_nth_def)
  then have tab2: "part_table T2 ! 0 = part_table T ! 1"
    using nth_entries [of 0 T2] num2 by simp
  have "partition_find T2 b = Some 0"
    unfolding partition_find_prefix [OF T2(2) ok(2)] find_loop_Some
    using num2 names tab2 take_padded [OF ok(2) ok(2)] by simp
  moreover have "partition_find T2 c = None"
    unfolding partition_find_prefix [OF T2(2) ok(3)] find_loop_None
    using num2 names tab2 take_padded [OF ok(3) ok(2)] apart by simp
  ultimately show ?thesis
    using T1(1) T2(1) by blast
qed

text \<open>With one device registered, unregistering it drops only the first of its partitions:
  the loop over the partition table is bounded by the number of devices.  The remaining
  partitions stay registered and keep pointing to the removed device.\<close>

theorem partition_device_unregister_keeps_partitions:
  assumes reg: "registry T" and one: "unat (dev_num T) = 1" and some: "0 < unat (part_num T)"
    and dev: "partition_device_find T dn = Some 0"
  shows "\<exists>T'. partition_device_unregister (Some dn) T = Some (PARTITION_OK, T') \<and>
    unat (dev_num T') = 0 \<and> entries T' = tl (entries T)"
proof -
  have wf: "tables_wf T"
    using reg by (rule registry_wf)
  obtain nm where nm: "name_ok nm" "pt_name (part_table T ! 0) = padded nm"
    and id0: "pt_id (part_table T ! 0) = 0" and ptr: "pt_dev (part_table T ! 0) = dev_addr T 0"
    using reg some one by (auto simp: registry_def)
  have len: "0 < length (part_table T)"
    using wf by (simp add: tables_wf_def partition_limits)
  obtain r where field: "part_mem T 0 = nm @ 0 # r"
  proof -
    have "16 - length nm = Suc (15 - length nm)"
      using nm(1) unfolding name_ok_def partition_limits by arith
    with part_mem_unfold [OF len] nm that show ?thesis
      by (simp add: part_bytes_def padded_def)
  qed
  have "partition_find T (part_mem T 0) = Some 0"
    unfolding field partition_find_name_field [OF nm(1)] partition_find_prefix [OF wf nm(1)] find_loop_Some
    using some nm take_padded [OF nm(1) nm(1)] by simp
  from partition_unregister_effect [OF wf this refl] some id0 obtain T1 where
    T1: "partition_unregister (Some (part_mem T 0)) T = Some (PARTITION_OK, T1)" "tables_wf T1"
      "entries T1 = remove_nth 0 (entries T)" "dev_table T1 = dev_table T" "dev_num T1 = dev_num T"
    by auto
  have id: "pd_id (dev_table T1 ! 0) = 0"
    using reg one T1(4) by (auto simp: registry_def)
  have num: "dev_num T1 - 1 = 0"
  proof -
    have "dev_num T1 = 1"
      using one T1(5) by (simp add: word_unat_eq_iff)
    then show ?thesis by simp
  qed
  have loop: "unregister_loop (dev_addr T 0) 0 (unat (dev_num T)) T = Some T1"
    using one ptr T1(1) by (simp add: numeral_eq_Suc)
  show ?thesis
    unfolding partition_device_unregister_def
    by (simp add: dev loop id num entries_def) (use T1(3) in \<open>simp add: entries_def remove_nth_def drop_Suc\<close>)
qed

section \<open>The hypotheses can hold\<close>

text \<open>Three partitions on one device, built by the code.\<close>

definition demo_three :: part_tables where
  "demo_three =
     snd (partition_register (Some (cstr ''Param'')) (Some (cstr ''nand'')) 0x2000 0x1000
     (snd (partition_register (Some (cstr ''APP2'')) (Some (cstr ''nand'')) 0x1000 0x1000
     (snd (partition_register (Some (cstr ''APP1'')) (Some (cstr ''nand'')) 0 0x1000 demo_tables)))))"

definition demo_entry :: "string \<Rightarrow> u32 \<Rightarrow> u32 \<Rightarrow> part_entry" where
  "demo_entry s start n = \<lparr>pt_name = padded (cstr s), pt_start = start, pt_size = 0x1000,
     pt_dev = 0x8000, pt_id = n\<rparr>"

lemma demo_register:
  assumes "registry T" and "dev_table T = dev_table demo_tables" and "dev_num T = 1" and "dev_base T = 0x8000"
    and "name_ok (cstr s)" and "unat (part_num T) < 20"
    and "\<forall>j < unat (part_num T). take (length s) (pt_name (part_table T ! j)) \<noteq> cstr s"
    and "start + 0x1000 \<le> 0x10000"
  shows "snd (partition_register (Some (cstr s)) (Some (cstr ''nand'')) start 0x1000 T) =
    T\<lparr>part_table := (part_table T)[unat (part_num T) := demo_entry s start (part_num T)],
      part_num := part_num T + 1\<rparr>"
proof -
  have nand: "name_ok (cstr ''nand'')"
    by (rule name_ok_cstr) simp_all
  have "partition_device_find T (cstr ''nand'') = Some 0"
    unfolding partition_device_find_prefix [OF registry_wf [OF assms(1)] nand] find_loop_Some
    using assms(2,3) by (simp add: demo_tables_eq part_tables_init_def padded_def)
  moreover have "partition_find T (cstr s) = None"
    unfolding partition_find_prefix [OF registry_wf [OF assms(1)] assms(5)] find_loop_None
    using assms(7) by simp
  ultimately show ?thesis
    using assms by (simp add: partition_register_ok partition_limits demo_tables_eq part_tables_init_def
        demo_entry_def dev_addr_def)
qed

lemma demo_three_eq: "registry demo_three \<and> demo_three = demo_tables\<lparr>
   part_table := (part_table demo_tables)[0 := demo_entry ''APP1'' 0 0, 1 := demo_entry ''APP2'' 0x1000 1,
     2 := demo_entry ''Param'' 0x2000 2],
   part_num := 3\<rparr>"
proof -
  have nms: "name_ok (cstr ''APP1'')" "name_ok (cstr ''APP2'')" "name_ok (cstr ''Param'')"
    by (rule name_ok_cstr; simp)+
  have d0: "part_num demo_tables = 0" "dev_num demo_tables = 1" "dev_base demo_tables = 0x8000"
    "length (part_table demo_tables) = 20"
    by (simp_all add: demo_tables_eq part_tables_init_def)
  define T1 where "T1 = demo_tables\<lparr>part_table := (part_table demo_tables)[0 := demo_entry ''APP1'' 0 0], part_num := 1\<rparr>"
  have T1: "snd (partition_register (Some (cstr ''APP1'')) (Some (cstr ''nand'')) 0 0x1000 demo_tables) = T1"
    by (subst demo_register) (simp_all add: demo_registry d0 nms T1_def)
  have r1: "registry T1"
    using registry_register [OF demo_registry nms(1)] T1 by metis
  define T2 where "T2 = T1\<lparr>part_table := (part_table T1)[1 := demo_entry ''APP2'' 0x1000 1], part_num := 2\<rparr>"
  have T2: "snd (partition_register (Some (cstr ''APP2'')) (Some (cstr ''nand'')) 0x1000 0x1000 T1) = T2"
    by (subst demo_register)
      (use r1 in \<open>simp_all add: d0 nms T1_def T2_def demo_entry_def padded_def cstr_def
        name_ok_def partition_limits\<close>)
  have r2: "registry T2"
    using registry_register [OF r1 nms(2)] T2 by metis
  define T3 where "T3 = T2\<lparr>part_table := (part_table T2)[2 := demo_entry ''Param'' 0x2000 2], part_num := 3\<rparr>"
  have two: "(\<forall>j < 2. P j) \<longleftrightarrow> P 0 \<and> P (1 :: nat)" for P
    by (metis One_nat_def less_2_cases_iff)
  have other: "\<forall>j < unat (part_num T2). take (length ''Param'') (pt_name (part_table T2 ! j)) \<noteq> cstr ''Param''"
    by (simp add: d0 T1_def T2_def two demo_entry_def padded_def cstr_def)
  have T3: "snd (partition_register (Some (cstr ''Param'')) (Some (cstr ''nand'')) 0x2000 0x1000 T2) = T3"
    by (subst demo_register [OF r2 _ _ _ nms(3) _ other])
      (simp_all add: d0 T1_def T2_def T3_def)
  have "registry T3"
    using registry_register [OF r2 nms(3)] T3 by metis
  moreover have "demo_three = T3"
    by (simp only: demo_three_def T1 T2 T3)
  ultimately show ?thesis
    by (simp add: T3_def T2_def T1_def)
qed

lemmas demo_registry_three = demo_three_eq [THEN conjunct1]
lemmas demo_three_def' = demo_three_eq [THEN conjunct2]

lemma demo_find:
  "partition_find demo_three (cstr ''APP1'') = Some 0"
  "partition_find demo_three (cstr ''APP2'') = Some 1"
proof -
  have nms: "name_ok (cstr ''APP1'')" "name_ok (cstr ''APP2'')"
    by (rule name_ok_cstr; simp)+
  show "partition_find demo_three (cstr ''APP1'') = Some 0"
    unfolding partition_find_prefix [OF registry_wf [OF demo_registry_three] nms(1)] find_loop_Some
    by (simp add: demo_three_def' demo_tables_eq part_tables_init_def demo_entry_def padded_def)
  show "partition_find demo_three (cstr ''APP2'') = Some 1"
    unfolding partition_find_prefix [OF registry_wf [OF demo_registry_three] nms(2)] find_loop_Some
    by (simp add: demo_three_def' demo_tables_eq part_tables_init_def demo_entry_def padded_def cstr_def)
qed

lemma demo_deref: "dev_deref demo_three (pt_dev (part_table demo_three ! 1)) = Some (dev_table demo_tables ! 0)"
  using dev_deref_addr [OF registry_wf [OF demo_registry_three], of 0]
  by (simp add: demo_three_def' demo_tables_eq part_tables_init_def demo_entry_def dev_addr_def partition_limits)

text \<open>A driver over a byte-addressed memory, for the witnesses.\<close>

definition demo_ops :: "(nat \<Rightarrow> u8) dev_ops" where
  "demo_ops = \<lparr>op_init = None,
     op_read = Some (\<lambda>a n m. Some (0, map (\<lambda>i. m (unat a + i)) [0..<unat n], m)),
     op_write = None, op_erase = None\<rparr>"

theorem partition_find_is_prefix_lookup_witness: "partition_find demo_three (cstr ''AP'') = Some 0"
proof -
  have ok: "name_ok (cstr ''AP'')" "name_ok (cstr ''APP1'')"
    by (rule name_ok_cstr; simp)+
  have "prefix (cstr ''AP'') (cstr ''APP1'')"
    by (simp add: cstr_def)
  with ok show ?thesis
    using partition_find_is_prefix_lookup [OF demo_registry_three ok(1), of 0]
    by (auto simp: demo_three_def' demo_tables_eq part_tables_init_def demo_entry_def)
qed

theorem partition_access_confined_witness:
  "partition_read (\<lambda>_. Some demo_ops) demo_three (Some (cstr ''APP2'')) False 8 2 (\<lambda>_. 7) = Some (0, [7, 7], \<lambda>_. 7) \<and>
   0x1000 \<le> unat (pt_start (part_table demo_three ! 1) + 8)"
proof -
  have read: "partition_read (\<lambda>_. Some demo_ops) demo_three (Some (cstr ''APP2'')) False 8 2 (\<lambda>_. 7) = Some (0, [7, 7], \<lambda>_. 7)"
    using partition_read_eq [OF demo_find(2) demo_deref, of "\<lambda>_. Some demo_ops" demo_ops
        "\<lambda>a n m. Some (0, map (\<lambda>i. m (unat a + i)) [0..<unat n], m)" 8 2 "\<lambda>_. 7"]
    by (simp add: demo_ops_def demo_three_def' demo_tables_eq part_tables_init_def demo_entry_def upt_rec)
  from partition_access_confined [OF demo_find(2), of 8 2 "\<lambda>_. Some demo_ops" "\<lambda>_. 7" 0 "[7, 7]" "\<lambda>_. 7"] read
  have "unat (pt_start (part_table demo_three ! 1)) \<le> unat (pt_start (part_table demo_three ! 1) + 8)"
    by (auto simp: demo_three_def' demo_tables_eq part_tables_init_def demo_entry_def)
  with read show ?thesis
    by (simp add: demo_three_def' demo_tables_eq part_tables_init_def demo_entry_def)
qed

theorem partition_read_escapes_witness:
  "partition_read (\<lambda>_. Some demo_ops) demo_three (Some (cstr ''APP2'')) False 0xFFFFFFFF 2
     (\<lambda>i. if i < 0x1000 then 1 else 2) = Some (0, [1, 2], \<lambda>i. if i < 0x1000 then 1 else 2)"
proof -
  have "pt_start (part_table demo_three ! 1) = 0x1000" "0 < pt_size (part_table demo_three ! 1)"
    by (simp_all add: demo_three_def' demo_tables_eq part_tables_init_def demo_entry_def)
  then show ?thesis
    using partition_read_escapes [OF demo_find(2) demo_deref, of "\<lambda>_. Some demo_ops" demo_ops]
    by (simp add: demo_ops_def upt_rec)
qed

theorem partition_unregister_removes_wrong_entry_witness:
  "\<exists>T1 T2. partition_unregister (Some (cstr ''APP1'')) demo_three = Some (PARTITION_OK, T1) \<and>
    partition_unregister (Some (cstr ''APP2'')) T1 = Some (PARTITION_OK, T2) \<and>
    partition_find T2 (cstr ''APP2'') = Some 0 \<and> partition_find T2 (cstr ''Param'') = None"
proof (rule partition_unregister_removes_wrong_entry [OF demo_registry_three])
  show "name_ok (cstr ''APP1'')" "name_ok (cstr ''APP2'')" "name_ok (cstr ''Param'')"
    by (rule name_ok_cstr; simp)+
qed (simp_all add: demo_three_def' demo_tables_eq part_tables_init_def demo_entry_def cstr_def)

theorem partition_device_unregister_keeps_partitions_witness:
  "\<exists>T'. partition_device_unregister (Some (cstr ''nand'')) demo_three = Some (PARTITION_OK, T') \<and>
    unat (dev_num T') = 0 \<and> entries T' = tl (entries demo_three)"
proof (rule partition_device_unregister_keeps_partitions [OF demo_registry_three])
  have nand: "name_ok (cstr ''nand'')"
    by (rule name_ok_cstr) simp_all
  show "partition_device_find demo_three (cstr ''nand'') = Some 0"
    unfolding partition_device_find_prefix [OF registry_wf [OF demo_registry_three] nand] find_loop_Some
    by (simp add: demo_three_def' demo_tables_eq part_tables_init_def padded_def)
qed (simp_all add: demo_three_def' demo_tables_eq part_tables_init_def)


end
