(* ===== verification/Ymodem.thy ===== *)
theory Ymodem
  imports HG_Prelude Crc
begin

text \<open>
  The YMODEM receiver of \<^verbatim>\<open>hgboot/ymodem/ymodem.c\<close>.  The serial line behind the port's two
  functions is the list of the results of the coming \<open>ymodem_getchar\<close> calls (\<^term>\<open>None\<close> is a
  timeout, and after the end of the list the line is silent) and the list of the characters put
  out so far.  A call that does not return is \<^term>\<open>None\<close>: the loop that reads the data of a
  packet has no retry counter, so it never ends on a silent line.
\<close>

section \<open>The serial line\<close>

record line =
  rx :: "u8 option list"
  tx :: "u8 list"

definition y_getchar :: "line \<Rightarrow> u8 option \<times> line" where
  "y_getchar l = (case rx l of [] \<Rightarrow> (None, l) | c # r \<Rightarrow> (c, l\<lparr>rx := r\<rparr>))"

definition y_putchar :: "u8 \<Rightarrow> line \<Rightarrow> line" where
  "y_putchar c l = l\<lparr>tx := tx l @ [c]\<rparr>"

section \<open>Constants\<close>

definition YMDOEM_MAX_RETRY :: nat where "YMDOEM_MAX_RETRY = 100"
definition RECV_END_CHAR :: u8 where "RECV_END_CHAR = 0x4F"
definition PACKET_SIZE_128 :: nat where "PACKET_SIZE_128 = 128"
definition PACKET_SIZE_1K :: nat where "PACKET_SIZE_1K = 1024"

datatype ymodem_cmd = YMODEM_NULL | YMODEM_SOH | YMODEM_STX | YMODEM_EOT | YMODEM_ACK | YMODEM_NAK
  | YMODEM_CAN | YMODEM_C

fun cmd_char :: "ymodem_cmd \<Rightarrow> u8" where
  "cmd_char YMODEM_NULL = 0x00"
| "cmd_char YMODEM_SOH = 0x01"
| "cmd_char YMODEM_STX = 0x02"
| "cmd_char YMODEM_EOT = 0x04"
| "cmd_char YMODEM_ACK = 0x06"
| "cmd_char YMODEM_NAK = 0x15"
| "cmd_char YMODEM_CAN = 0x18"
| "cmd_char YMODEM_C = 0x43"

datatype ymodem_errcode = YMODEM_OK | YMODEM_ERR_PARAM | YMODEM_ERR_TIMEOUT | YMODEM_ERR_HEADER
  | YMODEM_ERR_SIZE | YMODEM_ERR_DATA | YMODEM_ERR_CRC | YMODEM_ERR_EOT | YMODEM_ERR_ABORTED
  | YMODEM_ERR_UNKNOWN

fun ym_code :: "ymodem_errcode \<Rightarrow> int" where
  "ym_code YMODEM_OK = 0"
| "ym_code YMODEM_ERR_PARAM = -1"
| "ym_code YMODEM_ERR_TIMEOUT = -2"
| "ym_code YMODEM_ERR_HEADER = -3"
| "ym_code YMODEM_ERR_SIZE = -4"
| "ym_code YMODEM_ERR_DATA = -5"
| "ym_code YMODEM_ERR_CRC = -6"
| "ym_code YMODEM_ERR_EOT = -7"
| "ym_code YMODEM_ERR_ABORTED = -8"
| "ym_code YMODEM_ERR_UNKNOWN = -9"

section \<open>Receiving a packet\<close>

record ymodem_frame =
  f_head :: u8
  f_pkg_size :: nat
  f_pack_num :: u8
  f_pack_mask :: u8
  f_buf :: "u8 list"
  f_offset :: nat
  f_crc_h :: u8
  f_crc_l :: u8
  f_file_size :: u32

text \<open>The \<open>while (size > 0)\<close> loop: a timeout changes nothing, so it is simply tried again.\<close>

fun recv_data :: "nat \<Rightarrow> ymodem_frame \<Rightarrow> u8 option list \<Rightarrow> (ymodem_frame \<times> u8 option list) option" where
  "recv_data 0 fr r = Some (fr, r)"
| "recv_data (Suc k) fr [] = None"
| "recv_data (Suc k) fr (None # r) = recv_data (Suc k) fr r"
| "recv_data (Suc k) fr (Some c # r) =
     recv_data k (fr\<lparr>f_buf := (f_buf fr)[f_offset fr := c], f_offset := Suc (f_offset fr)\<rparr>) r"

text \<open>
  What follows an accepted start byte: \<^term>\<open>True\<close> is the successful return, \<^term>\<open>False\<close> one of
  the branches that count a retry, send a NAK and continue with the outer loop.
\<close>

definition recv_packet_crc :: "ymodem_frame \<Rightarrow> line \<Rightarrow> bool \<times> ymodem_frame \<times> line" where
  "recv_packet_crc fr l =
     (case y_getchar l of
        (None, l) \<Rightarrow> (False, fr, y_putchar (cmd_char YMODEM_NAK) l)
      | (Some h, l) \<Rightarrow>
     (let fr = fr\<lparr>f_crc_h := h\<rparr> in
      case y_getchar l of
        (None, l) \<Rightarrow> (False, fr, y_putchar (cmd_char YMODEM_NAK) l)
      | (Some c, l) \<Rightarrow>
     (let fr = fr\<lparr>f_crc_l := c\<rparr>;
          recv_crc = (push_bit 8 (ucast (f_crc_h fr)) AND 0xFF00) OR (ucast (f_crc_l fr) AND 0x00FF) :: u16;
          calc_crc = ymodem_crc16 (take (f_pkg_size fr) (f_buf fr))
      in if recv_crc \<noteq> calc_crc then (False, fr, y_putchar (cmd_char YMODEM_NAK) l)
         else (True, fr, l))))"

definition recv_packet_body :: "ymodem_frame \<Rightarrow> line \<Rightarrow> (bool \<times> ymodem_frame \<times> line) option" where
  "recv_packet_body fr l =
     (case y_getchar l of
        (None, l) \<Rightarrow> Some (False, fr, y_putchar (cmd_char YMODEM_NAK) l)
      | (Some num, l) \<Rightarrow>
     (let fr = fr\<lparr>f_pack_num := num\<rparr> in
      case y_getchar l of
        (None, l) \<Rightarrow> Some (False, fr, y_putchar (cmd_char YMODEM_NAK) l)
      | (Some msk, l) \<Rightarrow>
     (let fr = fr\<lparr>f_pack_mask := msk\<rparr> in
      if f_pack_num fr XOR f_pack_mask fr \<noteq> 0xFF
      then Some (False, fr, y_putchar (cmd_char YMODEM_NAK) l)
      else do {
        (fr, r) \<leftarrow> recv_data (f_pkg_size fr) (fr\<lparr>f_offset := 0\<rparr>) (rx l);
        Some (recv_packet_crc fr (l\<lparr>rx := r\<rparr>))
      })))"

fun ymodem_receive_packet :: "nat \<Rightarrow> ymodem_frame \<Rightarrow> line \<Rightarrow> (int \<times> ymodem_frame \<times> line) option" where
  "ymodem_receive_packet 0 fr l = Some (ym_code YMODEM_ERR_TIMEOUT, fr, l)"
| "ymodem_receive_packet (Suc retries) fr l =
     (case y_getchar l of
        (None, l) \<Rightarrow> ymodem_receive_packet retries fr l
      | (Some h, l) \<Rightarrow>
          let fr = fr\<lparr>f_head := h\<rparr> in
          if h = cmd_char YMODEM_SOH \<or> h = cmd_char YMODEM_STX
          then do {
            (ok, fr, l) \<leftarrow> recv_packet_body
               (fr\<lparr>f_pkg_size := (if h = cmd_char YMODEM_SOH then PACKET_SIZE_128 else PACKET_SIZE_1K)\<rparr>) l;
            (if ok then Some (ym_code YMODEM_OK, fr, l) else ymodem_receive_packet retries fr l)
          }
          else if h = cmd_char YMODEM_EOT then Some (uint (cmd_char YMODEM_EOT), fr, l)
          else ymodem_receive_packet retries fr l)"

section \<open>Parsing the file size\<close>

fun strtol_digits :: "u32 \<Rightarrow> bool \<Rightarrow> u8 list \<Rightarrow> u32 \<times> bool" where
  "strtol_digits result started [] = (result, started)"
| "strtol_digits result started (c # s) =
     (if 48 \<le> c \<and> c \<le> 57 then strtol_digits (result * 10 + (ucast c - 48)) True s
      else (result, started))"

definition ymodem_strtol :: "u8 list option \<Rightarrow> int \<Rightarrow> u32 \<Rightarrow> int \<times> u32" where
  "ymodem_strtol str n out =
     (case str of
        None \<Rightarrow> (-1, out)
      | Some s \<Rightarrow>
          if n \<le> 0 then (-1, out)
          else
            let s1 = dropWhile (\<lambda>c. c = 32 \<or> c = 9) (take (nat n) s);
                (sign, s2) = (case s1 of
                   c # s' \<Rightarrow> if c = 45 then (-1, s') else if c = 43 then (1, s') else (1, s1)
                 | [] \<Rightarrow> (1, s1));
                (result, started) = strtol_digits 0 False s2
            in if \<not> started then (-2, out) else (0, result * sign))"

section \<open>Receiving a file\<close>

record ymodem_head =
  yh_file_name :: "u8 list"
  yh_name_len :: u32
  yh_file_size :: u32

record ymodem_data =
  yd_data :: "u8 list"
  yd_offset :: u32
  yd_size :: u32

text \<open>The callbacks act on a state \<open>'s\<close> of the client; a NULL pointer is \<^term>\<open>None\<close>.\<close>

record 's ymodem_callback =
  cb_start :: "(ymodem_head \<Rightarrow> 's \<Rightarrow> 's option) option"
  cb_recv_data :: "(ymodem_data \<Rightarrow> 's \<Rightarrow> 's option) option"
  cb_abort :: "(int \<Rightarrow> 's \<Rightarrow> 's option) option"
  cb_finish :: "(unit \<Rightarrow> 's \<Rightarrow> 's option) option"

definition cb_call :: "('a \<Rightarrow> 's \<Rightarrow> 's option) option \<Rightarrow> 'a \<Rightarrow> 's \<Rightarrow> 's option" where
  "cb_call f a s = (case f of None \<Rightarrow> Some s | Some g \<Rightarrow> g a s)"

record 's ymodem_state =
  y_port :: bool
  cache_frame :: ymodem_frame
  y_head :: ymodem_head
  y_data :: ymodem_data
  y_line :: line
  y_env :: 's

definition ymodem_init :: "bool \<Rightarrow> 's ymodem_state \<Rightarrow> int \<times> 's ymodem_state" where
  "ymodem_init port_null S =
     (if port_null then (ym_code YMODEM_ERR_PARAM, S) else (ym_code YMODEM_OK, S\<lparr>y_port := True\<rparr>))"

definition put :: "ymodem_cmd \<Rightarrow> 's ymodem_state \<Rightarrow> 's ymodem_state" where
  "put c S = S\<lparr>y_line := y_putchar (cmd_char c) (y_line S)\<rparr>"

definition receive_packet :: "'s ymodem_state \<Rightarrow> (int \<times> 's ymodem_state) option" where
  "receive_packet S = do {
     (r, fr, l) \<leftarrow> ymodem_receive_packet YMDOEM_MAX_RETRY (cache_frame S) (y_line S);
     Some (r, S\<lparr>cache_frame := fr, y_line := l\<rparr>)
   }"

definition call_abort :: "'s ymodem_callback \<Rightarrow> ymodem_errcode \<Rightarrow> 's ymodem_state \<Rightarrow> (int \<times> 's ymodem_state) option" where
  "call_abort cb err S = do {
     env \<leftarrow> cb_call (cb_abort cb) (ym_code err) (y_env S);
     Some (ym_code err, S\<lparr>y_env := env\<rparr>)
   }"

fun begin_loop :: "nat \<Rightarrow> 's ymodem_state \<Rightarrow> (bool \<times> 's ymodem_state) option" where
  "begin_loop 0 S = Some (False, S)"
| "begin_loop (Suc i) S = do {
     (r, S) \<leftarrow> receive_packet (put YMODEM_C S);
     (if r = 0 then Some (True, S) else begin_loop i S)
   }"

text \<open>The name length and the length of the size field, as the two \<open>for\<close> loops compute them.\<close>

definition header_fname_len :: "ymodem_frame \<Rightarrow> nat" where
  "header_fname_len fr =
     (case find_loop (\<lambda>i. f_buf fr ! i = 0) 0 (f_pkg_size fr) of Some i \<Rightarrow> i + 1 | None \<Rightarrow> 0)"

definition header_fsize_len :: "ymodem_frame \<Rightarrow> nat" where
  "header_fsize_len fr =
     (let fname_len = header_fname_len fr
      in case find_loop (\<lambda>i. f_buf fr ! i = 32) fname_len (f_pkg_size fr - fname_len) of
           Some i \<Rightarrow> i - fname_len | None \<Rightarrow> 0)"

lemma recv_data_frame:
  "recv_data k fr r = Some (fr', r') \<Longrightarrow>
   f_file_size fr' = f_file_size fr \<and> f_pkg_size fr' = f_pkg_size fr \<and> f_head fr' = f_head fr \<and>
   length (f_buf fr') = length (f_buf fr)"
  by (induction k fr r rule: recv_data.induct) auto

lemma recv_packet_crc_frame:
  "recv_packet_crc fr l = (ok, fr', l') \<Longrightarrow>
   f_file_size fr' = f_file_size fr \<and> f_pkg_size fr' = f_pkg_size fr \<and> f_buf fr' = f_buf fr"
  by (auto simp: recv_packet_crc_def Let_def split: prod.splits option.splits if_splits)

lemma recv_packet_body_frame:
  "recv_packet_body fr l = Some (ok, fr', l') \<Longrightarrow>
   f_file_size fr' = f_file_size fr \<and> f_pkg_size fr' = f_pkg_size fr \<and>
   length (f_buf fr') = length (f_buf fr)"
  by (auto simp: recv_packet_body_def Let_def bind_eq_Some_conv split: prod.splits option.splits if_splits
      dest!: recv_data_frame recv_packet_crc_frame)

lemma ymodem_receive_packet_frame:
  "ymodem_receive_packet n fr l = Some (r, fr', l') \<Longrightarrow>
   f_file_size fr' = f_file_size fr \<and> length (f_buf fr') = length (f_buf fr) \<and>
   (r = 0 \<longrightarrow> f_pkg_size fr' = PACKET_SIZE_128 \<or> f_pkg_size fr' = PACKET_SIZE_1K) \<and> r \<in> {0, 4, -2}"
proof (induction n arbitrary: fr l)
  case (Suc n)
  from Suc.prems show ?case
    by (auto simp: Let_def bind_eq_Some_conv split: prod.splits option.splits if_splits
        dest!: recv_packet_body_frame Suc.IH)
qed auto

lemma sint_sub_packet:
  fixes w :: u32
  assumes "0 < sint w" and "n = 128 \<or> n = 1024"
  shows "sint (w - word_of_nat n) = sint w - int n"
proof -
  have "sint w < 2 ^ 31"
    using sint_less [of w] by simp
  with assms show ?thesis
    by (auto simp: signed_take_bit_int_eq_self_iff sint_word_ariths)
qed

lemma receive_packet_shrinks:
  assumes "receive_packet S = Some (0, S')" and "0 < sint (f_file_size (cache_frame S))"
  shows "sint (f_file_size (cache_frame S') - word_of_nat (f_pkg_size (cache_frame S')))
    < sint (f_file_size (cache_frame S))"
proof -
  have "f_file_size (cache_frame S') = f_file_size (cache_frame S)"
    "f_pkg_size (cache_frame S') = 128 \<or> f_pkg_size (cache_frame S') = 1024"
    using assms(1) by (auto simp: receive_packet_def bind_eq_Some_conv PACKET_SIZE_128_def PACKET_SIZE_1K_def
        dest!: ymodem_receive_packet_frame)
  with sint_sub_packet [OF assms(2)] assms(2) show ?thesis by auto
qed

function ymodem_data_loop :: "'s ymodem_callback \<Rightarrow> 's ymodem_state \<Rightarrow> (int \<times> 's ymodem_state) option" where
  "ymodem_data_loop cb S =
     (if 0 < sint (f_file_size (cache_frame S))
      then do {
        (r, S) \<leftarrow> receive_packet S;
        (if r \<noteq> 0 then call_abort cb YMODEM_ERR_DATA S
         else do {
           let fr = cache_frame S;
           let d = (y_data S)\<lparr>yd_data := f_buf fr, yd_size := word_of_nat (f_pkg_size fr)\<rparr>;
           env \<leftarrow> cb_call (cb_recv_data cb) d (y_env S);
           ymodem_data_loop cb (put YMODEM_ACK
             (S\<lparr>y_data := d\<lparr>yd_offset := yd_offset d + word_of_nat (f_pkg_size fr)\<rparr>,
                cache_frame := fr\<lparr>f_file_size := f_file_size fr - word_of_nat (f_pkg_size fr)\<rparr>,
                y_env := env\<rparr>))
         })
      }
      else Some (0, S))"
  by auto

termination
  by (relation "measure (\<lambda>(cb, S). nat (sint (f_file_size (cache_frame S))))")
    (auto simp: put_def dest: receive_packet_shrinks)

declare ymodem_data_loop.simps [simp del]

text \<open>The end of the transfer: two EOTs and an empty packet.\<close>

definition ymodem_end :: "'s ymodem_callback \<Rightarrow> 's ymodem_state \<Rightarrow> (int \<times> 's ymodem_state) option" where
  "ymodem_end cb S = do {
     (r, S) \<leftarrow> receive_packet S;
     (if r \<noteq> uint (cmd_char YMODEM_EOT) then Some (ym_code YMODEM_OK, S)
      else do {
        (r, S) \<leftarrow> receive_packet (put YMODEM_NAK S);
        (if r \<noteq> uint (cmd_char YMODEM_EOT) then Some (ym_code YMODEM_OK, S)
         else do {
           (r, S) \<leftarrow> receive_packet (put YMODEM_C (put YMODEM_ACK S));
           (if r \<noteq> 0 then Some (ym_code YMODEM_OK, S)
            else if find_loop (\<lambda>i. f_buf (cache_frame S) ! i \<noteq> 0) 0 (f_pkg_size (cache_frame S)) = None
            then do {
              env \<leftarrow> cb_call (cb_finish cb) () (y_env S);
              Some (ym_code YMODEM_OK,
                    S\<lparr>y_line := y_putchar RECV_END_CHAR (y_putchar (cmd_char YMODEM_ACK) (y_line S)), y_env := env\<rparr>)
            }
            else call_abort cb YMODEM_ERR_EOT S)
         })
      })
   }"

definition ymodem_receive :: "'s ymodem_callback option \<Rightarrow> 's ymodem_state \<Rightarrow> (int \<times> 's ymodem_state) option" where
  "ymodem_receive callback S =
     (case callback of
        None \<Rightarrow> Some (ym_code YMODEM_ERR_PARAM, S)
      | Some cb \<Rightarrow>
          if \<not> y_port S then Some (ym_code YMODEM_ERR_PARAM, S)
          else do {
            (begin_recv, S) \<leftarrow> begin_loop YMDOEM_MAX_RETRY S;
            (if \<not> begin_recv then call_abort cb YMODEM_ERR_TIMEOUT S
             else
               let fr = cache_frame S;
                   fname_len = header_fname_len fr;
                   fsize_len = header_fsize_len fr;
                   (ret, file_size) =
                     ymodem_strtol (Some (drop fname_len (f_buf fr))) (int fsize_len) (f_file_size fr);
                   S = S\<lparr>cache_frame := fr\<lparr>f_file_size := file_size\<rparr>\<rparr>
               in if ret \<noteq> 0 then call_abort cb YMODEM_ERR_HEADER S
                  else do {
                    let h = \<lparr>yh_file_name = f_buf fr, yh_name_len = word_of_nat fname_len, yh_file_size = file_size\<rparr>;
                    env \<leftarrow> cb_call (cb_start cb) h (y_env S);
                    let S = S\<lparr>y_head := (case cb_start cb of None \<Rightarrow> y_head S | Some _ \<Rightarrow> h), y_env := env\<rparr>;
                    let S = put YMODEM_C (put YMODEM_ACK S);
                    (r, S) \<leftarrow> ymodem_data_loop cb (S\<lparr>y_data := (y_data S)\<lparr>yd_offset := 0\<rparr>\<rparr>);
                    (if r \<noteq> 0 then Some (r, S) else ymodem_end cb S)
                  })
          })"

end
