(* ===== verification/Ymodem_Facts.thy ===== *)
theory Ymodem_Facts
  imports Ymodem
begin

text \<open>
  Facts about the YMODEM receiver: what a sender puts on the line (packets, the header block, a
  whole transfer) and what the receiver makes of it, which packets it accepts, and how it behaves
  on damaged packets, on a silent line and on a packet that is cut short.
\<close>

section \<open>What a sender puts on the line\<close>

definition packet :: "u8 \<Rightarrow> u8 list \<Rightarrow> u8 list" where
  "packet num data =
     (if length data = PACKET_SIZE_128 then cmd_char YMODEM_SOH else cmd_char YMODEM_STX) # num # NOT num #
     data @ [ucast (drop_bit 8 (ymodem_crc16 data)), ucast (ymodem_crc16 data)]"

definition packet_size :: "nat \<Rightarrow> bool" where
  "packet_size n \<longleftrightarrow> n = PACKET_SIZE_128 \<or> n = PACKET_SIZE_1K"

lemmas packet_sizes = PACKET_SIZE_128_def PACKET_SIZE_1K_def

text \<open>The decimal digits of a number.\<close>

fun decimal :: "nat \<Rightarrow> u8 list" where
  "decimal n = (if n < 10 then [48 + word_of_nat n] else decimal (n div 10) @ [48 + word_of_nat (n mod 10)])"

declare decimal.simps [simp del]

text \<open>The header block: file name, NUL, size, a space and whatever else the sender adds.\<close>

definition header_block :: "u8 list \<Rightarrow> nat \<Rightarrow> u8 list \<Rightarrow> u8 list" where
  "header_block name n rest = name @ [0] @ decimal n @ [32] @ rest"

section \<open>Characters on the line\<close>

lemma y_getchar_simps [simp]:
  "y_getchar \<lparr>rx = [], tx = t\<rparr> = (None, \<lparr>rx = [], tx = t\<rparr>)"
  "y_getchar \<lparr>rx = c # r, tx = t\<rparr> = (c, \<lparr>rx = r, tx = t\<rparr>)"
  by (simp_all add: y_getchar_def)

lemma y_putchar_simps [simp]: "y_putchar c \<lparr>rx = r, tx = t\<rparr> = \<lparr>rx = r, tx = t @ [c]\<rparr>"
  by (simp add: y_putchar_def)

definition chars :: "u8 option list \<Rightarrow> u8 list" where
  "chars r = map the (filter (\<lambda>x. x \<noteq> None) r)"

lemma chars_simps [simp]:
  "chars [] = []" "chars (None # r) = chars r" "chars (Some c # r) = c # chars r"
  "chars (r @ r') = chars r @ chars r'" "chars (map Some d) = d"
  by (simp_all add: chars_def comp_def)

section \<open>The data of a packet\<close>

lemma recv_data_hangs: "length (chars r) < k \<Longrightarrow> recv_data k fr r = None"
  by (induction k fr r rule: recv_data.induct) auto

lemma patch_step:
  "off < length b \<Longrightarrow> patch (Suc off) ds (b[off := c]) = patch off (c # ds) b"
  by (simp add: patch_def take_Suc_conv_app_nth)

lemma recv_data_consumes:
  "f_offset fr + length (chars d) \<le> length (f_buf fr) \<Longrightarrow> d = [] \<or> (\<exists>c. last d = Some c) \<Longrightarrow>
   recv_data (length (chars d)) fr (d @ r) =
   Some (fr\<lparr>f_buf := patch (f_offset fr) (chars d) (f_buf fr), f_offset := f_offset fr + length (chars d)\<rparr>, r)"
proof (induction d arbitrary: fr)
  case (Cons x d)
  show ?case
  proof (cases x)
    case None
    with Cons.prems have "d \<noteq> []" "\<exists>c. last d = Some c" by (auto split: if_splits)
    then have "chars d \<noteq> []"
      using last_in_set [of d] by (force simp: chars_def filter_empty_conv)
    then obtain k where k: "length (chars d) = Suc k" by (cases "chars d") auto
    from Cons None k \<open>d \<noteq> []\<close> show ?thesis by simp
  next
    case (Some c)
    then have "d = [] \<or> (\<exists>c. last d = Some c)"
      using Cons.prems(2) by (auto split: if_splits)
    with Cons Some show ?thesis
      by (simp add: patch_step)
  qed
qed (simp add: ac_simps)

lemma recv_data_Some:
  "recv_data k fr r = Some (fr', r') \<Longrightarrow> f_offset fr + k \<le> length (f_buf fr) \<Longrightarrow>
   \<exists>d. r = d @ r' \<and> length (chars d) = k \<and>
     fr' = fr\<lparr>f_buf := patch (f_offset fr) (chars d) (f_buf fr), f_offset := f_offset fr + k\<rparr>"
proof (induction k fr r rule: recv_data.induct)
  case (1 fr r)
  then show ?case by (intro exI [of _ "[]"]) simp
next
  case (3 k fr r)
  then obtain d where "r = d @ r'" "length (chars d) = Suc k"
    "fr' = fr\<lparr>f_buf := patch (f_offset fr) (chars d) (f_buf fr), f_offset := f_offset fr + Suc k\<rparr>"
    by auto
  then show ?case by (intro exI [of _ "None # d"]) simp
next
  case (4 k fr c r)
  then obtain d where "r = d @ r'" "length (chars d) = k"
    "fr' = fr\<lparr>f_buf := patch (Suc (f_offset fr)) (chars d) ((f_buf fr)[f_offset fr := c]),
      f_offset := f_offset fr + Suc k\<rparr>"
    by auto
  with "4.prems" show ?case by (intro exI [of _ "Some c # d"]) (simp add: patch_step)
qed simp

section \<open>One packet\<close>

lemma crc_halves:
  fixes c :: u16
  shows "(push_bit 8 (ucast (ucast (drop_bit 8 c) :: u8)) AND 0xFF00) OR (ucast (ucast c :: u8) AND 0x00FF) = c"
  (is "?w = c")
proof -
  have m: "(0xFF00 :: u16) = push_bit 8 (mask 8)" "(0x00FF :: u16) = mask 8"
    by (simp_all add: mask_eq_exp_minus_1)
  show ?thesis
  proof (rule bit_word_eqI)
    fix n :: nat assume "n < LENGTH(16)"
    then consider "n < 8" | "8 \<le> n \<and> n < 16" by fastforce
    then show "bit ?w n \<longleftrightarrow> bit c n"
      unfolding m by cases (auto simp: bit_simps)
  qed
qed

lemma crc_join:
  fixes h l :: u8
  shows "(push_bit 8 (ucast h) AND 0xFF00) OR (ucast l AND 0x00FF) = push_bit 8 (ucast h) OR (ucast l :: u16)"
proof -
  have m: "(0xFF00 :: u16) = push_bit 8 (mask 8)" "(0x00FF :: u16) = mask 8"
    by (simp_all add: mask_eq_exp_minus_1)
  show ?thesis
    unfolding m by (rule bit_word_eqI) (auto simp: bit_simps dest: bit_u8_lt)
qed

lemma complement_u8: "a XOR b = 0xFF \<longleftrightarrow> b = NOT (a :: u8)"
proof -
  have m: "(0xFF :: u8) = mask 8"
    by (simp add: mask_eq_exp_minus_1)
  have "(0xFF :: u8) = a XOR NOT a"
    unfolding m by (rule bit_word_eqI) (auto simp: bit_simps)
  then show ?thesis
    using xor_left_cancel [of a b "NOT a"] by (simp only:)
qed

text \<open>The frame after a packet with these bytes has been read.\<close>

definition frame_after :: "u8 \<Rightarrow> u8 list \<Rightarrow> u8 \<Rightarrow> u8 \<Rightarrow> ymodem_frame \<Rightarrow> ymodem_frame" where
  "frame_after num data h c fr =
     fr\<lparr>f_head := (if length data = PACKET_SIZE_128 then cmd_char YMODEM_SOH else cmd_char YMODEM_STX),
        f_pkg_size := length data, f_pack_num := num, f_pack_mask := NOT num,
        f_buf := patch 0 data (f_buf fr), f_offset := length data, f_crc_h := h, f_crc_l := c\<rparr>"

lemma frame_after_simps [simp]:
  "f_pkg_size (frame_after num data h c fr) = length data"
  "f_file_size (frame_after num data h c fr) = f_file_size fr"
  "f_buf (frame_after num data h c fr) = patch 0 data (f_buf fr)"
  by (simp_all add: frame_after_def)

lemma take_patch_0 [simp]: "length ys \<le> length xs \<Longrightarrow> take (length ys) (patch 0 ys xs) = ys"
  by (simp add: patch_def)

lemma receive_whole_packet:
  assumes size: "packet_size (length data)" and buf: "length (f_buf fr) = PACKET_SIZE_1K"
  shows "ymodem_receive_packet (Suc n) fr
    \<lparr>rx = map Some ((if length data = PACKET_SIZE_128 then cmd_char YMODEM_SOH else cmd_char YMODEM_STX) #
        num # NOT num # data @ [h, c]) @ r, tx = t\<rparr> =
    (if push_bit 8 (ucast h) OR ucast c = ymodem_crc16 data
     then Some (0, frame_after num data h c fr, \<lparr>rx = r, tx = t\<rparr>)
     else ymodem_receive_packet n (frame_after num data h c fr) \<lparr>rx = r, tx = t @ [cmd_char YMODEM_NAK]\<rparr>)"
proof -
  have ff: "num XOR NOT num = 0xFF"
    by (simp add: complement_u8)
  have last: "map Some data = [] \<or> (\<exists>c. last (map Some data) = Some c)"
    by (cases "data = []") (simp_all add: last_map)
  have len: "length data \<le> length (f_buf fr)"
    using size buf by (auto simp: packet_size_def packet_sizes)
  let ?fr = "fr\<lparr>f_head := (if length data = PACKET_SIZE_128 then cmd_char YMODEM_SOH else cmd_char YMODEM_STX),
     f_pkg_size := length data, f_pack_num := num, f_pack_mask := NOT num, f_offset := 0\<rparr>"
  have data: "recv_data (length data) ?fr (map Some data @ r') =
     Some (?fr\<lparr>f_buf := patch 0 data (f_buf fr), f_offset := length data\<rparr>, r')" for r'
    using recv_data_consumes [OF _ last, of ?fr r'] len by simp
  have body: "recv_packet_body (fr\<lparr>f_head := (if length data = PACKET_SIZE_128 then cmd_char YMODEM_SOH else cmd_char YMODEM_STX),
     f_pkg_size := length data\<rparr>) \<lparr>rx = Some num # Some (NOT num) # map Some data @ Some h # Some c # r, tx = t\<rparr> =
     Some (push_bit 8 (ucast h) OR ucast c = ymodem_crc16 data, frame_after num data h c fr,
       \<lparr>rx = r, tx = t @ (if push_bit 8 (ucast h) OR ucast c = ymodem_crc16 data then [] else [cmd_char YMODEM_NAK])\<rparr>)"
    using len by (simp add: recv_packet_body_def ff data recv_packet_crc_def Let_def frame_after_def
        crc_join [simplified])
  show ?thesis
    using body size by (auto simp: packet_size_def packet_sizes split: if_splits)
qed

lemma receive_packet_ok:
  assumes "packet_size (length data)" and "length (f_buf fr) = PACKET_SIZE_1K"
  shows "ymodem_receive_packet (Suc n) fr \<lparr>rx = map Some (packet num data) @ r, tx = t\<rparr> =
    Some (0, frame_after num data (ucast (drop_bit 8 (ymodem_crc16 data))) (ucast (ymodem_crc16 data)) fr,
      \<lparr>rx = r, tx = t\<rparr>)"
proof -
  have "push_bit 8 (ucast (ucast (drop_bit 8 (ymodem_crc16 data)) :: u8)) OR
      ucast (ucast (ymodem_crc16 data) :: u8) = ymodem_crc16 data"
    using crc_halves [of "ymodem_crc16 data"] by (simp only: crc_join)
  then show ?thesis
    using receive_whole_packet [OF assms, of n num "ucast (drop_bit 8 (ymodem_crc16 data))"
        "ucast (ymodem_crc16 data)" r t]
    by (simp add: packet_def del: ymodem_receive_packet.simps)
qed

lemma receive_packet_eot:
  "ymodem_receive_packet (Suc n) fr \<lparr>rx = Some (cmd_char YMODEM_EOT) # r, tx = t\<rparr> =
   Some (4, fr\<lparr>f_head := 4\<rparr>, \<lparr>rx = r, tx = t\<rparr>)"
  by simp

lemma receive_packet_silent:
  "set (rx l) \<subseteq> {None} \<Longrightarrow> ymodem_receive_packet n fr l = Some (-2, fr, l\<lparr>rx := drop n (rx l)\<rparr>)"
proof (induction n arbitrary: l)
  case (Suc n)
  show ?case
  proof (cases "rx l")
    case Nil
    then show ?thesis using Suc.IH [of l] by (simp add: y_getchar_def)
  next
    case (Cons x r)
    with Suc show ?thesis by (simp add: y_getchar_def)
  qed
qed simp

section \<open>Parsing the header block\<close>

lemma word_digit:
  assumes "d < 10"
  shows "48 \<le> 48 + (word_of_nat d :: u8) \<and> 48 + (word_of_nat d :: u8) \<le> 57"
    and "ucast (48 + (word_of_nat d :: u8)) - 48 = (word_of_nat d :: u32)"
proof -
  have u: "unat (48 + (word_of_nat d :: u8)) = 48 + d"
    using assms by (simp add: unat_word_ariths unat_of_nat)
  then show "48 \<le> 48 + (word_of_nat d :: u8) \<and> 48 + (word_of_nat d :: u8) \<le> 57"
    using assms by (simp add: word_le_nat_alt)
  have "(ucast (48 + (word_of_nat d :: u8)) :: u32) = word_of_nat (48 + d)"
    using assms by (simp add: word_unat_eq_iff u unat_of_nat del: of_nat_add)
  then show "ucast (48 + (word_of_nat d :: u8)) - 48 = (word_of_nat d :: u32)"
    by simp
qed

lemma strtol_digits_decimal:
  "strtol_digits 0 b (decimal n @ s) = strtol_digits (word_of_nat n) True s"
proof (induction n arbitrary: s rule: decimal.induct)
  case (1 n)
  show ?case
  proof (cases "n < 10")
    case True
    then show ?thesis by (simp add: decimal.simps [of n] word_digit)
  next
    case False
    have "(word_of_nat (n div 10) * 10 + word_of_nat (n mod 10) :: u32) = word_of_nat (n div 10 * 10 + n mod 10)"
      by (simp only: of_nat_add of_nat_mult of_nat_numeral)
    then have "(word_of_nat (n div 10) * 10 + word_of_nat (n mod 10) :: u32) = word_of_nat n"
      by simp
    with False 1 show ?thesis
      by (simp add: decimal.simps [of n] word_digit del: of_nat_add of_nat_mult)
  qed
qed

lemma decimal_digits: "c \<in> set (decimal n) \<Longrightarrow> 48 \<le> c \<and> c \<le> 57"
proof (induction n rule: decimal.induct)
  case (1 n)
  then show ?case
    by (subst (asm) decimal.simps) (auto simp: word_digit split: if_splits)
qed

lemma decimal_not_Nil [simp]: "decimal n \<noteq> []"
  by (subst decimal.simps) simp

lemma ymodem_strtol_decimal:
  "ymodem_strtol (Some (decimal n @ s)) (int (length (decimal n))) out = (0, word_of_nat n)"
proof -
  obtain c ds where c: "decimal n = c # ds"
    by (cases "decimal n") auto
  then have "48 \<le> c" "c \<le> 57"
    using decimal_digits [of c n] by auto
  then have "c \<noteq> 32" "c \<noteq> 9" "c \<noteq> 45" "c \<noteq> 43"
    by (auto simp: word_le_nat_alt)
  then have "dropWhile (\<lambda>c. c = 32 \<or> c = 9) (decimal n) = decimal n"
    "(case decimal n of c # s' \<Rightarrow> if c = 45 then (-1, s') else if c = 43 then (1, s') else (1, decimal n)
        | [] \<Rightarrow> (1, decimal n)) = (1 :: u32, decimal n)"
    using c by simp_all
  with strtol_digits_decimal [of False n "[]"] show ?thesis
    by (simp add: ymodem_strtol_def Let_def)
qed

lemma nth_patch_0: "i < length ys \<Longrightarrow> patch 0 ys xs ! i = ys ! i"
  by (simp add: patch_def nth_append)

lemma header_lengths:
  assumes name: "0 \<notin> set name" and pkg: "f_pkg_size fr = length (header_block name n rest)"
    and buf: "f_buf fr = patch 0 (header_block name n rest) old"
  shows "header_fname_len fr = length name + 1" and "header_fsize_len fr = length (decimal n)"
    and "drop (length name + 1) (f_buf fr) = decimal n @ 32 # rest @ drop (length (header_block name n rest)) old"
proof -
  have nth: "f_buf fr ! i = header_block name n rest ! i" if "i < length (header_block name n rest)" for i
    using that by (simp add: buf nth_patch_0)
  have len: "length (header_block name n rest) = length name + 1 + length (decimal n) + 1 + length rest"
    by (simp add: header_block_def)
  have "find_loop (\<lambda>i. f_buf fr ! i = 0) 0 (f_pkg_size fr) = Some (length name)"
    unfolding find_loop_Some pkg len using name
    by (auto simp: nth len header_block_def nth_append dest: nth_mem)
  then show fname: "header_fname_len fr = length name + 1"
    by (simp add: header_fname_len_def)
  have "f_buf fr ! i \<noteq> 32" if "length name + 1 \<le> i" "i < length name + 1 + length (decimal n)" for i
  proof -
    have "f_buf fr ! i = decimal n ! (i - (length name + 1))"
      using that by (auto simp: nth len header_block_def nth_append nth_Cons')
    moreover have "decimal n ! (i - (length name + 1)) \<in> set (decimal n)"
      using that by (intro nth_mem) arith
    ultimately show ?thesis
      using decimal_digits [of "f_buf fr ! i" n] by (auto simp: word_le_nat_alt)
  qed
  then have "find_loop (\<lambda>i. f_buf fr ! i = 32) (length name + 1) (f_pkg_size fr - (length name + 1)) =
      Some (length name + 1 + length (decimal n))"
    unfolding find_loop_Some pkg len
    by (auto simp: nth len header_block_def nth_append)
  then show "header_fsize_len fr = length (decimal n)"
    by (simp add: header_fsize_len_def fname Let_def)
  show "drop (length name + 1) (f_buf fr) = decimal n @ 32 # rest @ drop (length (header_block name n rest)) old"
    by (simp add: buf patch_def header_block_def)
qed

section \<open>A whole transfer\<close>

text \<open>A client that reads only the bytes that the receiver announces.\<close>

definition client ::
  "(u8 list \<Rightarrow> u32 \<Rightarrow> 's \<Rightarrow> 's option) \<Rightarrow> (u32 \<Rightarrow> u8 list \<Rightarrow> 's \<Rightarrow> 's option) \<Rightarrow> (int \<Rightarrow> 's \<Rightarrow> 's option) \<Rightarrow>
   ('s \<Rightarrow> 's option) \<Rightarrow> 's ymodem_callback" where
  "client start data abort finish =
     \<lparr>cb_start = Some (\<lambda>h. start (take (unat (yh_name_len h) - 1) (yh_file_name h)) (yh_file_size h)),
      cb_recv_data = Some (\<lambda>d. data (yd_offset d) (take (unat (yd_size d)) (yd_data d))),
      cb_abort = Some abort, cb_finish = Some (\<lambda>_. finish)\<rparr>"

text \<open>Any set of callbacks that behaves like such a client on the calls that the receiver makes.\<close>

definition is_client ::
  "'s ymodem_callback \<Rightarrow> (u8 list \<Rightarrow> u32 \<Rightarrow> 's \<Rightarrow> 's option) \<Rightarrow> (u32 \<Rightarrow> u8 list \<Rightarrow> 's \<Rightarrow> 's option) \<Rightarrow>
   (int \<Rightarrow> 's \<Rightarrow> 's option) \<Rightarrow> ('s \<Rightarrow> 's option) \<Rightarrow> bool" where
  "is_client cb start data abort finish \<longleftrightarrow>
     (\<exists>f. cb_start cb = Some f \<and> (\<forall>h. f h = start (take (unat (yh_name_len h) - 1) (yh_file_name h)) (yh_file_size h))) \<and>
     (\<exists>f. cb_recv_data cb = Some f \<and> (\<forall>d. unat (yd_size d) \<le> length (yd_data d) \<longrightarrow>
        f d = data (yd_offset d) (take (unat (yd_size d)) (yd_data d)))) \<and>
     cb_abort cb = Some abort \<and> cb_finish cb = Some (\<lambda>_. finish)"

lemma is_client_client: "is_client (client start data abort finish) start data abort finish"
  by (simp add: is_client_def client_def)

text \<open>The blocks delivered one after the other, each at its offset in the file.\<close>

fun deliver :: "(u32 \<Rightarrow> u8 list \<Rightarrow> 's \<Rightarrow> 's option) \<Rightarrow> u32 \<Rightarrow> u8 list list \<Rightarrow> 's \<Rightarrow> 's option" where
  "deliver data off [] s = Some s"
| "deliver data off (b # bs) s = data off b s \<bind> deliver data (off + word_of_nat (length b)) bs"

text \<open>As many blocks as the file size asks for.\<close>

fun fits :: "int \<Rightarrow> nat list \<Rightarrow> bool" where
  "fits fs [] \<longleftrightarrow> fs \<le> 0"
| "fits fs (n # ns) \<longleftrightarrow> 0 < fs \<and> fits (fs - int n) ns"

definition data_packets :: "(u8 \<times> u8 list) list \<Rightarrow> u8 list" where
  "data_packets blocks = concat (map (\<lambda>(num, b). packet num b) blocks)"

lemma data_packets_simps [simp]:
  "data_packets [] = []" "data_packets ((num, b) # bl) = packet num b @ data_packets bl"
  by (simp_all add: data_packets_def)

lemma state_receive_packet_ok:
  assumes "packet_size (length data)" and "length (f_buf (cache_frame S)) = PACKET_SIZE_1K"
    and "y_line S = \<lparr>rx = map Some (packet num data) @ r, tx = t\<rparr>"
  shows "receive_packet S = Some (0, S\<lparr>cache_frame :=
      frame_after num data (ucast (drop_bit 8 (ymodem_crc16 data))) (ucast (ymodem_crc16 data)) (cache_frame S),
    y_line := \<lparr>rx = r, tx = t\<rparr>\<rparr>)"
  using receive_packet_ok [OF assms(1,2), of 99] assms(3)
  by (simp add: receive_packet_def YMDOEM_MAX_RETRY_def del: ymodem_receive_packet.simps)

lemma data_loop_transfer:
  "is_client cb start data abort finish \<Longrightarrow> fits (sint (f_file_size (cache_frame S))) (map (length \<circ> snd) blocks) \<Longrightarrow>
   \<forall>(num, b) \<in> set blocks. packet_size (length b) \<Longrightarrow>
   length (f_buf (cache_frame S)) = PACKET_SIZE_1K \<Longrightarrow>
   y_line S = \<lparr>rx = map Some (data_packets blocks) @ r, tx = t\<rparr> \<Longrightarrow>
   deliver data (yd_offset (y_data S)) (map snd blocks) (y_env S) = Some s' \<Longrightarrow>
   \<exists>S'. ymodem_data_loop cb S = Some (0, S') \<and>
     y_line S' = \<lparr>rx = r, tx = t @ replicate (length blocks) (cmd_char YMODEM_ACK)\<rparr> \<and>
     y_env S' = s' \<and> length (f_buf (cache_frame S')) = PACKET_SIZE_1K"
proof (induction blocks arbitrary: S t)
  case Nil
  then show ?case by (subst ymodem_data_loop.simps) simp
next
  case (Cons nb blocks)
  obtain num b where nb: "nb = (num, b)" by (cases nb)
  let ?fr = "frame_after num b (ucast (drop_bit 8 (ymodem_crc16 b))) (ucast (ymodem_crc16 b)) (cache_frame S)"
  let ?d = "(y_data S)\<lparr>yd_data := f_buf ?fr, yd_size := word_of_nat (length b)\<rparr>"
  from Cons.prems nb obtain s1 where s1: "data (yd_offset (y_data S)) b (y_env S) = Some s1"
    "deliver data (yd_offset (y_data S) + word_of_nat (length b)) (map snd blocks) s1 = Some s'"
    by (auto simp: bind_eq_Some_conv)
  have size: "packet_size (length b)" "length b = 128 \<or> length b = 1024"
    using Cons.prems(3) nb by (auto simp: packet_size_def packet_sizes)
  have blen: "length b \<le> length (f_buf (cache_frame S))"
    using size Cons.prems(4) by (auto simp: packet_sizes)
  have recv: "receive_packet S = Some (0, S\<lparr>cache_frame := ?fr,
      y_line := \<lparr>rx = map Some (data_packets blocks) @ r, tx = t\<rparr>\<rparr>)"
    using state_receive_packet_ok [OF size(1) Cons.prems(4)] Cons.prems(5) nb by simp
  let ?S = "put YMODEM_ACK (S\<lparr>y_line := \<lparr>rx = map Some (data_packets blocks) @ r, tx = t\<rparr>, y_data := ?d\<lparr>yd_offset := yd_offset ?d + word_of_nat (length b)\<rparr>,
     cache_frame := ?fr\<lparr>f_file_size := f_file_size (cache_frame S) - word_of_nat (length b)\<rparr>,
     y_env := s1\<rparr>)"
  have pos: "0 < sint (f_file_size (cache_frame S))"
    using Cons.prems(2) by simp
  have "unat (word_of_nat (length b) :: u32) = length b"
    using size(2) by auto
  then have cb: "cb_call (cb_recv_data cb) ?d (y_env S) = Some s1"
    using s1(1) blen take_patch_0 [OF blen] Cons.prems(1) by (auto simp: cb_call_def is_client_def)
  have step: "ymodem_data_loop cb S =
      ymodem_data_loop cb ?S"
    by (subst ymodem_data_loop.simps) (simp add: pos recv cb [simplified] Let_def)
  have "\<exists>S'. ymodem_data_loop cb ?S = Some (0, S') \<and>
      y_line S' = \<lparr>rx = r, tx = (t @ [cmd_char YMODEM_ACK]) @ replicate (length blocks) (cmd_char YMODEM_ACK)\<rparr> \<and>
      y_env S' = s' \<and> length (f_buf (cache_frame S')) = PACKET_SIZE_1K"
    by (rule Cons.IH)
      (use Cons.prems nb s1 size blen pos in \<open>auto simp: put_def sint_sub_packet\<close>)
  then show ?case
    unfolding step by (simp add: replicate_append_same [symmetric])
qed

lemma state_receive_packet_eot:
  assumes "y_line S = \<lparr>rx = Some (cmd_char YMODEM_EOT) # r, tx = t\<rparr>"
  shows "receive_packet S = Some (4, S\<lparr>cache_frame := (cache_frame S)\<lparr>f_head := 4\<rparr>,
    y_line := \<lparr>rx = r, tx = t\<rparr>\<rparr>)"
  using receive_packet_eot [of 99 "cache_frame S" r t] assms
  by (simp add: receive_packet_def YMDOEM_MAX_RETRY_def del: ymodem_receive_packet.simps)

definition closing :: "u8 \<Rightarrow> nat \<Rightarrow> u8 list" where
  "closing num n = [cmd_char YMODEM_EOT, cmd_char YMODEM_EOT] @ packet num (replicate n 0)"

lemma ymodem_end_transfer:
  assumes client: "is_client cb start data abort finish" and line: "y_line S = \<lparr>rx = map Some (closing num n) @ r, tx = t\<rparr>"
    and buf: "length (f_buf (cache_frame S)) = PACKET_SIZE_1K" and size: "packet_size n"
    and fin: "finish (y_env S) = Some s'"
  shows "\<exists>S'. ymodem_end cb S = Some (0, S') \<and>
    y_line S' = \<lparr>rx = r, tx = t @ map cmd_char [YMODEM_NAK, YMODEM_ACK, YMODEM_C, YMODEM_ACK] @ [RECV_END_CHAR]\<rparr> \<and>
    y_env S' = s'"
proof -
  let ?r1 = "map Some (packet num (replicate n 0)) @ r"
  let ?S1 = "S\<lparr>cache_frame := (cache_frame S)\<lparr>f_head := 4\<rparr>, y_line := \<lparr>rx = Some 4 # ?r1, tx = t\<rparr>\<rparr>"
  have 1: "receive_packet S = Some (4, ?S1)"
    using state_receive_packet_eot [of S "Some 4 # ?r1" t] line by (simp add: closing_def)
  let ?S2 = "S\<lparr>cache_frame := (cache_frame S)\<lparr>f_head := 4\<rparr>,
    y_line := \<lparr>rx = ?r1, tx = t @ [cmd_char YMODEM_NAK]\<rparr>\<rparr>"
  have 2: "receive_packet (put YMODEM_NAK ?S1) = Some (4, ?S2)"
    using state_receive_packet_eot [of "put YMODEM_NAK ?S1" ?r1 "t @ [cmd_char YMODEM_NAK]"]
    by (simp add: put_def)
  let ?z = "replicate n (0 :: u8)"
  let ?fr = "frame_after num ?z (ucast (drop_bit 8 (ymodem_crc16 ?z))) (ucast (ymodem_crc16 ?z)) ((cache_frame S)\<lparr>f_head := 4\<rparr>)"
  let ?t3 = "t @ map cmd_char [YMODEM_NAK, YMODEM_ACK, YMODEM_C]"
  have 3: "receive_packet (put YMODEM_C (put YMODEM_ACK ?S2)) =
      Some (0, S\<lparr>cache_frame := ?fr, y_line := \<lparr>rx = r, tx = ?t3\<rparr>\<rparr>)"
    using state_receive_packet_ok [of ?z "put YMODEM_C (put YMODEM_ACK ?S2)" num r ?t3] buf size
    by (simp add: put_def)
  have "find_loop (\<lambda>i. f_buf ?fr ! i \<noteq> 0) 0 (f_pkg_size ?fr) = None"
    unfolding find_loop_None by (simp add: nth_patch_0)
  then show ?thesis
    using fin client by (auto simp: ymodem_end_def 1 2 3 [simplified] cb_call_def is_client_def)
qed

text \<open>What the receiver has done when the header block has been read.\<close>

lemma ymodem_receive_header:
  assumes client: "is_client cb start data abort finish" and port: "y_port S" and buf: "length (f_buf (cache_frame S)) = PACKET_SIZE_1K"
    and name: "0 \<notin> set name" and size: "packet_size (length (header_block name n rest))"
    and line: "y_line S = \<lparr>rx = map Some (packet num (header_block name n rest)) @ r, tx = t\<rparr>"
    and start: "start name (word_of_nat n) (y_env S) = Some s1"
  obtains S1 where
    "ymodem_receive (Some cb) S =
       (ymodem_data_loop cb S1 \<bind>
        (\<lambda>(r, S). if r \<noteq> 0 then Some (r, S) else ymodem_end cb S))"
    "y_line S1 = \<lparr>rx = r, tx = t @ map cmd_char [YMODEM_C, YMODEM_ACK, YMODEM_C]\<rparr>"
    "y_env S1 = s1" "yd_offset (y_data S1) = 0" "f_file_size (cache_frame S1) = word_of_nat n"
    "length (f_buf (cache_frame S1)) = PACKET_SIZE_1K"
proof -
  let ?h = "header_block name n rest"
  let ?fr = "frame_after num ?h (ucast (drop_bit 8 (ymodem_crc16 ?h))) (ucast (ymodem_crc16 ?h)) (cache_frame S)"
  let ?S0 = "S\<lparr>cache_frame := ?fr, y_line := \<lparr>rx = r, tx = t @ [cmd_char YMODEM_C]\<rparr>\<rparr>"
  have hlen: "length ?h \<le> length (f_buf (cache_frame S))" "length name < length ?h" "length ?h < 2 ^ 32"
    using size buf by (auto simp: packet_size_def packet_sizes header_block_def)
  have "receive_packet (put YMODEM_C S) = Some (0, ?S0)"
    using state_receive_packet_ok [of ?h "put YMODEM_C S" num r "t @ [cmd_char YMODEM_C]"] size buf line
    by (simp add: put_def)
  then have loop: "begin_loop YMDOEM_MAX_RETRY S = Some (True, ?S0)"
    by (simp add: YMDOEM_MAX_RETRY_def numeral_eq_Suc)
  have fr: "f_pkg_size ?fr = length ?h" "f_buf ?fr = patch 0 ?h (f_buf (cache_frame S))"
    by simp_all
  note lens = header_lengths [OF name fr]
  have strtol: "ymodem_strtol (Some (drop (header_fname_len ?fr) (f_buf ?fr))) (int (header_fsize_len ?fr)) out =
      (0, word_of_nat n)" for out
    unfolding lens using ymodem_strtol_decimal by simp
  have fname: "unat (word_of_nat (length name + 1) :: u32) = length name + 1"
    using hlen by (simp add: unat_of_nat take_bit_nat_eq_self_iff del: of_nat_add of_nat_Suc)
  have "take (length name) (f_buf ?fr) = name"
    by (simp add: patch_def header_block_def)
  with client have cb: "cb_call (cb_start cb)
      \<lparr>yh_file_name = f_buf ?fr, yh_name_len = word_of_nat (header_fname_len ?fr), yh_file_size = word_of_nat n\<rparr>
      (y_env S) = Some s1"
    unfolding lens using start fname by (auto simp: cb_call_def is_client_def simp del: of_nat_add of_nat_Suc)
  obtain f where f: "cb_start cb = Some f"
    using client by (auto simp: is_client_def)
  show thesis
    by (rule that [of "(put YMODEM_C (put YMODEM_ACK (?S0\<lparr>cache_frame := ?fr\<lparr>f_file_size := word_of_nat n\<rparr>,
        y_head := \<lparr>yh_file_name = f_buf ?fr, yh_name_len = word_of_nat (header_fname_len ?fr), yh_file_size = word_of_nat n\<rparr>,
        y_env := s1\<rparr>)))\<lparr>y_data := (y_data S)\<lparr>yd_offset := 0\<rparr>\<rparr>"])
      (use port buf hlen in \<open>simp_all add: ymodem_receive_def loop strtol [simplified] cb [unfolded f, simplified] f Let_def put_def\<close>)
qed

section \<open>Properties\<close>

lemma receive_transfer:
  assumes client: "is_client cb start data abort finish" and port: "y_port S" and buf: "length (f_buf (cache_frame S)) = PACKET_SIZE_1K"
    and name: "0 \<notin> set name" and head: "packet_size (length (header_block name n rest))"
    and size: "n < 2 ^ 31" and blocks: "\<forall>(k, b) \<in> set blocks. packet_size (length b)"
    and fit: "fits (int n) (map (length \<circ> snd) blocks)" and empty: "packet_size z"
    and line: "y_line S = \<lparr>rx = map Some (packet num (header_block name n rest) @ data_packets blocks @
        closing num' z) @ r, tx = t\<rparr>"
    and cbs: "start name (word_of_nat n) (y_env S) = Some s1"
      "deliver data 0 (map snd blocks) s1 = Some s2" "finish s2 = Some s3"
  shows "\<exists>S'. ymodem_receive (Some cb) S = Some (0, S') \<and> y_env S' = s3 \<and>
    y_line S' = \<lparr>rx = r, tx = t @ map cmd_char ([YMODEM_C, YMODEM_ACK, YMODEM_C] @
      replicate (length blocks) YMODEM_ACK @ [YMODEM_NAK, YMODEM_ACK, YMODEM_C, YMODEM_ACK]) @ [RECV_END_CHAR]\<rparr>"
proof -
  have line': "y_line S = \<lparr>rx = map Some (packet num (header_block name n rest)) @
      (map Some (data_packets blocks) @ map Some (closing num' z) @ r), tx = t\<rparr>"
    using line by simp
  obtain S1 where S1: "ymodem_receive (Some cb) S =
       (ymodem_data_loop cb S1 \<bind>
        (\<lambda>(r, S). if r \<noteq> 0 then Some (r, S) else ymodem_end cb S))"
    "y_line S1 = \<lparr>rx = map Some (data_packets blocks) @ map Some (closing num' z) @ r,
       tx = t @ map cmd_char [YMODEM_C, YMODEM_ACK, YMODEM_C]\<rparr>"
    "y_env S1 = s1" "yd_offset (y_data S1) = 0" "f_file_size (cache_frame S1) = word_of_nat n"
    "length (f_buf (cache_frame S1)) = PACKET_SIZE_1K"
    by (rule ymodem_receive_header [where cb = cb and start = start and name = name and data = data and abort = abort
        and finish = finish, OF client port buf name head line' cbs(1)])
  have "sint (word_of_nat n :: u32) = int n"
    using size by (simp add: signed_of_nat signed_take_bit_int_eq_self_iff)
  then obtain S2 where S2: "ymodem_data_loop cb S1 = Some (0, S2)"
    "y_line S2 = \<lparr>rx = map Some (closing num' z) @ r, tx = (t @ map cmd_char [YMODEM_C, YMODEM_ACK, YMODEM_C]) @
      replicate (length blocks) (cmd_char YMODEM_ACK)\<rparr>"
    "y_env S2 = s2" "length (f_buf (cache_frame S2)) = PACKET_SIZE_1K"
    using data_loop_transfer [OF client, of S1 blocks] S1 fit blocks cbs(2) by fastforce
  show ?thesis
    using ymodem_end_transfer [OF client S2(2,4) empty, of s3] S2(3) cbs(3)
    by (simp add: S1(1) S2(1)) fastforce
qed

text \<open>C21: A transfer as a sender performs it (header block, data packets of either size, two EOTs
  and an empty packet) is received completely: the client is given the name, the size, every block
  in order at its offset and the end, the receiver answers each packet as the protocol asks, and
  the result is \<open>YMODEM_OK\<close>.  The packet numbers are arbitrary: they are never compared.\<close>

theorem ymodem_receive_transfer:
  assumes port: "y_port S" and buf: "length (f_buf (cache_frame S)) = PACKET_SIZE_1K"
    and name: "0 \<notin> set name" and head: "packet_size (length (header_block name n rest))"
    and size: "n < 2 ^ 31" and blocks: "\<forall>(k, b) \<in> set blocks. packet_size (length b)"
    and fit: "fits (int n) (map (length \<circ> snd) blocks)" and empty: "packet_size z"
    and line: "y_line S = \<lparr>rx = map Some (packet num (header_block name n rest) @ data_packets blocks @
        closing num' z) @ r, tx = t\<rparr>"
    and cbs: "start name (word_of_nat n) (y_env S) = Some s1"
      "deliver data 0 (map snd blocks) s1 = Some s2" "finish s2 = Some s3"
  shows "\<exists>S'. ymodem_receive (Some (client start data abort finish)) S = Some (0, S') \<and> y_env S' = s3 \<and>
    y_line S' = \<lparr>rx = r, tx = t @ map cmd_char ([YMODEM_C, YMODEM_ACK, YMODEM_C] @
      replicate (length blocks) YMODEM_ACK @ [YMODEM_NAK, YMODEM_ACK, YMODEM_C, YMODEM_ACK]) @ [RECV_END_CHAR]\<rparr>"
  by (rule receive_transfer [where start = start and name = name and data = data and finish = finish and abort = abort,
        OF is_client_client assms])

section \<open>Invariants of the client's state\<close>

text \<open>
  What every callback keeps, reception keeps; the data callback may rely on an offset below
  \<open>2^31\<close> and on a buffer of 1024 bytes that holds the announced ones.
\<close>

definition callbacks_keep :: "('s \<Rightarrow> bool) \<Rightarrow> 's ymodem_callback \<Rightarrow> bool" where
  "callbacks_keep I cb \<longleftrightarrow>
     (\<forall>h s s'. I s \<longrightarrow> cb_call (cb_start cb) h s = Some s' \<longrightarrow> I s') \<and>
     (\<forall>d s s'. I s \<longrightarrow> unat (yd_offset d) < 2 ^ 31 \<longrightarrow> length (yd_data d) = PACKET_SIZE_1K \<longrightarrow>
        packet_size (unat (yd_size d)) \<longrightarrow> cb_call (cb_recv_data cb) d s = Some s' \<longrightarrow> I s') \<and>
     (\<forall>e s s'. I s \<longrightarrow> cb_call (cb_abort cb) e s = Some s' \<longrightarrow> I s') \<and>
     (\<forall>u s s'. I s \<longrightarrow> cb_call (cb_finish cb) u s = Some s' \<longrightarrow> I s')"

lemma callbacks_keep_start:
  assumes "callbacks_keep I cb" and "I s" and "cb_call (cb_start cb) h s = Some s'"
  shows "I s'"
proof -
  have "\<forall>h s s'. I s \<longrightarrow> cb_call (cb_start cb) h s = Some s' \<longrightarrow> I s'"
    using assms(1) unfolding callbacks_keep_def by (elim conjE)
  with assms(2,3) show ?thesis by metis
qed

lemma callbacks_keep_data:
  assumes "callbacks_keep I cb" and "I s" and "cb_call (cb_recv_data cb) d s = Some s'"
    and "unat (yd_offset d) < 2 ^ 31" and "length (yd_data d) = PACKET_SIZE_1K" and "packet_size (unat (yd_size d))"
  shows "I s'"
proof -
  have "\<forall>d s s'. I s \<longrightarrow> unat (yd_offset d) < 2 ^ 31 \<longrightarrow> length (yd_data d) = PACKET_SIZE_1K \<longrightarrow>
        packet_size (unat (yd_size d)) \<longrightarrow> cb_call (cb_recv_data cb) d s = Some s' \<longrightarrow> I s'"
    using assms(1) unfolding callbacks_keep_def by (elim conjE)
  with assms(2-) show ?thesis by metis
qed

lemma callbacks_keep_abort:
  assumes "callbacks_keep I cb" and "I s" and "cb_call (cb_abort cb) e s = Some s'"
  shows "I s'"
proof -
  have "\<forall>e s s'. I s \<longrightarrow> cb_call (cb_abort cb) e s = Some s' \<longrightarrow> I s'"
    using assms(1) unfolding callbacks_keep_def by (elim conjE)
  with assms(2,3) show ?thesis by metis
qed

lemma callbacks_keep_finish:
  assumes "callbacks_keep I cb" and "I s" and "cb_call (cb_finish cb) u s = Some s'"
  shows "I s'"
proof -
  have "\<forall>u s s'. I s \<longrightarrow> cb_call (cb_finish cb) u s = Some s' \<longrightarrow> I s'"
    using assms(1) unfolding callbacks_keep_def by (elim conjE)
  with assms(2,3) show ?thesis by metis
qed

lemma receive_packet_env:
  assumes "receive_packet S = Some (r, S')"
  shows "y_env S' = y_env S" and "y_data S' = y_data S" and "y_port S' = y_port S"
    and "length (f_buf (cache_frame S')) = length (f_buf (cache_frame S))"
    and "f_file_size (cache_frame S') = f_file_size (cache_frame S)"
    and "r = 0 \<Longrightarrow> packet_size (f_pkg_size (cache_frame S'))"
  using assms by (auto simp: receive_packet_def bind_eq_Some_conv packet_size_def dest!: ymodem_receive_packet_frame)

lemma put_sel [simp]:
  "y_env (put c S) = y_env S" "cache_frame (put c S) = cache_frame S" "y_data (put c S) = y_data S"
  "y_port (put c S) = y_port S"
  by (simp_all add: put_def)

lemma call_abort_env:
  "callbacks_keep I cb \<Longrightarrow> I (y_env S) \<Longrightarrow> call_abort cb e S = Some (r, S') \<Longrightarrow> I (y_env S')"
  by (auto simp: call_abort_def bind_eq_Some_conv intro: callbacks_keep_abort)

lemma begin_loop_env:
  "begin_loop n S = Some (b, S') \<Longrightarrow>
   y_env S' = y_env S \<and> length (f_buf (cache_frame S')) = length (f_buf (cache_frame S))"
proof (induction n arbitrary: S)
  case (Suc n)
  then obtain r S1 where "receive_packet (put YMODEM_C S) = Some (r, S1)"
    "(if r = 0 then Some (True, S1) else begin_loop n S1) = Some (b, S')"
    by (auto simp: bind_eq_Some_conv)
  with Suc.IH [of S1] receive_packet_env [of "put YMODEM_C S" r S1] show ?case
    by (auto split: if_splits)
qed simp

lemma data_loop_env:
  "callbacks_keep I cb \<Longrightarrow> I (y_env S) \<Longrightarrow> length (f_buf (cache_frame S)) = PACKET_SIZE_1K \<Longrightarrow>
   (0 < sint (f_file_size (cache_frame S)) \<longrightarrow>
     int (unat (yd_offset (y_data S))) + sint (f_file_size (cache_frame S)) < 2 ^ 31) \<Longrightarrow>
   ymodem_data_loop cb S = Some (r, S') \<Longrightarrow> I (y_env S')"
proof (induction "nat (sint (f_file_size (cache_frame S)))" arbitrary: S rule: less_induct)
  case less
  show ?case
  proof (cases "0 < sint (f_file_size (cache_frame S))")
    case False
    with less.prems show ?thesis by (subst (asm) ymodem_data_loop.simps) simp
  next
    case True0: True
    with less.prems(5) obtain q S1 where recv: "receive_packet S = Some (q, S1)"
      by (subst (asm) ymodem_data_loop.simps) (auto simp: bind_eq_Some_conv)
    note env = receive_packet_env [OF recv]
    show ?thesis
    proof (cases "q = 0")
      case False
      with less.prems(5) True0 recv have "call_abort cb YMODEM_ERR_DATA S1 = Some (r, S')"
        by (subst (asm) ymodem_data_loop.simps) simp
      then show ?thesis
        using call_abort_env [OF less.prems(1)] env(1) less.prems(2) by metis
    next
      case [simp]: True
      let ?fr = "cache_frame S1" and ?n = "f_pkg_size (cache_frame S1)"
      let ?d = "(y_data S1)\<lparr>yd_data := f_buf ?fr, yd_size := word_of_nat ?n\<rparr>"
      from less.prems(5) True0 recv obtain env where
        cb: "cb_call (cb_recv_data cb) ?d (y_env S1) = Some env" and
        loop: "ymodem_data_loop cb (put YMODEM_ACK
             (S1\<lparr>y_data := ?d\<lparr>yd_offset := yd_offset ?d + word_of_nat ?n\<rparr>,
                cache_frame := ?fr\<lparr>f_file_size := f_file_size ?fr - word_of_nat ?n\<rparr>,
                y_env := env\<rparr>)) = Some (r, S')"
        by (subst (asm) ymodem_data_loop.simps) (auto simp: bind_eq_Some_conv Let_def)
      have n: "packet_size ?n" "?n = 128 \<or> ?n = 1024"
        using env(6) by (auto simp: packet_size_def packet_sizes)
      then have un: "unat (word_of_nat ?n :: u32) = ?n"
        by auto
      have off: "unat (yd_offset (y_data S)) < 2 ^ 31"
      proof -
        have "int (unat (yd_offset (y_data S))) < int (2 ^ 31)"
          using less.prems(4) True0 by simp
        then show ?thesis by (simp only: of_nat_less_iff)
      qed
      have I: "I env"
        by (rule callbacks_keep_data [OF less.prems(1) _ cb]) (use less.prems(2,3) off env un n(1) in simp_all)
      have sz: "sint (f_file_size ?fr - word_of_nat ?n) = sint (f_file_size (cache_frame S)) - int ?n"
        using sint_sub_packet [OF True0 n(2)] env(5) by simp
      have "unat (yd_offset (y_data S) + word_of_nat ?n) = unat (yd_offset (y_data S)) + ?n"
        using off n(2) un by (subst unat_add_no_wrap) auto
      moreover have "0 < ?n"
        using n(2) by auto
      ultimately show ?thesis
        using less.hyps [OF _ less.prems(1) _ _ _ loop] I sz env less.prems(3,4) n(2) True0
        by simp
    qed
  qed
qed

lemma ymodem_end_env:
  assumes keep: "callbacks_keep I cb" and "I (y_env S)" and "ymodem_end cb S = Some (r, S')"
  shows "I (y_env S')"
proof -
  obtain r1 S1 where 1: "receive_packet S = Some (r1, S1)"
    using assms(3) by (auto simp: ymodem_end_def bind_eq_Some_conv)
  have I1: "I (y_env S1)"
    using receive_packet_env(1) [OF 1] assms(2) by simp
  show ?thesis
  proof (cases "r1 = 4")
    case False
    with assms(3) 1 I1 show ?thesis by (simp add: ymodem_end_def)
  next
    case True
    with assms(3) 1 obtain r2 S2 where 2: "receive_packet (put YMODEM_NAK S1) = Some (r2, S2)"
      by (auto simp: ymodem_end_def bind_eq_Some_conv)
    have I2: "I (y_env S2)"
      using receive_packet_env(1) [OF 2] I1 by simp
    show ?thesis
    proof (cases "r2 = 4")
      case False
      with True assms(3) 1 2 I2 show ?thesis by (simp add: ymodem_end_def)
    next
      case True2: True
      with True assms(3) 1 2 obtain r3 S3 where 3: "receive_packet (put YMODEM_C (put YMODEM_ACK S2)) = Some (r3, S3)"
        by (auto simp: ymodem_end_def bind_eq_Some_conv)
      have I3: "I (y_env S3)"
        using receive_packet_env(1) [OF 3] I2 by simp
      from True True2 1 2 3 assms(3) consider "S' = S3" | "call_abort cb YMODEM_ERR_EOT S3 = Some (r, S')" |
        env where "cb_call (cb_finish cb) () (y_env S3) = Some env" "y_env S' = env"
        by (auto simp: ymodem_end_def bind_eq_Some_conv split: if_splits)
      then show ?thesis
        by cases (use I3 in \<open>auto intro: call_abort_env [OF keep] callbacks_keep_finish [OF keep]\<close>)
    qed
  qed
qed

lemma ymodem_receive_env:
  assumes keep: "callbacks_keep I cb" and buf: "length (f_buf (cache_frame S)) = PACKET_SIZE_1K" and I: "I (y_env S)"
    and recv: "ymodem_receive (Some cb) S = Some (r, S')"
  shows "I (y_env S')"
proof (cases "y_port S")
  case False
  with recv I show ?thesis by (simp add: ymodem_receive_def)
next
  case port: True
  with recv obtain b S1 where 1: "begin_loop YMDOEM_MAX_RETRY S = Some (b, S1)"
    by (auto simp: ymodem_receive_def bind_eq_Some_conv)
  note env = begin_loop_env [OF 1]
  show ?thesis
  proof (cases b)
    case False
    with recv port 1 have "call_abort cb YMODEM_ERR_TIMEOUT S1 = Some (r, S')"
      by (simp add: ymodem_receive_def)
    then show ?thesis
      using call_abort_env [OF keep] env I by metis
  next
    case [simp]: True
    let ?fr = "cache_frame S1"
    obtain q fs where q: "ymodem_strtol (Some (drop (header_fname_len ?fr) (f_buf ?fr)))
        (int (header_fsize_len ?fr)) (f_file_size ?fr) = (q, fs)"
      by fastforce
    show ?thesis
    proof (cases "q = 0")
      case False
      with recv port 1 q have "call_abort cb YMODEM_ERR_HEADER (S1\<lparr>cache_frame := ?fr\<lparr>f_file_size := fs\<rparr>\<rparr>) = Some (r, S')"
        by (simp add: ymodem_receive_def Let_def)
      then show ?thesis
        using call_abort_env [OF keep, of "S1\<lparr>cache_frame := ?fr\<lparr>f_file_size := fs\<rparr>\<rparr>"] env I by simp
    next
      case [simp]: True
      let ?h = "\<lparr>yh_file_name = f_buf ?fr, yh_name_len = word_of_nat (header_fname_len ?fr), yh_file_size = fs\<rparr>"
      from recv port 1 q obtain s1 where s1: "cb_call (cb_start cb) ?h (y_env S1) = Some s1"
        by (auto simp: ymodem_receive_def Let_def bind_eq_Some_conv)
      define S2 where "S2 = (put YMODEM_C (put YMODEM_ACK (S1\<lparr>cache_frame := ?fr\<lparr>f_file_size := fs\<rparr>,
        y_head := (case cb_start cb of None \<Rightarrow> y_head (S1\<lparr>cache_frame := ?fr\<lparr>f_file_size := fs\<rparr>\<rparr>) | Some _ \<Rightarrow> ?h), y_env := s1\<rparr>)))\<lparr>y_data := (y_data S1)\<lparr>yd_offset := 0\<rparr>\<rparr>"
      from recv port 1 q s1 obtain q2 S3 where loop: "ymodem_data_loop cb S2 = Some (q2, S3)"
        and rest: "(if q2 \<noteq> 0 then Some (q2, S3) else ymodem_end cb S3) = Some (r, S')"
        unfolding S2_def by (auto simp: ymodem_receive_def Let_def bind_eq_Some_conv put_def)
      have "I s1"
        by (rule callbacks_keep_start [OF keep _ s1]) (use env I in simp)
      moreover have "sint (f_file_size (cache_frame S2)) < 2 ^ 31"
        using sint_less [of "f_file_size (cache_frame S2)"] by simp
      ultimately have "I (y_env S3)"
        by (intro data_loop_env [OF keep _ _ _ loop]) (use env buf in \<open>simp_all add: S2_def\<close>)
      with rest show ?thesis
        by (auto split: if_splits intro: ymodem_end_env [OF keep])
    qed
  qed
qed

section \<open>Which packets are accepted\<close>

lemma y_getchar_Some: "y_getchar l = (Some c, l') \<Longrightarrow> rx l = Some c # rx l' \<and> tx l' = tx l"
  by (auto simp: y_getchar_def split: list.splits)

lemma y_getchar_None: "y_getchar l = (None, l') \<Longrightarrow> (\<exists>pre. rx l = pre @ rx l') \<and> tx l' = tx l"
  by (auto simp: y_getchar_def split: list.splits)

lemma y_putchar_sel [simp]: "rx (y_putchar c l) = rx l" "tx (y_putchar c l) = tx l @ [c]"
  by (simp_all add: y_putchar_def)

lemma recv_packet_crc_True:
  "recv_packet_crc fr l = (True, fr', l') \<Longrightarrow>
   \<exists>h c. rx l = [Some h, Some c] @ rx l' \<and> tx l' = tx l \<and> f_buf fr' = f_buf fr \<and> f_pkg_size fr' = f_pkg_size fr \<and>
     push_bit 8 (ucast h) OR ucast c = ymodem_crc16 (take (f_pkg_size fr) (f_buf fr))"
  by (auto simp: recv_packet_crc_def Let_def crc_join [simplified] split: prod.splits option.splits if_splits
      dest!: y_getchar_Some)

lemma recv_packet_crc_False:
  "recv_packet_crc fr l = (False, fr', l') \<Longrightarrow>
   (\<exists>pre. rx l = pre @ rx l') \<and> tx l' = tx l @ [cmd_char YMODEM_NAK]"
  by (auto simp: recv_packet_crc_def Let_def split: prod.splits option.splits if_splits
      dest!: y_getchar_Some y_getchar_None)

text \<open>Where the bytes of an accepted packet come from.\<close>

definition good_packet :: "nat \<Rightarrow> u8 option list \<Rightarrow> u8 list \<Rightarrow> u8 option list \<Rightarrow> bool" where
  "good_packet n r data r' \<longleftrightarrow> (\<exists>num d h c. r = [Some num, Some (NOT num)] @ d @ [Some h, Some c] @ r' \<and>
     chars d = data \<and> length data = n \<and> push_bit 8 (ucast h) OR ucast c = ymodem_crc16 data)"

lemma recv_packet_body_True:
  assumes "recv_packet_body fr l = Some (True, fr', l')" and "f_pkg_size fr \<le> length (f_buf fr)"
  shows "good_packet (f_pkg_size fr) (rx l) (take (f_pkg_size fr') (f_buf fr')) (rx l') \<and> tx l' = tx l"
proof -
  from assms(1) obtain num msk l1 l2 fr1 r where
    1: "y_getchar l = (Some num, l1)" "y_getchar l1 = (Some msk, l2)" "num XOR msk = 0xFF"
    and 2: "recv_data (f_pkg_size fr) (fr\<lparr>f_pack_num := num, f_pack_mask := msk, f_offset := 0\<rparr>) (rx l2) = Some (fr1, r)"
    and 3: "recv_packet_crc fr1 (l2\<lparr>rx := r\<rparr>) = (True, fr', l')"
    by (auto simp: recv_packet_body_def Let_def bind_eq_Some_conv split: prod.splits option.splits if_splits)
  have msk: "msk = NOT num"
    using 1(3) by (simp only: complement_u8)
  obtain d where d: "rx l2 = d @ r" "length (chars d) = f_pkg_size fr" "f_pkg_size fr1 = f_pkg_size fr"
    "f_buf fr1 = patch 0 (chars d) (f_buf fr)"
    using recv_data_Some [OF 2] assms(2) by auto
  obtain h c where c: "r = [Some h, Some c] @ rx l'" "tx l' = tx l2" "f_buf fr' = f_buf fr1" "f_pkg_size fr' = f_pkg_size fr1"
    "push_bit 8 (ucast h) OR ucast c = ymodem_crc16 (take (f_pkg_size fr1) (f_buf fr1))"
    using recv_packet_crc_True [OF 3] by auto
  have "take (f_pkg_size fr) (f_buf fr1) = chars d"
    using d assms(2) by (metis take_patch_0)
  with c d msk y_getchar_Some [OF 1(1)] y_getchar_Some [OF 1(2)] show ?thesis
    unfolding good_packet_def by (auto intro!: exI [of _ num] exI [of _ d])
qed

lemma recv_packet_body_False:
  assumes "recv_packet_body fr l = Some (False, fr', l')" and "f_pkg_size fr \<le> length (f_buf fr)"
  shows "(\<exists>pre. rx l = pre @ rx l') \<and> tx l' = tx l @ [cmd_char YMODEM_NAK]"
proof -
  have data: "\<exists>d. r = d @ r'" if "recv_data k fr1 r = Some (fr2, r')" for k fr1 fr2 r r'
    using that by (induction k fr1 r rule: recv_data.induct) (auto intro: exI [of _ "_ # _"])
  from assms show ?thesis
    by (auto simp: recv_packet_body_def Let_def bind_eq_Some_conv split: prod.splits option.splits if_splits
        dest!: y_getchar_Some y_getchar_None recv_packet_crc_False data)
qed

text \<open>C22: A packet is accepted only if the line really carried it: a start byte, a number with its
  complement, as many data bytes as the start byte announces and the CRC-16 of exactly these bytes.
  The frame then holds these bytes, and every earlier attempt has been answered by at most one NAK.\<close>

theorem ymodem_packet_accepted_valid:
  assumes "ymodem_receive_packet n fr l = Some (0, fr', l')" and "length (f_buf fr) = PACKET_SIZE_1K"
  shows "\<exists>pre h r m. rx l = pre @ [Some h] @ r \<and> (h = cmd_char YMODEM_SOH \<or> h = cmd_char YMODEM_STX) \<and>
    good_packet (if h = cmd_char YMODEM_SOH then PACKET_SIZE_128 else PACKET_SIZE_1K) r
      (take (f_pkg_size fr') (f_buf fr')) (rx l') \<and>
    tx l' = tx l @ replicate m (cmd_char YMODEM_NAK) \<and> m < n"
  using assms
proof (induction n arbitrary: fr l)
  case (Suc n)
  obtain x l1 where g: "y_getchar l = (x, l1)" by fastforce
  have skip: ?case if a: "ymodem_receive_packet n fr1 l2 = Some (0, fr', l')" "length (f_buf fr1) = PACKET_SIZE_1K"
    and b: "\<exists>pre. rx l = pre @ rx l2" and c: "tx l2 = tx l @ replicate k (cmd_char YMODEM_NAK)" "k \<le> 1" for fr1 l2 k
  proof -
    from Suc.IH [OF a] obtain pre h r m where *: "rx l2 = pre @ [Some h] @ r"
      "h = cmd_char YMODEM_SOH \<or> h = cmd_char YMODEM_STX"
      "good_packet (if h = cmd_char YMODEM_SOH then PACKET_SIZE_128 else PACKET_SIZE_1K) r
        (take (f_pkg_size fr') (f_buf fr')) (rx l')"
      "tx l' = tx l2 @ replicate m (cmd_char YMODEM_NAK)" "m < n"
      by blast
    obtain pre2 where "rx l = pre2 @ rx l2" using b by blast
    with * c show ?thesis
      by (intro exI [of _ "pre2 @ pre"] exI [of _ h] exI [of _ r] exI [of _ "k + m"]) (auto simp: replicate_add)
  qed
  show ?case
  proof (cases x)
    case None
    then have "ymodem_receive_packet n fr l1 = Some (0, fr', l')"
      using Suc.prems(1) g by simp
    then show ?thesis
      using skip [of fr l1 0] Suc.prems(2) y_getchar_None [of l l1] g None by simp
  next
    case (Some h)
    let ?fr = "fr\<lparr>f_head := h\<rparr>"
    let ?fp = "?fr\<lparr>f_pkg_size := (if h = cmd_char YMODEM_SOH then PACKET_SIZE_128 else PACKET_SIZE_1K)\<rparr>"
    note l1 = y_getchar_Some [OF g [unfolded Some]]
    have pkg: "f_pkg_size ?fp \<le> length (f_buf ?fp)"
      using Suc.prems(2) by (simp add: packet_sizes)
    consider "h = cmd_char YMODEM_SOH \<or> h = cmd_char YMODEM_STX" | "h = cmd_char YMODEM_EOT" |
      "\<not> (h = cmd_char YMODEM_SOH \<or> h = cmd_char YMODEM_STX \<or> h = cmd_char YMODEM_EOT)" by blast
    then show ?thesis
    proof cases
      case 1
      then obtain ok fr2 l2 where body: "recv_packet_body ?fp l1 = Some (ok, fr2, l2)"
        and res: "(if ok then Some (0, fr2, l2) else ymodem_receive_packet n fr2 l2) = Some (0, fr', l')"
        using Suc.prems(1) g Some by (auto simp: Let_def bind_eq_Some_conv cong: if_cong)
      show ?thesis
      proof (cases ok)
        case True
        with body res recv_packet_body_True [of ?fp l1 fr2 l2, OF _ pkg] l1 1 show ?thesis
          by (intro exI [of _ "[]"] exI [of _ h] exI [of _ "rx l1"] exI [of _ 0]) auto
      next
        case False
        with body recv_packet_body_False [of ?fp l1 fr2 l2, OF _ pkg] l1 have
          "\<exists>pre. rx l = pre @ rx l2" "tx l2 = tx l @ replicate 1 (cmd_char YMODEM_NAK)"
          by (auto intro: exI [of _ "_ # _"])
        with skip [of fr2 l2 1] res False recv_packet_body_frame [OF body] Suc.prems(2) show ?thesis
          by simp
      qed
    next
      case 2
      then show ?thesis using Suc.prems(1) g Some by simp
    next
      case 3
      then have "ymodem_receive_packet n ?fr l1 = Some (0, fr', l')"
        using Suc.prems(1) g Some by simp
      with skip [of ?fr l1 0] Suc.prems(2) l1 show ?thesis
        by (auto intro: exI [of _ "[_]"])
    qed
  qed
qed simp

section \<open>Damage, silence and truncation\<close>

text \<open>A packet in which one data byte has been changed on the line is not accepted: it is
  answered by one NAK, and when the sender repeats the packet undamaged, its data are received.\<close>

theorem ymodem_damaged_packet_repeated:
  fixes num :: u8
  assumes "packet_size (length (xs @ x # ys))" and "length (f_buf fr) = PACKET_SIZE_1K" and "x \<noteq> y"
  defines "data \<equiv> xs @ x # ys"
  defines "damaged \<equiv> (packet num data)[3 + length xs := y]"
  shows "\<exists>fr'. ymodem_receive_packet (Suc (Suc n)) fr \<lparr>rx = map Some (damaged @ packet num data) @ r, tx = t\<rparr> =
      Some (0, fr', \<lparr>rx = r, tx = t @ [cmd_char YMODEM_NAK]\<rparr>) \<and>
    take (f_pkg_size fr') (f_buf fr') = data"
proof -
  let ?bad = "xs @ y # ys" and ?crc = "ymodem_crc16 data"
  let ?h = "ucast (drop_bit 8 ?crc) :: u8" and ?c = "ucast ?crc :: u8"
  have len: "length ?bad = length data"
    by (simp add: data_def)
  have size: "packet_size (length ?bad)" "packet_size (length data)"
    using assms(1) len by (simp_all add: data_def)
  have "damaged = (if length ?bad = PACKET_SIZE_128 then cmd_char YMODEM_SOH else cmd_char YMODEM_STX) #
     num # NOT num # ?bad @ [?h, ?c]"
    by (simp add: damaged_def packet_def data_def numeral_3_eq_3)
  moreover have "push_bit 8 (ucast ?h) OR ucast ?c \<noteq> ymodem_crc16 ?bad"
    using crc_halves [of ?crc] crc16_byte_change [OF assms(3)] by (simp add: crc_join [simplified] data_def ymodem_crc16_def)
  moreover have "length (f_buf (frame_after num ?bad ?h ?c fr)) = PACKET_SIZE_1K"
    using size assms(2) len by (auto simp: packet_size_def packet_sizes)
  moreover have "take (length data) (patch 0 data (f_buf (frame_after num ?bad ?h ?c fr))) = data"
    by (rule take_patch_0) (use calculation(3) size(2) in \<open>auto simp: packet_size_def packet_sizes\<close>)
  ultimately show ?thesis
    using receive_whole_packet [OF size(1) assms(2), of "Suc n" num ?h ?c "map Some (packet num data) @ r" t]
      receive_packet_ok [OF size(2), of "frame_after num ?bad ?h ?c fr" n num r "t @ [cmd_char YMODEM_NAK]"] size(2) assms(2)
    by (auto simp: packet_size_def packet_sizes simp del: ymodem_receive_packet.simps)
qed

text \<open>C33: When the sender stops inside the data of a packet, the receiver never returns: the loop
  that reads the data does not count its timeouts, whatever the number of retries.\<close>

theorem ymodem_hangs_inside_packet:
  assumes "h = cmd_char YMODEM_SOH \<and> k = PACKET_SIZE_128 \<or> h = cmd_char YMODEM_STX \<and> k = PACKET_SIZE_1K"
    and "length (chars r) < k"
  shows "ymodem_receive_packet (Suc n) fr \<lparr>rx = [Some h, Some num, Some (NOT num)] @ r, tx = t\<rparr> = None"
proof -
  have ff: "num XOR NOT num = 0xFF"
    by (simp add: complement_u8)
  have "recv_packet_body (fr\<lparr>f_head := h, f_pkg_size := k\<rparr>) \<lparr>rx = [Some num, Some (NOT num)] @ r, tx = t\<rparr> = None"
    using recv_data_hangs [OF assms(2)] by (simp add: recv_packet_body_def ff)
  then show ?thesis
    using assms(1) by auto
qed

lemma begin_loop_silent:
  "set (rx (y_line S)) \<subseteq> {None} \<Longrightarrow> begin_loop n S =
   Some (False, S\<lparr>y_line := \<lparr>rx = drop (n * YMDOEM_MAX_RETRY) (rx (y_line S)),
     tx = tx (y_line S) @ replicate n (cmd_char YMODEM_C)\<rparr>\<rparr>)"
proof (induction n arbitrary: S)
  case (Suc n)
  have "receive_packet (put YMODEM_C S) = Some (-2, S\<lparr>y_line := \<lparr>rx = drop YMDOEM_MAX_RETRY (rx (y_line S)),
     tx = tx (y_line S) @ [cmd_char YMODEM_C]\<rparr>\<rparr>)"
    using receive_packet_silent [of "y_line (put YMODEM_C S)" YMDOEM_MAX_RETRY] Suc.prems
    by (simp add: receive_packet_def put_def y_putchar_def)
  moreover have "set (drop YMDOEM_MAX_RETRY (rx (y_line S))) \<subseteq> {None}"
    using Suc.prems set_drop_subset by (metis subset_trans)
  ultimately show ?case
    using Suc.IH by (simp add: ac_simps)
qed simp

text \<open>C34: On a silent line the receiver gives up: it asks for the file 100 times, tells the client
  about the timeout and returns \<open>YMODEM_ERR_TIMEOUT\<close>.\<close>

theorem ymodem_receive_silent_line:
  assumes "y_port S" and "set (rx (y_line S)) \<subseteq> {None}" and "abort (-2) (y_env S) = Some s'"
  shows "\<exists>S'. ymodem_receive (Some (client start data abort finish)) S = Some (-2, S') \<and> y_env S' = s' \<and>
    tx (y_line S') = tx (y_line S) @ replicate 100 (cmd_char YMODEM_C)"
  using assms by (simp add: ymodem_receive_def begin_loop_silent call_abort_def cb_call_def client_def YMDOEM_MAX_RETRY_def)

text \<open>When all data have arrived and the line then goes silent, the receiver still returns
  \<open>YMODEM_OK\<close>, although the end of the transfer never came: neither is the client told of the end,
  nor of an error.\<close>

theorem ymodem_receive_ok_without_eot:
  assumes port: "y_port S" and buf: "length (f_buf (cache_frame S)) = PACKET_SIZE_1K"
    and name: "0 \<notin> set name" and head: "packet_size (length (header_block name n rest))"
    and size: "n < 2 ^ 31" and blocks: "\<forall>(k, b) \<in> set blocks. packet_size (length b)"
    and fit: "fits (int n) (map (length \<circ> snd) blocks)"
    and line: "y_line S = \<lparr>rx = map Some (packet num (header_block name n rest) @ data_packets blocks), tx = t\<rparr>"
    and cbs: "start name (word_of_nat n) (y_env S) = Some s1" "deliver data 0 (map snd blocks) s1 = Some s2"
  shows "\<exists>S'. ymodem_receive (Some (client start data abort finish)) S = Some (0, S') \<and> y_env S' = s2"
proof -
  have line': "y_line S = \<lparr>rx = map Some (packet num (header_block name n rest)) @ map Some (data_packets blocks), tx = t\<rparr>"
    using line by simp
  obtain S1 where S1: "ymodem_receive (Some (client start data abort finish)) S =
       (ymodem_data_loop (client start data abort finish) S1 \<bind>
        (\<lambda>(r, S). if r \<noteq> 0 then Some (r, S) else ymodem_end (client start data abort finish) S))"
    "y_line S1 = \<lparr>rx = map Some (data_packets blocks) @ [], tx = t @ map cmd_char [YMODEM_C, YMODEM_ACK, YMODEM_C]\<rparr>"
    "y_env S1 = s1" "yd_offset (y_data S1) = 0" "f_file_size (cache_frame S1) = word_of_nat n"
    "length (f_buf (cache_frame S1)) = PACKET_SIZE_1K"
    by (rule ymodem_receive_header [where cb = "client start data abort finish" and start = start and name = name
        and data = data and abort = abort and finish = finish, OF is_client_client port buf name head line' cbs(1)]) simp
  have "sint (word_of_nat n :: u32) = int n"
    using size by (simp add: signed_of_nat signed_take_bit_int_eq_self_iff)
  then obtain S2 where S2: "ymodem_data_loop (client start data abort finish) S1 = Some (0, S2)"
    "rx (y_line S2) = []" "y_env S2 = s2"
    using data_loop_transfer [OF is_client_client, of S1 blocks] S1 fit blocks cbs(2) by fastforce
  then have "receive_packet S2 = Some (-2, S2\<lparr>cache_frame := cache_frame S2, y_line := (y_line S2)\<lparr>rx := []\<rparr>\<rparr>)"
    by (simp add: receive_packet_def receive_packet_silent)
  with S2(3) show ?thesis
    by (simp add: S1(1) S2(1) ymodem_end_def)
qed

section \<open>The hypotheses can hold\<close>

text \<open>A receiver at its start, and a client that notes what it is told.\<close>

datatype notice = Started "u8 list" u32 | Received u32 "u8 list" | Aborted int | Finished

definition demo_client :: "notice list ymodem_callback" where
  "demo_client = client (\<lambda>nm n s. Some (s @ [Started nm n])) (\<lambda>off b s. Some (s @ [Received off b]))
     (\<lambda>e s. Some (s @ [Aborted e])) (\<lambda>s. Some (s @ [Finished]))"

definition demo_frame :: ymodem_frame where
  "demo_frame = \<lparr>f_head = 0, f_pkg_size = 0, f_pack_num = 0, f_pack_mask = 0, f_buf = replicate 1024 0,
     f_offset = 0, f_crc_h = 0, f_crc_l = 0, f_file_size = 0\<rparr>"

definition demo_receiver :: "u8 list \<Rightarrow> notice list ymodem_state" where
  "demo_receiver cs = \<lparr>y_port = True, cache_frame = demo_frame,
     y_head = \<lparr>yh_file_name = [], yh_name_len = 0, yh_file_size = 0\<rparr>,
     y_data = \<lparr>yd_data = [], yd_offset = 0, yd_size = 0\<rparr>, y_line = \<lparr>rx = map Some cs, tx = []\<rparr>, y_env = []\<rparr>"

definition demo_header :: "u8 list" where
  "demo_header = header_block (cstr ''a'') 130 (replicate 122 0)"

lemma decimal_130: "decimal 130 = [49, 51, 48]"
  by (simp add: decimal.simps)

lemma demo_header_size: "packet_size (length (header_block (cstr ''a'') 130 (replicate 122 0)))"
  by (simp add: packet_size_def packet_sizes header_block_def decimal_130)

theorem ymodem_receive_transfer_witness:
  "\<exists>S'. ymodem_receive (Some demo_client) (demo_receiver (packet 0 demo_header @
      data_packets [(1, replicate 128 7), (1, replicate 128 8)] @ closing 0 128)) = Some (0, S') \<and>
    y_env S' = [Started (cstr ''a'') 130, Received 0 (replicate 128 7), Received 128 (replicate 128 8), Finished] \<and>
    tx (y_line S') = map cmd_char [YMODEM_C, YMODEM_ACK, YMODEM_C, YMODEM_ACK, YMODEM_ACK,
      YMODEM_NAK, YMODEM_ACK, YMODEM_C, YMODEM_ACK] @ [0x4F]"
proof -
  have "\<exists>S'. ymodem_receive (Some demo_client) (demo_receiver (packet 0 demo_header @
      data_packets [(1, replicate 128 7), (1, replicate 128 8)] @ closing 0 128)) = Some (0, S') \<and>
    y_env S' = [Started (cstr ''a'') 130, Received 0 (replicate 128 7), Received 128 (replicate 128 8), Finished] \<and>
    y_line S' = \<lparr>rx = [], tx = [] @ map cmd_char ([YMODEM_C, YMODEM_ACK, YMODEM_C] @
      replicate (length [(1 :: u8, replicate 128 (7 :: u8)), (1, replicate 128 8)]) YMODEM_ACK @
      [YMODEM_NAK, YMODEM_ACK, YMODEM_C, YMODEM_ACK]) @ [RECV_END_CHAR]\<rparr>"
    unfolding demo_client_def
  proof (rule ymodem_receive_transfer [where name = "cstr ''a''" and n = 130 and rest = "replicate 122 0"])
    show "0 \<notin> set (cstr ''a'')"
      by (simp add: cstr_def)
    show "packet_size (length (header_block (cstr ''a'') 130 (replicate 122 0)))"
      by (rule demo_header_size)
  qed (simp_all add: demo_receiver_def demo_frame_def packet_size_def packet_sizes demo_header_def)
  then show ?thesis
    by (auto simp: RECV_END_CHAR_def numeral_2_eq_2)
qed

theorem ymodem_packet_accepted_valid_witness:
  "\<exists>pre h r m. map Some (packet 1 (replicate 128 7)) = pre @ [Some h] @ r \<and>
    (h = cmd_char YMODEM_SOH \<or> h = cmd_char YMODEM_STX) \<and>
    good_packet (if h = cmd_char YMODEM_SOH then PACKET_SIZE_128 else PACKET_SIZE_1K) r (replicate 128 7) [] \<and>
    [] = [] @ replicate m (cmd_char YMODEM_NAK) \<and> m < 5"
proof -
  have recv: "ymodem_receive_packet 5 demo_frame \<lparr>rx = map Some (packet 1 (replicate 128 7)) @ [], tx = []\<rparr> =
    Some (0, frame_after 1 (replicate 128 7) (ucast (drop_bit 8 (ymodem_crc16 (replicate 128 7))))
      (ucast (ymodem_crc16 (replicate 128 7))) demo_frame, \<lparr>rx = [], tx = []\<rparr>)"
    using receive_packet_ok [of "replicate 128 7" demo_frame 4 1 "[]" "[]"]
    by (simp add: packet_size_def packet_sizes demo_frame_def del: ymodem_receive_packet.simps)
  have "take 128 (patch 0 (replicate 128 7) (f_buf demo_frame)) = replicate 128 (7 :: u8)"
    using take_patch_0 [of "replicate 128 (7 :: u8)" "f_buf demo_frame"] by (simp add: demo_frame_def)
  then have data: "take (f_pkg_size (frame_after 1 (replicate 128 7) h c demo_frame))
      (f_buf (frame_after 1 (replicate 128 7) h c demo_frame)) = replicate 128 (7 :: u8)" for h c
    by simp
  show ?thesis
    using ymodem_packet_accepted_valid [OF recv, unfolded data] by (simp add: demo_frame_def packet_sizes)
qed

theorem ymodem_damaged_packet_repeated_witness:
  "\<exists>fr'. ymodem_receive_packet 2 demo_frame
      \<lparr>rx = map Some ((packet 1 (replicate 128 7))[3 := 9] @ packet 1 (replicate 128 7)) @ [], tx = []\<rparr> =
      Some (0, fr', \<lparr>rx = [], tx = [0x15]\<rparr>) \<and> take (f_pkg_size fr') (f_buf fr') = replicate 128 7"
proof -
  have "[] @ 7 # replicate 127 (7 :: u8) = replicate 128 7"
    by (simp add: numeral_eq_Suc)
  then show ?thesis
    using ymodem_damaged_packet_repeated [of "[]" 7 "replicate 127 7" demo_frame 9 0 1 "[]" "[]"]
    by (simp add: packet_size_def packet_sizes demo_frame_def numeral_2_eq_2
        del: ymodem_receive_packet.simps replicate.simps)
qed

theorem ymodem_hangs_inside_packet_witness:
  "ymodem_receive_packet 100 demo_frame \<lparr>rx = [Some 1, Some 1, Some (NOT 1)] @ [Some 42, None, None], tx = []\<rparr> = None"
  using ymodem_hangs_inside_packet [of 1 128 "[Some 42, None, None]" 99 demo_frame 1 "[]"]
  by (simp add: packet_sizes del: ymodem_receive_packet.simps)

theorem ymodem_receive_silent_line_witness:
  "\<exists>S'. ymodem_receive (Some demo_client) (demo_receiver []) = Some (-2, S') \<and> y_env S' = [Aborted (-2)] \<and>
    tx (y_line S') = replicate 100 0x43"
proof -
  have "\<exists>S'. ymodem_receive (Some demo_client) (demo_receiver []) = Some (-2, S') \<and> y_env S' = [Aborted (-2)] \<and>
    tx (y_line S') = tx (y_line (demo_receiver [])) @ replicate 100 (cmd_char YMODEM_C)"
    unfolding demo_client_def by (rule ymodem_receive_silent_line) (simp_all add: demo_receiver_def)
  then show ?thesis by (simp add: demo_receiver_def)
qed

theorem ymodem_receive_ok_without_eot_witness:
  "\<exists>S'. ymodem_receive (Some demo_client) (demo_receiver (packet 0 demo_header @
      data_packets [(1, replicate 128 7), (1, replicate 128 8)])) = Some (0, S') \<and>
    y_env S' = [Started (cstr ''a'') 130, Received 0 (replicate 128 7), Received 128 (replicate 128 8)]"
  unfolding demo_client_def
proof (rule ymodem_receive_ok_without_eot [where name = "cstr ''a''" and n = 130 and rest = "replicate 122 0"
      and num = 0 and t = "[]" and blocks = "[(1, replicate 128 7), (1, replicate 128 8)]"])
  show "0 \<notin> set (cstr ''a'')"
    by (simp add: cstr_def)
  show "packet_size (length (header_block (cstr ''a'') 130 (replicate 122 0)))"
    by (rule demo_header_size)
qed (simp_all add: demo_receiver_def demo_frame_def packet_size_def packet_sizes demo_header_def)

end
