(* ===== verification/Part_Store.thy ===== *)
theory Part_Store
  imports Partition_Facts
begin

text \<open>
  The interface through which OTA and boot use the partition manager: the four access functions
  over a state, the laws a provider keeps (\<open>part_store\<close>: what a successful read, write or erase
  means for the contents of the partitions, and that no operation touches another partition) and
  the stronger contract of a medium without I/O errors (\<open>reliable_store\<close>).
\<close>

section \<open>The functions\<close>

record 's part_if =
  if_read :: "u8 list \<Rightarrow> bool \<Rightarrow> u32 \<Rightarrow> u32 \<Rightarrow> 's \<Rightarrow> (int \<times> u8 list \<times> 's) option"
  if_write :: "u8 list \<Rightarrow> u8 list \<Rightarrow> u32 \<Rightarrow> u32 \<Rightarrow> 's \<Rightarrow> (int \<times> 's) option"
  if_erase :: "u8 list \<Rightarrow> u32 \<Rightarrow> u32 \<Rightarrow> 's \<Rightarrow> (int \<times> 's) option"
  if_erase_all :: "u8 list \<Rightarrow> 's \<Rightarrow> (int \<times> 's) option"

text \<open>The partition manager as such a provider.\<close>

definition partition_if :: "'d ops_env \<Rightarrow> part_tables \<Rightarrow> 'd part_if" where
  "partition_if E T =
     \<lparr>if_read = (\<lambda>nm. partition_read E T (Some nm)), if_write = (\<lambda>nm bs. partition_write E T (Some nm) (Some bs)),
      if_erase = (\<lambda>nm. partition_erase E T (Some nm)), if_erase_all = (\<lambda>nm. partition_erase_all E T (Some nm))\<rparr>"

section \<open>The contract\<close>

text \<open>
  \<open>cont s nm\<close> are the bytes of partition \<open>nm\<close>.  An operation that fails may leave its own partition
  with any contents; a write is only promised to store its bytes where the medium is erased.
\<close>

abbreviation erased :: u8 where "erased \<equiv> 0xFF"

locale part_store =
  fixes P :: "'s part_if" and ok :: "'s \<Rightarrow> bool" and names :: "u8 list set"
    and cont :: "'s \<Rightarrow> u8 list \<Rightarrow> u8 list"
  assumes cont_bound: "ok s \<Longrightarrow> nm \<in> names \<Longrightarrow> length (cont s nm) \<le> 2 ^ 31"
    and read_total: "ok s \<Longrightarrow> nm \<in> names \<Longrightarrow> unat off + unat n < 2 ^ 32 \<Longrightarrow>
      \<exists>r bs s'. if_read P nm nul off n s = Some (r, bs, s')"
    and write_total: "ok s \<Longrightarrow> nm \<in> names \<Longrightarrow> unat off + unat n < 2 ^ 32 \<Longrightarrow> unat n \<le> length bs \<Longrightarrow>
      \<exists>r s'. if_write P nm bs off n s = Some (r, s')"
    and erase_total: "ok s \<Longrightarrow> nm \<in> names \<Longrightarrow> unat off + unat n < 2 ^ 32 \<Longrightarrow> 0 < unat n \<Longrightarrow>
      \<exists>r s'. if_erase P nm off n s = Some (r, s')"
    and erase_all_total: "ok s \<Longrightarrow> nm \<in> names \<Longrightarrow> \<exists>r s'. if_erase_all P nm s = Some (r, s')"
    and write_prefix: "nm \<in> names \<Longrightarrow> unat n \<le> length bs \<Longrightarrow>
      if_write P nm bs off n s = if_write P nm (take (unat n) bs) off n s"
    and read_null: "ok s \<Longrightarrow> nm \<in> names \<Longrightarrow> if_read P nm True off n s = Some (r, bs, s') \<Longrightarrow> r \<noteq> 0 \<and> bs = [] \<and> s' = s"
    and read_law: "ok s \<Longrightarrow> nm \<in> names \<Longrightarrow> unat off + unat n < 2 ^ 32 \<Longrightarrow>
      if_read P nm False off n s = Some (r, bs, s') \<Longrightarrow>
      ok s' \<and> (\<forall>m \<in> names. cont s' m = cont s m) \<and> length bs \<le> unat n \<and>
      (r = 0 \<longrightarrow> unat off + unat n \<le> length (cont s nm) \<and> bs = bslice (unat off) (unat n) (cont s nm))"
    and write_law: "ok s \<Longrightarrow> nm \<in> names \<Longrightarrow> unat off + unat n < 2 ^ 32 \<Longrightarrow> unat n \<le> length bs \<Longrightarrow>
      if_write P nm bs off n s = Some (r, s') \<Longrightarrow>
      ok s' \<and> (\<forall>m \<in> names - {nm}. cont s' m = cont s m) \<and> length (cont s' nm) = length (cont s nm) \<and>
      (r = 0 \<longrightarrow> unat off + unat n \<le> length (cont s nm) \<and>
         (bslice (unat off) (unat n) (cont s nm) = replicate (unat n) erased \<longrightarrow>
          cont s' nm = patch (unat off) (take (unat n) bs) (cont s nm)))"
    and erase_law: "ok s \<Longrightarrow> nm \<in> names \<Longrightarrow> unat off + unat n < 2 ^ 32 \<Longrightarrow> 0 < unat n \<Longrightarrow>
      if_erase P nm off n s = Some (r, s') \<Longrightarrow>
      ok s' \<and> (\<forall>m \<in> names - {nm}. cont s' m = cont s m) \<and> length (cont s' nm) = length (cont s nm) \<and>
      (r = 0 \<longrightarrow> unat off + unat n \<le> length (cont s nm) \<and>
         cont s' nm = patch (unat off) (replicate (unat n) erased) (cont s nm))"
    and erase_all_law: "ok s \<Longrightarrow> nm \<in> names \<Longrightarrow> if_erase_all P nm s = Some (r, s') \<Longrightarrow>
      ok s' \<and> (\<forall>m \<in> names - {nm}. cont s' m = cont s m) \<and> length (cont s' nm) = length (cont s nm) \<and>
      (r = 0 \<longrightarrow> cont s' nm = replicate (length (cont s nm)) erased)"

text \<open>A medium on which every operation inside a partition succeeds.\<close>

locale reliable_store = part_store +
  assumes read_succeeds: "ok s \<Longrightarrow> nm \<in> names \<Longrightarrow> unat off + unat n \<le> length (cont s nm) \<Longrightarrow>
      if_read P nm False off n s = Some (r, bs, s') \<Longrightarrow> r = 0"
    and write_succeeds: "ok s \<Longrightarrow> nm \<in> names \<Longrightarrow> unat off + unat n \<le> length (cont s nm) \<Longrightarrow> unat n \<le> length bs \<Longrightarrow>
      if_write P nm bs off n s = Some (r, s') \<Longrightarrow> r = 0"
    and erase_succeeds: "ok s \<Longrightarrow> nm \<in> names \<Longrightarrow> unat off + unat n \<le> length (cont s nm) \<Longrightarrow> 0 < unat n \<Longrightarrow>
      if_erase P nm off n s = Some (r, s') \<Longrightarrow> r = 0"
    and erase_all_succeeds: "ok s \<Longrightarrow> nm \<in> names \<Longrightarrow> if_erase_all P nm s = Some (r, s') \<Longrightarrow> r = 0"

section \<open>Erased tails\<close>

definition blank_from :: "nat \<Rightarrow> u8 list \<Rightarrow> bool" where
  "blank_from k xs \<longleftrightarrow> drop k xs = replicate (length xs - k) erased"

lemma blank_from_replicate [simp]: "blank_from k (replicate n erased)"
  by (simp add: blank_from_def)

lemma blank_from_bslice: "blank_from k xs \<Longrightarrow> k + n \<le> length xs \<Longrightarrow> bslice k n xs = replicate n erased"
  by (simp add: blank_from_def bslice_def)

lemma blank_from_patch:
  "blank_from k xs \<Longrightarrow> k + length ys \<le> length xs \<Longrightarrow> blank_from (k + length ys) (patch k ys xs)"
  by (simp add: blank_from_def patch_def drop_drop [symmetric] add.commute [of k] del: drop_drop)

section \<open>Use of the contract\<close>

context part_store
begin

lemma read_other:
  "ok s \<Longrightarrow> nm \<in> names \<Longrightarrow> unat off + unat n < 2 ^ 32 \<Longrightarrow> if_read P nm False off n s = Some (r, bs, s') \<Longrightarrow>
   m \<in> names \<Longrightarrow> cont s' m = cont s m"
  using read_law by blast

lemma read_ok:
  "ok s \<Longrightarrow> nm \<in> names \<Longrightarrow> unat off + unat n < 2 ^ 32 \<Longrightarrow> if_read P nm False off n s = Some (r, bs, s') \<Longrightarrow> ok s'"
  using read_law by blast

lemma read_zero:
  "ok s \<Longrightarrow> nm \<in> names \<Longrightarrow> unat off + unat n < 2 ^ 32 \<Longrightarrow> if_read P nm False off n s = Some (0, bs, s') \<Longrightarrow>
   unat off + unat n \<le> length (cont s nm) \<and> bs = bslice (unat off) (unat n) (cont s nm)"
  using read_law by blast

text \<open>An erase followed by a write of the same range replaces the bytes.\<close>

lemma erase_then_write:
  assumes "ok s" and "nm \<in> names" and "unat off + unat n < 2 ^ 32" and "0 < unat n" and "unat n \<le> length bs"
    and "if_erase P nm off n s = Some (0, s1)" and "if_write P nm bs off n s1 = Some (0, s2)"
  shows "ok s2 \<and> cont s2 nm = patch (unat off) (take (unat n) bs) (cont s nm) \<and>
    (\<forall>m \<in> names - {nm}. cont s2 m = cont s m) \<and> unat off + unat n \<le> length (cont s nm)"
proof -
  have 1: "ok s1" "unat off + unat n \<le> length (cont s nm)"
    "cont s1 nm = patch (unat off) (replicate (unat n) erased) (cont s nm)"
    "\<forall>m \<in> names - {nm}. cont s1 m = cont s m"
    using erase_law [OF assms(1-4,6)] by simp_all
  then have "bslice (unat off) (unat n) (cont s1 nm) = replicate (unat n) erased"
    by simp
  then have "cont s2 nm = patch (unat off) (take (unat n) bs) (cont s1 nm)"
    using write_law [OF 1(1) assms(2,3,5,7)] by simp
  also have "\<dots> = patch (unat off) (take (unat n) bs) (cont s nm)"
    using 1(2) assms(5) by (simp add: 1(3) patch_def)
  finally show ?thesis
    using 1 write_law [OF 1(1) assms(2,3,5,7)] by simp
qed

end

context reliable_store
begin

lemma read_in_range:
  assumes "ok s" and "nm \<in> names" and "unat off + unat n \<le> length (cont s nm)"
  obtains s' where "if_read P nm False off n s = Some (0, bslice (unat off) (unat n) (cont s nm), s')"
    "ok s'" "\<And>m. m \<in> names \<Longrightarrow> cont s' m = cont s m"
proof -
  have nw: "unat off + unat n < 2 ^ 32"
    using assms(3) cont_bound [OF assms(1,2)] by simp
  obtain r bs s' where r: "if_read P nm False off n s = Some (r, bs, s')"
    using read_total [OF assms(1,2) nw] by blast
  with read_succeeds [OF assms r] read_law [OF assms(1,2) nw r] that show thesis by simp
qed

lemma erase_in_range:
  assumes "ok s" and "nm \<in> names" and "unat off + unat n \<le> length (cont s nm)" and "0 < unat n"
  obtains s' where "if_erase P nm off n s = Some (0, s')" "ok s'"
    "cont s' nm = patch (unat off) (replicate (unat n) erased) (cont s nm)"
    "\<And>m. m \<in> names \<Longrightarrow> m \<noteq> nm \<Longrightarrow> cont s' m = cont s m"
proof -
  have nw: "unat off + unat n < 2 ^ 32"
    using assms(3) cont_bound [OF assms(1,2)] by simp
  obtain r s' where r: "if_erase P nm off n s = Some (r, s')"
    using erase_total [OF assms(1,2) nw assms(4)] by blast
  with erase_succeeds [OF assms r] erase_law [OF assms(1,2) nw assms(4) r] that show thesis by simp
qed

lemma write_in_range:
  assumes "ok s" and "nm \<in> names" and "unat off + unat n \<le> length (cont s nm)" and "unat n \<le> length bs"
    and "bslice (unat off) (unat n) (cont s nm) = replicate (unat n) erased"
  obtains s' where "if_write P nm bs off n s = Some (0, s')" "ok s'"
    "cont s' nm = patch (unat off) (take (unat n) bs) (cont s nm)"
    "\<And>m. m \<in> names \<Longrightarrow> m \<noteq> nm \<Longrightarrow> cont s' m = cont s m"
proof -
  have nw: "unat off + unat n < 2 ^ 32"
    using assms(3) cont_bound [OF assms(1,2)] by simp
  obtain r s' where r: "if_write P nm bs off n s = Some (r, s')"
    using write_total [OF assms(1,2) nw assms(4)] by blast
  with write_succeeds [OF assms(1-4) r] write_law [OF assms(1,2) nw assms(4) r] assms(5) that show thesis by simp
qed

lemma erase_all_in_range:
  assumes "ok s" and "nm \<in> names"
  obtains s' where "if_erase_all P nm s = Some (0, s')" "ok s'"
    "cont s' nm = replicate (length (cont s nm)) erased"
    "\<And>m. m \<in> names \<Longrightarrow> m \<noteq> nm \<Longrightarrow> cont s' m = cont s m"
proof -
  obtain r s' where r: "if_erase_all P nm s = Some (r, s')"
    using erase_all_total [OF assms] by blast
  with erase_all_succeeds [OF assms r] erase_all_law [OF assms r] that show thesis by simp
qed

end

end
