(* ===== verification/Ota.thy ===== *)
theory Ota
  imports Part_Store Ymodem Crc
begin

text \<open>
  The OTA component of \<^verbatim>\<open>hgboot/ota/ota.c\<close> and its data in \<^verbatim>\<open>ota.h\<close>: download, update and
  rollback of firmware.  The partition functions are those of a provider \<open>P\<close>; the global cache
  buffer is threaded through the loops, because a read that fails leaves it partly overwritten.
\<close>

section \<open>Data\<close>

definition OTA_FIRMWARE_MAGIC :: u32 where "OTA_FIRMWARE_MAGIC = 0x46574D47"
definition OTA_PARA_MAGIC :: u32 where "OTA_PARA_MAGIC = 0x50415241"
definition CACHE_SIZE :: u32 where "CACHE_SIZE = 1024"
definition DOWN_PART :: "u8 list" where "DOWN_PART = cstr ''Download''"
definition APP1_PART :: "u8 list" where "APP1_PART = cstr ''APP1''"
definition APP2_PART :: "u8 list" where "APP2_PART = cstr ''APP2''"
definition PARA_PART :: "u8 list" where "PARA_PART = cstr ''Param''"
definition APP_SLOT_1 :: u32 where "APP_SLOT_1 = 0xA1"
definition APP_SLOT_2 :: u32 where "APP_SLOT_2 = 0xA2"
definition BACKUP_FLAG :: u32 where "BACKUP_FLAG = 0xBA"

datatype ota_errcode = OTA_OK | OTA_ERR_DOWNLOAD | OTA_ERR_UPDATE | OTA_ERR_BACKUP | OTA_ERR_CHECK
  | OTA_ERR_PARTITION

fun ota_code :: "ota_errcode \<Rightarrow> int" where
  "ota_code OTA_OK = 0"
| "ota_code OTA_ERR_DOWNLOAD = -1"
| "ota_code OTA_ERR_UPDATE = -2"
| "ota_code OTA_ERR_BACKUP = -3"
| "ota_code OTA_ERR_CHECK = -4"
| "ota_code OTA_ERR_PARTITION = -5"

record firmware_header =
  fh_magic :: u32
  fh_size :: u32
  fh_crc32 :: u32
  fh_version :: u32
  fh_load_addr :: u32
  fh_exec_addr :: u32
  fh_reseved0 :: u32
  fh_reseved1 :: u32

record ota_paramers =
  pa_magic :: u32
  pa_active_slot :: u32
  pa_can_be_back :: u32
  pa_upgrade_ready :: u32
  pa_app1_crc :: u32
  pa_app2_crc :: u32
  pa_download_crc :: u32
  pa_reserved :: u32

text \<open>Both structures are eight words, 32 bytes, as they lie in memory and in flash.\<close>

definition header_bytes :: "firmware_header \<Rightarrow> u8 list" where
  "header_bytes h = le32 (fh_magic h) @ le32 (fh_size h) @ le32 (fh_crc32 h) @ le32 (fh_version h) @
     le32 (fh_load_addr h) @ le32 (fh_exec_addr h) @ le32 (fh_reseved0 h) @ le32 (fh_reseved1 h)"

definition header_of_bytes :: "u8 list \<Rightarrow> firmware_header" where
  "header_of_bytes bs = \<lparr>fh_magic = de32 (bslice 0 4 bs), fh_size = de32 (bslice 4 4 bs),
     fh_crc32 = de32 (bslice 8 4 bs), fh_version = de32 (bslice 12 4 bs),
     fh_load_addr = de32 (bslice 16 4 bs), fh_exec_addr = de32 (bslice 20 4 bs),
     fh_reseved0 = de32 (bslice 24 4 bs), fh_reseved1 = de32 (bslice 28 4 bs)\<rparr>"

definition para_bytes :: "ota_paramers \<Rightarrow> u8 list" where
  "para_bytes p = le32 (pa_magic p) @ le32 (pa_active_slot p) @ le32 (pa_can_be_back p) @
     le32 (pa_upgrade_ready p) @ le32 (pa_app1_crc p) @ le32 (pa_app2_crc p) @
     le32 (pa_download_crc p) @ le32 (pa_reserved p)"

definition para_of_bytes :: "u8 list \<Rightarrow> ota_paramers" where
  "para_of_bytes bs = \<lparr>pa_magic = de32 (bslice 0 4 bs), pa_active_slot = de32 (bslice 4 4 bs),
     pa_can_be_back = de32 (bslice 8 4 bs), pa_upgrade_ready = de32 (bslice 12 4 bs),
     pa_app1_crc = de32 (bslice 16 4 bs), pa_app2_crc = de32 (bslice 20 4 bs),
     pa_download_crc = de32 (bslice 24 4 bs), pa_reserved = de32 (bslice 28 4 bs)\<rparr>"

text \<open>Reading 32 bytes into a structure: the bytes the driver stored replace the old ones.\<close>

definition read_struct ::
  "'s part_if \<Rightarrow> u8 list \<Rightarrow> u8 list \<Rightarrow> 's \<Rightarrow> (int \<times> u8 list \<times> 's) option" where
  "read_struct P nm old s = do {
     (r, bs, s) \<leftarrow> if_read P nm False 0 32 s;
     Some (r, overlay bs old, s)
   }"

section \<open>Download\<close>

definition ota_ymodem_recv_data :: "'s part_if \<Rightarrow> ymodem_data \<Rightarrow> 's \<Rightarrow> 's option" where
  "ota_ymodem_recv_data P d s = do {
     (r, s) \<leftarrow> if_write P DOWN_PART (yd_data d) (yd_offset d) (yd_size d) s;
     Some s
   }"

definition ota_ymdoem_cb :: "'s part_if \<Rightarrow> 's ymodem_callback" where
  "ota_ymdoem_cb P = \<lparr>cb_start = Some (\<lambda>_. Some), cb_recv_data = Some (ota_ymodem_recv_data P),
     cb_abort = Some (\<lambda>_. Some), cb_finish = Some (\<lambda>_. Some)\<rparr>"

lemma unat_shrinks: "CACHE_SIZE < remain \<Longrightarrow> unat (remain - CACHE_SIZE) < unat remain"
  by (simp add: CACHE_SIZE_def unat_sub_if' word_less_nat_alt)

text \<open>The loop that computes the CRC of the payload in the download partition.\<close>

function ota_check_loop ::
  "'s part_if \<Rightarrow> u32 \<Rightarrow> u32 \<Rightarrow> u32 \<Rightarrow> u8 list \<Rightarrow> 's \<Rightarrow> (int \<times> u32 \<times> u8 list \<times> 's) option" where
  "ota_check_loop P remain offset crc cache s =
     (if remain = 0 then Some (0, crc, cache, s)
      else if CACHE_SIZE < remain then do {
        (r, bs, s) \<leftarrow> if_read P DOWN_PART False offset CACHE_SIZE s;
        let cache = overlay bs cache;
        (if r \<noteq> 0 then Some (ota_code OTA_ERR_PARTITION, crc, cache, s)
         else ota_check_loop P (remain - CACHE_SIZE) (offset + CACHE_SIZE)
                (ota_crc32_update crc (take (unat CACHE_SIZE) cache)) cache s)
      }
      else do {
        (r, bs, s) \<leftarrow> if_read P DOWN_PART False offset remain s;
        let cache = overlay bs cache;
        (if r \<noteq> 0 then Some (ota_code OTA_ERR_PARTITION, crc, cache, s)
         else Some (0, ota_crc32_update crc (take (unat remain) cache), cache, s))
      })"
  by auto

termination
  by (relation "measure (\<lambda>(P, remain, _). unat remain)") (auto simp: unat_shrinks)

declare ota_check_loop.simps [simp del]

text \<open>Erasing and writing the parameters, with the two error returns.\<close>

definition write_para :: "'s part_if \<Rightarrow> ota_paramers \<Rightarrow> 's \<Rightarrow> (int \<times> 's) option" where
  "write_para P para s = do {
     (r, s) \<leftarrow> if_erase P PARA_PART 0 32 s;
     (if r \<noteq> 0 then Some (ota_code OTA_ERR_PARTITION, s)
      else do {
        (r, s) \<leftarrow> if_write P PARA_PART (para_bytes para) 0 32 s;
        (if r \<noteq> 0 then Some (ota_code OTA_ERR_PARTITION, s) else Some (0, s))
      })
   }"

definition ota_download_firmware ::
  "'s part_if \<Rightarrow> u8 list \<Rightarrow> 's ymodem_state \<Rightarrow> (int \<times> u8 list \<times> 's ymodem_state) option" where
  "ota_download_firmware P cache Y = do {
     (r, s) \<leftarrow> if_erase_all P DOWN_PART (y_env Y);
     let Y = Y\<lparr>y_env := s\<rparr>;
     (if r \<noteq> 0 then Some (ota_code OTA_ERR_PARTITION, cache, Y)
      else do {
        (r, Y) \<leftarrow> ymodem_receive (Some (ota_ymdoem_cb P)) Y;
        (if r \<noteq> 0 then Some (ota_code OTA_ERR_DOWNLOAD, cache, Y)
         else do {
           (r, hb, s) \<leftarrow> read_struct P DOWN_PART (replicate 32 0) (y_env Y);
           let header = header_of_bytes hb;
           (if r \<noteq> 0 then Some (ota_code OTA_ERR_PARTITION, cache, Y\<lparr>y_env := s\<rparr>)
            else if fh_magic header \<noteq> OTA_FIRMWARE_MAGIC then Some (ota_code OTA_ERR_CHECK, cache, Y\<lparr>y_env := s\<rparr>)
            else do {
              (r, crc, cache, s) \<leftarrow> ota_check_loop P (fh_size header) 32 0xFFFFFFFF cache s;
              let crc32 = crc XOR 0xFFFFFFFF;
              (if r \<noteq> 0 then Some (r, cache, Y\<lparr>y_env := s\<rparr>)
               else if crc32 \<noteq> fh_crc32 header then Some (ota_code OTA_ERR_CHECK, cache, Y\<lparr>y_env := s\<rparr>)
               else do {
                 (r, pb, s) \<leftarrow> read_struct P PARA_PART (replicate 32 0) s;
                 (if r \<noteq> 0 then Some (ota_code OTA_ERR_PARTITION, cache, Y\<lparr>y_env := s\<rparr>)
                  else do {
                    let para = (para_of_bytes pb)\<lparr>pa_magic := OTA_PARA_MAGIC, pa_download_crc := crc32,
                       pa_upgrade_ready := 1\<rparr>;
                    (r, s) \<leftarrow> write_para P para s;
                    Some (r, cache, Y\<lparr>y_env := s\<rparr>)
                  })
               })
            })
         })
      })
   }"

section \<open>Update\<close>

text \<open>The loop that copies header and payload from the download partition to the slot.\<close>

function ota_copy_loop ::
  "'s part_if \<Rightarrow> u8 list \<Rightarrow> u32 \<Rightarrow> u32 \<Rightarrow> u8 list \<Rightarrow> 's \<Rightarrow> (int \<times> u8 list \<times> 's) option" where
  "ota_copy_loop P part_name remain offset cache s =
     (if remain = 0 then Some (0, cache, s)
      else if CACHE_SIZE < remain then do {
        (r, bs, s) \<leftarrow> if_read P DOWN_PART False offset CACHE_SIZE s;
        let cache = overlay bs cache;
        (if r \<noteq> 0 then Some (ota_code OTA_ERR_PARTITION, cache, s)
         else do {
           (r, s) \<leftarrow> if_write P part_name cache offset CACHE_SIZE s;
           (if r \<noteq> 0 then Some (ota_code OTA_ERR_PARTITION, cache, s)
            else ota_copy_loop P part_name (remain - CACHE_SIZE) (offset + CACHE_SIZE) cache s)
         })
      }
      else do {
        (r, bs, s) \<leftarrow> if_read P DOWN_PART False offset remain s;
        let cache = overlay bs cache;
        (if r \<noteq> 0 then Some (ota_code OTA_ERR_PARTITION, cache, s)
         else do {
           (r, s) \<leftarrow> if_write P part_name cache offset remain s;
           Some (if r \<noteq> 0 then ota_code OTA_ERR_PARTITION else 0, cache, s)
         })
      })"
  by auto

termination
  by (relation "measure (\<lambda>(P, nm, remain, _). unat remain)") (auto simp: unat_shrinks)

declare ota_copy_loop.simps [simp del]

text \<open>
  The label \<open>exit\<close>.  The code assigns the result of the erase to \<open>ret\<close> here, so the error that led
  to the jump is lost.
\<close>

definition ota_update_exit :: "'s part_if \<Rightarrow> ota_paramers \<Rightarrow> u8 list \<Rightarrow> 's \<Rightarrow> (int \<times> u8 list \<times> 's) option" where
  "ota_update_exit P para cache s = do {
     (r, s) \<leftarrow> write_para P (para\<lparr>pa_magic := OTA_PARA_MAGIC, pa_upgrade_ready := 0\<rparr>) s;
     Some (r, cache, s)
   }"

definition ota_update_firmware :: "'s part_if \<Rightarrow> u8 list \<Rightarrow> 's \<Rightarrow> (int \<times> u8 list \<times> 's) option" where
  "ota_update_firmware P cache s = do {
     (r, pb, s) \<leftarrow> read_struct P PARA_PART (replicate 32 0) s;
     let para = para_of_bytes pb;
     (if r \<noteq> 0 then ota_update_exit P para cache s
      else if pa_magic para \<noteq> OTA_PARA_MAGIC then ota_update_exit P para cache s
      else if pa_upgrade_ready para \<noteq> 0 then do {
        (r, hb, s) \<leftarrow> read_struct P DOWN_PART (replicate 32 0) s;
        let header = header_of_bytes hb;
        (if r \<noteq> 0 then ota_update_exit P para cache s
         else if pa_download_crc para \<noteq> fh_crc32 header then ota_update_exit P para cache s
         else do {
           let part_name = (if pa_active_slot para = APP_SLOT_1 then APP2_PART else APP1_PART);
           (r, s) \<leftarrow> if_erase_all P part_name s;
           (if r \<noteq> 0 then ota_update_exit P para cache s
            else do {
              (r, cache, s) \<leftarrow> ota_copy_loop P part_name (fh_size header + 32) 0 cache s;
              (if r \<noteq> 0 then ota_update_exit P para cache s
               else
                 let para = (if pa_active_slot para = APP_SLOT_1
                   then para\<lparr>pa_active_slot := APP_SLOT_2, pa_app2_crc := pa_download_crc para\<rparr>
                   else para\<lparr>pa_active_slot := APP_SLOT_1, pa_app1_crc := pa_download_crc para\<rparr>)
                 in ota_update_exit P (para\<lparr>pa_can_be_back := BACKUP_FLAG\<rparr>) cache s)
            })
         })
      }
      else Some (ota_code OTA_ERR_UPDATE, cache, s))
   }"

section \<open>Rollback\<close>

definition ota_backup_firmware :: "'s part_if \<Rightarrow> 's \<Rightarrow> (int \<times> 's) option" where
  "ota_backup_firmware P s = do {
     (r, pb, s) \<leftarrow> read_struct P PARA_PART (replicate 32 0) s;
     let para = para_of_bytes pb;
     (if r \<noteq> 0 then Some (ota_code OTA_ERR_PARTITION, s)
      else if pa_magic para \<noteq> OTA_PARA_MAGIC then Some (ota_code OTA_ERR_CHECK, s)
      else if pa_can_be_back para = BACKUP_FLAG then do {
        let para = para\<lparr>pa_can_be_back := 0, pa_upgrade_ready := 0\<rparr>;
        let back = (if pa_active_slot para = APP_SLOT_1 then APP2_PART else APP1_PART);
        (r, hb, s) \<leftarrow> read_struct P back (replicate 32 0) s;
        let can_backup = (r = 0 \<and> fh_magic (header_of_bytes hb) = OTA_FIRMWARE_MAGIC);
        let para = (if can_backup
              then para\<lparr>pa_active_slot := (if pa_active_slot para = APP_SLOT_1 then APP_SLOT_2 else APP_SLOT_1)\<rparr>
              else para);
        (r, s) \<leftarrow> write_para P para s;
        Some (if r \<noteq> 0 then r else if \<not> can_backup then ota_code OTA_ERR_BACKUP else ota_code OTA_OK, s)
      }
      else Some (ota_code OTA_ERR_BACKUP, s))
   }"

section \<open>Layout\<close>

lemma length_header_bytes [simp]: "length (header_bytes h) = 32"
  by (simp add: header_bytes_def)

lemma length_para_bytes [simp]: "length (para_bytes p) = 32"
  by (simp add: para_bytes_def)

lemma bslice_le32 [layout_simps]:
  "bslice 0 4 (le32 a @ bs) = le32 a"
  "n \<noteq> 0 \<Longrightarrow> bslice (4 + n) k (le32 a @ bs) = bslice n k bs"
  by (simp_all add: bslice_def)

lemma header_of_bytes_bytes [simp]: "header_of_bytes (header_bytes h @ bs) = h"
  by (simp add: header_of_bytes_def header_bytes_def bslice_def drop_Cons' le32_def de32_le32 [unfolded le32_def])

lemma para_of_bytes_bytes [simp]: "para_of_bytes (para_bytes p @ bs) = p"
  by (simp add: para_of_bytes_def para_bytes_def bslice_def drop_Cons' le32_def de32_le32 [unfolded le32_def])

lemma para_of_bytes_bytes' [simp]: "para_of_bytes (para_bytes p) = p"
  using para_of_bytes_bytes [of p "[]"] by simp

lemma header_of_bytes_bytes' [simp]: "header_of_bytes (header_bytes h) = h"
  using header_of_bytes_bytes [of h "[]"] by simp

end
