(* ===== verification/Ota_Facts.thy ===== *)
theory Ota_Facts
  imports Ota Ymodem_Facts
begin

text \<open>
  What download, update and rollback do to the contents of the partitions, for every provider that
  keeps the contract of \<open>Part_Store\<close>: which partitions they never touch, what they have checked
  when they report success, and what they do on a medium without I/O errors.
\<close>

section \<open>The partitions of the firmware\<close>

locale ota_store = part_store +
  assumes fw_names: "DOWN_PART \<in> names" "APP1_PART \<in> names" "APP2_PART \<in> names" "PARA_PART \<in> names"

locale reliable_ota = ota_store + reliable_store

lemmas part_name_defs = DOWN_PART_def APP1_PART_def APP2_PART_def PARA_PART_def

lemma part_names_distinct [simp]:
  "DOWN_PART \<noteq> APP1_PART" "DOWN_PART \<noteq> APP2_PART" "DOWN_PART \<noteq> PARA_PART" "APP1_PART \<noteq> APP2_PART"
  "APP1_PART \<noteq> PARA_PART" "APP2_PART \<noteq> PARA_PART"
  by (simp_all add: part_name_defs cstr_def)

lemmas part_names_distinct' [simp] = part_names_distinct [symmetric]

text \<open>The structures as they lie in the partitions.\<close>

definition para_at :: "('s \<Rightarrow> u8 list \<Rightarrow> u8 list) \<Rightarrow> 's \<Rightarrow> ota_paramers" where
  "para_at cont s = para_of_bytes (bslice 0 32 (cont s PARA_PART))"

definition header_at :: "('s \<Rightarrow> u8 list \<Rightarrow> u8 list) \<Rightarrow> 's \<Rightarrow> u8 list \<Rightarrow> firmware_header" where
  "header_at cont s nm = header_of_bytes (bslice 0 32 (cont s nm))"

definition payload_at :: "('s \<Rightarrow> u8 list \<Rightarrow> u8 list) \<Rightarrow> 's \<Rightarrow> u8 list \<Rightarrow> u8 list" where
  "payload_at cont s nm = bslice 32 (unat (fh_size (header_at cont s nm))) (cont s nm)"

definition active_part :: "ota_paramers \<Rightarrow> u8 list" where
  "active_part p = (if pa_active_slot p = APP_SLOT_1 then APP1_PART else APP2_PART)"

definition spare_part :: "ota_paramers \<Rightarrow> u8 list" where
  "spare_part p = (if pa_active_slot p = APP_SLOT_1 then APP2_PART else APP1_PART)"

lemma spare_active [simp]: "active_part p \<noteq> spare_part p" "spare_part p \<noteq> active_part p"
  "active_part p \<noteq> PARA_PART" "active_part p \<noteq> DOWN_PART" "spare_part p \<noteq> PARA_PART" "spare_part p \<noteq> DOWN_PART"
  "DOWN_PART \<noteq> active_part p" "DOWN_PART \<noteq> spare_part p" "PARA_PART \<noteq> active_part p" "PARA_PART \<noteq> spare_part p"
  by (simp_all add: active_part_def spare_part_def)

lemma take_overlay [simp]: "length bs = n \<Longrightarrow> take n (overlay bs old) = bs"
  by (simp add: overlay_def)

lemma unat_32 [simp]: "unat (32 :: u32) = 32" "unat CACHE_SIZE = 1024"
  by (simp_all add: CACHE_SIZE_def)

lemma bslice_patch_0 [simp]: "length ys \<le> length xs \<Longrightarrow> n = length ys \<Longrightarrow> bslice 0 n (patch 0 ys xs) = ys"
  by (simp add: bslice_def patch_def)

text \<open>The parameters after a completed update.\<close>

definition switched :: "ota_paramers \<Rightarrow> ota_paramers" where
  "switched p = (if pa_active_slot p = APP_SLOT_1
     then p\<lparr>pa_active_slot := APP_SLOT_2, pa_app2_crc := pa_download_crc p\<rparr>
     else p\<lparr>pa_active_slot := APP_SLOT_1, pa_app1_crc := pa_download_crc p\<rparr>)
     \<lparr>pa_can_be_back := BACKUP_FLAG, pa_magic := OTA_PARA_MAGIC, pa_upgrade_ready := 0\<rparr>"

text \<open>The parameters after a rollback.\<close>

definition rolled_back :: "ota_paramers \<Rightarrow> ota_paramers" where
  "rolled_back p = p\<lparr>pa_can_be_back := 0, pa_upgrade_ready := 0,
     pa_active_slot := (if pa_active_slot p = APP_SLOT_1 then APP_SLOT_2 else APP_SLOT_1)\<rparr>"

section \<open>The steps, on every provider\<close>

context ota_store
begin

lemma slot_names [simp]: "active_part p \<in> names" "spare_part p \<in> names" "DOWN_PART \<in> names" "PARA_PART \<in> names"
  "APP1_PART \<in> names" "APP2_PART \<in> names"
  using fw_names by (simp_all add: active_part_def spare_part_def)

lemma read_struct_effect:
  assumes "ok s" and "nm \<in> names" and "length old = 32"
  obtains r b s' where "read_struct P nm old s = Some (r, b, s')" "ok s'"
    "\<And>m. m \<in> names \<Longrightarrow> cont s' m = cont s m" "length b = 32"
    "r = 0 \<Longrightarrow> b = bslice 0 32 (cont s nm) \<and> 32 \<le> length (cont s nm)"
proof -
  have nw: "unat (0 :: u32) + unat (32 :: u32) < 2 ^ 32" by simp
  obtain r bs s' where r: "if_read P nm False 0 32 s = Some (r, bs, s')"
    using read_total [OF assms(1,2) nw] by blast
  note law = read_law [OF assms(1,2) nw r]
  show thesis
    by (rule that [of r "overlay bs old" s'])
      (use law assms(3) in \<open>auto simp: read_struct_def r\<close>)
qed

lemma write_para_effect:
  assumes "ok s"
  obtains r s' where "write_para P p s = Some (r, s')" "ok s'"
    "\<And>m. m \<in> names \<Longrightarrow> m \<noteq> PARA_PART \<Longrightarrow> cont s' m = cont s m"
    "length (cont s' PARA_PART) = length (cont s PARA_PART)" "r = 0 \<or> r = ota_code OTA_ERR_PARTITION"
    "r = 0 \<Longrightarrow> cont s' PARA_PART = patch 0 (para_bytes p) (cont s PARA_PART) \<and> 32 \<le> length (cont s PARA_PART)"
proof -
  have nw: "unat (0 :: u32) + unat (32 :: u32) < 2 ^ 32" and pos: "0 < unat (32 :: u32)" and
    len: "unat (32 :: u32) \<le> length (para_bytes p)" by simp_all
  have nm: "PARA_PART \<in> names" by simp
  obtain r1 s1 where e: "if_erase P PARA_PART 0 32 s = Some (r1, s1)"
    using erase_total [OF assms nm nw pos] by blast
  note elaw = erase_law [OF assms nm nw pos e]
  show thesis
  proof (cases "r1 = 0")
    case False
    show thesis
      by (rule that [of "ota_code OTA_ERR_PARTITION" s1]) (use False elaw in \<open>auto simp: write_para_def e\<close>)
  next
    case True
    obtain r2 s2 where w: "if_write P PARA_PART (para_bytes p) 0 32 s1 = Some (r2, s2)"
      using write_total [OF _ nm nw len] elaw by blast
    note wlaw = write_law [OF conjunct1 [OF elaw] nm nw len w]
    show thesis
    proof (cases "r2 = 0")
      case False
      show thesis
        by (rule that [of "ota_code OTA_ERR_PARTITION" s2])
          (use True False elaw wlaw in \<open>auto simp: write_para_def e w\<close>)
    next
      case r2: True
      from erase_then_write [OF assms nm nw pos len e [unfolded True] w [unfolded r2]] True r2 elaw wlaw
      show thesis
        by (intro that [of 0 s2]) (auto simp: write_para_def e w)
    qed
  qed
qed

text \<open>The CRC loop: it changes nothing and, when it succeeds, has covered exactly the payload.\<close>

lemma check_loop_effect:
  "ok s \<Longrightarrow> unat off \<le> length (cont s DOWN_PART) \<Longrightarrow> length cache = 1024 \<Longrightarrow>
   \<exists>r crc' cache' s'. ota_check_loop P remain off crc cache s = Some (r, crc', cache', s') \<and> ok s' \<and>
     (\<forall>m \<in> names. cont s' m = cont s m) \<and> length cache' = 1024 \<and> (r = 0 \<or> r = ota_code OTA_ERR_PARTITION) \<and>
     (r = 0 \<longrightarrow> unat off + unat remain \<le> length (cont s DOWN_PART) \<and>
        crc' = ota_crc32_update crc (bslice (unat off) (unat remain) (cont s DOWN_PART)))"
proof (induction "unat remain" arbitrary: remain off crc cache s rule: less_induct)
  case less
  have bound: "unat off \<le> 2 ^ 31"
    using less.prems(2) cont_bound [OF less.prems(1) fw_names(1)] by simp
  consider "remain = 0" | "remain \<noteq> 0" "\<not> CACHE_SIZE < remain" | "CACHE_SIZE < remain" by auto
  then show ?case
  proof cases
    case 1
    then show ?thesis
      using less.prems by (subst ota_check_loop.simps) simp
  next
    case 2
    then have small: "unat remain \<le> 1024"
      by (simp add: CACHE_SIZE_def word_less_nat_alt)
    with bound have nw: "unat off + unat remain < 2 ^ 32" by simp
    obtain r bs s1 where r: "if_read P DOWN_PART False off remain s = Some (r, bs, s1)"
      using read_total [OF less.prems(1) fw_names(1) nw] by blast
    note law = read_law [OF less.prems(1) fw_names(1) nw r]
    show ?thesis
      using 2 law less.prems(3) small
      by (subst ota_check_loop.simps) (auto simp: r Let_def)
  next
    case 3
    then have big: "1024 < unat remain" "unat (remain - CACHE_SIZE) = unat remain - 1024" "remain \<noteq> 0"
      by (auto simp: CACHE_SIZE_def word_less_nat_alt unat_sub_if')
    from bound have nw: "unat off + unat CACHE_SIZE < 2 ^ 32" by simp
    then have off: "unat (off + CACHE_SIZE) = unat off + 1024"
      using unat_add_no_wrap [of off CACHE_SIZE] by simp
    obtain r bs s1 where r: "if_read P DOWN_PART False off CACHE_SIZE s = Some (r, bs, s1)"
      using read_total [OF less.prems(1) fw_names(1) nw] by blast
    note law = read_law [OF less.prems(1) fw_names(1) nw r]
    show ?thesis
    proof (cases "r = 0")
      case False
      then show ?thesis
        using 3 big law less.prems(3) by (subst ota_check_loop.simps) (auto simp: r Let_def)
    next
      case True
      have rd: "bs = bslice (unat off) 1024 (cont s DOWN_PART)" "unat off + 1024 \<le> length (cont s DOWN_PART)"
        and same: "ok s1" "\<And>m. m \<in> names \<Longrightarrow> cont s1 m = cont s m"
        using law True by simp_all
      have lb: "length bs = 1024" "overlay bs cache = bs"
        using rd less.prems(3) by simp_all
      have down: "cont s1 DOWN_PART = cont s DOWN_PART" by (simp add: same(2))
      obtain r' crc' cache' s' where IH:
        "ota_check_loop P (remain - CACHE_SIZE) (off + CACHE_SIZE) (ota_crc32_update crc bs) bs s1 = Some (r', crc', cache', s')"
        "ok s'" "\<forall>m \<in> names. cont s' m = cont s1 m" "length cache' = 1024" "r' = 0 \<or> r' = ota_code OTA_ERR_PARTITION"
        "r' = 0 \<longrightarrow> unat off + unat remain \<le> length (cont s DOWN_PART) \<and>
          crc' = ota_crc32_update (ota_crc32_update crc bs) (bslice (unat off + 1024) (unat remain - 1024) (cont s DOWN_PART))"
        using less.hyps [of "remain - CACHE_SIZE" s1 "off + CACHE_SIZE" bs "ota_crc32_update crc bs"] same(1) lb rd(2) big off
        by (auto simp: down)
      have "bslice (unat off) (unat remain) (cont s DOWN_PART) =
          bs @ bslice (unat off + 1024) (unat remain - 1024) (cont s DOWN_PART)"
        using bslice_append [of "unat off" 1024 "unat remain - 1024" "cont s DOWN_PART"] big rd(1) by simp
      then have "ota_crc32_update (ota_crc32_update crc bs) (bslice (unat off + 1024) (unat remain - 1024) (cont s DOWN_PART)) =
          ota_crc32_update crc (bslice (unat off) (unat remain) (cont s DOWN_PART))"
        by (simp add: ota_crc32_update_boot boot_crc32_update_poly crc32_poly_append)
      with IH same 3 big True show ?thesis
        by (subst ota_check_loop.simps) (simp add: r Let_def lb)
    qed
  qed
qed

text \<open>The copy loop: only the slot changes, and on success it holds a copy of the range.\<close>

lemma copy_loop_effect:
  "ok s \<Longrightarrow> nm \<in> names \<Longrightarrow> nm \<noteq> DOWN_PART \<Longrightarrow> unat off \<le> length (cont s DOWN_PART) \<Longrightarrow>
   unat off \<le> length (cont s nm) \<Longrightarrow> length cache = 1024 \<Longrightarrow> blank_from (unat off) (cont s nm) \<Longrightarrow>
   \<exists>r cache' s'. ota_copy_loop P nm remain off cache s = Some (r, cache', s') \<and> ok s' \<and>
     (\<forall>m \<in> names - {nm}. cont s' m = cont s m) \<and> length (cont s' nm) = length (cont s nm) \<and>
     length cache' = 1024 \<and> (r = 0 \<or> r = ota_code OTA_ERR_PARTITION) \<and>
     (r = 0 \<longrightarrow> unat off + unat remain \<le> length (cont s DOWN_PART) \<and> unat off + unat remain \<le> length (cont s nm) \<and>
        cont s' nm = patch (unat off) (bslice (unat off) (unat remain) (cont s DOWN_PART)) (cont s nm))"
proof (induction "unat remain" arbitrary: remain off cache s rule: less_induct)
  case less
  have bound: "unat off \<le> 2 ^ 31"
    using less.prems(4) cont_bound [OF less.prems(1) fw_names(1)] by simp
  consider "remain = 0" | "remain \<noteq> 0" "\<not> CACHE_SIZE < remain" | "CACHE_SIZE < remain" by auto
  then show ?case
  proof cases
    case 1
    then show ?thesis
      using less.prems by (subst ota_copy_loop.simps) simp
  next
    case 2
    then have small: "unat remain \<le> 1024"
      by (simp add: CACHE_SIZE_def word_less_nat_alt)
    with bound have nw: "unat off + unat remain < 2 ^ 32" by simp
    obtain r bs s1 where r: "if_read P DOWN_PART False off remain s = Some (r, bs, s1)"
      using read_total [OF less.prems(1) fw_names(1) nw] by blast
    note law = read_law [OF less.prems(1) fw_names(1) nw r]
    let ?cache = "overlay bs cache"
    have lc: "length ?cache = 1024" "unat remain \<le> length ?cache"
      using law less.prems(6) small by simp_all
    obtain r2 s2 where w: "if_write P nm ?cache off remain s1 = Some (r2, s2)"
      using write_total [OF _ less.prems(2) nw lc(2)] law by blast
    note wlaw = write_law [OF conjunct1 [OF law] less.prems(2) nw lc(2) w]
    have eq: "ota_copy_loop P nm remain off cache s =
        Some (if r \<noteq> 0 \<or> r2 \<noteq> 0 then ota_code OTA_ERR_PARTITION else 0, ?cache, if r \<noteq> 0 then s1 else s2)"
      using 2 by (subst ota_copy_loop.simps) (simp add: r w Let_def)
    show ?thesis
    proof (cases "r = 0 \<and> r2 = 0")
      case True
      then have "length bs = unat remain" "unat off + unat remain \<le> length (cont s nm)"
        using law wlaw less.prems(2) by simp_all
      then show ?thesis
        using True law wlaw less.prems lc blank_from_bslice [OF less.prems(7), of "unat remain"]
        by (simp add: eq)
    next
      case False
      then show ?thesis
        using law wlaw less.prems lc by (auto simp: eq)
    qed
  next
    case 3
    then have big: "1024 < unat remain" "unat (remain - CACHE_SIZE) = unat remain - 1024" "remain \<noteq> 0"
      by (auto simp: CACHE_SIZE_def word_less_nat_alt unat_sub_if')
    from bound have nw: "unat off + unat CACHE_SIZE < 2 ^ 32" by simp
    then have off: "unat (off + CACHE_SIZE) = unat off + 1024"
      using unat_add_no_wrap [of off CACHE_SIZE] by simp
    obtain r bs s1 where r: "if_read P DOWN_PART False off CACHE_SIZE s = Some (r, bs, s1)"
      using read_total [OF less.prems(1) fw_names(1) nw] by blast
    note law = read_law [OF less.prems(1) fw_names(1) nw r]
    let ?cache = "overlay bs cache"
    have lc: "length ?cache = 1024" "unat CACHE_SIZE \<le> length ?cache"
      using law less.prems(6) by simp_all
    obtain r2 s2 where w: "if_write P nm ?cache off CACHE_SIZE s1 = Some (r2, s2)"
      using write_total [OF _ less.prems(2) nw lc(2)] law by blast
    note wlaw = write_law [OF conjunct1 [OF law] less.prems(2) nw lc(2) w]
    show ?thesis
    proof (cases "r = 0 \<and> r2 = 0")
      case False
      then have "ota_copy_loop P nm remain off cache s =
          Some (ota_code OTA_ERR_PARTITION, ?cache, if r \<noteq> 0 then s1 else s2)"
        using 3 big by (subst ota_copy_loop.simps) (simp add: r w Let_def)
      then show ?thesis
        using law wlaw less.prems(2,3) lc by auto
    next
      case True
      have rd: "bs = bslice (unat off) 1024 (cont s DOWN_PART)" "unat off + 1024 \<le> length (cont s DOWN_PART)"
        and same: "ok s1" "\<And>m. m \<in> names \<Longrightarrow> cont s1 m = cont s m"
        using law True by simp_all
      have lb: "length bs = 1024" "?cache = bs"
        using rd less.prems(6) by simp_all
      have fits: "unat off + 1024 \<le> length (cont s nm)"
        using wlaw True same less.prems(2) by simp
      have wr: "cont s2 nm = patch (unat off) bs (cont s nm)" and down: "cont s2 DOWN_PART = cont s DOWN_PART"
        and s2: "ok s2" "\<forall>m \<in> names - {nm}. cont s2 m = cont s m"
        using wlaw True same less.prems(2,3) lb blank_from_bslice [OF less.prems(7) fits] fw_names by auto
      have blank: "blank_from (unat off + 1024) (cont s2 nm)"
        using blank_from_patch [OF less.prems(7), of bs] fits lb by (simp add: wr)
      have len: "length (cont s2 nm) = length (cont s nm)"
        using fits lb by (simp add: wr)
      obtain r' cache' s' where IH:
        "ota_copy_loop P nm (remain - CACHE_SIZE) (off + CACHE_SIZE) bs s2 = Some (r', cache', s')"
        "ok s'" "\<forall>m \<in> names - {nm}. cont s' m = cont s2 m" "length (cont s' nm) = length (cont s2 nm)"
        "length cache' = 1024" "r' = 0 \<or> r' = ota_code OTA_ERR_PARTITION"
        "r' = 0 \<longrightarrow> unat off + unat remain \<le> length (cont s DOWN_PART) \<and> unat off + unat remain \<le> length (cont s nm) \<and>
          cont s' nm = patch (unat off + 1024) (bslice (unat off + 1024) (unat remain - 1024) (cont s DOWN_PART)) (cont s2 nm)"
        using less.hyps [of "remain - CACHE_SIZE" s2 "off + CACHE_SIZE" bs] s2(1) less.prems(2,3) rd(2) fits big off blank lb(1)
        by (auto simp: down len)
      have split: "bslice (unat off) (unat remain) (cont s DOWN_PART) =
          bs @ bslice (unat off + 1024) (unat remain - 1024) (cont s DOWN_PART)"
        using bslice_append [of "unat off" 1024 "unat remain - 1024" "cont s DOWN_PART"] big rd(1) by simp
      have "cont s' nm = patch (unat off) (bslice (unat off) (unat remain) (cont s DOWN_PART)) (cont s nm)" if "r' = 0"
        using IH(7) that patch_patch_adjacent [of "unat off" bs
            "bslice (unat off + 1024) (unat remain - 1024) (cont s DOWN_PART)" "cont s nm"] lb(1) big(1)
        by (simp add: wr split)
      moreover have "ota_copy_loop P nm remain off cache s =
          ota_copy_loop P nm (remain - CACHE_SIZE) (off + CACHE_SIZE) bs s2"
        using 3 big True by (subst ota_copy_loop.simps) (simp add: r w [unfolded lb(2)] Let_def lb)
      ultimately show ?thesis
        using IH s2 by (auto simp: len)
    qed
  qed
qed

text \<open>The exit of an update.\<close>

lemma update_exit_effect:
  assumes "ok s"
  obtains r s' where "ota_update_exit P q cache s = Some (r, cache, s')" "ok s'"
    "\<And>m. m \<in> names \<Longrightarrow> m \<noteq> PARA_PART \<Longrightarrow> cont s' m = cont s m"
    "length (cont s' PARA_PART) = length (cont s PARA_PART)" "r = 0 \<or> r = ota_code OTA_ERR_PARTITION"
    "r = 0 \<Longrightarrow> cont s' PARA_PART =
       patch 0 (para_bytes (q\<lparr>pa_magic := OTA_PARA_MAGIC, pa_upgrade_ready := 0\<rparr>)) (cont s PARA_PART) \<and>
       32 \<le> length (cont s PARA_PART)"
proof -
  obtain r s' where w: "write_para P (q\<lparr>pa_magic := OTA_PARA_MAGIC, pa_upgrade_ready := 0\<rparr>) s = Some (r, s')" "ok s'"
    "\<And>m. m \<in> names \<Longrightarrow> m \<noteq> PARA_PART \<Longrightarrow> cont s' m = cont s m"
    "length (cont s' PARA_PART) = length (cont s PARA_PART)" "r = 0 \<or> r = ota_code OTA_ERR_PARTITION"
    "r = 0 \<Longrightarrow> cont s' PARA_PART =
       patch 0 (para_bytes (q\<lparr>pa_magic := OTA_PARA_MAGIC, pa_upgrade_ready := 0\<rparr>)) (cont s PARA_PART) \<and>
       32 \<le> length (cont s PARA_PART)"
    by (rule write_para_effect [OF assms, of "q\<lparr>pa_magic := OTA_PARA_MAGIC, pa_upgrade_ready := 0\<rparr>"]) blast
  show thesis
    by (rule that [of r s']) (use w in \<open>simp_all add: ota_update_exit_def\<close>)
qed

text \<open>Whatever happens, an update spares the download partition and the slot that is running.\<close>

lemma update_frame:
  assumes "ok s" and "length cache = 1024"
  shows "\<exists>r cache' s'. ota_update_firmware P cache s = Some (r, cache', s') \<and> ok s' \<and>
    cont s' DOWN_PART = cont s DOWN_PART \<and>
    cont s' (active_part (para_at cont s)) = cont s (active_part (para_at cont s)) \<and>
    length (cont s' (spare_part (para_at cont s))) = length (cont s (spare_part (para_at cont s))) \<and>
    length (cont s' PARA_PART) = length (cont s PARA_PART) \<and>
    (r = 0 \<or> r = ota_code OTA_ERR_PARTITION \<or> r = ota_code OTA_ERR_UPDATE)"
proof -
  let ?A = "active_part (para_at cont s)" and ?B = "spare_part (para_at cont s)"
  have exit: "\<exists>r s'. ota_update_exit P q c t = Some (r, c, s') \<and> ok s' \<and> cont s' DOWN_PART = cont s DOWN_PART \<and>
      cont s' ?A = cont s ?A \<and> length (cont s' ?B) = length (cont s ?B) \<and>
      length (cont s' PARA_PART) = length (cont s PARA_PART) \<and> (r = 0 \<or> r = ota_code OTA_ERR_PARTITION)"
    if "ok t" "cont t DOWN_PART = cont s DOWN_PART" "cont t ?A = cont s ?A"
      "length (cont t ?B) = length (cont s ?B)" "length (cont t PARA_PART) = length (cont s PARA_PART)" for q c t
    by (rule update_exit_effect [OF that(1), of q c]) (use that in force)
  obtain r1 pb s1 where 1: "read_struct P PARA_PART (replicate 32 0) s = Some (r1, pb, s1)" "ok s1"
    "\<And>m. m \<in> names \<Longrightarrow> cont s1 m = cont s m" "r1 = 0 \<Longrightarrow> pb = bslice 0 32 (cont s PARA_PART) \<and> 32 \<le> length (cont s PARA_PART)"
    by (rule read_struct_effect [OF assms(1), of PARA_PART "replicate 32 0"]) simp_all
  let ?p = "para_of_bytes pb"
  show ?thesis
  proof (cases "r1 \<noteq> 0 \<or> pa_magic ?p \<noteq> OTA_PARA_MAGIC")
    case True
    then have "ota_update_firmware P cache s = ota_update_exit P ?p cache s1"
      by (auto simp: ota_update_firmware_def 1(1) Let_def)
    with exit [OF 1(2), of ?p cache] 1(3) show ?thesis by (auto simp del: ota_code.simps)
  next
    case False
    then have p: "?p = para_at cont s" and m: "pa_magic ?p = OTA_PARA_MAGIC" "r1 = 0"
      using 1(4) by (simp_all add: para_at_def)
    show ?thesis
    proof (cases "pa_upgrade_ready ?p = 0")
      case True
      then have "ota_update_firmware P cache s = Some (ota_code OTA_ERR_UPDATE, cache, s1)"
        using m by (simp add: ota_update_firmware_def 1(1) Let_def)
      with 1 show ?thesis by (auto simp del: ota_code.simps)
    next
      case ready: False
      obtain r2 hb s2 where 2: "read_struct P DOWN_PART (replicate 32 0) s1 = Some (r2, hb, s2)" "ok s2"
        "\<And>m. m \<in> names \<Longrightarrow> cont s2 m = cont s1 m"
        by (rule read_struct_effect [OF 1(2), of DOWN_PART "replicate 32 0"]) simp_all
      let ?h = "header_of_bytes hb"
      have part: "(if pa_active_slot ?p = APP_SLOT_1 then APP2_PART else APP1_PART) = ?B"
        by (simp add: spare_part_def p)
      show ?thesis
      proof (cases "r2 \<noteq> 0 \<or> pa_download_crc ?p \<noteq> fh_crc32 ?h")
        case True
        then have "ota_update_firmware P cache s = ota_update_exit P ?p cache s2"
          using m ready by (auto simp: ota_update_firmware_def 1(1) 2(1) Let_def)
        with exit [OF 2(2), of ?p cache] 1(3) 2(3) show ?thesis by (auto simp del: ota_code.simps)
      next
        case crc: False
        obtain r3 s3 where 3: "if_erase_all P ?B s2 = Some (r3, s3)"
          using erase_all_total [OF 2(2)] slot_names by blast
        note elaw = erase_all_law [OF 2(2) slot_names(2) 3]
        have s3: "cont s3 DOWN_PART = cont s DOWN_PART" "cont s3 ?A = cont s ?A"
          "length (cont s3 ?B) = length (cont s ?B)" "cont s3 PARA_PART = cont s PARA_PART"
          using elaw 1(3) 2(3) by simp_all
        show ?thesis
        proof (cases "r3 = 0")
          case False
          then have "ota_update_firmware P cache s = ota_update_exit P ?p cache s3"
            using m ready crc by (simp add: ota_update_firmware_def 1(1) 2(1) Let_def part 3)
          with exit [of s3 ?p cache] elaw s3 show ?thesis by (auto simp del: ota_code.simps)
        next
          case True
          then have "blank_from (unat 0) (cont s3 ?B)"
            using elaw by simp
          then obtain r4 cache4 s4 where 4: "ota_copy_loop P ?B (fh_size ?h + 32) 0 cache s3 = Some (r4, cache4, s4)"
            "ok s4" "\<forall>m \<in> names - {?B}. cont s4 m = cont s3 m" "length (cont s4 ?B) = length (cont s3 ?B)"
            using copy_loop_effect [of s3 ?B 0 cache "fh_size ?h + 32"] elaw assms(2) by auto
          have s4: "cont s4 DOWN_PART = cont s DOWN_PART" "cont s4 ?A = cont s ?A"
            "length (cont s4 ?B) = length (cont s ?B)" "length (cont s4 PARA_PART) = length (cont s PARA_PART)"
            using 4 s3 by simp_all
          have "\<exists>q. ota_update_firmware P cache s = ota_update_exit P q cache4 s4"
            using m ready crc True
            by (cases "r4 = 0") (auto simp: ota_update_firmware_def 1(1) 2(1) Let_def part 3 4(1))
          then obtain q where "ota_update_firmware P cache s = ota_update_exit P q cache4 s4" by blast
          with exit [OF 4(2) s4, of q cache4] show ?thesis by (auto simp del: ota_code.simps)
        qed
      qed
    qed
  qed
qed

text \<open>Rollback: it changes the parameters only, and reports success only when it has switched.\<close>

lemma backup_effect:
  assumes "ok s"
  obtains r s' where "ota_backup_firmware P s = Some (r, s')" "ok s'"
    "\<And>m. m \<in> names \<Longrightarrow> m \<noteq> PARA_PART \<Longrightarrow> cont s' m = cont s m"
    "length (cont s' PARA_PART) = length (cont s PARA_PART)"
    "r = 0 \<Longrightarrow> 32 \<le> length (cont s PARA_PART) \<and> pa_magic (para_at cont s) = OTA_PARA_MAGIC \<and>
       pa_can_be_back (para_at cont s) = BACKUP_FLAG \<and>
       fh_magic (header_at cont s (spare_part (para_at cont s))) = OTA_FIRMWARE_MAGIC \<and>
       cont s' PARA_PART = patch 0 (para_bytes (rolled_back (para_at cont s))) (cont s PARA_PART)"
proof -
  obtain r1 pb s1 where rd: "read_struct P PARA_PART (replicate 32 0) s = Some (r1, pb, s1)" "ok s1"
    "\<And>m. m \<in> names \<Longrightarrow> cont s1 m = cont s m" "r1 = 0 \<Longrightarrow> pb = bslice 0 32 (cont s PARA_PART) \<and> 32 \<le> length (cont s PARA_PART)"
    by (rule read_struct_effect [OF assms, of PARA_PART "replicate 32 0"]) simp_all
  let ?p = "para_of_bytes pb"
  consider "r1 \<noteq> 0" | "r1 = 0" "pa_magic ?p \<noteq> OTA_PARA_MAGIC" |
    "r1 = 0" "pa_magic ?p = OTA_PARA_MAGIC" "pa_can_be_back ?p \<noteq> BACKUP_FLAG" |
    "r1 = 0" "pa_magic ?p = OTA_PARA_MAGIC" "pa_can_be_back ?p = BACKUP_FLAG" by blast
  then show thesis
  proof cases
    case 1
    then have "ota_backup_firmware P s = Some (ota_code OTA_ERR_PARTITION, s1)"
      by (simp add: ota_backup_firmware_def rd(1) Let_def)
    then show thesis by (rule that) (use rd in simp_all)
  next
    case 2
    then have "ota_backup_firmware P s = Some (ota_code OTA_ERR_CHECK, s1)"
      by (simp add: ota_backup_firmware_def rd(1) Let_def)
    then show thesis by (rule that) (use rd in simp_all)
  next
    case 3
    then have "ota_backup_firmware P s = Some (ota_code OTA_ERR_BACKUP, s1)"
      by (simp add: ota_backup_firmware_def rd(1) Let_def)
    then show thesis by (rule that) (use rd in simp_all)
  next
    case 4
    then have p: "?p = para_at cont s" "32 \<le> length (cont s PARA_PART)"
      using rd(4) by (simp_all add: para_at_def)
    let ?B = "spare_part (para_at cont s)"
    have part: "(if pa_active_slot ?p = APP_SLOT_1 then APP2_PART else APP1_PART) = ?B"
      by (simp add: spare_part_def p)
    obtain r2 hb s2 where 2: "read_struct P ?B (replicate 32 0) s1 = Some (r2, hb, s2)" "ok s2"
      "\<And>m. m \<in> names \<Longrightarrow> cont s2 m = cont s1 m" "r2 = 0 \<Longrightarrow> hb = bslice 0 32 (cont s1 ?B) \<and> 32 \<le> length (cont s1 ?B)"
      by (rule read_struct_effect [OF rd(2), of ?B "replicate 32 0"]) simp_all
    let ?can = "r2 = 0 \<and> fh_magic (header_of_bytes hb) = OTA_FIRMWARE_MAGIC"
    define q where "q = (if ?can then rolled_back ?p else ?p\<lparr>pa_can_be_back := 0, pa_upgrade_ready := 0\<rparr>)"
    obtain r3 s3 where 3: "write_para P q s2 = Some (r3, s3)" "ok s3"
      "\<And>m. m \<in> names \<Longrightarrow> m \<noteq> PARA_PART \<Longrightarrow> cont s3 m = cont s2 m"
      "length (cont s3 PARA_PART) = length (cont s2 PARA_PART)" "r3 = 0 \<or> r3 = ota_code OTA_ERR_PARTITION"
      "r3 = 0 \<Longrightarrow> cont s3 PARA_PART = patch 0 (para_bytes q) (cont s2 PARA_PART) \<and> 32 \<le> length (cont s2 PARA_PART)"
      by (rule write_para_effect [OF 2(2), of q]) blast
    have q: "(if ?can then ?p\<lparr>pa_can_be_back := 0, pa_upgrade_ready := 0\<rparr>\<lparr>pa_active_slot :=
        (if pa_active_slot (?p\<lparr>pa_can_be_back := 0, pa_upgrade_ready := 0\<rparr>) = APP_SLOT_1 then APP_SLOT_2 else APP_SLOT_1)\<rparr>
        else ?p\<lparr>pa_can_be_back := 0, pa_upgrade_ready := 0\<rparr>) = q"
      by (simp add: q_def rolled_back_def)
    have "ota_backup_firmware P s =
        Some (if r3 \<noteq> 0 then r3 else if \<not> ?can then ota_code OTA_ERR_BACKUP else ota_code OTA_OK, s3)"
      unfolding ota_backup_firmware_def rd(1) Let_def using 4
      by (simp add: part 2(1) q [simplified] 3(1))
    then show thesis
      by (rule that) (use rd 2 3 4 p in \<open>auto simp: q_def header_at_def split: if_splits\<close>)
  qed
qed

text \<open>Download: reception writes only the download partition.\<close>

definition down_only :: "'a \<Rightarrow> 'a \<Rightarrow> bool" where
  "down_only s0 s \<longleftrightarrow> ok s \<and> (\<forall>m \<in> names - {DOWN_PART}. cont s m = cont s0 m)"

lemma down_only_trans: "down_only s0 s1 \<Longrightarrow> down_only s1 s2 \<Longrightarrow> down_only s0 s2"
  by (simp add: down_only_def)

lemma ota_callbacks_keep: "callbacks_keep (down_only s0) (ota_ymdoem_cb P)"
proof -
  have "down_only s0 s'" if a: "down_only s0 s" "unat (yd_offset d) < 2 ^ 31" "length (yd_data d) = PACKET_SIZE_1K"
    "packet_size (unat (yd_size d))" "ota_ymodem_recv_data P d s = Some s'" for d s s'
  proof -
    have len: "unat (yd_size d) \<le> length (yd_data d)" and nw: "unat (yd_offset d) + unat (yd_size d) < 2 ^ 32"
      using a by (auto simp: packet_size_def packet_sizes)
    obtain r where "if_write P DOWN_PART (yd_data d) (yd_offset d) (yd_size d) s = Some (r, s')"
      using a(5) by (auto simp: ota_ymodem_recv_data_def bind_eq_Some_conv)
    from write_law [OF _ fw_names(1) nw len this] a(1) show ?thesis
      by (simp add: down_only_def)
  qed
  then show ?thesis
    unfolding callbacks_keep_def by (simp add: cb_call_def ota_ymdoem_cb_def)
qed

lemma download_effect:
  assumes "ok (y_env Y)" and "length cache = 1024" and "length (f_buf (cache_frame Y)) = PACKET_SIZE_1K"
    and run: "ota_download_firmware P cache Y = Some (r, cache', Y')"
  defines "s0 \<equiv> y_env Y" and "s' \<equiv> y_env Y'"
  shows "ok s' \<and> (\<forall>m \<in> names - {DOWN_PART, PARA_PART}. cont s' m = cont s0 m) \<and>
    (r = 0 \<longrightarrow> fh_magic (header_at cont s' DOWN_PART) = OTA_FIRMWARE_MAGIC \<and>
       32 + unat (fh_size (header_at cont s' DOWN_PART)) \<le> length (cont s' DOWN_PART) \<and>
       crc32 (payload_at cont s' DOWN_PART) = fh_crc32 (header_at cont s' DOWN_PART) \<and>
       32 \<le> length (cont s0 PARA_PART) \<and>
       para_at cont s' = (para_at cont s0)\<lparr>pa_magic := OTA_PARA_MAGIC, pa_upgrade_ready := 1,
         pa_download_crc := crc32 (payload_at cont s' DOWN_PART)\<rparr>)"
proof -
  obtain r1 s1 where 1: "if_erase_all P DOWN_PART (y_env Y) = Some (r1, s1)"
    using run by (auto simp: ota_download_firmware_def bind_eq_Some_conv)
  have d1: "down_only s0 s1"
    using erase_all_law [OF assms(1) fw_names(1) 1] by (simp add: down_only_def s0_def)
  have fin: ?thesis if "down_only s0 s'" "r \<noteq> 0"
    using that by (simp add: down_only_def)
  show ?thesis
  proof (cases "r1 = 0")
    case False
    then have "s' = s1 \<and> r \<noteq> 0"
      using run 1
      by (auto simp: ota_download_firmware_def s'_def Let_def)
    then show ?thesis using fin d1 by simp
  next
    case r1: True
    then obtain r2 Y2 where 2: "ymodem_receive (Some (ota_ymdoem_cb P)) (Y\<lparr>y_env := s1\<rparr>) = Some (r2, Y2)"
      using run 1 by (auto simp: ota_download_firmware_def bind_eq_Some_conv)
    have d2: "down_only s0 (y_env Y2)"
      by (rule ymodem_receive_env [OF ota_callbacks_keep _ _ 2]) (use d1 assms(3) in simp_all)
    show ?thesis
    proof (cases "r2 = 0")
      case False
    then have "s' = y_env Y2 \<and> r \<noteq> 0"
      using run 1 r1 2
      by (auto simp: ota_download_firmware_def s'_def Let_def)
    then show ?thesis using fin d2 by simp
    next
      case r2: True
      have ok2: "ok (y_env Y2)"
        using d2 by (simp add: down_only_def)
      obtain r3 hb s3 where 3: "read_struct P DOWN_PART (replicate 32 0) (y_env Y2) = Some (r3, hb, s3)" "ok s3"
        "\<And>m. m \<in> names \<Longrightarrow> cont s3 m = cont (y_env Y2) m"
        "r3 = 0 \<Longrightarrow> hb = bslice 0 32 (cont (y_env Y2) DOWN_PART) \<and> 32 \<le> length (cont (y_env Y2) DOWN_PART)"
        by (rule read_struct_effect [OF ok2, of DOWN_PART "replicate 32 0"]) simp_all
      have d3: "down_only s0 s3"
        using d2 3(2,3) by (simp add: down_only_def)
      let ?h = "header_of_bytes hb"
      show ?thesis
      proof (cases "r3 \<noteq> 0 \<or> fh_magic ?h \<noteq> OTA_FIRMWARE_MAGIC")
        case True
    then have "s' = s3 \<and> r \<noteq> 0"
      using run 1 r1 2 r2 3(1)
      by (cases "r3 = 0") (auto simp: ota_download_firmware_def s'_def Let_def)
    then show ?thesis using fin d3 by simp
      next
        case hd: False
        then have h: "?h = header_at cont s3 DOWN_PART" "32 \<le> length (cont s3 DOWN_PART)"
          using 3(3,4) by (simp_all add: header_at_def)
        obtain r4 crc cache4 s4 where 4: "ota_check_loop P (fh_size ?h) 32 0xFFFFFFFF cache s3 = Some (r4, crc, cache4, s4)"
          "ok s4" "\<forall>m \<in> names. cont s4 m = cont s3 m"
          "r4 = 0 \<longrightarrow> 32 + unat (fh_size ?h) \<le> length (cont s3 DOWN_PART) \<and>
             crc = ota_crc32_update 0xFFFFFFFF (bslice 32 (unat (fh_size ?h)) (cont s3 DOWN_PART))"
          using check_loop_effect [OF 3(2), of 32 cache "fh_size ?h" "0xFFFFFFFF"] h(2) assms(2) by auto
        have d4: "down_only s0 s4"
          using d3 4(2,3) by (simp add: down_only_def)
        show ?thesis
        proof (cases "r4 \<noteq> 0 \<or> crc XOR 0xFFFFFFFF \<noteq> fh_crc32 ?h")
          case True
    then have "s' = s4 \<and> r \<noteq> 0"
      using run 1 r1 2 r2 3(1) hd 4(1)
      by (cases "r4 = 0") (auto simp: ota_download_firmware_def s'_def Let_def)
    then show ?thesis using fin d4 by simp
        next
          case crc: False
          obtain r5 pb s5 where 5: "read_struct P PARA_PART (replicate 32 0) s4 = Some (r5, pb, s5)" "ok s5"
            "\<And>m. m \<in> names \<Longrightarrow> cont s5 m = cont s4 m"
            "r5 = 0 \<Longrightarrow> pb = bslice 0 32 (cont s4 PARA_PART) \<and> 32 \<le> length (cont s4 PARA_PART)"
            by (rule read_struct_effect [OF 4(2), of PARA_PART "replicate 32 0"]) simp_all
          have d5: "down_only s0 s5"
            using d4 5(2,3) by (simp add: down_only_def)
          show ?thesis
          proof (cases "r5 = 0")
            case False
    then have "s' = s5 \<and> r \<noteq> 0"
      using run 1 r1 2 r2 3(1) hd 4(1) crc 5(1)
      by (auto simp: ota_download_firmware_def s'_def Let_def)
    then show ?thesis using fin d5 by simp
          next
            case r5: True
            define q where "q = (para_of_bytes pb)\<lparr>pa_magic := OTA_PARA_MAGIC, pa_download_crc := crc XOR 0xFFFFFFFF,
               pa_upgrade_ready := 1\<rparr>"
            obtain r6 s6 where 6: "write_para P q s5 = Some (r6, s6)" "ok s6"
              "\<And>m. m \<in> names \<Longrightarrow> m \<noteq> PARA_PART \<Longrightarrow> cont s6 m = cont s5 m"
              "r6 = 0 \<Longrightarrow> cont s6 PARA_PART = patch 0 (para_bytes q) (cont s5 PARA_PART) \<and> 32 \<le> length (cont s5 PARA_PART)"
              by (rule write_para_effect [OF 5(2), of q]) blast
            have "r = r6 \<and> s' = s6"
              using run 1 r1 2 r2 3(1) hd 4(1) crc 5(1) r5 6(1) [unfolded q_def]
              by (simp add: ota_download_firmware_def s'_def Let_def) auto
            moreover have down: "cont s6 DOWN_PART = cont s3 DOWN_PART"
              using 6(3) 5(3) 4(3) by simp
            moreover have "crc XOR 0xFFFFFFFF = crc32 (payload_at cont s6 DOWN_PART)"
              using crc 4(4) down h(1)
              by (simp add: crc32_def payload_at_def header_at_def ota_crc32_update_boot boot_crc32_update_poly)
            moreover have "para_of_bytes pb = para_at cont s0" "cont s5 PARA_PART = cont s0 PARA_PART"
              using 5(3,4) r5 4(3) 3(3) d2 by (simp_all add: para_at_def down_only_def)
            ultimately show ?thesis
              using 6 d5 4(4) crc hd h
              by (auto simp: q_def para_at_def header_at_def down_only_def)
          qed
        qed
      qed
    qed
  qed
qed

end

section \<open>On a medium without I/O errors\<close>

context reliable_ota
begin

lemma check_loop_succeeds:
  "ok s \<Longrightarrow> unat off + unat remain \<le> length (cont s DOWN_PART) \<Longrightarrow> length cache = 1024 \<Longrightarrow>
   \<exists>crc' cache' s'. ota_check_loop P remain off crc cache s = Some (0, crc', cache', s')"
proof (induction "unat remain" arbitrary: remain off crc cache s rule: less_induct)
  case less
  have bound: "unat off + unat remain \<le> 2 ^ 31"
    using less.prems(2) cont_bound [OF less.prems(1) fw_names(1)] by simp
  consider "remain = 0" | "remain \<noteq> 0" "\<not> CACHE_SIZE < remain" | "CACHE_SIZE < remain" by auto
  then show ?case
  proof cases
    case 1
    then show ?thesis by (subst ota_check_loop.simps) simp
  next
    case 2
    obtain s1 where "if_read P DOWN_PART False off remain s = Some (0, bslice (unat off) (unat remain) (cont s DOWN_PART), s1)"
      by (rule read_in_range [OF less.prems(1) fw_names(1) less.prems(2)]) blast
    then show ?thesis
      using 2 by (subst ota_check_loop.simps) (simp add: Let_def)
  next
    case 3
    then have big: "1024 < unat remain" "unat (remain - CACHE_SIZE) = unat remain - 1024" "remain \<noteq> 0"
      by (auto simp: CACHE_SIZE_def word_less_nat_alt unat_sub_if')
    have off: "unat (off + CACHE_SIZE) = unat off + 1024"
      using unat_add_no_wrap [of off CACHE_SIZE] bound big by simp
    have rng: "unat off + unat CACHE_SIZE \<le> length (cont s DOWN_PART)"
      using less.prems(2) big by simp
    obtain s1 where r: "if_read P DOWN_PART False off CACHE_SIZE s =
        Some (0, bslice (unat off) (unat CACHE_SIZE) (cont s DOWN_PART), s1)" "ok s1"
      "\<And>m. m \<in> names \<Longrightarrow> cont s1 m = cont s m"
      by (rule read_in_range [OF less.prems(1) fw_names(1) rng]) blast
    have "length (overlay (bslice (unat off) (unat CACHE_SIZE) (cont s DOWN_PART)) cache) = 1024"
      using rng less.prems(3) by simp
    with less.hyps [of "remain - CACHE_SIZE" s1 "off + CACHE_SIZE"] r(2,3) big off less.prems(2)
    show ?thesis
      using 3 by (subst ota_check_loop.simps) (simp add: r(1) Let_def)
  qed
qed

lemma copy_loop_succeeds:
  "ok s \<Longrightarrow> nm \<in> names \<Longrightarrow> nm \<noteq> DOWN_PART \<Longrightarrow> unat off + unat remain \<le> length (cont s DOWN_PART) \<Longrightarrow>
   unat off + unat remain \<le> length (cont s nm) \<Longrightarrow> length cache = 1024 \<Longrightarrow> blank_from (unat off) (cont s nm) \<Longrightarrow>
   \<exists>cache' s'. ota_copy_loop P nm remain off cache s = Some (0, cache', s')"
proof (induction "unat remain" arbitrary: remain off cache s rule: less_induct)
  case less
  have bound: "unat off + unat remain \<le> 2 ^ 31"
    using less.prems(4) cont_bound [OF less.prems(1) fw_names(1)] by simp
  consider "remain = 0" | "remain \<noteq> 0" "\<not> CACHE_SIZE < remain" | "CACHE_SIZE < remain" by auto
  then show ?case
  proof cases
    case 1
    then show ?thesis by (subst ota_copy_loop.simps) simp
  next
    case 2
    let ?bs = "bslice (unat off) (unat remain) (cont s DOWN_PART)"
    obtain s1 where r: "if_read P DOWN_PART False off remain s = Some (0, ?bs, s1)" "ok s1"
      "\<And>m. m \<in> names \<Longrightarrow> cont s1 m = cont s m"
      by (rule read_in_range [OF less.prems(1) fw_names(1) less.prems(4)]) blast
    have len: "unat remain \<le> length (overlay ?bs cache)"
      using less.prems(4) by (simp add: overlay_def)
    obtain s2 where w: "if_write P nm (overlay ?bs cache) off remain s1 = Some (0, s2)"
      by (rule write_in_range [OF r(2) less.prems(2) _ len])
        (use r(3) less.prems(2,5) blank_from_bslice [OF less.prems(7,5)] in simp_all)
    show ?thesis
      using 2 by (subst ota_copy_loop.simps) (simp add: r(1) w Let_def)
  next
    case 3
    then have big: "1024 < unat remain" "unat (remain - CACHE_SIZE) = unat remain - 1024" "remain \<noteq> 0"
      by (auto simp: CACHE_SIZE_def word_less_nat_alt unat_sub_if')
    have off: "unat (off + CACHE_SIZE) = unat off + 1024"
      using unat_add_no_wrap [of off CACHE_SIZE] bound big by simp
    have rng: "unat off + unat CACHE_SIZE \<le> length (cont s DOWN_PART)" "unat off + 1024 \<le> length (cont s nm)"
      using less.prems(4,5) big by simp_all
    let ?bs = "bslice (unat off) (unat CACHE_SIZE) (cont s DOWN_PART)"
    obtain s1 where r: "if_read P DOWN_PART False off CACHE_SIZE s = Some (0, ?bs, s1)" "ok s1"
      "\<And>m. m \<in> names \<Longrightarrow> cont s1 m = cont s m"
      by (rule read_in_range [OF less.prems(1) fw_names(1) rng(1)]) blast
    have len: "length ?bs = 1024" "overlay ?bs cache = ?bs"
      using rng(1) less.prems(6) by simp_all
    obtain s2 where w: "if_write P nm ?bs off CACHE_SIZE s1 = Some (0, s2)" "ok s2"
      "cont s2 nm = patch (unat off) (take (unat CACHE_SIZE) ?bs) (cont s1 nm)"
      "\<And>m. m \<in> names \<Longrightarrow> m \<noteq> nm \<Longrightarrow> cont s2 m = cont s1 m"
      by (rule write_in_range [OF r(2) less.prems(2), of off CACHE_SIZE ?bs])
        (use r(3) less.prems(2) rng(2) len blank_from_bslice [OF less.prems(7) rng(2)] in simp_all)
    have wr: "cont s2 nm = patch (unat off) ?bs (cont s nm)" "cont s2 DOWN_PART = cont s DOWN_PART"
      using w(3,4) r(3) less.prems(2,3) len fw_names(1) by simp_all
    have "blank_from (unat off + 1024) (cont s2 nm)"
      using blank_from_patch [OF less.prems(7), of ?bs] rng(2) len by (simp add: wr)
    moreover have "length (cont s2 nm) = length (cont s nm)"
      using rng(2) len by (simp add: wr)
    ultimately have "\<exists>cache' s'. ota_copy_loop P nm (remain - CACHE_SIZE) (off + CACHE_SIZE) ?bs s2 = Some (0, cache', s')"
      using less.hyps [of "remain - CACHE_SIZE" s2 "off + CACHE_SIZE" ?bs] w(2) less.prems(2-5) wr(2) big off len by simp
    moreover have "ota_copy_loop P nm remain off cache s = ota_copy_loop P nm (remain - CACHE_SIZE) (off + CACHE_SIZE) ?bs s2"
      using 3 big len by (subst ota_copy_loop.simps) (simp add: r(1) [simplified] w(1) [simplified] Let_def)
    ultimately show ?thesis by simp
  qed
qed

lemma read_struct_reliable:
  assumes "ok s" and "nm \<in> names" and "length old = 32" and "32 \<le> length (cont s nm)"
  obtains s' where "read_struct P nm old s = Some (0, bslice 0 32 (cont s nm), s')" "ok s'"
    "\<And>m. m \<in> names \<Longrightarrow> cont s' m = cont s m"
proof -
  have rng: "unat (0 :: u32) + unat (32 :: u32) \<le> length (cont s nm)"
    using assms(4) by simp
  obtain s' where r: "if_read P nm False 0 32 s = Some (0, bslice (unat (0 :: u32)) (unat (32 :: u32)) (cont s nm), s')" "ok s'"
    "\<And>m. m \<in> names \<Longrightarrow> cont s' m = cont s m"
    by (rule read_in_range [OF assms(1,2) rng]) blast
  show thesis
    by (rule that [of s']) (use r assms in \<open>simp_all add: read_struct_def\<close>)
qed

lemma write_para_reliable:
  assumes "ok s" and "32 \<le> length (cont s PARA_PART)"
  obtains s' where "write_para P p s = Some (0, s')" "ok s'"
    "\<And>m. m \<in> names \<Longrightarrow> m \<noteq> PARA_PART \<Longrightarrow> cont s' m = cont s m"
    "cont s' PARA_PART = patch 0 (para_bytes p) (cont s PARA_PART)"
proof -
  have rng: "unat (0 :: u32) + unat (32 :: u32) \<le> length (cont s PARA_PART)" and pos: "0 < unat (32 :: u32)"
    using assms(2) by simp_all
  obtain s1 where e: "if_erase P PARA_PART 0 32 s = Some (0, s1)" "ok s1"
    "cont s1 PARA_PART = patch (unat (0 :: u32)) (replicate (unat (32 :: u32)) erased) (cont s PARA_PART)"
    "\<And>m. m \<in> names \<Longrightarrow> m \<noteq> PARA_PART \<Longrightarrow> cont s1 m = cont s m"
    by (rule erase_in_range [OF assms(1) fw_names(4) rng pos]) blast
  obtain s2 where w: "if_write P PARA_PART (para_bytes p) 0 32 s1 = Some (0, s2)" "ok s2"
    "cont s2 PARA_PART = patch (unat (0 :: u32)) (take (unat (32 :: u32)) (para_bytes p)) (cont s1 PARA_PART)"
    "\<And>m. m \<in> names \<Longrightarrow> m \<noteq> PARA_PART \<Longrightarrow> cont s2 m = cont s1 m"
    by (rule write_in_range [OF e(2) fw_names(4), of 0 32 "para_bytes p"]) (use e(3) rng in simp_all)
  show thesis
    by (rule that [of s2]) (use e w rng in \<open>simp_all add: write_para_def patch_def\<close>)
qed

lemma update_exit_reliable:
  assumes "ok s" and "32 \<le> length (cont s PARA_PART)"
  obtains s' where "ota_update_exit P q cache s = Some (0, cache, s')" "ok s'"
    "\<And>m. m \<in> names \<Longrightarrow> m \<noteq> PARA_PART \<Longrightarrow> cont s' m = cont s m"
    "para_at cont s' = q\<lparr>pa_magic := OTA_PARA_MAGIC, pa_upgrade_ready := 0\<rparr>"
    "length (cont s' PARA_PART) = length (cont s PARA_PART)"
proof -
  obtain s' where "write_para P (q\<lparr>pa_magic := OTA_PARA_MAGIC, pa_upgrade_ready := 0\<rparr>) s = Some (0, s')" "ok s'"
    "\<And>m. m \<in> names \<Longrightarrow> m \<noteq> PARA_PART \<Longrightarrow> cont s' m = cont s m"
    "cont s' PARA_PART = patch 0 (para_bytes (q\<lparr>pa_magic := OTA_PARA_MAGIC, pa_upgrade_ready := 0\<rparr>)) (cont s PARA_PART)"
    by (rule write_para_reliable [OF assms, of "q\<lparr>pa_magic := OTA_PARA_MAGIC, pa_upgrade_ready := 0\<rparr>"]) blast
  with assms(2) show thesis
    by (intro that [of s']) (simp_all add: ota_update_exit_def para_at_def)
qed

text \<open>An update whose conditions hold copies the image and switches the slot.\<close>

lemma update_switches:
  assumes "ok s" and "length cache = 1024"
  defines "p \<equiv> para_at cont s" and "h \<equiv> header_at cont s DOWN_PART"
  defines "n \<equiv> unat (fh_size h + 32)"
  assumes para: "32 \<le> length (cont s PARA_PART)" "pa_magic p = OTA_PARA_MAGIC" "pa_upgrade_ready p \<noteq> 0"
    and crc: "pa_download_crc p = fh_crc32 h"
    and fit: "32 \<le> length (cont s DOWN_PART)" "n \<le> length (cont s DOWN_PART)" "n \<le> length (cont s (spare_part p))"
  shows "\<exists>cache' s'. ota_update_firmware P cache s = Some (0, cache', s') \<and> ok s' \<and>
    para_at cont s' = switched p \<and>
    cont s' (spare_part p) = patch 0 (bslice 0 n (cont s DOWN_PART)) (replicate (length (cont s (spare_part p))) erased) \<and>
    (\<forall>m \<in> names - {PARA_PART, spare_part p}. cont s' m = cont s m) \<and>
    length (cont s' PARA_PART) = length (cont s PARA_PART)"
proof -
  let ?B = "spare_part p"
  obtain s1 where 1: "read_struct P PARA_PART (replicate 32 0) s = Some (0, bslice 0 32 (cont s PARA_PART), s1)" "ok s1"
    "\<And>m. m \<in> names \<Longrightarrow> cont s1 m = cont s m"
    by (rule read_struct_reliable [OF assms(1) fw_names(4), of "replicate 32 0"]) (use para in auto)
  have p: "para_of_bytes (bslice 0 32 (cont s PARA_PART)) = p"
    by (simp add: p_def para_at_def)
  obtain s2 where 2: "read_struct P DOWN_PART (replicate 32 0) s1 = Some (0, bslice 0 32 (cont s1 DOWN_PART), s2)" "ok s2"
    "\<And>m. m \<in> names \<Longrightarrow> cont s2 m = cont s1 m"
    by (rule read_struct_reliable [OF 1(2) fw_names(1), of "replicate 32 0"]) (use fit 1(3) fw_names in auto)
  have h: "header_of_bytes (bslice 0 32 (cont s1 DOWN_PART)) = h"
    using 1(3) fw_names by (simp add: h_def header_at_def)
  obtain s3 where 3: "if_erase_all P ?B s2 = Some (0, s3)" "ok s3"
    "cont s3 ?B = replicate (length (cont s2 ?B)) erased" "\<And>m. m \<in> names \<Longrightarrow> m \<noteq> ?B \<Longrightarrow> cont s3 m = cont s2 m"
    by (rule erase_all_in_range [OF 2(2) slot_names(2)]) blast
  have s3: "cont s3 DOWN_PART = cont s DOWN_PART" "length (cont s3 ?B) = length (cont s ?B)"
    "cont s3 ?B = replicate (length (cont s ?B)) erased"
    using 1(3) 2(3) 3 by simp_all
  have "\<exists>cache4 s4. ota_copy_loop P ?B (fh_size h + 32) 0 cache s3 = Some (0, cache4, s4)"
    by (rule copy_loop_succeeds) (use 3(2) s3 fit assms(2) in \<open>simp_all add: n_def\<close>)
  then obtain cache4 s4 where 4: "ota_copy_loop P ?B (fh_size h + 32) 0 cache s3 = Some (0, cache4, s4)" by blast
  have 5: "ok s4" "\<forall>m \<in> names - {?B}. cont s4 m = cont s3 m"
    "cont s4 ?B = patch 0 (bslice 0 n (cont s DOWN_PART)) (replicate (length (cont s ?B)) erased)"
    using copy_loop_effect [of s3 ?B 0 cache "fh_size h + 32"] 3(2) s3 assms(2) 4 by (auto simp: n_def)
  have para4: "32 \<le> length (cont s4 PARA_PART)" "cont s4 PARA_PART = cont s PARA_PART"
    using 5(2) 3(4) 2(3) 1(3) para(1) by simp_all
  define q where "q = (if pa_active_slot p = APP_SLOT_1
     then p\<lparr>pa_active_slot := APP_SLOT_2, pa_app2_crc := pa_download_crc p\<rparr>
     else p\<lparr>pa_active_slot := APP_SLOT_1, pa_app1_crc := pa_download_crc p\<rparr>)\<lparr>pa_can_be_back := BACKUP_FLAG\<rparr>"
  obtain s5 where 6: "ota_update_exit P q cache4 s4 = Some (0, cache4, s5)" "ok s5"
    "\<And>m. m \<in> names \<Longrightarrow> m \<noteq> PARA_PART \<Longrightarrow> cont s5 m = cont s4 m"
    "para_at cont s5 = q\<lparr>pa_magic := OTA_PARA_MAGIC, pa_upgrade_ready := 0\<rparr>"
    "length (cont s5 PARA_PART) = length (cont s4 PARA_PART)"
    by (rule update_exit_reliable [OF 5(1) para4(1), of q cache4]) blast
  have part: "(if pa_active_slot p = APP_SLOT_1 then APP2_PART else APP1_PART) = ?B"
    by (simp add: spare_part_def)
  have "ota_update_firmware P cache s = ota_update_exit P q cache4 s4"
    unfolding ota_update_firmware_def 1(1) Let_def using para crc
    by (simp add: p 2(1) h part 3(1) 4 q_def)
  moreover have "q\<lparr>pa_magic := OTA_PARA_MAGIC, pa_upgrade_ready := 0\<rparr> = switched p"
    by (simp add: q_def switched_def)
  ultimately show ?thesis
    using 6 5 3(4) 2(3) 1(3) para4 by simp
qed

text \<open>An update that fails its checks still rewrites the parameters and returns 0.\<close>

lemma update_check_fails:
  assumes "ok s"
  defines "p \<equiv> para_at cont s"
  assumes para: "32 \<le> length (cont s PARA_PART)"
    and bad: "pa_magic p \<noteq> OTA_PARA_MAGIC \<or> pa_upgrade_ready p \<noteq> 0 \<and> 32 \<le> length (cont s DOWN_PART) \<and>
      pa_download_crc p \<noteq> fh_crc32 (header_at cont s DOWN_PART)"
  shows "\<exists>s'. ota_update_firmware P cache s = Some (0, cache, s') \<and> ok s' \<and>
    (\<forall>m \<in> names - {PARA_PART}. cont s' m = cont s m) \<and>
    para_at cont s' = p\<lparr>pa_magic := OTA_PARA_MAGIC, pa_upgrade_ready := 0\<rparr>"
proof -
  obtain s1 where 1: "read_struct P PARA_PART (replicate 32 0) s = Some (0, bslice 0 32 (cont s PARA_PART), s1)" "ok s1"
    "\<And>m. m \<in> names \<Longrightarrow> cont s1 m = cont s m"
    by (rule read_struct_reliable [OF assms(1) fw_names(4), of "replicate 32 0"]) (use para in auto)
  have p: "para_of_bytes (bslice 0 32 (cont s PARA_PART)) = p"
    by (simp add: p_def para_at_def)
  have exit: "\<exists>s'. ota_update_exit P p cache t = Some (0, cache, s') \<and> ok s' \<and>
      (\<forall>m \<in> names - {PARA_PART}. cont s' m = cont s m) \<and>
      para_at cont s' = p\<lparr>pa_magic := OTA_PARA_MAGIC, pa_upgrade_ready := 0\<rparr>"
    if "ok t" "\<And>m. m \<in> names \<Longrightarrow> cont t m = cont s m" for t
    by (rule update_exit_reliable [of t p cache]) (use that para fw_names in auto)
  show ?thesis
  proof (cases "pa_magic p = OTA_PARA_MAGIC")
    case False
    then have "ota_update_firmware P cache s = ota_update_exit P p cache s1"
      unfolding ota_update_firmware_def 1(1) Let_def by (simp add: p)
    with exit [OF 1(2,3)] show ?thesis by simp
  next
    case True
    with bad have bad': "pa_upgrade_ready p \<noteq> 0" "32 \<le> length (cont s DOWN_PART)"
      "pa_download_crc p \<noteq> fh_crc32 (header_at cont s DOWN_PART)" by simp_all
    obtain s2 where 2: "read_struct P DOWN_PART (replicate 32 0) s1 = Some (0, bslice 0 32 (cont s1 DOWN_PART), s2)" "ok s2"
      "\<And>m. m \<in> names \<Longrightarrow> cont s2 m = cont s1 m"
      by (rule read_struct_reliable [OF 1(2) fw_names(1), of "replicate 32 0"]) (use bad' 1(3) fw_names in auto)
    have "ota_update_firmware P cache s = ota_update_exit P p cache s2"
      unfolding ota_update_firmware_def 1(1) Let_def using True bad' 1(3) fw_names
      by (simp add: p 2(1) header_at_def)
    with exit [of s2] 1(3) 2(2,3) show ?thesis by simp
  qed
qed

text \<open>Reception into an erased download partition stores the file.\<close>

definition ota_data :: "u32 \<Rightarrow> u8 list \<Rightarrow> 'a \<Rightarrow> 'a option" where
  "ota_data off b s = do {
     (r, s) \<leftarrow> if_write P DOWN_PART b off (word_of_nat (length b)) s;
     Some s
   }"

lemma ota_cb_is_client: "is_client (ota_ymdoem_cb P) (\<lambda>_ _. Some) ota_data (\<lambda>_. Some) Some"
proof -
  have "ota_ymodem_recv_data P d = ota_data (yd_offset d) (take (unat (yd_size d)) (yd_data d))"
    if "unat (yd_size d) \<le> length (yd_data d)" for d
  proof
    fix s
    show "ota_ymodem_recv_data P d s = ota_data (yd_offset d) (take (unat (yd_size d)) (yd_data d)) s"
      using that write_prefix [OF fw_names(1) that, of "yd_offset d" s]
      by (simp add: ota_ymodem_recv_data_def ota_data_def)
  qed
  then show ?thesis
    by (simp add: is_client_def ota_ymdoem_cb_def)
qed

lemma deliver_download:
  "ok s \<Longrightarrow> unat off + length (concat blocks) \<le> length (cont s DOWN_PART) \<Longrightarrow> blank_from (unat off) (cont s DOWN_PART) \<Longrightarrow>
   \<exists>s'. deliver ota_data off blocks s = Some s' \<and> ok s' \<and> (\<forall>m \<in> names - {DOWN_PART}. cont s' m = cont s m) \<and>
     cont s' DOWN_PART = patch (unat off) (concat blocks) (cont s DOWN_PART)"
proof (induction blocks arbitrary: off s)
  case (Cons b bs)
  have bound: "length (cont s DOWN_PART) \<le> 2 ^ 31"
    by (rule cont_bound [OF Cons.prems(1) fw_names(1)])
  then have n: "unat (word_of_nat (length b) :: u32) = length b"
    using Cons.prems(2) by (simp add: unat_of_nat take_bit_nat_eq_self_iff)
  have off: "unat (off + word_of_nat (length b)) = unat off + length b"
    using unat_add_no_wrap [of off "word_of_nat (length b)"] n bound Cons.prems(2) by simp
  have fit: "unat off + length b \<le> length (cont s DOWN_PART)"
    using Cons.prems(2) by simp
  obtain s1 where w: "if_write P DOWN_PART b off (word_of_nat (length b)) s = Some (0, s1)" "ok s1"
    "cont s1 DOWN_PART = patch (unat off) (take (unat (word_of_nat (length b) :: u32)) b) (cont s DOWN_PART)"
    "\<And>m. m \<in> names \<Longrightarrow> m \<noteq> DOWN_PART \<Longrightarrow> cont s1 m = cont s m"
    by (rule write_in_range [OF Cons.prems(1) fw_names(1), of off "word_of_nat (length b)" b])
      (use n fit blank_from_bslice [OF Cons.prems(3) fit] in simp_all)
  have s1: "cont s1 DOWN_PART = patch (unat off) b (cont s DOWN_PART)"
    using w(3) n by simp
  have blank: "blank_from (unat off + length b) (cont s1 DOWN_PART)"
    using blank_from_patch [OF Cons.prems(3) fit] by (simp add: s1)
  obtain s' where s': "deliver ota_data (off + word_of_nat (length b)) bs s1 = Some s'" "ok s'"
    "\<forall>m \<in> names - {DOWN_PART}. cont s' m = cont s1 m"
    "cont s' DOWN_PART = patch (unat off + length b) (concat bs) (cont s1 DOWN_PART)"
    using Cons.IH [OF w(2), of "off + word_of_nat (length b)"] Cons.prems(2) off s1 fit blank by auto
  moreover have "ota_data off b s = Some s1"
    by (simp add: ota_data_def w(1))
  ultimately show ?case
    using w(4) Cons.prems(2) patch_patch_adjacent [of "unat off" b "concat bs" "cont s DOWN_PART"]
    by (simp add: s1)
qed simp

lemma download_succeeds:
  assumes "ok (y_env Y)" and "length cache = 1024" and "length (f_buf (cache_frame Y)) = PACKET_SIZE_1K" and "y_port Y"
  defines "s \<equiv> y_env Y"
  assumes name: "0 \<notin> set name" and head: "packet_size (length (header_block name n rest))"
    and size: "n < 2 ^ 31" and blocks: "\<forall>(k, b) \<in> set blocks. packet_size (length b)"
    and fit: "fits (int n) (map (length \<circ> snd) blocks)" and empty: "packet_size z"
    and line: "y_line Y = \<lparr>rx = map Some (packet num (header_block name n rest) @ data_packets blocks @
        closing num' z) @ r, tx = t\<rparr>"
    and image: "concat (map snd blocks) = header_bytes h @ body @ pad" "unat (fh_size h) = length body"
      "fh_magic h = OTA_FIRMWARE_MAGIC" "fh_crc32 h = crc32 body"
    and room: "length (concat (map snd blocks)) \<le> length (cont s DOWN_PART)" "32 \<le> length (cont s PARA_PART)"
  shows "\<exists>cache' Y'. ota_download_firmware P cache Y = Some (0, cache', Y') \<and> ok (y_env Y') \<and> length cache' = 1024 \<and>
    cont (y_env Y') DOWN_PART = patch 0 (header_bytes h @ body @ pad) (replicate (length (cont s DOWN_PART)) erased) \<and>
    para_at cont (y_env Y') = (para_at cont s)\<lparr>pa_magic := OTA_PARA_MAGIC, pa_upgrade_ready := 1, pa_download_crc := crc32 body\<rparr> \<and>
    length (cont (y_env Y') PARA_PART) = length (cont s PARA_PART) \<and>
    (\<forall>m \<in> names - {DOWN_PART, PARA_PART}. cont (y_env Y') m = cont s m)"
proof -
  have ok: "ok s"
    using assms(1) by (simp add: s_def)
  obtain s1 where 1: "if_erase_all P DOWN_PART s = Some (0, s1)" "ok s1"
    "cont s1 DOWN_PART = replicate (length (cont s DOWN_PART)) erased"
    "\<And>m. m \<in> names \<Longrightarrow> m \<noteq> DOWN_PART \<Longrightarrow> cont s1 m = cont s m"
    by (rule erase_all_in_range [OF ok fw_names(1)]) blast
  obtain s2 where 2: "deliver ota_data 0 (map snd blocks) s1 = Some s2" "ok s2"
    "\<forall>m \<in> names - {DOWN_PART}. cont s2 m = cont s1 m"
    "cont s2 DOWN_PART = patch 0 (header_bytes h @ body @ pad) (cont s1 DOWN_PART)"
    using deliver_download [OF 1(2), of 0 "map snd blocks"] room(1) image(1) by (auto simp: 1(3))
  obtain Y2 where Y2: "ymodem_receive (Some (ota_ymdoem_cb P)) (Y\<lparr>y_env := s1\<rparr>) = Some (0, Y2)" "y_env Y2 = s2"
    using receive_transfer [OF ota_cb_is_client, of "Y\<lparr>y_env := s1\<rparr>" name n rest blocks z num num' r t s1 s2 s2]
      assms(3,4) name head size blocks fit empty line 2(1) by auto
  have down: "cont s2 DOWN_PART = (header_bytes h @ body @ pad) @ drop (length (header_bytes h @ body @ pad)) (cont s1 DOWN_PART)"
    by (simp add: 2(4) patch_def)
  have rooms: "32 + length body \<le> length (cont s2 DOWN_PART)" "length (cont s2 DOWN_PART) = length (cont s DOWN_PART)"
    using room(1) image(1) by (simp_all add: down 1(3))
  obtain s3 where 3: "read_struct P DOWN_PART (replicate 32 0) s2 = Some (0, bslice 0 32 (cont s2 DOWN_PART), s3)" "ok s3"
    "\<And>m. m \<in> names \<Longrightarrow> cont s3 m = cont s2 m"
    by (rule read_struct_reliable [OF 2(2) fw_names(1), of "replicate 32 0"]) (use rooms in auto)
  have hd: "header_of_bytes (bslice 0 32 (cont s2 DOWN_PART)) = h" "bslice 32 (length body) (cont s2 DOWN_PART) = body"
    by (simp_all add: down bslice_def)
  have rng: "unat (32 :: u32) + unat (fh_size h) \<le> length (cont s3 DOWN_PART)"
    using rooms(1) image(2) 3(3) fw_names by simp
  obtain crc cache4 s4 where 4: "ota_check_loop P (fh_size h) 32 0xFFFFFFFF cache s3 = Some (0, crc, cache4, s4)"
    using check_loop_succeeds [OF 3(2) rng assms(2)] by blast
  have 5: "ok s4" "\<forall>m \<in> names. cont s4 m = cont s3 m" "length cache4 = 1024"
    "crc = ota_crc32_update 0xFFFFFFFF body"
    using check_loop_effect [OF 3(2), of 32 cache "fh_size h" "0xFFFFFFFF"] rng assms(2) 4 3(3) fw_names hd(2) image(2) by auto
  have crc: "crc XOR 0xFFFFFFFF = crc32 body"
    by (simp add: 5(4) crc32_def ota_crc32_update_boot boot_crc32_update_poly)
  have par: "cont s4 PARA_PART = cont s PARA_PART"
    using 5(2) 3(3) 2(3) 1(4) by simp
  obtain s5 where 6: "read_struct P PARA_PART (replicate 32 0) s4 = Some (0, bslice 0 32 (cont s4 PARA_PART), s5)" "ok s5"
    "\<And>m. m \<in> names \<Longrightarrow> cont s5 m = cont s4 m"
    by (rule read_struct_reliable [OF 5(1) fw_names(4), of "replicate 32 0"]) (use room(2) par in auto)
  define q where "q = (para_at cont s)\<lparr>pa_magic := OTA_PARA_MAGIC, pa_download_crc := crc32 body, pa_upgrade_ready := 1\<rparr>"
  obtain s6 where 7: "write_para P q s5 = Some (0, s6)" "ok s6"
    "\<And>m. m \<in> names \<Longrightarrow> m \<noteq> PARA_PART \<Longrightarrow> cont s6 m = cont s5 m"
    "cont s6 PARA_PART = patch 0 (para_bytes q) (cont s5 PARA_PART)"
    by (rule write_para_reliable [OF 6(2), of q]) (use room(2) par 6(3) fw_names in auto)
  have "ota_download_firmware P cache Y = Some (0, cache4, Y2\<lparr>y_env := s6\<rparr>)"
    using 1(1) [unfolded s_def] Y2 3(1) image 4 crc 6(1) 7(1) [unfolded q_def]
    by (simp add: ota_download_firmware_def hd(1) Let_def par para_at_def)
  moreover have "para_at cont s6 = q" "length (cont s6 PARA_PART) = length (cont s PARA_PART)"
    using 7(4) 6(3) par room(2) fw_names by (simp_all add: para_at_def)
  moreover have "cont s6 DOWN_PART = cont s2 DOWN_PART"
    using 7(3) 6(3) 5(2) 3(3) by simp
  ultimately show ?thesis
    using 7 6(3) 5(2,3) 3(3) 2(3,4) 1(3,4) by (simp add: q_def)
qed

end

end
