(* ===== verification/Boot.thy ===== *)
theory Boot
  imports Ota_Facts
begin

text \<open>
  The boot component of \<^verbatim>\<open>hgboot/boot/boot.c\<close>: choosing, checking and loading the firmware.  The
  memory that the image is loaded into is a map from addresses to bytes; the loader's own memory
  is taken to be outside the image.  A returned address 0 is the NULL pointer.
\<close>

section \<open>Memory\<close>

type_synonym memory = "u32 \<Rightarrow> u8"

definition mem_store :: "u32 \<Rightarrow> u8 list \<Rightarrow> memory \<Rightarrow> memory" where
  "mem_store a bs m = (\<lambda>x. if unat (x - a) < length bs then bs ! unat (x - a) else m x)"

definition mem_load :: "u32 \<Rightarrow> nat \<Rightarrow> memory \<Rightarrow> u8 list" where
  "mem_load a n m = map (\<lambda>i. m (a + word_of_nat i)) [0..<n]"

lemma length_mem_load [simp]: "length (mem_load a n m) = n"
  by (simp add: mem_load_def)

lemma mem_load_store: "length bs \<le> 2 ^ 32 \<Longrightarrow> mem_load a (length bs) (mem_store a bs m) = bs"
  by (rule nth_equalityI) (simp_all add: mem_load_def mem_store_def unat_of_nat take_bit_nat_eq_self_iff)

section \<open>Booting\<close>

definition BOOT_MAX_RETRY :: nat where "BOOT_MAX_RETRY = 5"

text \<open>
  The do-while loop: \<open>pb\<close> and \<open>hb\<close> are the bytes of the local structures \<open>para\<close> and \<open>header\<close>, which
  keep their values from one turn to the next.
\<close>

fun boot_loop ::
  "'s part_if \<Rightarrow> nat \<Rightarrow> u8 list \<Rightarrow> u8 list \<Rightarrow> memory \<Rightarrow> 's \<Rightarrow> (u32 \<times> memory \<times> 's) option" where
  "boot_loop P 0 pb hb m s = Some (0, m, s)"
| "boot_loop P (Suc retry) pb hb m s = do {
     (r, pb, s) \<leftarrow> read_struct P PARA_PART pb s;
     let para = para_of_bytes pb;
     (if r \<noteq> 0 then boot_loop P retry pb hb m s
      else if pa_magic para \<noteq> OTA_PARA_MAGIC then boot_loop P retry pb hb m s
      else do {
        let (part_name, temp_crc32) =
          (if pa_active_slot para = APP_SLOT_1 then (APP1_PART, pa_app1_crc para) else (APP2_PART, pa_app2_crc para));
        (r, hb, s) \<leftarrow> read_struct P part_name hb s;
        let header = header_of_bytes hb;
        (if r \<noteq> 0 then boot_loop P retry pb hb m s
         else if fh_magic header \<noteq> OTA_FIRMWARE_MAGIC \<or> fh_crc32 header \<noteq> temp_crc32
         then do {
           (r, s) \<leftarrow> ota_backup_firmware P s;
           (if r \<noteq> 0 then Some (0, m, s) else boot_loop P retry pb hb m s)
         }
         else do {
           (r, bs, s) \<leftarrow> if_read P part_name (fh_load_addr header = 0) 32 (fh_size header) s;
           let m = mem_store (fh_load_addr header) bs m;
           (if r \<noteq> 0 then boot_loop P retry pb hb m s
            else
              let crc = boot_crc32_update 0xFFFFFFFF (mem_load (fh_load_addr header) (unat (fh_size header)) m) XOR 0xFFFFFFFF
              in if crc \<noteq> temp_crc32
                 then do {
                   (r, s) \<leftarrow> ota_backup_firmware P s;
                   (if r \<noteq> 0 then Some (0, m, s) else boot_loop P retry pb hb m s)
                 }
                 else Some (fh_exec_addr header, m, s))
         })
      })
   }"

definition boot_firmware :: "'s part_if \<Rightarrow> memory \<Rightarrow> 's \<Rightarrow> (u32 \<times> memory \<times> 's) option" where
  "boot_firmware P m s = boot_loop P BOOT_MAX_RETRY (replicate 32 0) (replicate 32 0) m s"

section \<open>What a successful boot has checked\<close>

text \<open>The CRC that the parameters hold for the active slot.\<close>

definition active_crc :: "ota_paramers \<Rightarrow> u32" where
  "active_crc p = (if pa_active_slot p = APP_SLOT_1 then pa_app1_crc p else pa_app2_crc p)"

text \<open>The slot of the parameters holds a valid image.\<close>

definition slot_valid :: "('s \<Rightarrow> u8 list \<Rightarrow> u8 list) \<Rightarrow> 's \<Rightarrow> ota_paramers \<Rightarrow> bool" where
  "slot_valid cont s p \<longleftrightarrow>
     (let nm = active_part p; h = header_at cont s nm in
      pa_magic p = OTA_PARA_MAGIC \<and> fh_magic h = OTA_FIRMWARE_MAGIC \<and> fh_crc32 h = active_crc p \<and>
      32 + unat (fh_size h) \<le> length (cont s nm) \<and> fh_load_addr h \<noteq> 0 \<and>
      crc32 (payload_at cont s nm) = active_crc p)"

text \<open>A slot that fails its checks: its header is not a firmware header, carries another CRC than
  the parameters, or its payload does not have that CRC.\<close>

definition slot_damaged :: "('s \<Rightarrow> u8 list \<Rightarrow> u8 list) \<Rightarrow> 's \<Rightarrow> ota_paramers \<Rightarrow> bool" where
  "slot_damaged cont s p \<longleftrightarrow>
     (let h = header_at cont s (active_part p) in
      32 \<le> length (cont s (active_part p)) \<and>
      (fh_magic h \<noteq> OTA_FIRMWARE_MAGIC \<or> fh_crc32 h \<noteq> active_crc p \<or>
       32 + unat (fh_size h) \<le> length (cont s (active_part p)) \<and> fh_load_addr h \<noteq> 0 \<and>
       crc32 (payload_at cont s (active_part p)) \<noteq> active_crc p))"

text \<open>The image of the active slot is in memory, where its header wants it.\<close>

definition image_loaded :: "('s \<Rightarrow> u8 list \<Rightarrow> u8 list) \<Rightarrow> 's \<Rightarrow> ota_paramers \<Rightarrow> memory \<Rightarrow> bool" where
  "image_loaded cont s p m \<longleftrightarrow>
     (let h = header_at cont s (active_part p)
      in mem_load (fh_load_addr h) (unat (fh_size h)) m = payload_at cont s (active_part p))"

context ota_store
begin

text \<open>The steps of one turn that do not end it.\<close>

lemma boot_loop_sound:
  "ok s \<Longrightarrow> length pb = 32 \<Longrightarrow> length hb = 32 \<Longrightarrow>
   \<forall>nm \<in> {APP1_PART, APP2_PART}. 32 + unat (fh_size (header_at cont s nm)) < 2 ^ 32 \<Longrightarrow>
   \<exists>a m' s'. boot_loop P n pb hb m s = Some (a, m', s') \<and> ok s' \<and>
     (\<forall>nm \<in> names - {PARA_PART}. cont s' nm = cont s nm) \<and>
     (a \<noteq> 0 \<longrightarrow> slot_valid cont s' (para_at cont s') \<and> image_loaded cont s' (para_at cont s') m' \<and>
        a = fh_exec_addr (header_at cont s' (active_part (para_at cont s'))))"
proof (induction n arbitrary: pb hb m s)
  case (Suc n)
  obtain r1 pb1 s1 where 1: "read_struct P PARA_PART pb s = Some (r1, pb1, s1)" "ok s1"
    "\<And>nm. nm \<in> names \<Longrightarrow> cont s1 nm = cont s nm" "length pb1 = 32" "r1 = 0 \<Longrightarrow> pb1 = bslice 0 32 (cont s PARA_PART) \<and> 32 \<le> length (cont s PARA_PART)"
    by (rule read_struct_effect [OF Suc.prems(1) fw_names(4) Suc.prems(2)]) blast
  let ?p = "para_of_bytes pb1"
  have again: ?case if a: "boot_loop P (Suc n) pb hb m s = boot_loop P n pb' hb' m' t" "ok t" "length pb' = 32" "length hb' = 32"
    "\<forall>nm \<in> names - {PARA_PART}. cont t nm = cont s nm" for pb' hb' m' t
  proof -
    have "header_at cont t APP1_PART = header_at cont s APP1_PART" "header_at cont t APP2_PART = header_at cont s APP2_PART"
      using a(5) fw_names by (simp_all add: header_at_def)
    then have "\<exists>a m'' s'. boot_loop P n pb' hb' m' t = Some (a, m'', s') \<and> ok s' \<and>
     (\<forall>nm \<in> names - {PARA_PART}. cont s' nm = cont t nm) \<and>
     (a \<noteq> 0 \<longrightarrow> slot_valid cont s' (para_at cont s') \<and> image_loaded cont s' (para_at cont s') m'' \<and>
        a = fh_exec_addr (header_at cont s' (active_part (para_at cont s'))))"
      by (intro Suc.IH) (use a Suc.prems(4) in auto)
    with a(1,5) show ?thesis by auto
  qed
  show ?case
  proof (cases "r1 \<noteq> 0 \<or> pa_magic ?p \<noteq> OTA_PARA_MAGIC")
    case True
    then have "boot_loop P (Suc n) pb hb m s = boot_loop P n pb1 hb m s1"
      by (auto simp: 1(1) Let_def)
    then show ?thesis
      by (rule again) (use 1 Suc.prems in auto)
  next
    case False
    then have p: "?p = para_at cont s" "pa_magic ?p = OTA_PARA_MAGIC" "r1 = 0"
      using 1(5) by (simp_all add: para_at_def)
    let ?A = "active_part ?p" and ?c = "active_crc ?p"
    have sel: "(if pa_active_slot ?p = APP_SLOT_1 then (APP1_PART, pa_app1_crc ?p) else (APP2_PART, pa_app2_crc ?p)) = (?A, ?c)"
      by (simp add: active_part_def active_crc_def)
    obtain r2 hb2 s2 where 2: "read_struct P ?A hb s1 = Some (r2, hb2, s2)" "ok s2"
      "\<And>nm. nm \<in> names \<Longrightarrow> cont s2 nm = cont s1 nm" "length hb2 = 32" "r2 = 0 \<Longrightarrow> hb2 = bslice 0 32 (cont s1 ?A) \<and> 32 \<le> length (cont s1 ?A)"
      by (rule read_struct_effect [OF 1(2) slot_names(1) Suc.prems(3)]) blast
    let ?h = "header_of_bytes hb2"
    have backup: ?thesis if a: "boot_loop P (Suc n) pb hb m s =
        ota_backup_firmware P t \<bind> (\<lambda>(r, t). if r \<noteq> 0 then Some (0, m', t) else boot_loop P n pb1 hb2 m' t)"
      "ok t" "\<And>nm. nm \<in> names \<Longrightarrow> cont t nm = cont s nm" for m' t
    proof -
      obtain r t' where b: "ota_backup_firmware P t = Some (r, t')" "ok t'"
        "\<And>nm. nm \<in> names \<Longrightarrow> nm \<noteq> PARA_PART \<Longrightarrow> cont t' nm = cont t nm"
        by (rule backup_effect [OF a(2)]) blast
      show ?thesis
      proof (cases "r = 0")
        case True
        then have "boot_loop P (Suc n) pb hb m s = boot_loop P n pb1 hb2 m' t'"
          using a(1) b(1) by simp
        then show ?thesis
          by (rule again) (use 1(4) 2(4) b(2,3) a(3) in auto)
      next
        case False
        with a b show ?thesis by auto
      qed
    qed
    show ?thesis
    proof (cases "r2 = 0")
      case False
      then have "boot_loop P (Suc n) pb hb m s = boot_loop P n pb1 hb2 m s2"
        using p(2,3) by (simp add: 1(1) Let_def sel 2(1) split del: if_split)
      then show ?thesis
        by (rule again) (use 1 2 in auto)
    next
      case r2: True
      then have h: "?h = header_at cont s ?A"
        using 2(5) 1(3) by (simp add: header_at_def)
      show ?thesis
      proof (cases "fh_magic ?h \<noteq> OTA_FIRMWARE_MAGIC \<or> fh_crc32 ?h \<noteq> ?c")
        case True
        then have "boot_loop P (Suc n) pb hb m s =
            ota_backup_firmware P s2 \<bind> (\<lambda>(r, t). if r \<noteq> 0 then Some (0, m, t) else boot_loop P n pb1 hb2 m t)"
          using p(2,3) r2 by (simp add: 1(1) Let_def sel 2(1) split del: if_split)
        then show ?thesis
          by (rule backup) (use 1 2 in auto)
      next
        case hd: False
        have size: "32 + unat (fh_size ?h) < 2 ^ 32"
          using Suc.prems(4) by (auto simp: h active_part_def)
        then have nw: "unat (32 :: u32) + unat (fh_size ?h) < 2 ^ 32" by simp
        let ?nul = "fh_load_addr ?h = 0"
        obtain r3 bs s3 where 3: "if_read P ?A ?nul 32 (fh_size ?h) s2 = Some (r3, bs, s3)"
          using read_total [OF 2(2) slot_names(1) nw] by blast
        have law: "ok s3 \<and> (\<forall>nm \<in> names. cont s3 nm = cont s2 nm) \<and>
            (r3 = 0 \<longrightarrow> \<not> ?nul \<and> 32 + unat (fh_size ?h) \<le> length (cont s2 ?A) \<and>
               bs = bslice 32 (unat (fh_size ?h)) (cont s2 ?A))"
        proof (cases ?nul)
          case True
          with 3 have "if_read P ?A True 32 (fh_size ?h) s2 = Some (r3, bs, s3)" by simp
          from read_null [OF 2(2) slot_names(1) this] 2(2) show ?thesis by simp
        next
          case False
          with 3 have "if_read P ?A False 32 (fh_size ?h) s2 = Some (r3, bs, s3)" by simp
          from read_law [OF 2(2) slot_names(1) nw this] False show ?thesis by simp
        qed
        let ?m = "mem_store (fh_load_addr ?h) bs m"
        let ?crc = "boot_crc32_update 0xFFFFFFFF (mem_load (fh_load_addr ?h) (unat (fh_size ?h)) ?m) XOR 0xFFFFFFFF"
        show ?thesis
        proof (cases "r3 = 0")
          case False
          then have "boot_loop P (Suc n) pb hb m s = boot_loop P n pb1 hb2 ?m s3"
            using p(2,3) r2 hd by (simp add: 1(1) Let_def sel 2(1) 3 split del: if_split)
          then show ?thesis
            by (rule again) (use 1 2 law in auto)
        next
          case r3: True
          show ?thesis
          proof (cases "?crc = ?c")
            case False
            then have "boot_loop P (Suc n) pb hb m s =
                ota_backup_firmware P s3 \<bind> (\<lambda>(r, t). if r \<noteq> 0 then Some (0, ?m, t) else boot_loop P n pb1 hb2 ?m t)"
              using p(2,3) r2 hd r3 by (simp add: 1(1) Let_def sel 2(1) 3 split del: if_split)
            then show ?thesis
              by (rule backup) (use 1 2 law in auto)
          next
            case True
            then have res: "boot_loop P (Suc n) pb hb m s = Some (fh_exec_addr ?h, ?m, s3)"
              using p(2,3) r2 hd r3 by (simp add: 1(1) Let_def sel 2(1) 3 split del: if_split)
            have same: "cont s3 nm = cont s nm" if "nm \<in> names" for nm
              using law 2(3) 1(3) that by simp
            have at: "para_at cont s3 = ?p" "header_at cont s3 ?A = ?h" "payload_at cont s3 ?A = bs" "length (cont s3 ?A) = length (cont s2 ?A)"
              using same law r3 p(1) h 2(3) 1(3) by (simp_all add: para_at_def header_at_def payload_at_def)
            have lbs: "length bs = unat (fh_size ?h)"
              using law r3 by simp
            then have load: "mem_load (fh_load_addr ?h) (unat (fh_size ?h)) ?m = bs"
              using mem_load_store [of bs "fh_load_addr ?h" m] size by simp
            have "slot_valid cont s3 ?p"
              using True law r3 hd p(2) at load
              by (simp add: slot_valid_def Let_def crc32_def boot_crc32_update_poly)
            moreover have "image_loaded cont s3 ?p ?m"
              by (simp add: image_loaded_def at load)
            ultimately show ?thesis
              using res law same at by simp
          qed
        qed
      qed
    qed
  qed
qed simp

end

section \<open>What boot does on a medium without I/O errors\<close>

context reliable_ota
begin

lemma backup_reliable:
  assumes "ok s"
  defines "p \<equiv> para_at cont s"
  assumes "32 \<le> length (cont s PARA_PART)" and "32 \<le> length (cont s (spare_part p))"
    and "pa_magic p = OTA_PARA_MAGIC" and "pa_can_be_back p = BACKUP_FLAG"
    and "fh_magic (header_at cont s (spare_part p)) = OTA_FIRMWARE_MAGIC"
  obtains s' where "ota_backup_firmware P s = Some (0, s')" "ok s'" "para_at cont s' = rolled_back p"
    "\<And>m. m \<in> names \<Longrightarrow> m \<noteq> PARA_PART \<Longrightarrow> cont s' m = cont s m"
    "length (cont s' PARA_PART) = length (cont s PARA_PART)"
proof -
  obtain s1 where 1: "read_struct P PARA_PART (replicate 32 0) s = Some (0, bslice 0 32 (cont s PARA_PART), s1)" "ok s1"
    "\<And>m. m \<in> names \<Longrightarrow> cont s1 m = cont s m"
    by (rule read_struct_reliable [OF assms(1) fw_names(4), of "replicate 32 0"]) (use assms(3) in auto)
  have p: "para_of_bytes (bslice 0 32 (cont s PARA_PART)) = p"
    by (simp add: p_def para_at_def)
  obtain s2 where 2: "read_struct P (spare_part p) (replicate 32 0) s1 = Some (0, bslice 0 32 (cont s1 (spare_part p)), s2)" "ok s2"
    "\<And>m. m \<in> names \<Longrightarrow> cont s2 m = cont s1 m"
    by (rule read_struct_reliable [OF 1(2) slot_names(2), of "replicate 32 0"]) (use assms(4) 1(3) in auto)
  have h: "header_of_bytes (bslice 0 32 (cont s1 (spare_part p))) = header_at cont s (spare_part p)"
    using 1(3) by (simp add: header_at_def)
  obtain s3 where 3: "write_para P (rolled_back p) s2 = Some (0, s3)" "ok s3"
    "\<And>m. m \<in> names \<Longrightarrow> m \<noteq> PARA_PART \<Longrightarrow> cont s3 m = cont s2 m"
    "cont s3 PARA_PART = patch 0 (para_bytes (rolled_back p)) (cont s2 PARA_PART)"
    by (rule write_para_reliable [OF 2(2), of "rolled_back p"]) (use assms(3) 1(3) 2(3) fw_names in auto)
  have part: "(if pa_active_slot (p\<lparr>pa_can_be_back := 0, pa_upgrade_ready := 0\<rparr>) = APP_SLOT_1 then APP2_PART else APP1_PART) = spare_part p"
    by (simp add: spare_part_def)
  have "ota_backup_firmware P s = Some (0, s3)"
    unfolding ota_backup_firmware_def 1(1) Let_def
    using assms(5-7) 3(1) by (simp add: p part [simplified] 2(1) h rolled_back_def)
  then show thesis
    by (rule that) (use 1 2 3 assms(3) fw_names in \<open>simp_all add: para_at_def\<close>)
qed

text \<open>One turn of the loop: up to the read of the active header it is always the same.\<close>

lemma boot_turn:
  assumes "ok s" and "length pb = 32" and "length hb = 32"
  defines "p \<equiv> para_at cont s"
  defines "h \<equiv> header_at cont s (active_part p)"
  assumes "32 \<le> length (cont s PARA_PART)" and "32 \<le> length (cont s (active_part p))" and "pa_magic p = OTA_PARA_MAGIC"
  obtains pb1 hb1 t where "ok t" "\<And>nm. nm \<in> names \<Longrightarrow> cont t nm = cont s nm" "length pb1 = 32" "length hb1 = 32"
    "boot_loop P (Suc n) pb hb m s =
       (if fh_magic h \<noteq> OTA_FIRMWARE_MAGIC \<or> fh_crc32 h \<noteq> active_crc p
        then ota_backup_firmware P t \<bind> (\<lambda>(r, t). if r \<noteq> 0 then Some (0, m, t) else boot_loop P n pb1 hb1 m t)
        else if_read P (active_part p) (fh_load_addr h = 0) 32 (fh_size h) t \<bind> (\<lambda>(r, bs, t).
          let m = mem_store (fh_load_addr h) bs m in
          if r \<noteq> 0 then boot_loop P n pb1 hb1 m t
          else if boot_crc32_update 0xFFFFFFFF (mem_load (fh_load_addr h) (unat (fh_size h)) m) XOR 0xFFFFFFFF \<noteq> active_crc p
          then ota_backup_firmware P t \<bind> (\<lambda>(r, t). if r \<noteq> 0 then Some (0, m, t) else boot_loop P n pb1 hb1 m t)
          else Some (fh_exec_addr h, m, t)))"
proof -
  obtain s1 where 1: "read_struct P PARA_PART pb s = Some (0, bslice 0 32 (cont s PARA_PART), s1)" "ok s1"
    "\<And>m. m \<in> names \<Longrightarrow> cont s1 m = cont s m"
    by (rule read_struct_reliable [OF assms(1) fw_names(4) assms(2)]) (use assms(6) in auto)
  have p: "para_of_bytes (bslice 0 32 (cont s PARA_PART)) = p"
    by (simp add: p_def para_at_def)
  obtain s2 where 2: "read_struct P (active_part p) hb s1 = Some (0, bslice 0 32 (cont s (active_part p)), s2)" "ok s2"
    "\<And>m. m \<in> names \<Longrightarrow> cont s2 m = cont s1 m"
    by (rule read_struct_reliable [OF 1(2) slot_names(1) assms(3)]) (use assms(7) 1(3) in auto)
  have h: "header_of_bytes (bslice 0 32 (cont s (active_part p))) = h"
    by (simp add: h_def header_at_def)
  have sel: "(if pa_active_slot p = APP_SLOT_1 then (APP1_PART, pa_app1_crc p) else (APP2_PART, pa_app2_crc p)) =
      (active_part p, active_crc p)"
    by (simp add: active_part_def active_crc_def)
  show thesis
    by (rule that [of s2 "bslice 0 32 (cont s PARA_PART)" "bslice 0 32 (cont s (active_part p))"])
      (use 1(3) 2 assms(6-8) in \<open>simp_all add: 1(1) p Let_def sel h split del: if_split cong: if_cong\<close>)
qed

lemma boot_valid:
  assumes "ok s" and "length pb = 32" and "length hb = 32"
  defines "p \<equiv> para_at cont s"
  assumes "32 \<le> length (cont s PARA_PART)" and valid: "slot_valid cont s p"
  shows "\<exists>s'. boot_loop P (Suc n) pb hb m s = Some (fh_exec_addr (header_at cont s (active_part p)),
      mem_store (fh_load_addr (header_at cont s (active_part p))) (payload_at cont s (active_part p)) m, s') \<and>
    ok s' \<and> (\<forall>nm \<in> names. cont s' nm = cont s nm)"
proof -
  let ?h = "header_at cont s (active_part p)"
  have v: "pa_magic p = OTA_PARA_MAGIC" "fh_magic ?h = OTA_FIRMWARE_MAGIC" "fh_crc32 ?h = active_crc p"
    "32 + unat (fh_size ?h) \<le> length (cont s (active_part p))" "fh_load_addr ?h \<noteq> 0"
    "crc32 (payload_at cont s (active_part p)) = active_crc p"
    using valid by (simp_all add: slot_valid_def Let_def)
  have act: "32 \<le> length (cont s (active_part p))"
    using v(4) by simp
  note turn = boot_turn [OF assms(1-3,5), folded p_def, OF act v(1)]
  show ?thesis
  proof (rule turn [of n m])
    fix pb1 hb1 t
    assume t: "ok t" "\<And>nm. nm \<in> names \<Longrightarrow> cont t nm = cont s nm" and
      eq: "boot_loop P (Suc n) pb hb m s =
       (if fh_magic ?h \<noteq> OTA_FIRMWARE_MAGIC \<or> fh_crc32 ?h \<noteq> active_crc p
        then ota_backup_firmware P t \<bind> (\<lambda>(r, t). if r \<noteq> 0 then Some (0, m, t) else boot_loop P n pb1 hb1 m t)
        else if_read P (active_part p) (fh_load_addr ?h = 0) 32 (fh_size ?h) t \<bind> (\<lambda>(r, bs, t).
          let m = mem_store (fh_load_addr ?h) bs m in
          if r \<noteq> 0 then boot_loop P n pb1 hb1 m t
          else if boot_crc32_update 0xFFFFFFFF (mem_load (fh_load_addr ?h) (unat (fh_size ?h)) m) XOR 0xFFFFFFFF \<noteq> active_crc p
          then ota_backup_firmware P t \<bind> (\<lambda>(r, t). if r \<noteq> 0 then Some (0, m, t) else boot_loop P n pb1 hb1 m t)
          else Some (fh_exec_addr ?h, m, t)))"
    have rng: "unat (32 :: u32) + unat (fh_size ?h) \<le> length (cont t (active_part p))"
      using v(4) t(2) by simp
    obtain t' where r: "if_read P (active_part p) False 32 (fh_size ?h) t =
        Some (0, bslice (unat (32 :: u32)) (unat (fh_size ?h)) (cont t (active_part p)), t')" "ok t'"
      "\<And>nm. nm \<in> names \<Longrightarrow> cont t' nm = cont t nm"
      by (rule read_in_range [OF t(1) slot_names(1) rng]) blast
    let ?bs = "payload_at cont s (active_part p)"
    have bs: "bslice (unat (32 :: u32)) (unat (fh_size ?h)) (cont t (active_part p)) = ?bs"
      using t(2) by (simp add: payload_at_def)
    have "length ?bs = unat (fh_size ?h)"
      using v(4) by (simp add: payload_at_def)
    then have load: "mem_load (fh_load_addr ?h) (unat (fh_size ?h)) (mem_store (fh_load_addr ?h) ?bs m) = ?bs"
      using mem_load_store [of ?bs "fh_load_addr ?h" m] cont_bound [OF assms(1) slot_names(1), of p] v(4) by simp
    show ?thesis
      using v r(2,3) t(2) unfolding eq
      by (simp add: r(1) [unfolded bs] Let_def load crc32_def boot_crc32_update_poly)
  qed
qed

lemma boot_damaged_turn:
  assumes "ok s" and "length pb = 32" and "length hb = 32"
  defines "p \<equiv> para_at cont s"
  assumes "32 \<le> length (cont s PARA_PART)" and "pa_magic p = OTA_PARA_MAGIC" and bad: "slot_damaged cont s p"
    and rb: "pa_can_be_back p = BACKUP_FLAG" "32 \<le> length (cont s (spare_part p))"
      "fh_magic (header_at cont s (spare_part p)) = OTA_FIRMWARE_MAGIC"
  obtains pb1 hb1 m1 t where "boot_loop P (Suc n) pb hb m s = boot_loop P n pb1 hb1 m1 t" "ok t"
    "length pb1 = 32" "length hb1 = 32" "para_at cont t = rolled_back p"
    "\<And>nm. nm \<in> names \<Longrightarrow> nm \<noteq> PARA_PART \<Longrightarrow> cont t nm = cont s nm" "length (cont t PARA_PART) = length (cont s PARA_PART)"
proof -
  note result = that
  let ?h = "header_at cont s (active_part p)"
  have act: "32 \<le> length (cont s (active_part p))"
    using bad by (simp add: slot_damaged_def Let_def)
  note turn = boot_turn [OF assms(1-3,5), folded p_def, OF act assms(6)]
  have backup: thesis if a: "ok t" "\<And>nm. nm \<in> names \<Longrightarrow> cont t nm = cont s nm" "length pb1 = 32" "length hb1 = 32"
      "boot_loop P (Suc n) pb hb m s =
       ota_backup_firmware P t \<bind> (\<lambda>(r, t). if r \<noteq> 0 then Some (0, m1, t) else boot_loop P n pb1 hb1 m1 t)"
    for pb1 hb1 m1 t
  proof -
    have at: "para_at cont t = p" "header_at cont t (spare_part p) = header_at cont s (spare_part p)"
      using a(2) fw_names by (simp_all add: p_def para_at_def header_at_def)
    obtain t' where "ota_backup_firmware P t = Some (0, t')" "ok t'" "para_at cont t' = rolled_back p"
      "\<And>nm. nm \<in> names \<Longrightarrow> nm \<noteq> PARA_PART \<Longrightarrow> cont t' nm = cont t nm"
      "length (cont t' PARA_PART) = length (cont t PARA_PART)"
      by (rule backup_reliable [OF a(1)]) (use assms(5,6) rb a(2) at fw_names in auto)
    with a show thesis
      by (intro result [of pb1 hb1 m1 t']) simp_all
  qed
  show thesis
  proof (rule turn [of n m])
    fix pb1 hb1 t
    assume t: "ok t" "\<And>nm. nm \<in> names \<Longrightarrow> cont t nm = cont s nm" "length pb1 = 32" "length hb1 = 32" and
      eq: "boot_loop P (Suc n) pb hb m s =
       (if fh_magic ?h \<noteq> OTA_FIRMWARE_MAGIC \<or> fh_crc32 ?h \<noteq> active_crc p
        then ota_backup_firmware P t \<bind> (\<lambda>(r, t). if r \<noteq> 0 then Some (0, m, t) else boot_loop P n pb1 hb1 m t)
        else if_read P (active_part p) (fh_load_addr ?h = 0) 32 (fh_size ?h) t \<bind> (\<lambda>(r, bs, t).
          let m = mem_store (fh_load_addr ?h) bs m in
          if r \<noteq> 0 then boot_loop P n pb1 hb1 m t
          else if boot_crc32_update 0xFFFFFFFF (mem_load (fh_load_addr ?h) (unat (fh_size ?h)) m) XOR 0xFFFFFFFF \<noteq> active_crc p
          then ota_backup_firmware P t \<bind> (\<lambda>(r, t). if r \<noteq> 0 then Some (0, m, t) else boot_loop P n pb1 hb1 m t)
          else Some (fh_exec_addr ?h, m, t)))"
    show thesis
    proof (cases "fh_magic ?h \<noteq> OTA_FIRMWARE_MAGIC \<or> fh_crc32 ?h \<noteq> active_crc p")
      case True
      have "boot_loop P (Suc n) pb hb m s =
          ota_backup_firmware P t \<bind> (\<lambda>(r, t). if r \<noteq> 0 then Some (0, m, t) else boot_loop P n pb1 hb1 m t)"
        unfolding eq by (rule if_P [OF True])
      from backup [OF t(1) _ t(3,4) this] t(2) show thesis .
    next
      case False
      with bad have v: "32 + unat (fh_size ?h) \<le> length (cont s (active_part p))" "fh_load_addr ?h \<noteq> 0"
        "crc32 (payload_at cont s (active_part p)) \<noteq> active_crc p"
        by (auto simp: slot_damaged_def Let_def)
      have rng: "unat (32 :: u32) + unat (fh_size ?h) \<le> length (cont t (active_part p))"
        using v(1) t(2) by simp
      obtain t' where r: "if_read P (active_part p) False 32 (fh_size ?h) t =
          Some (0, bslice (unat (32 :: u32)) (unat (fh_size ?h)) (cont t (active_part p)), t')" "ok t'"
        "\<And>nm. nm \<in> names \<Longrightarrow> cont t' nm = cont t nm"
        by (rule read_in_range [OF t(1) slot_names(1) rng]) blast
      let ?bs = "payload_at cont s (active_part p)"
      have bs: "bslice (unat (32 :: u32)) (unat (fh_size ?h)) (cont t (active_part p)) = ?bs"
        using t(2) by (simp add: payload_at_def)
      have "length ?bs = unat (fh_size ?h)"
        using v(1) by (simp add: payload_at_def)
      then have load: "mem_load (fh_load_addr ?h) (unat (fh_size ?h)) (mem_store (fh_load_addr ?h) ?bs m) = ?bs"
        using mem_load_store [of ?bs "fh_load_addr ?h" m] cont_bound [OF assms(1) slot_names(1), of p] v(1) by simp
      show thesis
        by (rule backup [of t' pb1 hb1 "mem_store (fh_load_addr ?h) ?bs m"])
          (use r(2,3) t False v in \<open>simp_all add: eq r(1) [unfolded bs] Let_def load crc32_def boot_crc32_update_poly del: boot_loop.simps\<close>)
    qed
  qed
qed

end

end
