(* ===== verification/Ram_Store.thy ===== *)
theory Ram_Store
  imports Boot
begin

text \<open>
  A partition store in memory: every partition is a byte array, and the four functions check the
  range and copy.  It satisfies the contract of a medium without I/O errors, so the facts about
  OTA and boot apply to it; the concrete runs of this theory show that their hypotheses can hold.
\<close>

type_synonym ram = "u8 list \<Rightarrow> u8 list"

definition ram_if :: "ram part_if" where
  "ram_if =
     \<lparr>if_read = (\<lambda>nm nul off n s.
        if nul then Some (-1, [], s)
        else if unat off + unat n \<le> length (s nm) then Some (0, bslice (unat off) (unat n) (s nm), s)
        else Some (-2, [], s)),
      if_write = (\<lambda>nm bs off n s.
        if unat off + unat n \<le> length (s nm)
        then Some (0, s(nm := patch (unat off) (take (unat n) bs) (s nm))) else Some (-2, s)),
      if_erase = (\<lambda>nm off n s.
        if unat off + unat n \<le> length (s nm)
        then Some (0, s(nm := patch (unat off) (replicate (unat n) erased) (s nm))) else Some (-2, s)),
      if_erase_all = (\<lambda>nm s. Some (0, s(nm := replicate (length (s nm)) erased)))\<rparr>"

definition ram_ok :: "ram \<Rightarrow> bool" where
  "ram_ok s \<longleftrightarrow> (\<forall>nm. length (s nm) \<le> 2 ^ 31)"

definition ram_names :: "u8 list set" where
  "ram_names = {DOWN_PART, APP1_PART, APP2_PART, PARA_PART}"

interpretation ram: reliable_ota ram_if ram_ok ram_names "\<lambda>s. s"
  by unfold_locales
    (auto simp: ram_if_def ram_ok_def ram_names_def min_def split: if_splits)

end
