(* ===== verification/Firmware.thy ===== *)
theory Firmware
  imports Ram_Store
begin

text \<open>
  The properties of download, update, rollback and boot, for every partition store that keeps the
  contract (\<open>ota_store\<close>, or \<open>reliable_ota\<close> on a medium without I/O errors), with concrete runs on
  the store in memory.
\<close>

section \<open>From the serial line to the running image\<close>

context reliable_ota
begin

lemma switched_active [simp]:
  "active_part (switched p) = spare_part p" "active_crc (switched p) = pa_download_crc p"
  "pa_magic (switched p) = OTA_PARA_MAGIC"
  by (simp_all add: switched_def active_part_def spare_part_def active_crc_def APP_SLOT_1_def APP_SLOT_2_def)

lemma download_update_boot:
  assumes "ok (y_env Y)" and "length cache = 1024" and "length (f_buf (cache_frame Y)) = PACKET_SIZE_1K" and "y_port Y"
  defines "s \<equiv> y_env Y"
  defines "new \<equiv> spare_part (para_at cont s)"
  assumes name: "0 \<notin> set name" and head: "packet_size (length (header_block name n rest))"
    and size: "n < 2 ^ 31" and blocks: "\<forall>(k, b) \<in> set blocks. packet_size (length b)"
    and fit: "fits (int n) (map (length \<circ> snd) blocks)" and empty: "packet_size z"
    and line: "y_line Y = \<lparr>rx = map Some (packet num (header_block name n rest) @ data_packets blocks @
        closing num' z) @ r, tx = t\<rparr>"
    and image: "concat (map snd blocks) = header_bytes h @ body @ pad" "unat (fh_size h) = length body"
      "fh_magic h = OTA_FIRMWARE_MAGIC" "fh_crc32 h = crc32 body" "fh_load_addr h \<noteq> 0"
    and room: "length (concat (map snd blocks)) \<le> length (cont s DOWN_PART)" "32 \<le> length (cont s PARA_PART)"
      "32 + length body \<le> length (cont s new)"
  shows "\<exists>c1 Y1 c2 s2 s3.
    ota_download_firmware P cache Y = Some (0, c1, Y1) \<and>
    ota_update_firmware P c1 (y_env Y1) = Some (0, c2, s2) \<and>
    boot_firmware P m s2 = Some (fh_exec_addr h, mem_store (fh_load_addr h) body m, s3) \<and>
    active_part (para_at cont s3) = new \<and> cont s3 (active_part (para_at cont s)) = cont s (active_part (para_at cont s))"
proof -
  obtain c1 Y1 where d: "ota_download_firmware P cache Y = Some (0, c1, Y1)" "ok (y_env Y1)" "length c1 = 1024"
    "cont (y_env Y1) DOWN_PART = patch 0 (header_bytes h @ body @ pad) (replicate (length (cont s DOWN_PART)) erased)"
    "para_at cont (y_env Y1) = (para_at cont s)\<lparr>pa_magic := OTA_PARA_MAGIC, pa_upgrade_ready := 1, pa_download_crc := crc32 body\<rparr>"
    "length (cont (y_env Y1) PARA_PART) = length (cont s PARA_PART)"
    "\<forall>m \<in> names - {DOWN_PART, PARA_PART}. cont (y_env Y1) m = cont s m"
    using download_succeeds [OF assms(1-4) name head size blocks fit empty line image(1-4), folded s_def, OF room(1,2)] by blast
  let ?s1 = "y_env Y1" and ?p = "para_at cont (y_env Y1)"
  have big: "32 + length body \<le> length (cont s DOWN_PART)" "length (cont ?s1 DOWN_PART) = length (cont s DOWN_PART)"
    using room(1) image(1) by (simp_all add: d(4))
  have down: "cont ?s1 DOWN_PART = header_bytes h @ body @ pad @ drop (length (header_bytes h @ body @ pad)) (replicate (length (cont s DOWN_PART)) erased)"
    by (simp add: d(4) patch_def)
  have h: "header_at cont ?s1 DOWN_PART = h"
    by (simp add: header_at_def down bslice_def)
  have n: "unat (fh_size h + 32) = 32 + length body"
  proof -
    have "length body < 2 ^ 32 - 32"
      using big cont_bound [OF assms(1) fw_names(1)] by (simp add: s_def)
    then show ?thesis
      using unat_add_no_wrap [of "fh_size h" 32] image(2) by simp
  qed
  have new: "spare_part ?p = new"
    by (simp add: d(5) new_def spare_part_def)
  have newlen: "cont ?s1 new = cont s new"
    using d(7) by (simp add: new_def)
  obtain c2 s2 where u: "ota_update_firmware P c1 ?s1 = Some (0, c2, s2)" "ok s2" "para_at cont s2 = switched ?p"
    "cont s2 new = patch 0 (bslice 0 (32 + length body) (cont ?s1 DOWN_PART)) (replicate (length (cont s new)) erased)"
    "\<forall>m \<in> names - {PARA_PART, new}. cont s2 m = cont ?s1 m" "length (cont s2 PARA_PART) = length (cont ?s1 PARA_PART)"
    using update_switches [OF d(2,3), unfolded h n new] d(5,6) room image(4) big newlen by auto
  have copy: "bslice 0 (32 + length body) (cont ?s1 DOWN_PART) = header_bytes h @ body"
    by (simp add: down bslice_def)
  have slot: "cont s2 new = header_bytes h @ body @ drop (32 + length body) (replicate (length (cont s new)) erased)"
    by (simp add: u(4) copy patch_def)
  have hd: "header_at cont s2 new = h"
    by (simp add: header_at_def slot bslice_def)
  have body: "payload_at cont s2 new = body"
    unfolding payload_at_def hd image(2) by (simp add: slot bslice_def)
  have act: "active_part (para_at cont s2) = new" "active_crc (para_at cont s2) = crc32 body"
    unfolding u(3) using new by (simp_all add: d(5))
  have "length (cont s2 new) = length (cont s new)"
    using room(3) by (simp add: slot)
  then have "slot_valid cont s2 (para_at cont s2)"
    unfolding slot_valid_def Let_def act hd body using image room(3) by (simp add: u(3))
  then obtain s3 where b: "boot_loop P (Suc 4) (replicate 32 0) (replicate 32 0) m s2 =
      Some (fh_exec_addr h, mem_store (fh_load_addr h) body m, s3)" "\<forall>nm \<in> names. cont s3 nm = cont s2 nm"
    using boot_valid [OF u(2), of "replicate 32 0" "replicate 32 0" 4 m] u(6) d(6) room(2) by (auto simp: act hd body simp del: boot_loop.simps)
  have "para_at cont s3 = para_at cont s2"
    using b(2) fw_names by (simp add: para_at_def)
  moreover have "active_part (para_at cont s) \<noteq> new"
    by (simp add: new_def)
  ultimately show ?thesis
    using d(1,7) u(1,5) b act(1)
    by (auto simp: boot_firmware_def BOOT_MAX_RETRY_def numeral_eq_Suc simp del: boot_loop.simps)
qed

lemma backup_only_once:
  assumes "ok s" and "ota_backup_firmware P s = Some (0, s1)"
  shows "\<exists>s2. ota_backup_firmware P s1 = Some (ota_code OTA_ERR_BACKUP, s2) \<and> (\<forall>m \<in> names. cont s2 m = cont s1 m)"
proof -
  obtain r s' where e: "ota_backup_firmware P s = Some (r, s')" "ok s'"
    "length (cont s' PARA_PART) = length (cont s PARA_PART)"
    "r = 0 \<Longrightarrow> 32 \<le> length (cont s PARA_PART) \<and> pa_magic (para_at cont s) = OTA_PARA_MAGIC \<and>
       pa_can_be_back (para_at cont s) = BACKUP_FLAG \<and>
       fh_magic (header_at cont s (spare_part (para_at cont s))) = OTA_FIRMWARE_MAGIC \<and>
       cont s' PARA_PART = patch 0 (para_bytes (rolled_back (para_at cont s))) (cont s PARA_PART)"
    by (rule backup_effect [OF assms(1)]) blast
  then have s1: "s' = s1" "r = 0"
    using assms(2) by simp_all
  have p: "para_at cont s1 = rolled_back (para_at cont s)" "32 \<le> length (cont s1 PARA_PART)"
    using e(3,4) s1 by (simp_all add: para_at_def)
  have ok1: "ok s1"
    using e(2) s1(1) by simp
  obtain s2 where 2: "read_struct P PARA_PART (replicate 32 0) s1 = Some (0, bslice 0 32 (cont s1 PARA_PART), s2)"
    "\<And>m. m \<in> names \<Longrightarrow> cont s2 m = cont s1 m"
    by (rule read_struct_reliable [OF ok1 fw_names(4), of "replicate 32 0"]) (use p in auto)
  have q: "para_of_bytes (bslice 0 32 (cont s1 PARA_PART)) = rolled_back (para_at cont s)"
    using p(1) by (simp add: para_at_def)
  have "pa_magic (rolled_back (para_at cont s)) = OTA_PARA_MAGIC" "pa_can_be_back (rolled_back (para_at cont s)) \<noteq> BACKUP_FLAG"
    using e(4) s1(2) by (simp_all add: rolled_back_def BACKUP_FLAG_def)
  then show ?thesis
    using 2 by (simp add: ota_backup_firmware_def q Let_def)
qed

lemma boot_rolls_back:
  assumes "ok s"
  defines "p \<equiv> para_at cont s"
  assumes "32 \<le> length (cont s PARA_PART)" and "pa_magic p = OTA_PARA_MAGIC" and bad: "slot_damaged cont s p"
    and "pa_can_be_back p = BACKUP_FLAG" and valid: "slot_valid cont s (rolled_back p)"
  shows "\<exists>m' s'. boot_firmware P m s = Some (fh_exec_addr (header_at cont s (spare_part p)), m', s') \<and>
    para_at cont s' = rolled_back p \<and> (\<forall>nm \<in> names - {PARA_PART}. cont s' nm = cont s nm) \<and>
    image_loaded cont s (rolled_back p) m'"
proof -
  have act: "active_part (rolled_back p) = spare_part p"
    by (simp add: rolled_back_def active_part_def spare_part_def APP_SLOT_1_def APP_SLOT_2_def)
  have v: "32 \<le> length (cont s (spare_part p))" "fh_magic (header_at cont s (spare_part p)) = OTA_FIRMWARE_MAGIC"
    "32 + unat (fh_size (header_at cont s (spare_part p))) \<le> length (cont s (spare_part p))"
    using valid by (simp_all add: slot_valid_def Let_def act)
  obtain pb1 hb1 m1 t where t: "boot_loop P (Suc 4) (replicate 32 0) (replicate 32 0) m s = boot_loop P 4 pb1 hb1 m1 t" "ok t"
    "length pb1 = 32" "length hb1 = 32" "para_at cont t = rolled_back p"
    "\<And>nm. nm \<in> names \<Longrightarrow> nm \<noteq> PARA_PART \<Longrightarrow> cont t nm = cont s nm" "length (cont t PARA_PART) = length (cont s PARA_PART)"
    by (rule boot_damaged_turn [OF assms(1), of "replicate 32 0" "replicate 32 0" 4 m])
      (use assms v in \<open>auto simp: p_def\<close>)
  have at: "header_at cont t (spare_part p) = header_at cont s (spare_part p)"
    "payload_at cont t (spare_part p) = payload_at cont s (spare_part p)" "cont t (spare_part p) = cont s (spare_part p)"
    using t(6) by (simp_all add: header_at_def payload_at_def)
  have vt: "slot_valid cont t (para_at cont t)"
    using valid at by (simp add: t(5) slot_valid_def Let_def act)
  obtain s' where s': "boot_loop P (Suc 3) pb1 hb1 m1 t = Some (fh_exec_addr (header_at cont t (active_part (para_at cont t))),
      mem_store (fh_load_addr (header_at cont t (active_part (para_at cont t)))) (payload_at cont t (active_part (para_at cont t))) m1, s')"
    "\<forall>nm \<in> names. cont s' nm = cont t nm"
    using boot_valid [OF t(2-4) _ vt, of 3 m1] t(7) assms(3) by (auto simp del: boot_loop.simps)
  have "length (payload_at cont s (spare_part p)) = unat (fh_size (header_at cont s (spare_part p)))"
    using v(3) by (simp add: payload_at_def)
  moreover have "length (payload_at cont s (spare_part p)) \<le> 2 ^ 32"
    using cont_bound [OF assms(1) slot_names(2), of p] v(3) calculation by simp
  ultimately have "image_loaded cont s (rolled_back p)
      (mem_store (fh_load_addr (header_at cont s (spare_part p))) (payload_at cont s (spare_part p)) m1)"
    using mem_load_store [of "payload_at cont s (spare_part p)"] by (simp add: image_loaded_def Let_def act)
  moreover have "para_at cont s' = rolled_back p"
    using s'(2) t(5) fw_names by (simp add: para_at_def)
  moreover have "boot_firmware P m s = boot_loop P (Suc 3) pb1 hb1 m1 t"
    using t(1) by (simp add: boot_firmware_def BOOT_MAX_RETRY_def numeral_eq_Suc del: boot_loop.simps)
  ultimately show ?thesis
    using s' t(5,6) by (auto simp: act at simp del: boot_loop.simps)
qed

end

section \<open>Properties\<close>

text \<open>C6: Whatever errors the storage reports, an update never touches the download partition or
  the slot whose firmware is running; it always returns, and with 0, \<open>OTA_ERR_PARTITION\<close> or
  \<open>OTA_ERR_UPDATE\<close> only.\<close>

theorem ota_update_spares_running_slot:
  assumes "ota_store P ok names cont" and "ok s" and "length cache = 1024"
  shows "\<exists>r cache' s'. ota_update_firmware P cache s = Some (r, cache', s') \<and> ok s' \<and>
    cont s' DOWN_PART = cont s DOWN_PART \<and>
    cont s' (active_part (para_at cont s)) = cont s (active_part (para_at cont s)) \<and>
    (r = 0 \<or> r = ota_code OTA_ERR_PARTITION \<or> r = ota_code OTA_ERR_UPDATE)"
  using ota_store.update_frame [OF assms] by blast

text \<open>C5: On a medium without I/O errors, an update that is ready and whose CRC matches copies header
  and payload exactly to the slot that is not running, switches to it, records its CRC, allows one
  rollback and returns 0.\<close>

theorem ota_update_copies_and_switches:
  assumes "reliable_ota P ok names cont" and "ok s" and "length cache = 1024"
  defines "p \<equiv> para_at cont s" and "h \<equiv> header_at cont s DOWN_PART"
  defines "n \<equiv> unat (fh_size h + 32)"
  assumes "32 \<le> length (cont s PARA_PART)" "pa_magic p = OTA_PARA_MAGIC" "pa_upgrade_ready p \<noteq> 0"
    and "pa_download_crc p = fh_crc32 h"
    and "32 \<le> length (cont s DOWN_PART)" "n \<le> length (cont s DOWN_PART)" "n \<le> length (cont s (spare_part p))"
  shows "\<exists>cache' s'. ota_update_firmware P cache s = Some (0, cache', s') \<and> para_at cont s' = switched p \<and>
    cont s' (spare_part p) = patch 0 (bslice 0 n (cont s DOWN_PART)) (replicate (length (cont s (spare_part p))) erased) \<and>
    cont s' (active_part p) = cont s (active_part p)"
proof -
  have "active_part p \<in> names - {PARA_PART, spare_part p}"
    using ota_store.slot_names [OF reliable_ota.axioms(1) [OF assms(1)]] by simp
  with reliable_ota.update_switches [OF assms(1-3), folded p_def h_def, folded n_def, OF assms(7-13)]
  show ?thesis by blast
qed

text \<open>C20: On a medium without I/O errors, an update whose parameters lack the magic number, or whose
  recorded CRC is not that of the downloaded image, still returns 0 (\<open>OTA_OK\<close>), and it writes the
  unchecked parameters back with a valid magic number.\<close>

theorem ota_update_reports_ok_on_failed_check:
  assumes "reliable_ota P ok names cont" and "ok s" and "32 \<le> length (cont s PARA_PART)"
    and "pa_magic (para_at cont s) \<noteq> OTA_PARA_MAGIC \<or> pa_upgrade_ready (para_at cont s) \<noteq> 0 \<and>
      32 \<le> length (cont s DOWN_PART) \<and> pa_download_crc (para_at cont s) \<noteq> fh_crc32 (header_at cont s DOWN_PART)"
  shows "\<exists>s'. ota_update_firmware P cache s = Some (0, cache, s') \<and>
    para_at cont s' = (para_at cont s)\<lparr>pa_magic := OTA_PARA_MAGIC, pa_upgrade_ready := 0\<rparr>"
  using reliable_ota.update_check_fails [OF assms(1,2), of cache] assms(3,4) by blast

text \<open>C7: A download touches neither slot, and it returns 0 only when the download partition holds a
  firmware header whose CRC is the CRC-32 of the payload behind it; the parameters then say so.\<close>

theorem ota_download_ok_means_checked:
  assumes "ota_store P ok names cont" and "ok (y_env Y)" and "length cache = 1024"
    and "length (f_buf (cache_frame Y)) = PACKET_SIZE_1K"
    and "ota_download_firmware P cache Y = Some (r, cache', Y')"
  defines "s \<equiv> y_env Y" and "s' \<equiv> y_env Y'"
  shows "cont s' APP1_PART = cont s APP1_PART \<and> cont s' APP2_PART = cont s APP2_PART \<and>
    (r = 0 \<longrightarrow> fh_magic (header_at cont s' DOWN_PART) = OTA_FIRMWARE_MAGIC \<and>
       crc32 (payload_at cont s' DOWN_PART) = fh_crc32 (header_at cont s' DOWN_PART) \<and>
       para_at cont s' = (para_at cont s)\<lparr>pa_magic := OTA_PARA_MAGIC, pa_upgrade_ready := 1,
         pa_download_crc := crc32 (payload_at cont s' DOWN_PART)\<rparr>)"
proof -
  have "APP1_PART \<in> names - {DOWN_PART, PARA_PART}" "APP2_PART \<in> names - {DOWN_PART, PARA_PART}"
    using ota_store.fw_names [OF assms(1)] by simp_all
  with ota_store.download_effect [OF assms(1-5)] show ?thesis
    by (simp add: s_def s'_def)
qed

text \<open>C4: Whatever errors the storage reports, boot returns after at most five turns; it does not
  touch the slots, and if it returns an entry address, the parameters name a slot whose header and
  payload carry the recorded CRC, the payload is in memory at its load address and the address is
  the one in the header.\<close>

theorem boot_runs_only_checked_image:
  assumes "ota_store P ok names cont" and "ok s"
    and "\<forall>nm \<in> {APP1_PART, APP2_PART}. 32 + unat (fh_size (header_at cont s nm)) < 2 ^ 32"
  shows "\<exists>a m' s'. boot_firmware P m s = Some (a, m', s') \<and>
    cont s' APP1_PART = cont s APP1_PART \<and> cont s' APP2_PART = cont s APP2_PART \<and>
    (a \<noteq> 0 \<longrightarrow> slot_valid cont s' (para_at cont s') \<and> image_loaded cont s' (para_at cont s') m' \<and>
       a = fh_exec_addr (header_at cont s' (active_part (para_at cont s'))))"
proof -
  have "APP1_PART \<in> names - {PARA_PART}" "APP2_PART \<in> names - {PARA_PART}"
    using ota_store.fw_names [OF assms(1)] by simp_all
  with ota_store.boot_loop_sound [OF assms(1,2), of "replicate 32 0" "replicate 32 0" BOOT_MAX_RETRY m] assms(3)
  show ?thesis
    unfolding boot_firmware_def by fastforce
qed

text \<open>C8: On a medium without I/O errors, when the running slot is damaged, a rollback is allowed and
  the other slot is valid, boot switches back and runs the other slot.\<close>

theorem boot_rolls_back_to_valid_slot:
  assumes "reliable_ota P ok names cont" and "ok s"
  defines "p \<equiv> para_at cont s"
  assumes "32 \<le> length (cont s PARA_PART)" and "pa_magic p = OTA_PARA_MAGIC" and "slot_damaged cont s p"
    and "pa_can_be_back p = BACKUP_FLAG" and "slot_valid cont s (rolled_back p)"
  shows "\<exists>m' s'. boot_firmware P m s = Some (fh_exec_addr (header_at cont s (spare_part p)), m', s') \<and>
    para_at cont s' = rolled_back p \<and> image_loaded cont s (rolled_back p) m'"
  using reliable_ota.boot_rolls_back [OF assms(1,2), folded p_def, OF assms(4-8), of m] by blast

text \<open>A rollback happens at most once: after a successful one the next attempt is refused with
  \<open>OTA_ERR_BACKUP\<close> and changes nothing.\<close>

theorem ota_backup_only_once:
  assumes "reliable_ota P ok names cont" and "ok s" and "ota_backup_firmware P s = Some (0, s1)"
  shows "\<exists>s2. ota_backup_firmware P s1 = Some (ota_code OTA_ERR_BACKUP, s2) \<and> (\<forall>m \<in> names. cont s2 m = cont s1 m)"
  by (rule reliable_ota.backup_only_once [OF assms])

text \<open>C3: From the serial line to the running image: a sender that transmits a valid image (header,
  payload, padding) over YMODEM gets it downloaded, the update copies it to the slot that was not
  running, and boot loads exactly its payload and returns its entry address; the slot that was
  running before is unchanged.\<close>

theorem download_update_boot_end_to_end:
  assumes "reliable_ota P ok names cont" and "ok (y_env Y)" and "length cache = 1024"
    and "length (f_buf (cache_frame Y)) = PACKET_SIZE_1K" and "y_port Y"
  defines "s \<equiv> y_env Y"
  defines "new \<equiv> spare_part (para_at cont s)"
  assumes "0 \<notin> set name" and "packet_size (length (header_block name n rest))" and "n < 2 ^ 31"
    and "\<forall>(k, b) \<in> set blocks. packet_size (length b)" and "fits (int n) (map (length \<circ> snd) blocks)" and "packet_size z"
    and "y_line Y = \<lparr>rx = map Some (packet num (header_block name n rest) @ data_packets blocks @ closing num' z) @ r, tx = t\<rparr>"
    and "concat (map snd blocks) = header_bytes h @ body @ pad" "unat (fh_size h) = length body"
      "fh_magic h = OTA_FIRMWARE_MAGIC" "fh_crc32 h = crc32 body" "fh_load_addr h \<noteq> 0"
    and "length (concat (map snd blocks)) \<le> length (cont s DOWN_PART)" "32 \<le> length (cont s PARA_PART)"
      "32 + length body \<le> length (cont s new)"
  shows "\<exists>c1 Y1 c2 s2 s3.
    ota_download_firmware P cache Y = Some (0, c1, Y1) \<and>
    ota_update_firmware P c1 (y_env Y1) = Some (0, c2, s2) \<and>
    boot_firmware P m s2 = Some (fh_exec_addr h, mem_store (fh_load_addr h) body m, s3) \<and>
    active_part (para_at cont s3) = new \<and> cont s3 (active_part (para_at cont s)) = cont s (active_part (para_at cont s))"
  using reliable_ota.download_update_boot [OF assms(1-5), folded s_def, folded new_def, OF assms(8-22)] .

section \<open>Concrete runs\<close>

text \<open>A store with 1 KB partitions: parameters, running firmware in APP1, an image in Download.\<close>

definition demo_body :: "u8 list" where "demo_body = [1, 2, 3, 4]"

definition demo_image :: "u32 \<Rightarrow> firmware_header" where
  "demo_image v = \<lparr>fh_magic = OTA_FIRMWARE_MAGIC, fh_size = 4, fh_crc32 = crc32 demo_body, fh_version = v,
     fh_load_addr = 0x40000000, fh_exec_addr = 0x40000100, fh_reseved0 = 0, fh_reseved1 = 0\<rparr>"

definition demo_para :: "u32 \<Rightarrow> u32 \<Rightarrow> ota_paramers" where
  "demo_para magic ready = \<lparr>pa_magic = magic, pa_active_slot = APP_SLOT_1, pa_can_be_back = BACKUP_FLAG,
     pa_upgrade_ready = ready, pa_app1_crc = crc32 demo_body, pa_app2_crc = crc32 demo_body,
     pa_download_crc = crc32 demo_body, pa_reserved = 0\<rparr>"

definition demo_store :: "ota_paramers \<Rightarrow> u8 list \<Rightarrow> u8 list \<Rightarrow> u8 list \<Rightarrow> ram" where
  "demo_store p app1 app2 down = (\<lambda>nm.
     if nm = PARA_PART then para_bytes p @ replicate 992 erased
     else if nm = APP1_PART then app1 @ replicate (1024 - length app1) erased
     else if nm = APP2_PART then app2 @ replicate (1024 - length app2) erased
     else down @ replicate (1024 - length down) erased)"

definition demo_slot :: "u32 \<Rightarrow> u8 list" where
  "demo_slot v = header_bytes (demo_image v) @ demo_body"

lemma demo_store_sel [simp]:
  "demo_store p a b d PARA_PART = para_bytes p @ replicate 992 erased"
  "demo_store p a b d APP1_PART = a @ replicate (1024 - length a) erased"
  "demo_store p a b d APP2_PART = b @ replicate (1024 - length b) erased"
  "demo_store p a b d DOWN_PART = d @ replicate (1024 - length d) erased"
  by (simp_all add: demo_store_def)

lemma demo_store_ok: "length a \<le> 1024 \<Longrightarrow> length b \<le> 1024 \<Longrightarrow> length d \<le> 1024 \<Longrightarrow> ram_ok (demo_store p a b d)"
  by (simp add: ram_ok_def demo_store_def)

lemma demo_at [simp]:
  "para_at (\<lambda>s. s) (demo_store p a b d) = p"
  "header_at (\<lambda>s. s) (demo_store p (demo_slot v) b d) APP1_PART = demo_image v"
  "header_at (\<lambda>s. s) (demo_store p a (demo_slot v) d) APP2_PART = demo_image v"
  "header_at (\<lambda>s. s) (demo_store p a b (demo_slot v)) DOWN_PART = demo_image v"
  "payload_at (\<lambda>s. s) (demo_store p a (demo_slot v) d) APP2_PART = demo_body"
  by (simp_all add: para_at_def header_at_def payload_at_def demo_slot_def bslice_def demo_image_def demo_body_def)

lemma length_demo_slot [simp]: "length (demo_slot v) = 36"
  by (simp add: demo_slot_def demo_body_def)

lemma demo_para_sel [simp]:
  "pa_magic (demo_para g r) = g" "pa_upgrade_ready (demo_para g r) = r" "pa_can_be_back (demo_para g r) = BACKUP_FLAG"
  "pa_download_crc (demo_para g r) = crc32 demo_body" "pa_app1_crc (demo_para g r) = crc32 demo_body"
  "pa_app2_crc (demo_para g r) = crc32 demo_body" "pa_active_slot (demo_para g r) = APP_SLOT_1"
  by (simp_all add: demo_para_def)

lemma demo_image_sel [simp]:
  "fh_magic (demo_image v) = OTA_FIRMWARE_MAGIC" "fh_size (demo_image v) = 4" "fh_crc32 (demo_image v) = crc32 demo_body"
  "fh_load_addr (demo_image v) = 0x40000000" "fh_exec_addr (demo_image v) = 0x40000100"
  by (simp_all add: demo_image_def)

lemma spare_demo [simp]: "spare_part (demo_para g r) = APP2_PART" "active_part (demo_para g r) = APP1_PART"
  by (simp_all add: spare_part_def active_part_def demo_para_def)

theorem ota_update_spares_running_slot_witness:
  "\<exists>r cache' s'. ota_update_firmware ram_if (replicate 1024 0) (demo_store (demo_para OTA_PARA_MAGIC 1) [1] [2] (demo_slot 7)) =
     Some (r, cache', s') \<and> s' APP1_PART = [1] @ replicate 1023 erased"
  using ota_update_spares_running_slot [OF ram.ota_store_axioms, of "demo_store (demo_para OTA_PARA_MAGIC 1) [1] [2] (demo_slot 7)" "replicate 1024 0"]
    demo_store_ok [of "[1]" "[2]" "demo_slot 7"] by auto

theorem ota_update_copies_and_switches_witness:
  "\<exists>cache' s'. ota_update_firmware ram_if (replicate 1024 0) (demo_store (demo_para OTA_PARA_MAGIC 1) [1] [2] (demo_slot 7)) =
     Some (0, cache', s') \<and> para_at (\<lambda>s. s) s' = switched (demo_para OTA_PARA_MAGIC 1) \<and>
     s' APP2_PART = demo_slot 7 @ replicate 988 erased"
proof -
  let ?s = "demo_store (demo_para OTA_PARA_MAGIC 1) [1] [2] (demo_slot 7)"
  have ok: "ram_ok ?s"
    by (rule demo_store_ok) simp_all
  have "patch 0 (bslice 0 36 (?s DOWN_PART)) (replicate 1024 erased) = demo_slot 7 @ replicate 988 erased"
    by (simp add: patch_def bslice_def)
  with ota_update_copies_and_switches [OF ram.reliable_ota_axioms, OF ok, of "replicate 1024 0"] show ?thesis
    by auto
qed

theorem ota_update_reports_ok_on_failed_check_witness:
  "\<exists>s'. ota_update_firmware ram_if [] (demo_store (demo_para 0 1) [1] [2] (demo_slot 7)) = Some (0, [], s') \<and>
     para_at (\<lambda>s. s) s' = demo_para OTA_PARA_MAGIC 0"
  using ota_update_reports_ok_on_failed_check [OF ram.reliable_ota_axioms,
      of "demo_store (demo_para 0 1) [1] [2] (demo_slot 7)" "[]"] demo_store_ok [of "[1]" "[2]" "demo_slot 7"]
  by (simp add: OTA_PARA_MAGIC_def demo_para_def)

theorem boot_runs_only_checked_image_witness:
  "\<exists>a m' s'. boot_firmware ram_if (\<lambda>_. 0) (demo_store (demo_para OTA_PARA_MAGIC 0) (demo_slot 3) (demo_slot 7) []) = Some (a, m', s') \<and>
     s' APP1_PART = demo_slot 3 @ replicate 988 erased \<and>
     (a \<noteq> 0 \<longrightarrow> slot_valid (\<lambda>s. s) s' (para_at (\<lambda>s. s) s'))"
  using boot_runs_only_checked_image [OF ram.ota_store_axioms,
      of "demo_store (demo_para OTA_PARA_MAGIC 0) (demo_slot 3) (demo_slot 7) []" "\<lambda>_. 0"]
    demo_store_ok [of "demo_slot 3" "demo_slot 7" "[]"] by auto

lemma demo_other [simp]:
  "active_part (rolled_back (demo_para g r)) = APP2_PART" "active_crc (demo_para g r) = crc32 demo_body"
  "active_crc (rolled_back (demo_para g r)) = crc32 demo_body" "pa_magic (rolled_back (demo_para g r)) = g"
  by (simp_all add: rolled_back_def active_part_def active_crc_def demo_para_def APP_SLOT_1_def APP_SLOT_2_def)

text \<open>A slot whose header lost its magic number.\<close>

definition demo_bad :: "u8 list" where
  "demo_bad = header_bytes ((demo_image 3)\<lparr>fh_magic := 0\<rparr>)"

lemma length_demo_bad [simp]: "length demo_bad = 32"
  by (simp add: demo_bad_def)

lemma demo_damaged [simp]: "header_at (\<lambda>s. s) (demo_store p demo_bad b d) APP1_PART = (demo_image 3)\<lparr>fh_magic := 0\<rparr>"
  by (simp add: header_at_def bslice_def demo_bad_def)

lemma demo_boot_states:
  "slot_damaged (\<lambda>s. s) (demo_store (demo_para g r) demo_bad (demo_slot 7) d) (demo_para g r)"
  "slot_valid (\<lambda>s. s) (demo_store (demo_para OTA_PARA_MAGIC r) demo_bad (demo_slot 7) d) (rolled_back (demo_para OTA_PARA_MAGIC r))"
  by (simp_all add: slot_damaged_def slot_valid_def OTA_FIRMWARE_MAGIC_def)

theorem boot_rolls_back_to_valid_slot_witness:
  "\<exists>m' s'. boot_firmware ram_if (\<lambda>_. 0) (demo_store (demo_para OTA_PARA_MAGIC 0) demo_bad (demo_slot 7) []) = Some (0x40000100, m', s') \<and>
     para_at (\<lambda>s. s) s' = rolled_back (demo_para OTA_PARA_MAGIC 0)"
  using boot_rolls_back_to_valid_slot [OF ram.reliable_ota_axioms,
      of "demo_store (demo_para OTA_PARA_MAGIC 0) demo_bad (demo_slot 7) []" "\<lambda>_. 0"]
    demo_store_ok [of demo_bad "demo_slot 7" "[]"] demo_boot_states by auto

theorem ota_backup_only_once_witness:
  "\<exists>s1 s2. ota_backup_firmware ram_if (demo_store (demo_para OTA_PARA_MAGIC 0) demo_bad (demo_slot 7) []) = Some (0, s1) \<and>
     ota_backup_firmware ram_if s1 = Some (ota_code OTA_ERR_BACKUP, s2) \<and> s2 PARA_PART = s1 PARA_PART"
proof -
  let ?s = "demo_store (demo_para OTA_PARA_MAGIC 0) demo_bad (demo_slot 7) []"
  have ok: "ram_ok ?s"
    by (rule demo_store_ok) simp_all
  obtain s1 where "ota_backup_firmware ram_if ?s = Some (0, s1)"
    using ram.backup_reliable [OF ok] by auto
  with ota_backup_only_once [OF ram.reliable_ota_axioms ok this] show ?thesis
    using ram.fw_names by blast
qed

subsection \<open>A download that ends in a boot\<close>

definition demo_blocks :: "(u8 \<times> u8 list) list" where
  "demo_blocks = [(1, demo_slot 7 @ replicate 92 0), (2, replicate 128 0)]"

definition demo_sender :: "'s \<Rightarrow> 's ymodem_state" where
  "demo_sender s = \<lparr>y_port = True, cache_frame = demo_frame,
     y_head = \<lparr>yh_file_name = [], yh_name_len = 0, yh_file_size = 0\<rparr>,
     y_data = \<lparr>yd_data = [], yd_offset = 0, yd_size = 0\<rparr>,
     y_line = \<lparr>rx = map Some (packet 0 demo_header @ data_packets demo_blocks @ closing 0 128), tx = []\<rparr>, y_env = s\<rparr>"

lemma demo_sender_sel [simp]:
  "y_port (demo_sender s)" "length (f_buf (cache_frame (demo_sender s))) = PACKET_SIZE_1K" "y_env (demo_sender s) = s"
  "y_line (demo_sender s) = \<lparr>rx = map Some (packet 0 demo_header @ data_packets demo_blocks @ closing 0 128) @ [], tx = []\<rparr>"
  by (simp_all add: demo_sender_def demo_frame_def PACKET_SIZE_1K_def)

lemma length_demo_body [simp]: "length demo_body = 4"
  by (simp add: demo_body_def)

lemma demo_blocks_facts [simp]:
  "\<forall>(k, b) \<in> set demo_blocks. packet_size (length b)" "fits 130 (map (length \<circ> snd) demo_blocks)"
  "concat (map snd demo_blocks) = header_bytes (demo_image 7) @ demo_body @ (replicate 92 0 @ replicate 128 0)"
  by (simp_all add: demo_blocks_def packet_size_def packet_sizes demo_slot_def)

lemma demo_header_facts [simp]:
  "0 \<notin> set (cstr ''a'')" "packet_size (length demo_header)" "packet_size 128"
  using demo_header_size by (simp_all add: demo_header_def cstr_def packet_size_def packet_sizes)

lemmas demo_header_unfold = demo_header_def [symmetric]

theorem ota_download_ok_means_checked_witness:
  "\<exists>c Y'. ota_download_firmware ram_if (replicate 1024 0) (demo_sender (demo_store (demo_para OTA_PARA_MAGIC 0) [1] [2] [])) = Some (0, c, Y') \<and>
     fh_magic (header_at (\<lambda>s. s) (y_env Y') DOWN_PART) = OTA_FIRMWARE_MAGIC \<and>
     crc32 (payload_at (\<lambda>s. s) (y_env Y') DOWN_PART) = fh_crc32 (header_at (\<lambda>s. s) (y_env Y') DOWN_PART)"
proof -
  let ?Y = "demo_sender (demo_store (demo_para OTA_PARA_MAGIC 0) [1] [2] [])"
  have ok: "ram_ok (y_env ?Y)"
    by (simp add: demo_store_ok)
  obtain c Y' where "ota_download_firmware ram_if (replicate 1024 0) ?Y = Some (0, c, Y')"
    using ram.download_succeeds [OF ok, of "replicate 1024 0" "cstr ''a''" 130 "replicate 122 0" demo_blocks 128 0 0 "[]" "[]"
      "demo_image 7" demo_body, unfolded demo_header_unfold]
    by auto
  from ota_download_ok_means_checked [OF ram.ota_store_axioms, OF ok _ _ this] this show ?thesis
    by auto
qed

theorem download_update_boot_end_to_end_witness:
  "\<exists>c1 Y1 c2 s2 s3.
    ota_download_firmware ram_if (replicate 1024 0) (demo_sender (demo_store (demo_para OTA_PARA_MAGIC 0) [1] [2] [])) = Some (0, c1, Y1) \<and>
    ota_update_firmware ram_if c1 (y_env Y1) = Some (0, c2, s2) \<and>
    boot_firmware ram_if (\<lambda>_. 0) s2 = Some (0x40000100, mem_store 0x40000000 demo_body (\<lambda>_. 0), s3) \<and>
    active_part (para_at (\<lambda>s. s) s3) = APP2_PART \<and> s3 APP1_PART = [1] @ replicate 1023 erased"
proof -
  let ?Y = "demo_sender (demo_store (demo_para OTA_PARA_MAGIC 0) [1] [2] [])"
  have ok: "ram_ok (y_env ?Y)"
    by (simp add: demo_store_ok)
  show ?thesis
    using download_update_boot_end_to_end [OF ram.reliable_ota_axioms, OF ok, of "replicate 1024 0" "cstr ''a''" 130 "replicate 122 0" demo_blocks 128 0 0 "[]" "[]"
      "demo_image 7" demo_body "replicate 92 0 @ replicate 128 0" "\<lambda>_. 0", unfolded demo_header_unfold]
    by auto
qed

end
