(* ===== verification/Nand_Driver.thy ===== *)
theory Nand_Driver
  imports HG_Prelude
begin

text \<open>
  The SPI NAND driver of \<^verbatim>\<open>boards/drv_nand.c\<close>.  The four functions of the SPI controller driver it
  calls are a parameter (\<open>spi_bus\<close>) over a state \<open>'c\<close> that holds controller and chip; the delays of
  \<open>us_delay\<close> have no effect on that state.  A transfer returns its code and the bytes it has stored
  in the receive buffer.  Local variables that the code does not initialise take their values from
  an arbitrary function \<open>junk\<close>.
\<close>

section \<open>Messages and the bus\<close>

record spi_trans_msg =
  m_tx_buf :: "u8 list"
  m_tx_len :: u32
  m_rx_null :: bool
  m_rx_len :: u32
  m_dummylen :: u32

record 'c spi_bus =
  bus_init :: "'c \<Rightarrow> (int \<times> 'c) option"
  bus_deinit :: "'c \<Rightarrow> (int \<times> 'c) option"
  bus_transfer :: "spi_trans_msg \<Rightarrow> 'c \<Rightarrow> (int \<times> u8 list \<times> 'c) option"
  bus_transfer2 :: "spi_trans_msg \<Rightarrow> spi_trans_msg \<Rightarrow> 'c \<Rightarrow> (int \<times> 'c) option"

text \<open>A message that only sends, and one that sends and receives.\<close>

definition tx_msg :: "u8 list \<Rightarrow> u32 \<Rightarrow> spi_trans_msg" where
  "tx_msg bs n = \<lparr>m_tx_buf = bs, m_tx_len = n, m_rx_null = True, m_rx_len = 0, m_dummylen = 0\<rparr>"

definition rx_msg :: "u8 list \<Rightarrow> u32 \<Rightarrow> u32 \<Rightarrow> spi_trans_msg" where
  "rx_msg bs n k = \<lparr>m_tx_buf = bs, m_tx_len = n, m_rx_null = False, m_rx_len = k, m_dummylen = 0\<rparr>"

section \<open>Operation codes and registers\<close>

datatype nand_opcode = OPCODE_SOFT_RESET | OPCODE_READ_ID | OPCODE_GET_FEATURE | OPCODE_SET_FEATURE
  | OPCODE_READ_PAGE | OPCODE_WRITE_ENABLE | OPCODE_WRITE_DISABLE | OPCODE_BLOCK_ERASE
  | OPCODE_PROGRAM_LOAD | OPCODE_RANDOM_PROGRAM_LOAD | OPCODE_QUAD_PROGRAM_LOAD
  | OPCODE_RANDOM_QUAD_PROGRAM_LOAD | OPCODE_PROGRAM_EXEC | OPCODE_PAGE_READ | OPCODE_READ_CACHE
  | OPCODE_READ_CACHE_X2 | OPCODE_READ_CACHE_X4

primrec opcode :: "nand_opcode \<Rightarrow> u8" where
  "opcode OPCODE_SOFT_RESET = 0xff"
| "opcode OPCODE_READ_ID = 0x9f"
| "opcode OPCODE_GET_FEATURE = 0x0f"
| "opcode OPCODE_SET_FEATURE = 0x1f"
| "opcode OPCODE_READ_PAGE = 0x13"
| "opcode OPCODE_WRITE_ENABLE = 0x06"
| "opcode OPCODE_WRITE_DISABLE = 0x04"
| "opcode OPCODE_BLOCK_ERASE = 0xd8"
| "opcode OPCODE_PROGRAM_LOAD = 0x02"
| "opcode OPCODE_RANDOM_PROGRAM_LOAD = 0x84"
| "opcode OPCODE_QUAD_PROGRAM_LOAD = 0x32"
| "opcode OPCODE_RANDOM_QUAD_PROGRAM_LOAD = 0x34"
| "opcode OPCODE_PROGRAM_EXEC = 0x10"
| "opcode OPCODE_PAGE_READ = 0x13"
| "opcode OPCODE_READ_CACHE = 0x03"
| "opcode OPCODE_READ_CACHE_X2 = 0x3b"
| "opcode OPCODE_READ_CACHE_X4 = 0x6b"

datatype nand_register = SR_ADDR_PROTECT | SR_ADDR_CONFIG | SR_ADDR_STATUS | SR_ADDR_S0_ECC_STATUS
  | SR_ADDR_S1_ECC_STATUS | SR_ADDR_S2_ECC_STATUS | SR_ADDR_S3_ECC_STATUS

primrec sr_addr :: "nand_register \<Rightarrow> u8" where
  "sr_addr SR_ADDR_PROTECT = 0xa0"
| "sr_addr SR_ADDR_CONFIG = 0xb0"
| "sr_addr SR_ADDR_STATUS = 0xc0"
| "sr_addr SR_ADDR_S0_ECC_STATUS = 0x80"
| "sr_addr SR_ADDR_S1_ECC_STATUS = 0x84"
| "sr_addr SR_ADDR_S2_ECC_STATUS = 0x88"
| "sr_addr SR_ADDR_S3_ECC_STATUS = 0x8c"

section \<open>The handle\<close>

record spi_nand_info =
  ni_mfr_id :: u8
  ni_dev_id :: u16
  ni_page_size :: u32
  ni_spare_size :: u32
  ni_pages_per_block :: u32
  ni_blocks_total :: u32

record 'c spi_nand_handle =
  nand_info :: spi_nand_info
  nand_spi :: 'c

section \<open>Commands\<close>

text \<open>The three address bytes of a page, and the two of an offset in it.\<close>

definition addr24 :: "u32 \<Rightarrow> u8 list" where
  "addr24 page = [ucast (drop_bit 16 page), ucast (drop_bit 8 page), ucast page]"

definition addr16 :: "u32 \<Rightarrow> u8 list" where
  "addr16 offset = [ucast (drop_bit 8 offset), ucast offset]"

text \<open>
  The manufacturer and the device.  The receive buffer is not initialised: bytes that a transfer
  does not deliver are junk.
\<close>

definition nand_get_id :: "'c spi_bus \<Rightarrow> u8 list \<Rightarrow> 'c spi_nand_handle \<Rightarrow> (int \<times> 'c spi_nand_handle) option" where
  "nand_get_id B junk N = do {
     (ret, bs, c) \<leftarrow> bus_transfer B (rx_msg [opcode OPCODE_READ_ID] 1 4) (nand_spi N);
     let rx = overlay bs junk;
     let N = N\<lparr>nand_spi := c\<rparr>;
     (if ret \<noteq> 0 then Some (ret, N)
      else if rx ! 0 = 0xff
      then Some (0, N\<lparr>nand_info := (nand_info N)\<lparr>ni_mfr_id := rx ! 1,
             ni_dev_id := push_bit 8 (ucast (rx ! 2)) OR ucast (rx ! 3)\<rparr>\<rparr>)
      else Some (-1, N))
   }"

definition nand_reset :: "'c spi_bus \<Rightarrow> 'c \<Rightarrow> (int \<times> 'c) option" where
  "nand_reset B c = do {
     (ret, bs, c) \<leftarrow> bus_transfer B (tx_msg [opcode OPCODE_SOFT_RESET] 1) c;
     Some (if ret \<noteq> 0 then ret else 0, c)
   }"

text \<open>\<open>feature\<close> is the byte the pointer points to; the result has its value after the call.\<close>

definition nand_get_feature :: "'c spi_bus \<Rightarrow> nand_register \<Rightarrow> u8 \<Rightarrow> 'c \<Rightarrow> (int \<times> u8 \<times> 'c) option" where
  "nand_get_feature B sr feature c = do {
     (ret, bs, c) \<leftarrow> bus_transfer B (rx_msg [opcode OPCODE_GET_FEATURE, sr_addr sr] 2 1) c;
     let feature = overlay bs [feature] ! 0;
     Some (if ret \<noteq> 0 then ret else 0, feature, c)
   }"

text \<open>The code leaves the field \<open>dummylen\<close> of this message unset.\<close>

definition nand_set_feature :: "'c spi_bus \<Rightarrow> u32 \<Rightarrow> nand_register \<Rightarrow> u8 \<Rightarrow> 'c \<Rightarrow> (int \<times> 'c) option" where
  "nand_set_feature B junk sr feature c = do {
     (ret, bs, c) \<leftarrow> bus_transfer B
        ((tx_msg [opcode OPCODE_SET_FEATURE, sr_addr sr, feature] 3)\<lparr>m_dummylen := junk\<rparr>) c;
     Some (if ret \<noteq> 0 then ret else 0, c)
   }"

text \<open>The polling loop; it has no bound, so a chip that stays busy makes it run for ever (\<^const>\<open>None\<close>).\<close>

partial_function (option) nand_busy_loop :: "'c spi_bus \<Rightarrow> u8 list \<Rightarrow> 'c \<Rightarrow> (int \<times> 'c) option" where
  "nand_busy_loop B rx c = do {
     (ret, bs, c) \<leftarrow> bus_transfer B (rx_msg [opcode OPCODE_GET_FEATURE, sr_addr SR_ADDR_STATUS] 2 1) c;
     let rx = overlay bs rx;
     (if ret \<noteq> 0 then Some (ret, c)
      else if rx ! 0 AND 0x01 = 0x01 then nand_busy_loop B rx c
      else Some (0, c))
   }"

definition nand_wait_while_busy :: "'c spi_bus \<Rightarrow> 'c \<Rightarrow> (int \<times> 'c) option" where
  "nand_wait_while_busy B c = nand_busy_loop B [0x00] c"

definition nand_load_page :: "'c spi_bus \<Rightarrow> u32 \<Rightarrow> 'c \<Rightarrow> (int \<times> 'c) option" where
  "nand_load_page B page c = do {
     (ret, bs, c) \<leftarrow> bus_transfer B (tx_msg (opcode OPCODE_PAGE_READ # addr24 page) 4) c;
     (if ret \<noteq> 0 then Some (ret, c)
      else do {
        (ret, c) \<leftarrow> nand_wait_while_busy B c;
        Some (if ret \<noteq> 0 then ret else 0, c)
      })
   }"

definition nand_write_enable :: "'c spi_bus \<Rightarrow> 'c \<Rightarrow> (int \<times> 'c) option" where
  "nand_write_enable B c = do {
     (ret, bs, c) \<leftarrow> bus_transfer B (tx_msg [opcode OPCODE_WRITE_ENABLE] 1) c;
     (if ret \<noteq> 0 then Some (ret, c)
      else do {
        (ret, c) \<leftarrow> nand_wait_while_busy B c;
        Some (if ret \<noteq> 0 then ret else 0, c)
      })
   }"

definition nand_exec_program :: "'c spi_bus \<Rightarrow> u32 \<Rightarrow> 'c \<Rightarrow> (int \<times> 'c) option" where
  "nand_exec_program B page c = do {
     (ret, c) \<leftarrow> nand_write_enable B c;
     (if ret \<noteq> 0 then Some (ret, c)
      else do {
        (ret, bs, c) \<leftarrow> bus_transfer B (tx_msg (opcode OPCODE_PROGRAM_EXEC # addr24 page) 4) c;
        (if ret \<noteq> 0 then Some (ret, c)
         else do {
           (ret, c) \<leftarrow> nand_wait_while_busy B c;
           Some (if ret \<noteq> 0 then ret else 0, c)
         })
      })
   }"

section \<open>Initialisation\<close>

text \<open>
  The protection byte that \<open>nand_init\<close> writes: bits 2 to 6 are cleared, then 2, 3 and 5 set.
\<close>

definition protect_value :: "u8 \<Rightarrow> u8" where
  "protect_value val = (val AND NOT (push_bit 2 0x1f)) OR
     (push_bit 2 1 OR push_bit 6 0 OR push_bit 5 1 OR push_bit 4 0 OR push_bit 3 1)"

definition nand_set_geometry :: "'c spi_nand_handle \<Rightarrow> 'c spi_nand_handle" where
  "nand_set_geometry N = N\<lparr>nand_info := (nand_info N)\<lparr>ni_page_size := 2048, ni_spare_size := 64,
     ni_pages_per_block := 64, ni_blocks_total := 2048\<rparr>\<rparr>"

text \<open>The part of \<open>nand_init\<close> behind the check of the identification: protection and configuration.\<close>

definition nand_configure ::
  "'c spi_bus \<Rightarrow> u8 \<Rightarrow> u32 \<Rightarrow> u32 \<Rightarrow> 'c spi_nand_handle \<Rightarrow> (int \<times> 'c spi_nand_handle) option" where
  "nand_configure B jval j1 j2 N = do {
     (ret, val, c) \<leftarrow> nand_get_feature B SR_ADDR_PROTECT jval (nand_spi N);
     (if ret \<noteq> 0 then Some (ret, N\<lparr>nand_spi := c\<rparr>)
      else do {
        let val = protect_value val;
        (ret, c) \<leftarrow> nand_set_feature B j1 SR_ADDR_PROTECT val c;
        (if ret \<noteq> 0 then Some (ret, N\<lparr>nand_spi := c\<rparr>)
         else do {
           (ret, val, c) \<leftarrow> nand_get_feature B SR_ADDR_CONFIG val c;
           (if ret \<noteq> 0 then Some (ret, N\<lparr>nand_spi := c\<rparr>)
            else if val AND 0x01 \<noteq> 0 then do {
              (ret, c) \<leftarrow> nand_set_feature B j2 SR_ADDR_CONFIG (val AND NOT 0x01) c;
              (if ret \<noteq> 0 then Some (ret, N\<lparr>nand_spi := c\<rparr>)
               else do {
                 (ret, c) \<leftarrow> nand_wait_while_busy B c;
                 Some (if ret \<noteq> 0 then (ret, N\<lparr>nand_spi := c\<rparr>) else (0, nand_set_geometry (N\<lparr>nand_spi := c\<rparr>)))
               })
            }
            else Some (0, nand_set_geometry (N\<lparr>nand_spi := c\<rparr>)))
         })
      })
   }"

definition nand_init ::
  "'c spi_bus \<Rightarrow> (nat \<Rightarrow> u32) \<Rightarrow> bool \<Rightarrow> 'c spi_nand_handle \<Rightarrow> (int \<times> 'c spi_nand_handle) option" where
  "nand_init B junk nul N =
     (if nul then Some (-1, N)
      else do {
        (ret, c) \<leftarrow> bus_init B (nand_spi N);
        (if ret \<noteq> 0 then Some (ret, N\<lparr>nand_spi := c\<rparr>)
         else do {
           (ret, c) \<leftarrow> nand_reset B c;
           (if ret \<noteq> 0 then Some (ret, N\<lparr>nand_spi := c\<rparr>)
            else do {
              (ret, c) \<leftarrow> nand_wait_while_busy B c;
              (if ret \<noteq> 0 then Some (ret, N\<lparr>nand_spi := c\<rparr>)
               else do {
                 (ret, N) \<leftarrow> nand_get_id B (le32 (junk 0)) (N\<lparr>nand_spi := c\<rparr>);
                 (if ret \<noteq> 0 then Some (ret, N)
                  else if ni_mfr_id (nand_info N) \<noteq> 0xcd \<or> ni_dev_id (nand_info N) \<noteq> 0x7272 then Some (-1, N)
                  else nand_configure B (ucast (junk 1)) (junk 2) (junk 3) N)
               })
            })
         })
      })"

definition nand_deinit :: "'c spi_bus \<Rightarrow> bool \<Rightarrow> 'c spi_nand_handle \<Rightarrow> (int \<times> 'c spi_nand_handle) option" where
  "nand_deinit B nul N =
     (if nul then Some (-1, N)
      else do {
        (ret, c) \<leftarrow> bus_deinit B (nand_spi N);
        Some (if ret \<noteq> 0 then ret else 0, N\<lparr>nand_spi := c\<rparr>)
      })"

section \<open>Pages\<close>

text \<open>
  In the following \<open>nand\<close> is the handle pointer: the geometry in the handle, or \<^const>\<open>None\<close> for NULL.
\<close>

definition page_args_bad :: "spi_nand_info \<Rightarrow> u32 \<Rightarrow> u32 \<Rightarrow> u32 \<Rightarrow> bool" where
  "page_args_bad info page offset len \<longleftrightarrow>
     page > ni_blocks_total info * ni_pages_per_block info \<or>
     offset > ni_page_size info \<or> len > ni_page_size info"

text \<open>
  The status byte is read, but the check of its ECC bits is commented out in the code.
\<close>

definition nand_page_read ::
  "'c spi_bus \<Rightarrow> spi_nand_info option \<Rightarrow> u32 \<Rightarrow> u32 \<Rightarrow> bool \<Rightarrow> u32 \<Rightarrow> 'c \<Rightarrow> (int \<times> u8 list \<times> 'c) option" where
  "nand_page_read B nand page offset data_null len c =
     (if nand = None \<or> data_null then Some (-1, [], c)
      else if page_args_bad (the nand) page offset len then Some (-1, [], c)
      else do {
        (ret, c) \<leftarrow> nand_load_page B page c;
        (if ret \<noteq> 0 then Some (ret, [], c)
         else do {
           (ret, bs, c) \<leftarrow> bus_transfer B (rx_msg (opcode OPCODE_READ_CACHE # addr16 offset @ [0x00]) 4 len) c;
           (if ret \<noteq> 0 then Some (ret, bs, c)
            else do {
              (ret, c) \<leftarrow> nand_wait_while_busy B c;
              (if ret \<noteq> 0 then Some (ret, bs, c)
               else do {
                 (ret, val, c) \<leftarrow> nand_get_feature B SR_ADDR_STATUS 0 c;
                 Some (if ret \<noteq> 0 then ret else 0, bs, c)
               })
            })
         })
      })"

text \<open>The program-failure bit \<open>0x08\<close> is looked at before the program is executed.\<close>

definition nand_page_write ::
  "'c spi_bus \<Rightarrow> spi_nand_info option \<Rightarrow> u32 \<Rightarrow> u32 \<Rightarrow> u8 list option \<Rightarrow> u32 \<Rightarrow> 'c \<Rightarrow> (int \<times> 'c) option" where
  "nand_page_write B nand page offset data len c =
     (case (nand, data) of
        (Some info, Some bs) \<Rightarrow>
          if page_args_bad info page offset len then Some (-1, c)
          else do {
            (ret, c) \<leftarrow> nand_write_enable B c;
            (if ret \<noteq> 0 then Some (ret, c)
             else do {
               (ret, c) \<leftarrow> bus_transfer2 B (tx_msg (opcode OPCODE_PROGRAM_LOAD # addr16 offset) 3) (tx_msg bs len) c;
               (if ret \<noteq> 0 then Some (ret, c)
                else do {
                  (ret, c) \<leftarrow> nand_wait_while_busy B c;
                  (if ret \<noteq> 0 then Some (ret, c)
                   else do {
                     (ret, val, c) \<leftarrow> nand_get_feature B SR_ADDR_STATUS 0 c;
                     (if ret \<noteq> 0 then Some (ret, c)
                      else if val AND 0x08 \<noteq> 0 then Some (-1, c)
                      else do {
                        (ret, c) \<leftarrow> nand_exec_program B page c;
                        Some (if ret \<noteq> 0 then ret else 0, c)
                      })
                   })
                })
             })
          }
      | _ \<Rightarrow> Some (-1, c))"

definition nand_erase_page :: "'c spi_bus \<Rightarrow> spi_nand_info option \<Rightarrow> u32 \<Rightarrow> 'c \<Rightarrow> (int \<times> 'c) option" where
  "nand_erase_page B nand page c =
     (if nand = None then Some (-1, c)
      else if page > ni_blocks_total (the nand) * ni_pages_per_block (the nand) then Some (-1, c)
      else do {
        (ret, c) \<leftarrow> nand_write_enable B c;
        (if ret \<noteq> 0 then Some (ret, c)
         else do {
           (ret, bs, c) \<leftarrow> bus_transfer B (tx_msg (opcode OPCODE_BLOCK_ERASE # addr24 page) 4) c;
           (if ret \<noteq> 0 then Some (ret, c)
            else do {
              (ret, c) \<leftarrow> nand_wait_while_busy B c;
              (if ret \<noteq> 0 then Some (ret, c)
               else do {
                 (ret, val, c) \<leftarrow> nand_get_feature B SR_ADDR_STATUS 0 c;
                 Some (if ret \<noteq> 0 then ret else if val AND 0x04 \<noteq> 0 then -1 else 0, c)
               })
            })
         })
      })"

end
