(* ===== verification/Nand_Port.thy ===== *)
theory Nand_Port
  imports Nand_Driver Part_Store
begin

text \<open>
  The partition device over the NAND flash, \<^verbatim>\<open>boards/port/partition_port.c\<close>: reads and writes split
  into pages, the erase of arbitrary ranges by read-modify-write of whole blocks, and the table of
  partitions of the board.  The page operations of the driver are reached through a record, which
  \<open>nand_dev_of\<close> fills with the driver's functions.
\<close>

section \<open>The page operations\<close>

record 'c nand_dev =
  nd_info :: spi_nand_info
  nd_read :: "u32 \<Rightarrow> u32 \<Rightarrow> bool \<Rightarrow> u32 \<Rightarrow> 'c \<Rightarrow> (int \<times> u8 list \<times> 'c) option"
  nd_write :: "u32 \<Rightarrow> u32 \<Rightarrow> u8 list option \<Rightarrow> u32 \<Rightarrow> 'c \<Rightarrow> (int \<times> 'c) option"
  nd_erase :: "u32 \<Rightarrow> 'c \<Rightarrow> (int \<times> 'c) option"

definition nand_dev_of :: "'c spi_bus \<Rightarrow> spi_nand_info \<Rightarrow> 'c nand_dev" where
  "nand_dev_of B info =
     \<lparr>nd_info = info, nd_read = nand_page_read B (Some info), nd_write = nand_page_write B (Some info),
      nd_erase = nand_erase_page B (Some info)\<rparr>"

definition nand_total :: "'c nand_dev \<Rightarrow> u32" where
  "nand_total D = ni_page_size (nd_info D) * ni_pages_per_block (nd_info D) * ni_blocks_total (nd_info D)"

definition partition_nand_init :: "'c \<Rightarrow> (int \<times> 'c) option" where
  "partition_nand_init c = Some (0, c)"

section \<open>Reading and writing\<close>

text \<open>
  The loop over the pages; \<open>acc\<close> are the bytes stored so far.  A page read that reports success is
  taken to have delivered the bytes asked for.
\<close>

partial_function (option) nand_read_loop ::
  "'c nand_dev \<Rightarrow> u32 \<Rightarrow> u32 \<Rightarrow> u32 \<Rightarrow> u8 list \<Rightarrow> 'c \<Rightarrow> (int \<times> u8 list \<times> 'c) option" where
  "nand_read_loop D page offset read_size acc c =
     (if read_size = 0 then Some (0, acc, c)
      else
        let ps = ni_page_size (nd_info D);
            more = (offset + read_size > ps);
            n = (if more then ps - offset else read_size)
        in do {
          (ret, bs, c) \<leftarrow> nd_read D page offset False n c;
          (if ret \<noteq> 0 then Some (ret, acc @ bs, c)
           else if length bs \<noteq> unat n then None
           else if more then nand_read_loop D (page + 1) 0 (read_size - n) (acc @ bs) c
           else Some (0, acc @ bs, c))
        })"

definition partition_nand_read ::
  "'c nand_dev \<Rightarrow> u32 \<Rightarrow> bool \<Rightarrow> u32 \<Rightarrow> 'c \<Rightarrow> (int \<times> u8 list \<times> 'c) option" where
  "partition_nand_read D addr buf_null sz c =
     (if addr + sz > nand_total D \<or> buf_null then Some (-1, [], c)
      else if ni_page_size (nd_info D) = 0 then None
      else nand_read_loop D (addr div ni_page_size (nd_info D)) (addr mod ni_page_size (nd_info D)) sz [] c)"

partial_function (option) nand_write_loop ::
  "'c nand_dev \<Rightarrow> u32 \<Rightarrow> u32 \<Rightarrow> u32 \<Rightarrow> u8 list \<Rightarrow> 'c \<Rightarrow> (int \<times> 'c) option" where
  "nand_write_loop D page offset write_size buf c =
     (if write_size = 0 then Some (0, c)
      else
        let ps = ni_page_size (nd_info D);
            more = (offset + write_size > ps);
            n = (if more then ps - offset else write_size)
        in do {
          (ret, c) \<leftarrow> nd_write D page offset (Some buf) n c;
          (if ret \<noteq> 0 then Some (ret, c)
           else if more then nand_write_loop D (page + 1) 0 (write_size - n) (drop (unat n) buf) c
           else Some (0, c))
        })"

definition partition_nand_write ::
  "'c nand_dev \<Rightarrow> u32 \<Rightarrow> u8 list option \<Rightarrow> u32 \<Rightarrow> 'c \<Rightarrow> (int \<times> 'c) option" where
  "partition_nand_write D addr buf sz c =
     (if addr + sz > nand_total D then Some (-1, c)
      else (case buf of
        None \<Rightarrow> Some (-1, c)
      | Some bs \<Rightarrow>
          if ni_page_size (nd_info D) = 0 then None
          else nand_write_loop D (addr div ni_page_size (nd_info D)) (addr mod ni_page_size (nd_info D)) sz bs c))"

section \<open>Erasing\<close>

text \<open>The static buffer that holds a block while it is erased.\<close>

definition cache_erase_size :: nat where "cache_erase_size = 2048 * 64"

text \<open>Reading the \<open>k\<close> pages of a block from \<open>page\<close> on, and writing them back.\<close>

fun block_read_loop :: "'c nand_dev \<Rightarrow> u32 \<Rightarrow> nat \<Rightarrow> u8 list \<Rightarrow> 'c \<Rightarrow> (int \<times> u8 list \<times> 'c) option" where
  "block_read_loop D page 0 acc c = Some (0, acc, c)"
| "block_read_loop D page (Suc k) acc c =
     (if length acc + unat (ni_page_size (nd_info D)) > cache_erase_size then None
      else do {
        (ret, bs, c) \<leftarrow> nd_read D page 0 False (ni_page_size (nd_info D)) c;
        (if ret \<noteq> 0 then Some (-1, acc, c)
         else if length bs \<noteq> unat (ni_page_size (nd_info D)) then None
         else block_read_loop D (page + 1) k (acc @ bs) c)
      })"

fun block_write_loop :: "'c nand_dev \<Rightarrow> u32 \<Rightarrow> nat \<Rightarrow> u8 list \<Rightarrow> 'c \<Rightarrow> (int \<times> 'c) option" where
  "block_write_loop D page 0 buf c = Some (0, c)"
| "block_write_loop D page (Suc k) buf c = do {
     (ret, c) \<leftarrow> nd_write D page 0 (Some buf) (ni_page_size (nd_info D)) c;
     (if ret \<noteq> 0 then Some (-1, c)
      else block_write_loop D (page + 1) k (drop (unat (ni_page_size (nd_info D))) buf) c)
   }"

text \<open>
  The body of the loop over the blocks.  Filling the range with \<open>0xFF\<close> beyond the end of the buffer
  is a fault.
\<close>

definition erase_offset :: "u32 \<Rightarrow> u32 \<Rightarrow> u32" where
  "erase_offset erase_start blk_start_addr =
     (if erase_start > blk_start_addr then erase_start - blk_start_addr else 0)"

definition erase_length :: "u32 \<Rightarrow> u32 \<Rightarrow> u32 \<Rightarrow> u32 \<Rightarrow> u32" where
  "erase_length erase_end blk_start_addr blk_end_addr offset =
     (if erase_end < blk_end_addr then erase_end - (blk_start_addr + offset)
      else blk_end_addr - (blk_start_addr + offset))"

definition nand_erase_part ::
  "'c nand_dev \<Rightarrow> u32 \<Rightarrow> u32 \<Rightarrow> u32 \<Rightarrow> 'c \<Rightarrow> (int \<times> 'c) option" where
  "nand_erase_part D page offset len c = do {
     let ppb = unat (ni_pages_per_block (nd_info D));
     (ret, buf, c) \<leftarrow> block_read_loop D page ppb [] c;
     (if ret \<noteq> 0 then Some (-1, c)
      else do {
        (ret, c) \<leftarrow> nd_erase D page c;
        (if ret \<noteq> 0 then Some (-1, c)
         else if unat offset + unat len > cache_erase_size then None
         else
           let cache = buf @ replicate (cache_erase_size - length buf) 0;
               cache = patch (unat offset) (replicate (unat len) 0xFF) cache
           in block_write_loop D page ppb cache c)
      })
   }"

definition nand_erase_block :: "'c nand_dev \<Rightarrow> u32 \<Rightarrow> u32 \<Rightarrow> u32 \<Rightarrow> 'c \<Rightarrow> (int \<times> 'c) option" where
  "nand_erase_block D erase_start erase_end blk c =
     (let block_size = ni_pages_per_block (nd_info D) * ni_page_size (nd_info D);
          blk_start_addr = blk * block_size;
          blk_end_addr = blk_start_addr + block_size;
          offset = erase_offset erase_start blk_start_addr;
          len = erase_length erase_end blk_start_addr blk_end_addr offset;
          page = blk * ni_pages_per_block (nd_info D)
      in if offset = 0 \<and> len = block_size
         then do {
           (ret, c) \<leftarrow> nd_erase D page c;
           Some (if ret \<noteq> 0 then -1 else 0, c)
         }
         else nand_erase_part D page offset len c)"

partial_function (option) nand_erase_loop ::
  "'c nand_dev \<Rightarrow> u32 \<Rightarrow> u32 \<Rightarrow> u32 \<Rightarrow> u32 \<Rightarrow> 'c \<Rightarrow> (int \<times> 'c) option" where
  "nand_erase_loop D erase_start erase_end blk last_blk c =
     (if blk > last_blk then Some (0, c)
      else do {
        (ret, c) \<leftarrow> nand_erase_block D erase_start erase_end blk c;
        (if ret \<noteq> 0 then Some (-1, c) else nand_erase_loop D erase_start erase_end (blk + 1) last_blk c)
      })"

definition partition_nand_erase :: "'c nand_dev \<Rightarrow> u32 \<Rightarrow> u32 \<Rightarrow> 'c \<Rightarrow> (int \<times> 'c) option" where
  "partition_nand_erase D addr sz c =
     (let block_size = ni_pages_per_block (nd_info D) * ni_page_size (nd_info D);
          total_size = ni_blocks_total (nd_info D) * block_size
      in if addr + sz > total_size then Some (-1, c)
         else if block_size = 0 then None
         else nand_erase_loop D addr (addr + sz) (addr div block_size) ((addr + sz - 1) div block_size) c)"

definition partition_nand_ops :: "'c nand_dev \<Rightarrow> 'c dev_ops" where
  "partition_nand_ops D =
     \<lparr>op_init = Some partition_nand_init,
      op_read = Some (\<lambda>addr n. partition_nand_read D addr False n),
      op_write = Some (\<lambda>addr bs n. partition_nand_write D addr (Some bs) n),
      op_erase = Some (partition_nand_erase D)\<rparr>"

section \<open>The partitions of the board\<close>

text \<open>\<open>ops\<close> is the address of the operation structure.  The codes of the registrations are added up.\<close>

definition nand_layout :: "(string \<times> u32 \<times> u32) list" where
  "nand_layout =
     [(''boot0'', 0 * 2048, 512 * 2048), (''boot1'', 512 * 2048, 512 * 2048),
      (''APP1'', 1024 * 2048, 512 * 2048), (''APP2'', 1536 * 2048, 512 * 2048),
      (''Download'', 2048 * 2048, 512 * 2048), (''Param'', 2560 * 2048, 60 * 2048)]"

fun register_all :: "(string \<times> u32 \<times> u32) list \<Rightarrow> u8 list \<Rightarrow> int \<Rightarrow> part_tables \<Rightarrow> int \<times> part_tables" where
  "register_all [] dev ret T = (ret, T)"
| "register_all ((nm, start, sz) # ps) dev ret T =
     (case partition_register (Some (cstr nm)) (Some dev) start sz T of
        (r, T) \<Rightarrow> register_all ps dev (ret + part_code r) T)"

definition nand_register_tables :: "u32 \<Rightarrow> spi_nand_info \<Rightarrow> part_tables \<Rightarrow> int \<times> part_tables" where
  "nand_register_tables ops info T =
     (case partition_device_register (Some (cstr ''nand_flash'')) ops
             (ni_blocks_total info * ni_pages_per_block info * ni_page_size info) T of
        (r, T) \<Rightarrow>
          if r \<noteq> PARTITION_OK then (-1, T)
          else (case register_all nand_layout (cstr ''nand_flash'') 0 T of
            (ret, T) \<Rightarrow> (if ret \<noteq> 0 then -1 else 0, T)))"

end
