(* ===== verification/Nand_Store.thy ===== *)
theory Nand_Store
  imports Nand_Port
begin

text \<open>
  The contract of the page operations (\<open>nand_pages\<close>) and what follows from it for the partition
  device: seen through its functions the flash is one array of bytes, from which reads take exact
  slices, which writes program and erases set to \<open>0xFF\<close>.
\<close>

section \<open>The flash as an array of bytes\<close>

lemma div_iff:
  fixes B :: nat
  assumes "0 < B"
  shows "x div B = b \<longleftrightarrow> b * B \<le> x \<and> x < b * B + B"
proof
  assume "x div B = b"
  then show "b * B \<le> x \<and> x < b * B + B"
    using div_mult_mod_eq [of x B] mod_less_divisor [OF assms, of x] by auto
next
  assume "b * B \<le> x \<and> x < b * B + B"
  then show "x div B = b"
    by (intro div_nat_eqI) (simp_all add: mult.commute)
qed

lemma unat_mult_no_wrap:
  fixes a b :: u32
  shows "unat a * unat b < 2 ^ 32 \<Longrightarrow> unat (a * b) = unat a * unat b"
  by (simp add: unat_word_ariths)

definition flash_of :: "(nat \<Rightarrow> u8 list) \<Rightarrow> nat \<Rightarrow> u8" where
  "flash_of pg x = pg (x div 2048) ! (x mod 2048)"

definition flash_bytes :: "(nat \<Rightarrow> u8) \<Rightarrow> nat \<Rightarrow> nat \<Rightarrow> u8 list" where
  "flash_bytes f a n = map f [a..<a + n]"

text \<open>Programming can only clear bits; erasing sets them all.\<close>

definition prog :: "nat \<Rightarrow> u8 list \<Rightarrow> (nat \<Rightarrow> u8) \<Rightarrow> nat \<Rightarrow> u8" where
  "prog a bs f x = (if a \<le> x \<and> x < a + length bs then bs ! (x - a) AND f x else f x)"

definition wiped :: "nat \<Rightarrow> nat \<Rightarrow> (nat \<Rightarrow> u8) \<Rightarrow> nat \<Rightarrow> u8" where
  "wiped a n f x = (if a \<le> x \<and> x < a + n then erased else f x)"

lemma length_flash_bytes [simp]: "length (flash_bytes f a n) = n"
  by (simp add: flash_bytes_def)

lemma nth_flash_bytes [simp]: "i < n \<Longrightarrow> flash_bytes f a n ! i = f (a + i)"
  by (simp add: flash_bytes_def)

lemma flash_bytes_0 [simp]: "flash_bytes f a 0 = []"
  by (simp add: flash_bytes_def)

lemma flash_bytes_append: "flash_bytes f a (m + n) = flash_bytes f a m @ flash_bytes f (a + m) n"
  by (rule nth_equalityI) (auto simp: nth_append)

lemma flash_bytes_cong: "(\<And>x. a \<le> x \<Longrightarrow> x < a + n \<Longrightarrow> f x = g x) \<Longrightarrow> flash_bytes f a n = flash_bytes g a n"
  by (rule nth_equalityI) auto

lemma bslice_flash_bytes: "off + n \<le> m \<Longrightarrow> bslice off n (flash_bytes f a m) = flash_bytes f (a + off) n"
  by (rule nth_equalityI) (auto simp: bslice_def add.assoc)

lemma in_page:
  fixes x :: nat
  assumes "off + n \<le> 2048"
  shows "p * 2048 + off \<le> x \<and> x < p * 2048 + off + n \<longleftrightarrow> x div 2048 = p \<and> off \<le> x mod 2048 \<and> x mod 2048 < off + n"
proof -
  obtain d m where x: "x = d * 2048 + m" "m < 2048" "x div 2048 = d" "x mod 2048 = m"
    by (metis div_mult_mod_eq mod_less_divisor zero_less_numeral)
  consider "d < p" | "d = p" | "p < d"
    by linarith
  then show ?thesis
    unfolding x(3,4) using x(1,2) assms by cases auto
qed

lemma page_flash_bytes: "length (pg p) = 2048 \<Longrightarrow> pg p = flash_bytes (flash_of pg) (p * 2048) 2048"
  by (rule nth_equalityI) (auto simp: flash_of_def)

lemma prog_Nil [simp]: "prog a [] f = f"
  by (rule ext) (auto simp: prog_def)

lemma prog_append: "prog (a + length us) vs (prog a us f) = prog a (us @ vs) f"
  by (rule ext) (auto simp: prog_def nth_append)

lemma wiped_0 [simp]: "wiped a 0 f = f"
  by (rule ext) (auto simp: wiped_def)

lemma prog_flash_bytes:
  "flash_bytes (prog (a + off) bs f) a m = patch off (map2 (AND) bs (flash_bytes f (a + off) (length bs))) (flash_bytes f a m)"
  if "off + length bs \<le> m"
  using that by (intro nth_equalityI) (auto simp: nth_patch prog_def)

lemma wiped_flash_bytes:
  "off + n \<le> m \<Longrightarrow> flash_bytes (wiped (a + off) n f) a m = patch off (replicate n erased) (flash_bytes f a m)"
  by (intro nth_equalityI) (auto simp: nth_patch wiped_def)

lemma and_erased [simp]: "w AND erased = w" "erased AND w = w" for w :: u8
proof -
  have "erased = - 1"
    by simp
  then show "w AND erased = w" "erased AND w = w"
    by (metis and.right_neutral) (metis \<open>erased = - 1\<close> and.left_neutral)
qed

lemma map2_and_erased: "length bs = n \<Longrightarrow> map2 (AND) bs (replicate n erased) = bs" for bs :: "u8 list"
  by (intro nth_equalityI) auto

text \<open>The addresses that lie in the same page (block) as one of the range.\<close>

definition touches :: "nat \<Rightarrow> nat \<Rightarrow> nat \<Rightarrow> nat \<Rightarrow> bool" where
  "touches B a n x \<longleftrightarrow> (\<exists>y. a \<le> y \<and> y < a + n \<and> y div B = x div B)"

lemma touches_mono: "touches B a n x \<Longrightarrow> b \<le> a \<Longrightarrow> a + n \<le> b + m \<Longrightarrow> touches B b m x"
  unfolding touches_def by (metis le_trans less_le_trans)

lemma touchesI: "a \<le> y \<Longrightarrow> y < a + n \<Longrightarrow> y div B = x div B \<Longrightarrow> touches B a n x"
  by (auto simp: touches_def)

lemma touches_block:
  assumes "0 < B" and "a < e" and "a div B \<le> x div B" and "x div B \<le> (e - 1) div B"
  shows "touches B a (e - a) x"
proof (cases "x div B = a div B")
  case True
  with assms(2) show ?thesis
    by (intro touchesI [of a a]) simp_all
next
  case False
  then have "Suc (a div B) * B \<le> x div B * B"
    using assms(3) by (intro mult_le_mono1) simp
  moreover have "a < Suc (a div B) * B"
    using assms(1) by (rule dividend_less_div_times [of B a, simplified add.commute, simplified mult_Suc [symmetric]])
  moreover have "x div B * B \<le> (e - 1) div B * B"
    using assms(4) by (rule mult_le_mono1)
  moreover have "(e - 1) div B * B \<le> e - 1"
    by (rule div_times_less_eq_dividend)
  ultimately have "a \<le> x div B * B" "x div B * B < e"
    using assms(2) by linarith+
  then show ?thesis
    using assms(1) by (intro touchesI [of _ "x div B * B"]) simp_all
qed

section \<open>The contract of the page operations\<close>

text \<open>
  \<open>page c q\<close> are the 2048 bytes of page \<open>q\<close>; \<open>solid\<close> are the pages of the blocks that are neither
  write-protected nor worn out; \<open>rel\<close> says that the operations on them never fail.
\<close>

definition blank_page :: "u8 list" where "blank_page = replicate 2048 erased"

locale nand_pages =
  fixes D :: "'c nand_dev" and ok :: "'c \<Rightarrow> bool" and page :: "'c \<Rightarrow> nat \<Rightarrow> u8 list" and solid :: "nat set"
    and rel :: bool
  assumes geometry: "ni_page_size (nd_info D) = 2048" "ni_pages_per_block (nd_info D) = 64"
      "ni_blocks_total (nd_info D) = 2048"
    and page_length: "ok c \<Longrightarrow> q < 131072 \<Longrightarrow> length (page c q) = 2048"
    and solid_block: "q \<in> solid \<Longrightarrow> q' div 64 = q div 64 \<Longrightarrow> q' \<in> solid"
    and read_page: "ok c \<Longrightarrow> unat p < 131072 \<Longrightarrow> unat off + unat n \<le> 2048 \<Longrightarrow>
      \<exists>r bs c'. nd_read D p off False n c = Some (r, bs, c') \<and> ok c' \<and> page c' = page c \<and> length bs \<le> unat n \<and>
        (r = 0 \<longrightarrow> bs = bslice (unat off) (unat n) (page c (unat p))) \<and> (rel \<longrightarrow> r = 0)"
    and write_prefix: "unat n \<le> length bs \<Longrightarrow>
      nd_write D p off (Some bs) n c = nd_write D p off (Some (take (unat n) bs)) n c"
    and write_page: "ok c \<Longrightarrow> unat p < 131072 \<Longrightarrow> unat p \<in> solid \<Longrightarrow> unat off + unat n \<le> 2048 \<Longrightarrow> unat n \<le> length bs \<Longrightarrow>
      \<exists>r c'. nd_write D p off (Some bs) n c = Some (r, c') \<and> ok c' \<and> (\<forall>q. q \<noteq> unat p \<longrightarrow> page c' q = page c q) \<and>
        (r = 0 \<longrightarrow> page c' (unat p) = map2 (AND) (patch (unat off) (take (unat n) bs) blank_page) (page c (unat p))) \<and>
        (rel \<longrightarrow> r = 0)"
    and erase_page: "ok c \<Longrightarrow> unat p < 131072 \<Longrightarrow> unat p \<in> solid \<Longrightarrow>
      \<exists>r c'. nd_erase D p c = Some (r, c') \<and> ok c' \<and> (\<forall>q. q div 64 \<noteq> unat p div 64 \<longrightarrow> page c' q = page c q) \<and>
        (r = 0 \<longrightarrow> (\<forall>q. q div 64 = unat p div 64 \<longrightarrow> page c' q = blank_page)) \<and> (rel \<longrightarrow> r = 0)"

context nand_pages
begin

abbreviation flash :: "'c \<Rightarrow> nat \<Rightarrow> u8" where "flash c \<equiv> flash_of (page c)"

lemma read_page_flash:
  assumes "ok c" and "unat p < 131072" and "unat off + unat n \<le> 2048"
  obtains r bs c' where "nd_read D p off False n c = Some (r, bs, c')" "ok c'" "flash c' = flash c" "page c' = page c"
    "length bs \<le> unat n" "r = 0 \<Longrightarrow> bs = flash_bytes (flash c) (unat p * 2048 + unat off) (unat n)" "rel \<Longrightarrow> r = 0"
proof -
  obtain r bs c' where "nd_read D p off False n c = Some (r, bs, c')" "ok c'" "page c' = page c" "length bs \<le> unat n"
    "r = 0 \<longrightarrow> bs = bslice (unat off) (unat n) (page c (unat p))" "rel \<longrightarrow> r = 0"
    using read_page [OF assms] by blast
  moreover from this have "bslice (unat off) (unat n) (page c (unat p)) = flash_bytes (flash c) (unat p * 2048 + unat off) (unat n)"
    using assms(3) page_flash_bytes [of "page c" "unat p"] page_length [OF assms(1,2)]
    by (metis bslice_flash_bytes)
  ultimately show thesis
    using that [of r bs c'] by simp
qed

lemma write_page_flash:
  assumes "ok c" and "unat p < 131072" and "unat p \<in> solid" and "unat off + unat n \<le> 2048" and "unat n \<le> length bs"
  obtains r c' where "nd_write D p off (Some bs) n c = Some (r, c')" "ok c'"
    "\<And>x. x div 2048 \<noteq> unat p \<Longrightarrow> flash c' x = flash c x"
    "r = 0 \<Longrightarrow> flash c' = prog (unat p * 2048 + unat off) (take (unat n) bs) (flash c)" "rel \<Longrightarrow> r = 0"
proof -
  obtain r c' where w: "nd_write D p off (Some bs) n c = Some (r, c')" "ok c'" "\<forall>q. q \<noteq> unat p \<longrightarrow> page c' q = page c q"
    "r = 0 \<longrightarrow> page c' (unat p) = map2 (AND) (patch (unat off) (take (unat n) bs) blank_page) (page c (unat p))" "rel \<longrightarrow> r = 0"
    using write_page [OF assms] by blast
  have "flash c' x = prog (unat p * 2048 + unat off) (take (unat n) bs) (flash c) x" if "r = 0" for x
  proof (cases "x div 2048 = unat p")
    case True
    have "x - (unat p * 2048 + unat off) = x mod 2048 - unat off"
      using True by (simp add: minus_div_mult_eq_mod [symmetric])
    moreover have "flash c' x = patch (unat off) (take (unat n) bs) blank_page ! (x mod 2048) AND flash c x"
      using w(4) that True page_length [OF assms(1,2)] assms(4,5) by (simp add: flash_of_def blank_page_def)
    ultimately show ?thesis
      using True assms(4,5) in_page [OF assms(4), of "unat p" x]
      by (auto simp: prog_def nth_patch blank_page_def min_def)
  next
    case False
    with w(3) assms(5) in_page [OF assms(4), of "unat p" x] show ?thesis
      by (auto simp: prog_def flash_of_def)
  qed
  then show thesis
    using w(3,5) by (intro that [OF w(1,2)] ext) (simp_all add: flash_of_def)
qed

lemma chunk_arith:
  fixes off n :: u32
  assumes "unat off < 2048" and "unat n \<le> 2 ^ 28"
  shows "off + n > 2048 \<longleftrightarrow> 2048 < unat off + unat n" "unat (2048 - off) = 2048 - unat off"
    "2048 < unat off + unat n \<Longrightarrow> unat (n - (2048 - off)) = unat n - (2048 - unat off)"
proof -
  have "unat (off + n) = unat off + unat n"
    using assms by (intro unat_add_no_wrap) simp
  then show "off + n > 2048 \<longleftrightarrow> 2048 < unat off + unat n"
    by (simp add: word_less_nat_alt)
  show 2: "unat (2048 - off) = 2048 - unat off"
    using assms by (subst unat_sub_le) (simp_all add: word_le_nat_alt)
  show "unat (n - (2048 - off)) = unat n - (2048 - unat off)" if "2048 < unat off + unat n"
    using that by (subst unat_sub_le) (simp_all add: word_le_nat_alt 2)
qed

lemma next_page: "unat (p :: u32) < 131072 \<Longrightarrow> unat (p + 1) = unat p + 1"
  by (simp add: unat_add_no_wrap)

lemma nand_read_loop_effect:
  "ok c \<Longrightarrow> unat off < 2048 \<Longrightarrow> unat p * 2048 + unat off + unat n \<le> 2 ^ 28 \<Longrightarrow>
   \<exists>r bs c'. nand_read_loop D p off n acc c = Some (r, bs, c') \<and> ok c' \<and> page c' = page c \<and>
     length bs \<le> length acc + unat n \<and>
     (r = 0 \<longrightarrow> bs = acc @ flash_bytes (flash c) (unat p * 2048 + unat off) (unat n)) \<and> (rel \<longrightarrow> r = 0)"
proof (induction "unat n" arbitrary: n p off acc c rule: less_induct)
  case less
  show ?case
  proof (cases "n = 0")
    case True
    then show ?thesis
      using less.prems(1) by (simp add: nand_read_loop.simps)
  next
    case False
    have le: "unat n \<le> 2 ^ 28"
      using less.prems(3) by simp
    note ar = chunk_arith [OF less.prems(2) le]
    have pos: "0 < unat n"
      using False by (simp add: unat_gt_0)
    then have p: "unat p < 131072"
      using less.prems(2,3) by simp
    define more where "more = (off + n > 2048)"
    define k where "k = (if more then 2048 - off else n)"
    have uk: "unat k = (if more then 2048 - unat off else unat n)" "unat off + unat k \<le> 2048" "unat k \<le> unat n"
      using ar(1,2) less.prems(2) by (auto simp: k_def more_def)
    obtain r bs c1 where 1: "nd_read D p off False k c = Some (r, bs, c1)" "ok c1" "flash c1 = flash c" "page c1 = page c"
      "length bs \<le> unat k" "r = 0 \<Longrightarrow> bs = flash_bytes (flash c) (unat p * 2048 + unat off) (unat k)" "rel \<Longrightarrow> r = 0"
      using read_page_flash [OF less.prems(1) p uk(2)] by blast
    have step: "nand_read_loop D p off n acc c =
        (if r \<noteq> 0 then Some (r, acc @ bs, c1)
         else if more then nand_read_loop D (p + 1) 0 (n - k) (acc @ bs) c1 else Some (0, acc @ bs, c1))"
      using False 1(1,6) by (cases more) (auto simp: nand_read_loop.simps [of D p off n] geometry Let_def more_def k_def)
    show ?thesis
    proof (cases "r = 0 \<and> more")
      case True
      then have m: "2048 < unat off + unat n" "k = 2048 - off"
        using ar(1) by (simp_all add: more_def k_def)
      have rest: "unat (n - k) = unat n - unat k"
        using ar(3) [OF m(1)] ar(2) by (simp add: m(2))
      have "\<exists>r' bs' c'. nand_read_loop D (p + 1) 0 (n - k) (acc @ bs) c1 = Some (r', bs', c') \<and> ok c' \<and> page c' = page c1 \<and>
         length bs' \<le> length (acc @ bs) + unat (n - k) \<and>
         (r' = 0 \<longrightarrow> bs' = (acc @ bs) @ flash_bytes (flash c1) (unat (p + 1) * 2048 + unat (0 :: u32)) (unat (n - k))) \<and> (rel \<longrightarrow> r' = 0)"
        using less.prems(2,3) uk m(1) pos True by (intro less.hyps 1(2)) (simp_all add: rest next_page [OF p])
      moreover have "flash_bytes (flash c) (unat p * 2048 + unat off) (unat n) =
          flash_bytes (flash c) (unat p * 2048 + unat off) (unat k) @ flash_bytes (flash c) (unat (p + 1) * 2048) (unat (n - k))"
        using flash_bytes_append [of "flash c" "unat p * 2048 + unat off" "unat k" "unat (n - k)"] uk(1,3) True less.prems(2)
        by (simp add: rest next_page [OF p] add.commute [of 2048])
      ultimately show ?thesis
        using True step 1 uk(3) rest by auto
    next
      case False
      then show ?thesis
        using step 1 uk by (auto simp: k_def)
    qed
  qed
qed

lemma nand_write_loop_effect:
  "ok c \<Longrightarrow> unat off < 2048 \<Longrightarrow> unat p * 2048 + unat off + unat n \<le> 2 ^ 28 \<Longrightarrow> unat n \<le> length buf \<Longrightarrow>
   (\<forall>x. unat p * 2048 + unat off \<le> x \<and> x < unat p * 2048 + unat off + unat n \<longrightarrow> x div 2048 \<in> solid) \<Longrightarrow>
   \<exists>r c'. nand_write_loop D p off n buf c = Some (r, c') \<and> ok c' \<and>
     (\<forall>x. \<not> touches 2048 (unat p * 2048 + unat off) (unat n) x \<longrightarrow> flash c' x = flash c x) \<and>
     (r = 0 \<longrightarrow> flash c' = prog (unat p * 2048 + unat off) (take (unat n) buf) (flash c)) \<and> (rel \<longrightarrow> r = 0)"
proof (induction "unat n" arbitrary: n p off buf c rule: less_induct)
  case less
  show ?case
  proof (cases "n = 0")
    case True
    then show ?thesis
      using less.prems(1) by (simp add: nand_write_loop.simps)
  next
    case False
    let ?a = "unat p * 2048 + unat off"
    have le: "unat n \<le> 2 ^ 28"
      using less.prems(3) by simp
    note ar = chunk_arith [OF less.prems(2) le]
    have pos: "0 < unat n"
      using False by (simp add: unat_gt_0)
    then have p: "unat p < 131072"
      using less.prems(2,3) by simp
    have here: "?a div 2048 = unat p"
      using less.prems(2) by simp
    then have sol: "unat p \<in> solid"
      using less.prems(5) pos by (metis le_refl less_add_same_cancel1)
    define more where "more = (off + n > 2048)"
    define k where "k = (if more then 2048 - off else n)"
    have uk: "unat k = (if more then 2048 - unat off else unat n)" "unat off + unat k \<le> 2048" "unat k \<le> unat n"
      using ar(1,2) less.prems(2) by (auto simp: k_def more_def)
    have kb: "unat k \<le> length buf"
      using uk(3) less.prems(4) by simp
    obtain r c1 where 1: "nd_write D p off (Some buf) k c = Some (r, c1)" "ok c1"
      "\<And>x. x div 2048 \<noteq> unat p \<Longrightarrow> flash c1 x = flash c x"
      "r = 0 \<Longrightarrow> flash c1 = prog ?a (take (unat k) buf) (flash c)" "rel \<Longrightarrow> r = 0"
      using write_page_flash [OF less.prems(1) p sol uk(2) kb] by blast
    have step: "nand_write_loop D p off n buf c =
        (if r \<noteq> 0 then Some (r, c1)
         else if more then nand_write_loop D (p + 1) 0 (n - k) (drop (unat k) buf) c1 else Some (0, c1))"
      using False 1(1) by (cases more) (auto simp: nand_write_loop.simps [of D p off n] geometry Let_def more_def k_def)
    have near: "touches 2048 ?a (unat n) x" if "x div 2048 = unat p" for x
      using pos here that by (intro touchesI [of _ ?a]) simp_all
    show ?thesis
    proof (cases "r = 0 \<and> more")
      case True
      then have m: "2048 < unat off + unat n" "k = 2048 - off"
        using ar(1) by (simp_all add: more_def k_def)
      have rest: "unat (n - k) = unat n - unat k"
        using ar(3) [OF m(1)] ar(2) by (simp add: m(2))
      have next_a: "unat (p + 1) * 2048 + unat (0 :: u32) = ?a + unat k"
        using uk(1) True less.prems(2) by (simp add: next_page [OF p])
      have "\<exists>r' c'. nand_write_loop D (p + 1) 0 (n - k) (drop (unat k) buf) c1 = Some (r', c') \<and> ok c' \<and>
        (\<forall>x. \<not> touches 2048 (unat (p + 1) * 2048 + unat (0 :: u32)) (unat (n - k)) x \<longrightarrow> flash c' x = flash c1 x) \<and>
        (r' = 0 \<longrightarrow> flash c' = prog (unat (p + 1) * 2048 + unat (0 :: u32)) (take (unat (n - k)) (drop (unat k) buf)) (flash c1)) \<and>
        (rel \<longrightarrow> r' = 0)"
        using less.prems(2-5) uk m(1) pos True
        by (intro less.hyps 1(2)) (simp_all add: rest next_a [simplified])
      then obtain r' c' where 2: "nand_write_loop D (p + 1) 0 (n - k) (drop (unat k) buf) c1 = Some (r', c')" "ok c'"
        "\<And>x. \<not> touches 2048 (?a + unat k) (unat n - unat k) x \<Longrightarrow> flash c' x = flash c1 x"
        "r' = 0 \<Longrightarrow> flash c' = prog (?a + unat k) (take (unat n - unat k) (drop (unat k) buf)) (flash c1)" "rel \<Longrightarrow> r' = 0"
        unfolding next_a rest by blast
      have "prog (?a + unat k) (take (unat n - unat k) (drop (unat k) buf)) (prog ?a (take (unat k) buf) (flash c)) =
          prog ?a (take (unat n) buf) (flash c)"
        using prog_append [of ?a "take (unat k) buf" "take (unat n - unat k) (drop (unat k) buf)" "flash c"] kb uk(3)
        by (simp add: take_add [symmetric])
      moreover have "flash c' x = flash c x" if "\<not> touches 2048 ?a (unat n) x" for x
      proof -
        have "\<not> touches 2048 (?a + unat k) (unat n - unat k) x"
          using that uk(3) touches_mono [of 2048 "?a + unat k" "unat n - unat k" x ?a "unat n"] by auto
        then show ?thesis
          using that near [of x] 1(3) [of x] 2(3) [of x] by metis
      qed
      ultimately show ?thesis
        using True step 1(4) 2 by auto
    next
      case False
      have "flash c1 x = flash c x" if "\<not> touches 2048 ?a (unat n) x" for x
        using that near [of x] 1(3) [of x] by metis
      with False show ?thesis
        using step 1(2,4,5) uk by (cases "r = 0") (auto simp: k_def)
    qed
  qed
qed

text \<open>Reading and writing back the pages of a block.\<close>

lemma block_read_loop_effect:
  "ok c \<Longrightarrow> unat p + k \<le> 131072 \<Longrightarrow> length acc + k * 2048 \<le> cache_erase_size \<Longrightarrow>
   \<exists>r bs c'. block_read_loop D p k acc c = Some (r, bs, c') \<and> ok c' \<and> page c' = page c \<and>
     (r = 0 \<longrightarrow> bs = acc @ flash_bytes (flash c) (unat p * 2048) (k * 2048)) \<and> (rel \<longrightarrow> r = 0)"
proof (induction k arbitrary: p acc c)
  case (Suc k)
  have p: "unat p < 131072" and w: "unat (0 :: u32) + unat (2048 :: u32) \<le> 2048"
    using Suc.prems(2) by simp_all
  obtain r bs c1 where 1: "nd_read D p 0 False 2048 c = Some (r, bs, c1)" "ok c1" "flash c1 = flash c" "page c1 = page c"
    "length bs \<le> unat (2048 :: u32)"
    "r = 0 \<Longrightarrow> bs = flash_bytes (flash c) (unat p * 2048 + unat (0 :: u32)) (unat (2048 :: u32))" "rel \<Longrightarrow> r = 0"
    using read_page_flash [OF Suc.prems(1) p w] by blast
  show ?case
  proof (cases "r = 0")
    case True
    then have len: "length bs = 2048"
      using 1(6) by simp
    obtain r' bs' c' where 2: "block_read_loop D (p + 1) k (acc @ bs) c1 = Some (r', bs', c')" "ok c'" "page c' = page c1"
      "r' = 0 \<longrightarrow> bs' = (acc @ bs) @ flash_bytes (flash c1) (unat (p + 1) * 2048) (k * 2048)" "rel \<longrightarrow> r' = 0"
      using Suc.IH [OF 1(2), of "p + 1" "acc @ bs"] Suc.prems(2,3) next_page [OF p] len by auto
    have "flash_bytes (flash c) (unat p * 2048) (Suc k * 2048) =
        flash_bytes (flash c) (unat p * 2048) 2048 @ flash_bytes (flash c) (unat (p + 1) * 2048) (k * 2048)"
      using flash_bytes_append [of "flash c" "unat p * 2048" 2048 "k * 2048"]
      unfolding next_page [OF p] by (simp add: add.commute)
    with True 1 2 len Suc.prems(3) show ?thesis
      by (simp add: geometry)
  next
    case False
    with 1 Suc.prems(3) show ?thesis
      by (auto simp: geometry)
  qed
qed simp

lemma block_write_loop_effect:
  "ok c \<Longrightarrow> unat p + k \<le> 131072 \<Longrightarrow> (\<forall>q. unat p \<le> q \<and> q < unat p + k \<longrightarrow> q \<in> solid) \<Longrightarrow> k * 2048 \<le> length buf \<Longrightarrow>
   \<exists>r c'. block_write_loop D p k buf c = Some (r, c') \<and> ok c' \<and>
     (\<forall>x. \<not> (unat p \<le> x div 2048 \<and> x div 2048 < unat p + k) \<longrightarrow> flash c' x = flash c x) \<and>
     (r = 0 \<longrightarrow> flash c' = prog (unat p * 2048) (take (k * 2048) buf) (flash c)) \<and> (rel \<longrightarrow> r = 0)"
proof (induction k arbitrary: p buf c)
  case (Suc k)
  have p: "unat p < 131072" "unat p \<in> solid" and w: "unat (0 :: u32) + unat (2048 :: u32) \<le> 2048"
      and l: "unat (2048 :: u32) \<le> length buf"
    using Suc.prems(2-4) by simp_all
  obtain r c1 where 1: "nd_write D p 0 (Some buf) 2048 c = Some (r, c1)" "ok c1"
    "\<And>x. x div 2048 \<noteq> unat p \<Longrightarrow> flash c1 x = flash c x"
    "r = 0 \<Longrightarrow> flash c1 = prog (unat p * 2048 + unat (0 :: u32)) (take (unat (2048 :: u32)) buf) (flash c)" "rel \<Longrightarrow> r = 0"
    using write_page_flash [OF Suc.prems(1) p w l] by blast
  show ?case
  proof (cases "r = 0")
    case True
    obtain r' c' where 2: "block_write_loop D (p + 1) k (drop 2048 buf) c1 = Some (r', c')" "ok c'"
      "\<forall>x. \<not> (unat p + 1 \<le> x div 2048 \<and> x div 2048 < unat p + 1 + k) \<longrightarrow> flash c' x = flash c1 x"
      "r' = 0 \<longrightarrow> flash c' = prog ((unat p + 1) * 2048) (take (k * 2048) (drop 2048 buf)) (flash c1)" "rel \<longrightarrow> r' = 0"
    proof -
      have "k * 2048 \<le> length (drop 2048 buf)"
        using Suc.prems(4) by simp
      then show ?thesis
        using that Suc.IH [OF 1(2), of "p + 1" "drop 2048 buf"] Suc.prems(2,3) unfolding next_page [OF p(1)] by fastforce
    qed
    have len: "length (take 2048 buf) = 2048"
      using Suc.prems(4) by simp
    have "prog ((unat p + 1) * 2048) (take (k * 2048) (drop 2048 buf)) (prog (unat p * 2048) (take 2048 buf) (flash c)) =
        prog (unat p * 2048) (take (Suc k * 2048) buf) (flash c)"
      using prog_append [of "unat p * 2048" "take 2048 buf" "take (k * 2048) (drop 2048 buf)" "flash c"] len
      by (simp add: take_add [symmetric] add.commute)
    with True 1 2 show ?thesis
      by (auto simp: geometry)
  next
    case False
    with 1 show ?thesis
      by (auto simp: geometry)
  qed
qed simp

text \<open>The erase of the bytes of one block, by read, erase and write back unless the block is covered.\<close>

lemma nand_erase_part_effect:
  assumes "ok c" and "unat p < 131072" and al: "unat p mod 64 = 0" and "unat p \<in> solid"
    and rng: "unat off + unat len \<le> 131072"
  obtains r c' where "nand_erase_part D p off len c = Some (r, c')" "ok c'"
    "\<And>x. x div 131072 \<noteq> unat p div 64 \<Longrightarrow> flash c' x = flash c x"
    "r = 0 \<Longrightarrow> flash c' = wiped (unat p * 2048 + unat off) (unat len) (flash c)" "rel \<Longrightarrow> r = 0"
proof -
  let ?b = "unat p * 2048"
  have blk: "unat p div 64 * 64 = unat p"
    using al div_mult_mod_eq [of "unat p" 64] by simp
  have p64: "unat p + 64 \<le> 131072"
  proof -
    have "unat p div 64 < 2048"
      using assms(2) by (intro less_mult_imp_div_less) simp
    with blk show ?thesis by linarith
  qed
  have in_blk: "x div 131072 = unat p div 64 \<longleftrightarrow> ?b \<le> x \<and> x < ?b + 131072" for x
  proof -
    have eq: "unat p div 64 * 131072 = ?b"
      using blk by linarith
    show ?thesis
      unfolding div_iff [OF zero_less_numeral] eq by (rule refl)
  qed
  obtain r1 buf c1 where 1: "block_read_loop D p 64 [] c = Some (r1, buf, c1)" "ok c1" "page c1 = page c"
    "r1 = 0 \<longrightarrow> buf = [] @ flash_bytes (flash c) ?b (64 * 2048)" "rel \<longrightarrow> r1 = 0"
    using block_read_loop_effect [OF assms(1) p64, of "[]"] by (auto simp: cache_erase_size_def)
  show thesis
  proof (cases "r1 = 0")
    case False
    with 1 show thesis
      by (intro that [of "-1" c1]) (auto simp: nand_erase_part_def geometry Let_def)
  next
    case read: True
    obtain r2 c2 where 2: "nd_erase D p c1 = Some (r2, c2)" "ok c2"
      "\<forall>q. q div 64 \<noteq> unat p div 64 \<longrightarrow> page c2 q = page c1 q"
      "r2 = 0 \<longrightarrow> (\<forall>q. q div 64 = unat p div 64 \<longrightarrow> page c2 q = blank_page)" "rel \<longrightarrow> r2 = 0"
      using erase_page [OF 1(2) assms(2,4)] by blast
    have out2: "flash c2 x = flash c x" if "x div 131072 \<noteq> unat p div 64" for x
      using 2(3) that 1(3) by (simp add: flash_of_def div_mult2_eq [of x 2048 64, simplified])
    show thesis
    proof (cases "r2 = 0")
      case False
      with 1 2 out2 read show thesis
        by (intro that [of "-1" c2]) (auto simp: nand_erase_part_def geometry Let_def)
    next
      case erase: True
      have ff: "flash c2 x = erased" if "x div 131072 = unat p div 64" for x
        using 2(4) erase that by (simp add: flash_of_def blank_page_def div_mult2_eq [of x 2048 64, simplified])
      define cache where "cache = patch (unat off) (replicate (unat len) erased) (flash_bytes (flash c) ?b 131072)"
      have len_cache: "length cache = 131072"
        using rng by (simp add: cache_def)
      have sol: "\<forall>q. unat p \<le> q \<and> q < unat p + 64 \<longrightarrow> q \<in> solid"
      proof (intro allI impI)
        fix q assume "unat p \<le> q \<and> q < unat p + 64"
        then have "q div 64 = unat p div 64"
          unfolding div_iff [OF zero_less_numeral] blk by simp
        with solid_block [OF assms(4)] show "q \<in> solid"
          by simp
      qed
      obtain r3 c3 where 3: "block_write_loop D p 64 cache c2 = Some (r3, c3)" "ok c3"
        "\<forall>x. \<not> (unat p \<le> x div 2048 \<and> x div 2048 < unat p + 64) \<longrightarrow> flash c3 x = flash c2 x"
        "r3 = 0 \<longrightarrow> flash c3 = prog ?b (take (64 * 2048) cache) (flash c2)" "rel \<longrightarrow> r3 = 0"
        using block_write_loop_effect [OF 2(2) p64 sol, of cache] len_cache by auto
      have run: "nand_erase_part D p off len c = Some (r3, c3)"
        using 1(1,4) 2(1) 3(1) read erase rng
        by (simp add: nand_erase_part_def geometry Let_def cache_erase_size_def cache_def)
      have out3: "flash c3 x = flash c x" if "x div 131072 \<noteq> unat p div 64" for x
      proof -
        have "\<not> (unat p \<le> x div 2048 \<and> x div 2048 < unat p + 64)"
          using that in_blk [of x] by auto
        with 3(3) out2 [OF that] show ?thesis by simp
      qed
      have "flash c3 x = wiped (?b + unat off) (unat len) (flash c) x" if "r3 = 0" for x
      proof (cases "x div 131072 = unat p div 64")
        case True
        then have x: "?b \<le> x" "x < ?b + 131072"
          by (simp_all add: in_blk)
        have "flash c3 x = cache ! (x - ?b)"
          using 3(4) that x len_cache ff [OF True] by (simp add: prog_def)
        also have "\<dots> = wiped (?b + unat off) (unat len) (flash c) x"
          using x rng by (auto simp: cache_def nth_patch wiped_def)
        finally show ?thesis .
      next
        case False
        then show ?thesis
          using out3 [OF False] in_blk [of x] rng by (auto simp: wiped_def)
      qed
      then show thesis
        using run 3(2,5) out3 by (intro that [of r3 c3]) auto
    qed
  qed
qed

text \<open>One turn of the loop, and the loop.\<close>

lemma erase_length_unat:
  "unat (s + off) \<le> unat ee \<Longrightarrow> unat (s + off) \<le> unat t \<Longrightarrow>
   unat (erase_length ee s t off) = min (unat ee) (unat t) - unat (s + off)"
  by (auto simp: erase_length_def word_less_nat_alt word_le_nat_alt unat_sub_le simp del: add_diff_eq)

lemma nand_erase_block_effect:
  fixes a e :: nat and blk es ee :: u32
  assumes "ok c" and a: "unat es = a" and e: "unat ee = e" and e_bound: "e \<le> 2 ^ 28"
    and lo: "a < (unat blk + 1) * 131072" and hi: "unat blk * 131072 < e" and "a < e"
    and sol: "unat blk * 64 \<in> solid"
  obtains r c' where "nand_erase_block D es ee blk c = Some (r, c')" "ok c'"
    "\<And>x. x div 131072 \<noteq> unat blk \<Longrightarrow> flash c' x = flash c x"
    "r = 0 \<Longrightarrow> \<forall>x. flash c' x = (if x div 131072 = unat blk \<and> a \<le> x \<and> x < e then erased else flash c x)" "rel \<Longrightarrow> r = 0"
proof -
  let ?k = "unat blk" and ?s = "blk * 131072" and ?t = "blk * 131072 + 131072"
  have k: "?k < 2048"
    using hi e_bound by simp
  have us: "unat ?s = ?k * 131072" "unat ?t = (?k + 1) * 131072" "unat (blk * 64) = ?k * 64"
    using k by (simp_all add: unat_mult_no_wrap unat_add_no_wrap)
  define off where "off = erase_offset es ?s"
  have off: "unat off = a - ?k * 131072"
    using us a by (auto simp: off_def erase_offset_def word_less_nat_alt unat_sub_le word_le_nat_alt)
  have so: "unat (?s + off) = max a (?k * 131072)"
    using off us(1) lo k by (subst unat_add_no_wrap) auto
  define len where "len = erase_length ee ?s ?t off"
  have len: "unat len = min e ((?k + 1) * 131072) - max a (?k * 131072)"
    unfolding len_def using so us(2) e lo hi \<open>a < e\<close> by (subst erase_length_unat) (simp_all add: add.commute)
  have rng: "unat off + unat len \<le> 131072"
    unfolding off len using lo by (cases "a \<le> ?k * 131072") (auto simp: max_def min_def)
  have wiped: "wiped (?k * 131072 + unat off) (unat len) f x =
      (if x div 131072 = ?k \<and> a \<le> x \<and> x < e then erased else f x)" for f x
    unfolding wiped_def div_iff [OF zero_less_numeral] off len using lo hi \<open>a < e\<close> by (auto simp: max_def min_def)
  have pg: "unat (blk * 64) < 131072" "unat (blk * 64) mod 64 = 0" "unat (blk * 64) \<in> solid" "unat (blk * 64) div 64 = ?k"
    "unat (blk * 64) * 2048 = ?k * 131072"
    using k sol by (simp_all add: us(3))
  show thesis
  proof (cases "off = 0 \<and> len = 131072")
    case True
    obtain r c' where 1: "nd_erase D (blk * 64) c = Some (r, c')" "ok c'"
      "\<forall>q. q div 64 \<noteq> ?k \<longrightarrow> page c' q = page c q" "r = 0 \<longrightarrow> (\<forall>q. q div 64 = ?k \<longrightarrow> page c' q = blank_page)" "rel \<longrightarrow> r = 0"
      using erase_page [OF assms(1) pg(1,3)] by (auto simp: pg(4))
    have covered: "a \<le> x \<and> x < e" if "x div 131072 = ?k" for x
    proof -
      have "?k * 131072 \<le> x" "x < ?k * 131072 + 131072"
        using that unfolding div_iff [OF zero_less_numeral] by simp_all
      moreover have le: "a \<le> ?k * 131072"
        using True off by simp
      moreover have "min e ((?k + 1) * 131072) - ?k * 131072 = 131072"
        using True len le by (simp add: max_absorb2)
      then have "?k * 131072 + 131072 \<le> e"
        by (simp add: min_def split: if_splits)
      ultimately show ?thesis by simp
    qed
    have out: "flash c' x = flash c x" if "x div 131072 \<noteq> ?k" for x
      using 1(3) that by (simp add: flash_of_def div_mult2_eq [of x 2048 64, simplified])
    have ins: "flash c' x = erased" if "r = 0" "x div 131072 = ?k" for x
      using 1(4) that by (simp add: flash_of_def blank_page_def div_mult2_eq [of x 2048 64, simplified])
    show thesis
    proof (rule that [of "if r \<noteq> 0 then -1 else 0" c'])
      show "nand_erase_block D es ee blk c = Some (if r \<noteq> 0 then -1 else 0, c')"
      proof -
        have "erase_length ee ?s ?t 0 = 131072"
          using True len_def by metis
        then show ?thesis
          using True 1(1) by (simp add: nand_erase_block_def geometry Let_def off_def [symmetric])
      qed
      show "flash c' x = flash c x" if "x div 131072 \<noteq> ?k" for x
        by (rule out [OF that])
      show "\<forall>x. flash c' x = (if x div 131072 = ?k \<and> a \<le> x \<and> x < e then erased else flash c x)"
        if "(if r \<noteq> 0 then -1 else 0) = (0 :: int)"
        using that ins out covered by (metis zero_neq_neg_one)
    qed (use 1 in auto)
  next
    case False
    obtain r c' where 1: "nand_erase_part D (blk * 64) off len c = Some (r, c')" "ok c'"
      "\<And>x. x div 131072 \<noteq> ?k \<Longrightarrow> flash c' x = flash c x"
      "r = 0 \<Longrightarrow> flash c' = wiped (?k * 131072 + unat off) (unat len) (flash c)" "rel \<Longrightarrow> r = 0"
      by (rule nand_erase_part_effect [OF assms(1) pg(1-3) rng]) (simp add: pg(4,5))
    show thesis
    proof (rule that [OF _ 1(2,3)])
      show "nand_erase_block D es ee blk c = Some (r, c')"
        using False 1(1) by (auto simp: nand_erase_block_def geometry Let_def off_def [symmetric] len_def)
    qed (use 1 in \<open>auto simp: wiped\<close>)
  qed
qed

lemma nand_erase_loop_effect:
  fixes a e :: nat and blk es ee lb :: u32
  assumes a: "unat es = a" and e: "unat ee = e" and e_bound: "e \<le> 2 ^ 28" and ae: "a < e"
    and lb: "unat lb = (e - 1) div 131072"
    and sol: "\<And>k. a div 131072 \<le> k \<Longrightarrow> k \<le> (e - 1) div 131072 \<Longrightarrow> k * 64 \<in> solid"
  shows "ok c \<Longrightarrow> a div 131072 \<le> unat blk \<Longrightarrow> unat blk \<le> unat lb + 1 \<Longrightarrow>
   \<exists>r c'. nand_erase_loop D es ee blk lb c = Some (r, c') \<and> ok c' \<and>
     (\<forall>x. \<not> touches 131072 a (e - a) x \<longrightarrow> flash c' x = flash c x) \<and>
     (r = 0 \<longrightarrow> (\<forall>x. flash c' x = (if unat blk \<le> x div 131072 \<and> a \<le> x \<and> x < e then erased else flash c x))) \<and>
     (rel \<longrightarrow> r = 0)"
proof (induction "unat lb + 1 - unat blk" arbitrary: blk c)
  case 0
  then have gt: "blk > lb"
    by (simp add: word_less_nat_alt)
  have "\<not> (unat blk \<le> x div 131072 \<and> a \<le> x \<and> x < e)" for x
  proof
    assume "unat blk \<le> x div 131072 \<and> a \<le> x \<and> x < e"
    moreover from this have "x div 131072 \<le> (e - 1) div 131072"
      by (intro div_le_mono) auto
    ultimately show False
      using 0(1,4) lb by simp
  qed
  then have "(if unat blk \<le> x div 131072 \<and> a \<le> x \<and> x < e then erased else flash c x) = flash c x" for x
    by meson
  with gt 0 show ?case
    by (simp add: nand_erase_loop.simps del: if_split)
next
  case (Suc m)
  let ?k = "unat blk"
  have le: "?k \<le> (e - 1) div 131072" and nlt: "\<not> blk > lb"
    using Suc(2) lb by (simp_all add: word_less_nat_alt)
  have kb: "?k < 2048"
  proof -
    have "(e - 1) div 131072 < 2048"
      using e_bound ae by (intro less_mult_imp_div_less) simp
    with le show ?thesis by simp
  qed
  have lo: "a < (?k + 1) * 131072"
    using Suc.prems(2) dividend_less_div_times [of 131072 a] mult_le_mono1 [OF Suc.prems(2), of 131072]
    by (simp add: algebra_simps)
  have hi: "?k * 131072 < e"
  proof -
    have "?k * 131072 \<le> (e - 1) div 131072 * 131072"
      using le by (rule mult_le_mono1)
    also have "\<dots> \<le> e - 1"
      by simp
    finally show ?thesis
      using ae by simp
  qed
  obtain r c1 where 1: "nand_erase_block D es ee blk c = Some (r, c1)" "ok c1"
    "\<And>x. x div 131072 \<noteq> ?k \<Longrightarrow> flash c1 x = flash c x"
    "r = 0 \<Longrightarrow> \<forall>x. flash c1 x = (if x div 131072 = ?k \<and> a \<le> x \<and> x < e then erased else flash c x)" "rel \<Longrightarrow> r = 0"
    by (rule nand_erase_block_effect [OF Suc.prems(1) a e e_bound lo hi ae sol [OF Suc.prems(2) le]]) blast
  have frame: "flash c1 x = flash c x" if "\<not> touches 131072 a (e - a) x" for x
    using that touches_block [of 131072 a e x] ae Suc.prems(2) le by (intro 1(3)) auto
  show ?case
  proof (cases "r = 0")
    case False
    then have "nand_erase_loop D es ee blk lb c = Some (-1, c1)"
      using nlt 1(1) by (simp add: nand_erase_loop.simps)
    with False 1(2,5) frame show ?thesis by auto
  next
    case True
    have nk: "unat (blk + 1) = ?k + 1"
      using kb by (simp add: unat_add_no_wrap)
    have step: "nand_erase_loop D es ee blk lb c = nand_erase_loop D es ee (blk + 1) lb c1"
      using nlt 1(1) True by (subst nand_erase_loop.simps) simp
    obtain r' c' where 2: "nand_erase_loop D es ee (blk + 1) lb c1 = Some (r', c')" "ok c'"
      "\<forall>x. \<not> touches 131072 a (e - a) x \<longrightarrow> flash c' x = flash c1 x"
      "r' = 0 \<longrightarrow> (\<forall>x. flash c' x = (if ?k + 1 \<le> x div 131072 \<and> a \<le> x \<and> x < e then erased else flash c1 x))"
      "rel \<longrightarrow> r' = 0"
    proof -
      have m: "m = unat lb + 1 - unat (blk + 1)" "unat (blk + 1) \<le> unat lb + 1" "a div 131072 \<le> unat (blk + 1)"
        using Suc(2) Suc.prems(2) le lb unfolding nk by linarith+
      from Suc(1) [OF m(1) 1(2) m(3,2)] that show ?thesis
        unfolding nk by blast
    qed
    have "flash c' x = (if ?k \<le> x div 131072 \<and> a \<le> x \<and> x < e then erased else flash c x)" if "r' = 0" for x
    proof (cases "x div 131072 = ?k")
      case True
      then show ?thesis
        using 2(4) that 1(4) [OF \<open>r = 0\<close>] by simp
    next
      case False
      then show ?thesis
        using 2(4) that 1(3) [OF False] by auto
    qed
    with 2 step frame show ?thesis by auto
  qed
qed

text \<open>A write looks only at the bytes it was given the length for.\<close>

lemma nand_write_loop_prefix:
  "unat off < 2048 \<Longrightarrow> unat n \<le> length buf \<Longrightarrow>
   nand_write_loop D p off n buf c = nand_write_loop D p off n (take (unat n) buf) c"
proof (induction "unat n" arbitrary: n p off buf c rule: less_induct)
  case less
  show ?case
  proof (cases "n = 0")
    case True
    then show ?thesis
      by (simp add: nand_write_loop.simps)
  next
    case False
    define more where "more = (off + n > 2048)"
    define k where "k = (if more then 2048 - off else n)"
    have u: "unat (2048 - off) = 2048 - unat off"
      using less.prems(1) by (subst unat_sub_le) (simp_all add: word_le_nat_alt)
    have lt: "2048 < unat off + unat n" if more
    proof (rule ccontr)
      assume "\<not> 2048 < unat off + unat n"
      then have "unat (off + n) = unat off + unat n"
        by (intro unat_add_no_wrap) simp
      with that \<open>\<not> 2048 < unat off + unat n\<close> show False
        by (simp add: more_def word_less_nat_alt)
    qed
    have k: "unat k \<le> unat n" "unat (n - k) = unat n - unat k" "more \<Longrightarrow> unat (n - k) < unat n"
      using lt u less.prems(1) False by (auto simp: k_def unat_sub_le word_le_nat_alt)
    have w: "nd_write D p off (Some buf) k c = nd_write D p off (Some (take (unat n) buf)) k c"
      using write_prefix [of k buf] write_prefix [of k "take (unat n) buf"] k(1) less.prems(2) by (simp add: min_def)
    have r: "nand_write_loop D (p + 1) 0 (n - k) (drop (unat k) buf) c' =
        nand_write_loop D (p + 1) 0 (n - k) (drop (unat k) (take (unat n) buf)) c'" if more for c'
      using less.hyps [OF k(3) [OF that], of 0 "drop (unat k) buf" "p + 1" c'] k(1,2) less.prems(2)
      by (simp add: drop_take)
    have step: "nand_write_loop D p off n b c = do {
          (ret, c) \<leftarrow> nd_write D p off (Some b) k c;
          (if ret \<noteq> 0 then Some (ret, c)
           else if more then nand_write_loop D (p + 1) 0 (n - k) (drop (unat k) b) c else Some (0, c))
        }" for b
      using False by (cases more) (simp_all add: nand_write_loop.simps [of D p off n] geometry Let_def more_def k_def cong: if_cong)
    show ?thesis
      unfolding step w using r by (auto intro!: bind_option_cong)
  qed
qed

section \<open>The functions of the device\<close>

lemma nand_total_value [simp]: "nand_total D = 0x10000000"
  by (simp add: nand_total_def geometry)

lemma device_range:
  fixes addr n :: u32
  assumes "unat addr + unat n \<le> 2 ^ 28"
  shows "\<not> addr + n > 0x10000000" "unat (addr + n) = unat addr + unat n"
proof -
  show "unat (addr + n) = unat addr + unat n"
    using assms by (intro unat_add_no_wrap) simp
  then show "\<not> addr + n > 0x10000000"
    using assms by (simp add: word_less_nat_alt)
qed

lemma partition_nand_read_effect:
  assumes "ok c" and rng: "unat addr + unat n \<le> 2 ^ 28"
  obtains r bs c' where "partition_nand_read D addr False n c = Some (r, bs, c')" "ok c'" "page c' = page c"
    "length bs \<le> unat n" "r = 0 \<Longrightarrow> bs = flash_bytes (flash c) (unat addr) (unat n)" "rel \<Longrightarrow> r = 0"
proof -
  have am: "unat (addr div 2048) = unat addr div 2048" "unat (addr mod 2048) = unat addr mod 2048"
    by (simp_all add: unat_div unat_mod)
  have split: "unat (addr div 2048) * 2048 + unat (addr mod 2048) = unat addr"
    unfolding am by simp
  have "unat (addr mod 2048) < 2048" "unat (addr div 2048) * 2048 + unat (addr mod 2048) + unat n \<le> 2 ^ 28"
    unfolding split using rng by (simp_all add: am)
  from nand_read_loop_effect [OF assms(1) this, of "[]"] show thesis
    unfolding split using device_range [OF rng] that by (auto simp: partition_nand_read_def geometry)
qed

lemma partition_nand_write_effect:
  assumes "ok c" and rng: "unat addr + unat n \<le> 2 ^ 28" and "unat n \<le> length bs"
    and sol: "\<forall>x. unat addr \<le> x \<and> x < unat addr + unat n \<longrightarrow> x div 2048 \<in> solid"
  obtains r c' where "partition_nand_write D addr (Some bs) n c = Some (r, c')" "ok c'"
    "\<And>x. \<not> touches 2048 (unat addr) (unat n) x \<Longrightarrow> flash c' x = flash c x"
    "r = 0 \<Longrightarrow> flash c' = prog (unat addr) (take (unat n) bs) (flash c)" "rel \<Longrightarrow> r = 0"
proof -
  have am: "unat (addr div 2048) = unat addr div 2048" "unat (addr mod 2048) = unat addr mod 2048"
    by (simp_all add: unat_div unat_mod)
  have split: "unat (addr div 2048) * 2048 + unat (addr mod 2048) = unat addr"
    unfolding am by simp
  have "unat (addr mod 2048) < 2048" "unat (addr div 2048) * 2048 + unat (addr mod 2048) + unat n \<le> 2 ^ 28"
    unfolding split using rng by (simp_all add: am)
  from nand_write_loop_effect [OF assms(1) this assms(3), unfolded split, OF sol] show thesis
    using device_range [OF rng] that by (auto simp: partition_nand_write_def geometry)
qed

lemma partition_nand_erase_effect:
  assumes "ok c" and rng: "unat addr + unat n \<le> 2 ^ 28" and pos: "0 < unat n"
    and sol: "\<forall>x. unat addr \<le> x \<and> x < unat addr + unat n \<longrightarrow> x div 2048 \<in> solid"
  obtains r c' where "partition_nand_erase D addr n c = Some (r, c')" "ok c'"
    "\<And>x. \<not> touches 131072 (unat addr) (unat n) x \<Longrightarrow> flash c' x = flash c x"
    "r = 0 \<Longrightarrow> flash c' = wiped (unat addr) (unat n) (flash c)" "rel \<Longrightarrow> r = 0"
proof -
  let ?a = "unat addr" and ?e = "unat addr + unat n"
  note dr = device_range [OF rng]
  have last: "unat ((addr + n - 1) div 131072) = (?e - 1) div 131072"
  proof -
    have "unat (addr + n - 1) = ?e - 1"
      using pos dr(2) by (subst unat_sub_le) (simp_all add: word_le_nat_alt)
    then show ?thesis
      by (simp add: unat_div)
  qed
  have first: "unat (addr div 131072) = ?a div 131072"
    by (simp add: unat_div)
  have blocks: "k * 64 \<in> solid" if "?a div 131072 \<le> k" "k \<le> (?e - 1) div 131072" for k
  proof -
    have "touches 131072 ?a (?e - ?a) (k * 131072)"
      using that pos by (intro touches_block) simp_all
    then obtain y where y: "?a \<le> y" "y < ?e" "y div 131072 = k"
      by (auto simp: touches_def)
    then have "y div 2048 \<in> solid" "y div 2048 div 64 = k"
      using sol by (simp_all add: div_mult2_eq [of y 2048 64, simplified, symmetric])
    then show ?thesis
      using solid_block [of "y div 2048" "k * 64"] by simp
  qed
  have le: "?a div 131072 \<le> (?e - 1) div 131072"
    using pos by (intro div_le_mono) simp
  obtain r c' where l: "nand_erase_loop D addr (addr + n) (addr div 131072) ((addr + n - 1) div 131072) c = Some (r, c')"
    "ok c'" "\<forall>x. \<not> touches 131072 ?a (?e - ?a) x \<longrightarrow> flash c' x = flash c x"
    "r = 0 \<longrightarrow> (\<forall>x. flash c' x = (if unat (addr div 131072) \<le> x div 131072 \<and> ?a \<le> x \<and> x < ?e then erased else flash c x))"
    "rel \<longrightarrow> r = 0"
    using nand_erase_loop_effect [of addr ?a "addr + n" ?e "(addr + n - 1) div 131072" c "addr div 131072"]
      dr(2) rng pos last blocks assms(1) le first by fastforce
  have "flash c' x = wiped ?a (unat n) (flash c) x" if "r = 0" for x
    using l(4) that unfolding first by (auto simp: wiped_def div_le_mono)
  with l dr(1) show thesis
    by (intro that [of r c']) (auto simp: partition_nand_erase_def geometry)
qed

end

end
