(* ===== verification/Nand_Board.thy ===== *)
theory Nand_Board
  imports Nand_Store Ota_Facts
begin

text \<open>
  The board: the table of partitions that \<open>partition_nand_register\<close> builds, and the partition
  manager over the NAND flash as a partition store.  This is where the contract that OTA and boot
  rely on (\<open>ota_store\<close>, \<open>reliable_ota\<close>) is discharged for the code's own functions.
\<close>

section \<open>The table of partitions\<close>

definition board_entry :: "u32 \<Rightarrow> nat \<Rightarrow> string \<times> u32 \<times> u32 \<Rightarrow> part_entry" where
  "board_entry dev i = (\<lambda>(nm, start, sz). \<lparr>pt_name = padded (cstr nm), pt_start = start, pt_size = sz,
     pt_dev = dev, pt_id = word_of_nat i\<rparr>)"

lemma partition_find_entries:
  assumes "tables_wf T" and "name_ok nm"
  shows "partition_find T nm = find_loop (\<lambda>i. take (length nm) (pt_name (entries T ! i)) = nm) 0 (length (entries T))"
  unfolding partition_find_prefix [OF assms] length_entries [OF assms(1)]
  by (rule find_loop_cong) (simp add: nth_entries)

lemma partition_find_None_entries:
  "tables_wf T \<Longrightarrow> name_ok nm \<Longrightarrow> \<forall>e \<in> set (entries T). take (length nm) (pt_name e) \<noteq> nm \<Longrightarrow> partition_find T nm = None"
  by (simp add: partition_find_entries find_loop_None)

lemma partition_register_entries:
  assumes reg: "registry T" and nm: "name_ok (cstr nm)" and room: "unat (part_num T) < 20"
    and dev: "partition_device_find T dn = Some k" and fits: "start + sz \<le> pd_size (dev_table T ! k)"
    and new: "\<forall>e \<in> set (entries T). take (length nm) (pt_name e) \<noteq> cstr nm"
  obtains T' where "partition_register (Some (cstr nm)) (Some dn) start sz T = (PARTITION_OK, T')" "registry T'"
    "entries T' = entries T @ [board_entry (dev_addr T k) (length (entries T)) (nm, start, sz)]"
    "dev_table T' = dev_table T" "dev_num T' = dev_num T" "dev_base T' = dev_base T"
    "unat (part_num T') = unat (part_num T) + 1"
proof -
  note wf = registry_wf [OF reg]
  let ?p = "\<lparr>pt_name = padded (cstr nm), pt_start = start, pt_size = sz, pt_dev = dev_addr T k, pt_id = part_num T\<rparr>"
  let ?T = "T\<lparr>part_table := (part_table T)[unat (part_num T) := ?p], part_num := part_num T + 1\<rparr>"
  have none: "partition_find T (cstr nm) = None"
    using wf nm new by (intro partition_find_None_entries) simp_all
  have ok: "partition_register (Some (cstr nm)) (Some dn) start sz T = (PARTITION_OK, ?T)"
    using reg nm room dev none fits by (intro partition_register_ok) (simp_all add: partition_limits)
  have "registry ?T"
    using registry_register [OF reg nm, of dn start sz] by (simp add: ok)
  moreover have n: "unat (part_num T + 1) = unat (part_num T) + 1"
    using room by (simp add: unat_add_no_wrap)
  moreover have "entries ?T = entries T @ [board_entry (dev_addr T k) (length (entries T)) (nm, start, sz)]"
    using wf room by (simp add: entries_def n tables_wf_def partition_limits board_entry_def take_Suc_conv_app_nth)
  ultimately show thesis
    using ok by (intro that [of ?T]) simp_all
qed

lemma register_all_entries:
  "registry T \<Longrightarrow> partition_device_find T dn = Some k \<Longrightarrow> unat (part_num T) + length ps \<le> 20 \<Longrightarrow>
   (\<forall>(nm, start, sz) \<in> set ps. name_ok (cstr nm) \<and> start + sz \<le> pd_size (dev_table T ! k)) \<Longrightarrow>
   (\<forall>e \<in> set (entries T). \<forall>(nm, x) \<in> set ps. take (length nm) (pt_name e) \<noteq> cstr nm) \<Longrightarrow>
   sorted_wrt (\<lambda>(a, x) (b, y). take (length b) (padded (cstr a)) \<noteq> cstr b) ps \<Longrightarrow>
   \<exists>T'. register_all ps dn ret T = (ret, T') \<and> registry T' \<and> dev_table T' = dev_table T \<and> dev_num T' = dev_num T \<and>
     dev_base T' = dev_base T \<and>
     entries T' = entries T @ map2 (board_entry (dev_addr T k)) [length (entries T)..<length (entries T) + length ps] ps"
proof (induction ps arbitrary: T)
  case (Cons q ps)
  obtain nm start sz where q: "q = (nm, start, sz)"
    by (cases q)
  obtain T1 where 1: "partition_register (Some (cstr nm)) (Some dn) start sz T = (PARTITION_OK, T1)" "registry T1"
    "entries T1 = entries T @ [board_entry (dev_addr T k) (length (entries T)) (nm, start, sz)]"
    "dev_table T1 = dev_table T" "dev_num T1 = dev_num T" "dev_base T1 = dev_base T"
    "unat (part_num T1) = unat (part_num T) + 1"
    by (rule partition_register_entries [OF Cons.prems(1) _ _ Cons.prems(2), of nm start sz])
      (use Cons.prems(3-5) q in auto)
  have addr: "dev_addr T1 k = dev_addr T k"
    by (simp add: dev_addr_def 1(6))
  have find: "partition_device_find T1 dn = Some k"
    using Cons.prems(2) by (simp add: partition_device_find_def dev_mem_def 1(4,5))
  have "\<forall>e \<in> set (entries T1). \<forall>(nm, x) \<in> set ps. take (length nm) (pt_name e) \<noteq> cstr nm"
    using Cons.prems(5,6) q by (auto simp: 1(3) board_entry_def)
  then obtain T' where "register_all ps dn ret T1 = (ret, T')" "registry T'" "dev_table T' = dev_table T1"
    "dev_num T' = dev_num T1" "dev_base T' = dev_base T1"
    "entries T' = entries T1 @ map2 (board_entry (dev_addr T1 k)) [length (entries T1)..<length (entries T1) + length ps] ps"
    using Cons.IH [OF 1(2) find] Cons.prems(3,4,6) 1(4,7) by auto
  then show ?case
    by (simp add: q 1 addr upt_conv_Cons del: upt_Suc)
qed simp

text \<open>The geometry that \<open>nand_init\<close> sets, and the tables after the registration.\<close>

definition board_info :: "spi_nand_info \<Rightarrow> bool" where
  "board_info info \<longleftrightarrow> ni_page_size info = 2048 \<and> ni_pages_per_block info = 64 \<and> ni_blocks_total info = 2048"

definition nand_tables :: "u32 \<Rightarrow> u32 \<Rightarrow> spi_nand_info \<Rightarrow> part_tables" where
  "nand_tables base ops info = snd (nand_register_tables ops info (part_tables_init base))"

lemma layout_names:
  "\<forall>(nm, start, sz) \<in> set nand_layout. name_ok (cstr nm) \<and> start + sz \<le> 0x10000000"
  by (simp add: nand_layout_def name_ok_def cstr_def partition_limits)

lemma layout_distinct:
  "sorted_wrt (\<lambda>(a, x) (b, y). take (length b) (padded (cstr a)) \<noteq> cstr b) nand_layout"
  by (simp add: nand_layout_def padded_def cstr_def)

lemma nand_register_tables_ok:
  assumes "ops \<noteq> 0" and "board_info info"
  shows "\<exists>T. nand_register_tables ops info (part_tables_init base) = (0, T) \<and> registry T \<and>
    entries T = map2 (board_entry base) [0..<6] nand_layout \<and> dev_base T = base \<and>
    dev_table T ! 0 = \<lparr>pd_name = padded (cstr ''nand_flash''), pd_size = 0x10000000, pd_ops = ops, pd_id = 0\<rparr>"
proof -
  have nm: "name_ok (cstr ''nand_flash'')"
    by (simp add: name_ok_def cstr_def partition_limits)
  let ?d = "\<lparr>pd_name = padded (cstr ''nand_flash''), pd_size = 0x10000000, pd_ops = ops, pd_id = 0\<rparr>"
  let ?T = "(part_tables_init base)\<lparr>dev_table := (dev_table (part_tables_init base))[0 := ?d], dev_num := 1\<rparr>"
  have size: "ni_blocks_total info * ni_pages_per_block info * ni_page_size info = 0x10000000"
    using assms(2) by (simp add: board_info_def)
  have reg: "partition_device_register (Some (cstr ''nand_flash'')) ops 0x10000000 (part_tables_init base) = (PARTITION_OK, ?T)"
    using assms(1) by (subst partition_device_register_ok [OF registry_init nm])
      (simp_all add: part_tables_init_def partition_limits partition_device_find_def)
  have T: "registry ?T"
    using registry_device_register [OF registry_init nm, of ops "0x10000000" base] by (simp add: reg)
  have find: "partition_device_find ?T (cstr ''nand_flash'') = Some 0"
    unfolding partition_device_find_prefix [OF registry_wf [OF T] nm] find_loop_Some
    by (simp add: part_tables_init_def padded_def)
  have fresh: "entries ?T = []" "dev_table ?T ! 0 = ?d" "dev_base ?T = base" "part_num ?T = 0" "dev_addr ?T 0 = base"
    by (simp_all add: entries_def part_tables_init_def dev_addr_def)
  have len: "length nand_layout = 6"
    by (simp add: nand_layout_def)
  obtain T' where "register_all nand_layout (cstr ''nand_flash'') 0 ?T = (0, T')" "registry T'" "dev_table T' = dev_table ?T"
    "dev_base T' = dev_base ?T" "entries T' = map2 (board_entry base) [0..<6] nand_layout"
    using register_all_entries [OF T find, of nand_layout 0] layout_names layout_distinct fresh len by auto
  moreover from this(3) have "dev_table T' ! 0 = ?d"
    by (simp only: fresh(2))
  ultimately show ?thesis
    by (simp add: nand_register_tables_def size reg fresh)
qed

lemma find_loop_list:
  assumes "i < length es" and "P (es ! i)" and "\<forall>j < i. \<not> P (es ! j)"
  shows "find_loop (\<lambda>i. P (es ! i)) 0 (length es) = Some i"
  using assms by (simp add: find_loop_Some)

lemma all_less_numeral: "(\<forall>j < numeral k. P j) \<longleftrightarrow> P (pred_numeral k) \<and> (\<forall>j < pred_numeral k. P j)" for P :: "nat \<Rightarrow> bool"
  by (auto simp: numeral_eq_Suc All_less_Suc)

text \<open>Where the partitions of OTA and boot lie: number, first byte, length.\<close>

definition board_place :: "u8 list \<Rightarrow> nat \<times> nat \<times> nat" where
  "board_place nm =
     (if nm = APP1_PART then (2, 0x200000, 0x100000)
      else if nm = APP2_PART then (3, 0x300000, 0x100000)
      else if nm = DOWN_PART then (4, 0x400000, 0x100000)
      else (5, 0x500000, 0x1E000))"

definition board_names :: "u8 list set" where
  "board_names = {DOWN_PART, APP1_PART, APP2_PART, PARA_PART}"

abbreviation "place_no nm \<equiv> fst (board_place nm)"
abbreviation "place_start nm \<equiv> fst (snd (board_place nm))"
abbreviation "place_size nm \<equiv> snd (snd (board_place nm))"

lemma layout_match:
  assumes "nm \<in> board_names"
  shows "take (length nm) (map (\<lambda>(nm, x). padded (cstr nm)) nand_layout ! place_no nm) = nm"
    and "\<forall>j < place_no nm. take (length nm) (map (\<lambda>(nm, x). padded (cstr nm)) nand_layout ! j) \<noteq> nm"
proof -
  consider "nm = APP1_PART" | "nm = APP2_PART" | "nm = DOWN_PART" | "nm = PARA_PART"
    using assms by (auto simp: board_names_def)
  then show "take (length nm) (map (\<lambda>(nm, x). padded (cstr nm)) nand_layout ! place_no nm) = nm"
    by cases (simp_all add: board_place_def nand_layout_def part_name_defs padded_def cstr_def)
  consider "nm = APP1_PART" | "nm = APP2_PART" | "nm = DOWN_PART" | "nm = PARA_PART"
    using assms by (auto simp: board_names_def)
  then show "\<forall>j < place_no nm. take (length nm) (map (\<lambda>(nm, x). padded (cstr nm)) nand_layout ! j) \<noteq> nm"
    by cases (simp_all add: board_place_def nand_layout_def part_name_defs padded_def cstr_def all_less_numeral)
qed

lemma board_find:
  fixes base ops :: u32
  assumes "ops \<noteq> 0" and "board_info info" and "nm \<in> board_names"
  defines "T \<equiv> nand_tables base ops info"
  shows "partition_find T nm = Some (place_no nm)"
    and "unat (pt_start (part_table T ! place_no nm)) = place_start nm"
    and "unat (pt_size (part_table T ! place_no nm)) = place_size nm"
    and "\<exists>d. dev_deref T (pt_dev (part_table T ! place_no nm)) = Some d \<and> pd_ops d = ops"
proof -
  obtain T' where T': "nand_register_tables ops info (part_tables_init base) = (0, T')" "registry T'"
    "entries T' = map2 (board_entry base) [0..<6] nand_layout" "dev_base T' = base"
    "dev_table T' ! 0 = \<lparr>pd_name = padded (cstr ''nand_flash''), pd_size = 0x10000000, pd_ops = ops, pd_id = 0\<rparr>"
    using nand_register_tables_ok [OF assms(1,2), of base] by blast
  have T: "T = T'"
    by (simp add: T_def nand_tables_def T'(1))
  note wf = registry_wf [OF T'(2)]
  have es: "entries T' = [board_entry base 0 (''boot0'', 0 * 2048, 512 * 2048), board_entry base 1 (''boot1'', 512 * 2048, 512 * 2048),
      board_entry base 2 (''APP1'', 1024 * 2048, 512 * 2048), board_entry base 3 (''APP2'', 1536 * 2048, 512 * 2048),
      board_entry base 4 (''Download'', 2048 * 2048, 512 * 2048), board_entry base 5 (''Param'', 2560 * 2048, 60 * 2048)]"
    by (simp add: T'(3) nand_layout_def upt_rec numeral_eq_Suc)
  have n: "unat (part_num T') = 6"
    using length_entries [OF wf] by (simp add: es)
  have nth: "part_table T' ! i = entries T' ! i" if "i < 6" for i
    using that n by (simp add: nth_entries)
  have ok: "name_ok nm"
    using assms(3) by (auto simp: board_names_def part_name_defs name_ok_def cstr_def partition_limits)
  have deref: "dev_deref T' base = Some (dev_table T' ! 0)"
    using dev_deref_addr [OF wf, of 0] T'(4) by (simp add: dev_addr_def partition_limits)
  have pl: "place_no nm < 6" "pt_dev (entries T' ! place_no nm) = base"
    using assms(3) by (auto simp: board_names_def board_place_def es board_entry_def)
  have names: "map pt_name (entries T') = map (\<lambda>(nm, x). padded (cstr nm)) nand_layout"
    by (simp add: es nand_layout_def board_entry_def)
  show "partition_find T nm = Some (place_no nm)"
    unfolding T partition_find_entries [OF wf ok]
  proof (rule find_loop_list)
    show "place_no nm < length (entries T')"
      using pl(1) by (simp add: es)
    have at: "pt_name (entries T' ! i) = map (\<lambda>(nm, x). padded (cstr nm)) nand_layout ! i" if "i < 6" for i
      unfolding names [symmetric] using that by (subst nth_map) (simp_all add: es)
    show "take (length nm) (pt_name (entries T' ! place_no nm)) = nm"
      unfolding at [OF pl(1)] by (rule layout_match(1) [OF assms(3)])
    show "\<forall>j < place_no nm. take (length nm) (pt_name (entries T' ! j)) \<noteq> nm"
      using layout_match(2) [OF assms(3)] at pl(1) by auto
  qed
  show "unat (pt_start (part_table T ! place_no nm)) = place_start nm" "unat (pt_size (part_table T ! place_no nm)) = place_size nm"
    unfolding T nth [OF pl(1)] using assms(3) by (auto simp: board_names_def board_place_def es board_entry_def)
  show "\<exists>d. dev_deref T (pt_dev (part_table T ! place_no nm)) = Some d \<and> pd_ops d = ops"
    unfolding T nth [OF pl(1)] pl(2) by (simp add: deref T'(5))
qed

section \<open>The partition manager over the flash\<close>

definition nand_env :: "u32 \<Rightarrow> 'c nand_dev \<Rightarrow> 'c ops_env" where
  "nand_env ops D = (\<lambda>x. if x = ops then Some (partition_nand_ops D) else None)"

definition board_if :: "u32 \<Rightarrow> u32 \<Rightarrow> 'c nand_dev \<Rightarrow> 'c part_if" where
  "board_if base ops D = partition_if (nand_env ops D) (nand_tables base ops (nd_info D))"

text \<open>The bytes of a partition of the board.\<close>

definition board_cont :: "('c \<Rightarrow> nat \<Rightarrow> u8 list) \<Rightarrow> 'c \<Rightarrow> u8 list \<Rightarrow> u8 list" where
  "board_cont page c nm = flash_bytes (flash_of (page c)) (place_start nm) (place_size nm)"

lemma length_board_cont [simp]: "length (board_cont page c nm) = place_size nm"
  by (simp add: board_cont_def)

lemma place_bounds:
  "place_start nm + place_size nm \<le> 2 ^ 28" "place_size nm \<le> 2 ^ 20" "0 < place_size nm"
  by (simp_all add: board_place_def)

text \<open>The partitions lie in different blocks.\<close>

lemma place_block:
  assumes "place_start nm \<le> x" and "x < place_start nm + place_size nm"
  shows "place_start nm div 131072 \<le> x div 131072 \<and> x div 131072 < place_start nm div 131072 + 8"
proof -
  have "place_start nm + place_size nm \<le> (place_start nm div 131072 + 8) * 131072"
    by (simp add: board_place_def)
  with assms(2) have "x < (place_start nm div 131072 + 8) * 131072"
    by simp
  then show ?thesis
    using assms(1) by (intro conjI div_le_mono less_mult_imp_div_less)
qed

lemma places_apart:
  assumes "nm \<in> board_names" and "m \<in> board_names" and "m \<noteq> nm"
    and "place_start nm \<le> y" and "y < place_start nm + place_size nm"
    and "place_start m \<le> x" and "x < place_start m + place_size m"
  shows "y div 131072 \<noteq> x div 131072"
proof -
  have "place_start nm div 131072 + 8 \<le> place_start m div 131072 \<or> place_start m div 131072 + 8 \<le> place_start nm div 131072"
    using assms(1-3) by (auto simp: board_names_def board_place_def)
  with place_block [OF assms(4,5)] place_block [OF assms(6,7)] show ?thesis
    by linarith
qed

text \<open>The bytes of the flash in the blocks of a partition: all that an access to it may change.\<close>

definition own_block :: "u8 list \<Rightarrow> nat \<Rightarrow> bool" where
  "own_block nm x \<longleftrightarrow> touches 131072 (place_start nm) (place_size nm) x"

lemma touches_own_block:
  assumes "place_start nm \<le> a" and "a + n \<le> place_start nm + place_size nm" and "B = 2048 \<or> B = 131072"
    and "touches B a n x"
  shows "own_block nm x"
proof -
  obtain y where y: "a \<le> y" "y < a + n" "y div B = x div B"
    using assms(4) by (auto simp: touches_def)
  then have "y div 131072 = x div 131072"
    using assms(3) div_mult2_eq [of y 2048 64] div_mult2_eq [of x 2048 64] by auto
  then show ?thesis
    unfolding own_block_def using y assms(1,2) by (intro touchesI [of _ y]) simp_all
qed

lemma cont_other:
  assumes "nm \<in> board_names" and "m \<in> board_names" and "m \<noteq> nm"
    and same: "\<And>x. \<not> own_block nm x \<Longrightarrow> flash_of (page c') x = flash_of (page c) x"
  shows "board_cont page c' m = board_cont page c m"
  unfolding board_cont_def
proof (rule flash_bytes_cong)
  fix x assume x: "place_start m \<le> x" "x < place_start m + place_size m"
  have "\<not> own_block nm x"
    using places_apart [OF assms(1-3) _ _ x] by (auto simp: own_block_def touches_def)
  then show "flash_of (page c') x = flash_of (page c) x"
    by (rule same)
qed

lemma cont_prog:
  assumes "off + length bs \<le> place_size nm" and "flash_of (page c') = prog (place_start nm + off) bs (flash_of (page c))"
    and "bslice off (length bs) (board_cont page c nm) = replicate (length bs) erased"
  shows "board_cont page c' nm = patch off bs (board_cont page c nm)"
proof -
  have "flash_bytes (flash_of (page c)) (place_start nm + off) (length bs) = replicate (length bs) erased"
    using assms(1,3) by (simp add: board_cont_def bslice_flash_bytes)
  then show ?thesis
    using assms(1) by (simp add: board_cont_def assms(2) prog_flash_bytes map2_and_erased)
qed

lemma cont_wiped:
  assumes "off + n \<le> place_size nm" and "flash_of (page c') = wiped (place_start nm + off) n (flash_of (page c))"
  shows "board_cont page c' nm = patch off (replicate n erased) (board_cont page c nm)"
  using assms by (simp add: board_cont_def wiped_flash_bytes)

locale board_nand = nand_pages +
  fixes base ops :: u32
  assumes ops_address: "ops \<noteq> 0" and board_solid: "1024 \<le> q \<Longrightarrow> q < 2624 \<Longrightarrow> q \<in> solid"

context board_nand
begin

abbreviation "PT \<equiv> nand_tables base ops (nd_info D)"

lemma info: "board_info (nd_info D)"
  by (simp add: board_info_def geometry)

lemma env: "nand_env ops D ops = Some (partition_nand_ops D)"
  by (simp add: nand_env_def)

lemma place_solid:
  assumes "place_start nm \<le> x" and "x < place_start nm + place_size nm"
  shows "x div 2048 \<in> solid"
proof (rule board_solid)
  have "2097152 \<le> place_start nm" "place_start nm + place_size nm \<le> 2624 * 2048"
    by (simp_all add: board_place_def)
  then show "1024 \<le> x div 2048" "x div 2048 < 2624"
    using assms div_le_mono [of 2097152 x 2048] by (simp_all add: less_mult_imp_div_less)
qed

lemma board_ops:
  assumes nm: "nm \<in> board_names"
  shows board_read: "if_read (board_if base ops D) nm nul off n c =
      (if nul then Some (-1, [], c)
       else if off + n > word_of_nat (place_size nm) then Some (-2, [], c)
       else partition_nand_read D (word_of_nat (place_start nm) + off) False n c)"
    and board_write: "if_write (board_if base ops D) nm bs off n c =
      (if off + n > word_of_nat (place_size nm) then Some (-2, c)
       else partition_nand_write D (word_of_nat (place_start nm) + off) (Some bs) n c)"
    and board_erase: "if_erase (board_if base ops D) nm off n c =
      (if off + n > word_of_nat (place_size nm) then Some (-2, c)
       else partition_nand_erase D (word_of_nat (place_start nm) + off) n c)"
    and board_erase_all: "if_erase_all (board_if base ops D) nm c =
      partition_nand_erase D (word_of_nat (place_start nm)) (word_of_nat (place_size nm)) c"
proof -
  note b = board_find [OF ops_address info nm, of base]
  obtain d where d: "dev_deref PT (pt_dev (part_table PT ! place_no nm)) = Some d" "pd_ops d = ops"
    using b(4) by blast
  have e: "nand_env ops D (pd_ops d) = Some (partition_nand_ops D)"
    by (simp add: d(2) env)
  have st: "pt_start (part_table PT ! place_no nm) = word_of_nat (place_start nm)"
    "pt_size (part_table PT ! place_no nm) = word_of_nat (place_size nm)"
    unfolding b(2,3) [symmetric] by simp_all
  note eqs = partition_access_eqs [of PT nm "place_no nm" d "nand_env ops D" "partition_nand_ops D", OF b(1) d(1) e]
  show "if_read (board_if base ops D) nm nul off n c =
      (if nul then Some (-1, [], c)
       else if off + n > word_of_nat (place_size nm) then Some (-2, [], c)
       else partition_nand_read D (word_of_nat (place_start nm) + off) False n c)"
    using eqs(1) by (cases nul) (simp_all add: board_if_def partition_if_def partition_nand_ops_def st partition_read_def)
  show "if_write (board_if base ops D) nm bs off n c =
      (if off + n > word_of_nat (place_size nm) then Some (-2, c)
       else partition_nand_write D (word_of_nat (place_start nm) + off) (Some bs) n c)"
    using eqs(2) by (simp add: board_if_def partition_if_def partition_nand_ops_def st)
  show "if_erase (board_if base ops D) nm off n c =
      (if off + n > word_of_nat (place_size nm) then Some (-2, c)
       else partition_nand_erase D (word_of_nat (place_start nm) + off) n c)"
    using eqs(3) by (simp add: board_if_def partition_if_def partition_nand_ops_def st)
  show "if_erase_all (board_if base ops D) nm c =
      partition_nand_erase D (word_of_nat (place_start nm)) (word_of_nat (place_size nm)) c"
    using eqs(4) by (simp add: board_if_def partition_if_def partition_nand_ops_def st)
qed

lemma place_words [simp]:
  "unat (word_of_nat (place_start nm) :: u32) = place_start nm" "unat (word_of_nat (place_size nm) :: u32) = place_size nm"
  by (simp_all add: board_place_def)

lemma place_range:
  fixes off n :: u32
  assumes "unat off + unat n < 2 ^ 32"
  shows "off + n > word_of_nat (place_size nm) \<longleftrightarrow> place_size nm < unat off + unat n"
    and "unat off + unat n \<le> place_size nm \<Longrightarrow> unat (word_of_nat (place_start nm) + off) = place_start nm + unat off"
proof -
  show "off + n > word_of_nat (place_size nm) \<longleftrightarrow> place_size nm < unat off + unat n"
    using assms by (simp add: word_less_nat_alt unat_add_no_wrap)
  show "unat (word_of_nat (place_start nm) + off) = place_start nm + unat off" if "unat off + unat n \<le> place_size nm"
    using that place_bounds [of nm] by (subst unat_add_no_wrap) simp_all
qed

lemma board_read_effect:
  assumes "ok c" and "nm \<in> board_names" and nw: "unat off + unat n < 2 ^ 32"
  obtains r bs c' where "if_read (board_if base ops D) nm False off n c = Some (r, bs, c')" "ok c'"
    "page c' = page c" "length bs \<le> unat n"
    "r = 0 \<Longrightarrow> unat off + unat n \<le> place_size nm \<and> bs = bslice (unat off) (unat n) (board_cont page c nm)"
    "rel \<Longrightarrow> unat off + unat n \<le> place_size nm \<Longrightarrow> r = 0"
proof (cases "unat off + unat n \<le> place_size nm")
  case True
  have rng: "unat (word_of_nat (place_start nm) + off) + unat n \<le> 2 ^ 28"
    using place_range(2) [OF nw True] True place_bounds(1) [of nm] by simp
  obtain r bs c' where 1: "partition_nand_read D (word_of_nat (place_start nm) + off) False n c = Some (r, bs, c')" "ok c'"
    "page c' = page c" "length bs \<le> unat n"
    "r = 0 \<Longrightarrow> bs = flash_bytes (flash c) (unat (word_of_nat (place_start nm) + off)) (unat n)" "rel \<Longrightarrow> r = 0"
    by (rule partition_nand_read_effect [OF assms(1) rng]) blast
  show thesis
  proof (rule that [OF _ 1(2)])
    show "if_read (board_if base ops D) nm False off n c = Some (r, bs, c')"
      using True 1(1) by (simp add: board_read [OF assms(2)] place_range(1) [OF nw])
    show "unat off + unat n \<le> place_size nm \<and> bs = bslice (unat off) (unat n) (board_cont page c nm)" if "r = 0"
      using 1(5) [OF that] True by (simp add: board_cont_def bslice_flash_bytes place_range(2) [OF nw True])
  qed (use 1 in \<open>simp_all add: board_cont_def\<close>)
next
  case False
  then show thesis
    using that [of "-2" "[]" c] assms(1) by (simp add: board_read [OF assms(2)] place_range(1) [OF nw])
qed

lemma board_write_effect:
  assumes "ok c" and "nm \<in> board_names" and nw: "unat off + unat n < 2 ^ 32" and "unat n \<le> length bs"
  obtains r c' where "if_write (board_if base ops D) nm bs off n c = Some (r, c')" "ok c'"
    "\<And>x. \<not> own_block nm x \<Longrightarrow> flash c' x = flash c x"
    "r = 0 \<Longrightarrow> unat off + unat n \<le> place_size nm \<and>
       (bslice (unat off) (unat n) (board_cont page c nm) = replicate (unat n) erased \<longrightarrow>
        board_cont page c' nm = patch (unat off) (take (unat n) bs) (board_cont page c nm))"
    "rel \<Longrightarrow> unat off + unat n \<le> place_size nm \<Longrightarrow> r = 0"
proof (cases "unat off + unat n \<le> place_size nm")
  case True
  let ?a = "word_of_nat (place_start nm) + off"
  note ua = place_range(2) [OF nw True]
  have rng: "unat ?a + unat n \<le> 2 ^ 28"
    using ua True place_bounds(1) [of nm] by simp
  have sol: "\<forall>x. unat ?a \<le> x \<and> x < unat ?a + unat n \<longrightarrow> x div 2048 \<in> solid"
    using True by (auto simp: ua intro!: place_solid [of nm])
  obtain r c' where 1: "partition_nand_write D ?a (Some bs) n c = Some (r, c')" "ok c'"
    "\<And>x. \<not> touches 2048 (unat ?a) (unat n) x \<Longrightarrow> flash c' x = flash c x"
    "r = 0 \<Longrightarrow> flash c' = prog (unat ?a) (take (unat n) bs) (flash c)" "rel \<Longrightarrow> r = 0"
    by (rule partition_nand_write_effect [OF assms(1) rng assms(4) sol]) blast
  show thesis
  proof (rule that [OF _ 1(2)])
    show "if_write (board_if base ops D) nm bs off n c = Some (r, c')"
      using True 1(1) by (simp add: board_write [OF assms(2)] place_range(1) [OF nw])
    show "flash c' x = flash c x" if "\<not> own_block nm x" for x
      using that touches_own_block [of nm "unat ?a" "unat n" 2048 x] True by (intro 1(3)) (auto simp: ua)
    show "unat off + unat n \<le> place_size nm \<and>
       (bslice (unat off) (unat n) (board_cont page c nm) = replicate (unat n) erased \<longrightarrow>
        board_cont page c' nm = patch (unat off) (take (unat n) bs) (board_cont page c nm))" if "r = 0"
      using cont_prog [of "unat off" "take (unat n) bs" nm page c' c] True assms(4) 1(4) [OF that] by (simp add: ua min_def)
  qed (use 1 in simp_all)
next
  case False
  then show thesis
    using that [of "-2" c] assms(1) by (simp add: board_write [OF assms(2)] place_range(1) [OF nw])
qed

lemma board_wipe_effect:
  assumes "ok c" and "nm \<in> board_names" and "unat off + unat n \<le> place_size nm" and "0 < unat n"
  obtains r c' where "partition_nand_erase D (word_of_nat (place_start nm) + off) n c = Some (r, c')" "ok c'"
    "\<And>x. \<not> own_block nm x \<Longrightarrow> flash c' x = flash c x"
    "r = 0 \<Longrightarrow> board_cont page c' nm = patch (unat off) (replicate (unat n) erased) (board_cont page c nm)"
    "rel \<Longrightarrow> r = 0"
proof -
  let ?a = "word_of_nat (place_start nm) + off"
  have nw: "unat off + unat n < 2 ^ 32"
    using assms(3) place_bounds(2) [of nm] by simp
  note ua = place_range(2) [OF nw assms(3)]
  have rng: "unat ?a + unat n \<le> 2 ^ 28"
    using ua assms(3) place_bounds(1) [of nm] by simp
  have sol: "\<forall>x. unat ?a \<le> x \<and> x < unat ?a + unat n \<longrightarrow> x div 2048 \<in> solid"
    using assms(3) by (auto simp: ua intro!: place_solid [of nm])
  obtain r c' where 1: "partition_nand_erase D ?a n c = Some (r, c')" "ok c'"
    "\<And>x. \<not> touches 131072 (unat ?a) (unat n) x \<Longrightarrow> flash c' x = flash c x"
    "r = 0 \<Longrightarrow> flash c' = wiped (unat ?a) (unat n) (flash c)" "rel \<Longrightarrow> r = 0"
    by (rule partition_nand_erase_effect [OF assms(1) rng assms(4) sol]) blast
  show thesis
  proof (rule that [OF 1(1,2)])
    show "flash c' x = flash c x" if "\<not> own_block nm x" for x
      using that touches_own_block [of nm "unat ?a" "unat n" 131072 x] assms(3) by (intro 1(3)) (auto simp: ua)
    show "board_cont page c' nm = patch (unat off) (replicate (unat n) erased) (board_cont page c nm)" if "r = 0"
      using cont_wiped [of "unat off" "unat n" nm page c' c] assms(3) 1(4) [OF that] by (simp add: ua)
  qed (use 1 in simp)
qed

lemma board_erase_effect:
  assumes "ok c" and "nm \<in> board_names" and nw: "unat off + unat n < 2 ^ 32" and "0 < unat n"
  obtains r c' where "if_erase (board_if base ops D) nm off n c = Some (r, c')" "ok c'"
    "\<And>x. \<not> own_block nm x \<Longrightarrow> flash c' x = flash c x"
    "r = 0 \<Longrightarrow> unat off + unat n \<le> place_size nm \<and>
       board_cont page c' nm = patch (unat off) (replicate (unat n) erased) (board_cont page c nm)"
    "rel \<Longrightarrow> unat off + unat n \<le> place_size nm \<Longrightarrow> r = 0"
proof (cases "unat off + unat n \<le> place_size nm")
  case True
  obtain r c' where "partition_nand_erase D (word_of_nat (place_start nm) + off) n c = Some (r, c')" "ok c'"
    "\<And>x. \<not> own_block nm x \<Longrightarrow> flash c' x = flash c x"
    "r = 0 \<Longrightarrow> board_cont page c' nm = patch (unat off) (replicate (unat n) erased) (board_cont page c nm)"
    "rel \<Longrightarrow> r = 0"
    by (rule board_wipe_effect [OF assms(1,2) True assms(4)]) blast
  with True show thesis
    using that [of r c'] by (simp add: board_erase [OF assms(2)] place_range(1) [OF nw])
next
  case False
  then show thesis
    using that [of "-2" c] assms(1) by (simp add: board_erase [OF assms(2)] place_range(1) [OF nw])
qed

lemma board_erase_all_effect:
  assumes "ok c" and "nm \<in> board_names"
  obtains r c' where "if_erase_all (board_if base ops D) nm c = Some (r, c')" "ok c'"
    "\<And>x. \<not> own_block nm x \<Longrightarrow> flash c' x = flash c x"
    "r = 0 \<Longrightarrow> board_cont page c' nm = replicate (place_size nm) erased" "rel \<Longrightarrow> r = 0"
proof -
  obtain r c' where "partition_nand_erase D (word_of_nat (place_start nm) + 0) (word_of_nat (place_size nm)) c = Some (r, c')" "ok c'"
    "\<And>x. \<not> own_block nm x \<Longrightarrow> flash c' x = flash c x"
    "r = 0 \<Longrightarrow> board_cont page c' nm = patch (unat (0 :: u32)) (replicate (unat (word_of_nat (place_size nm) :: u32)) erased)
       (board_cont page c nm)" "rel \<Longrightarrow> r = 0"
    by (rule board_wipe_effect [OF assms, of 0 "word_of_nat (place_size nm)"]) (use place_bounds(3) [of nm] in auto)
  then show thesis
    using that [of r c'] by (simp add: board_erase_all [OF assms(2)] patch_def)
qed

lemma board_write_prefix:
  "nm \<in> board_names \<Longrightarrow> unat n \<le> length bs \<Longrightarrow>
   if_write (board_if base ops D) nm bs off n c = if_write (board_if base ops D) nm (take (unat n) bs) off n c"
  using nand_write_loop_prefix [of "(word_of_nat (place_start nm) + off) mod 2048" n bs
      "(word_of_nat (place_start nm) + off) div 2048" c]
  by (simp add: board_write partition_nand_write_def geometry unat_mod)

end

sublocale board_nand \<subseteq> store: ota_store "board_if base ops D" ok board_names "board_cont page"
proof (unfold_locales, goal_cases)
  case (1 s nm)
  then show ?case
    using place_bounds(2) [of nm] by simp
next
  case (2 s nm off n nul)
  then show ?case
  proof (cases nul)
    case True
    with 2 show ?thesis
      by (simp add: board_read)
  next
    case False
    with 2 show ?thesis
      by (elim board_read_effect [of s nm off n]) auto
  qed
next
  case (3 s nm off n bs)
  then show ?case
    by (elim board_write_effect [of s nm off n bs]) auto
next
  case (4 s nm off n)
  then show ?case
    by (elim board_erase_effect [of s nm off n]) auto
next
  case (5 s nm)
  then show ?case
    by (elim board_erase_all_effect [of s nm]) auto
next
  case (6 nm n bs off s)
  then show ?case
    by (rule board_write_prefix)
next
  case (7 s nm off n r bs s')
  then show ?case
    by (simp add: board_read)
next
  case (8 s nm off n r bs s')
  then show ?case
    by (elim board_read_effect [of s nm off n]) (auto simp: board_cont_def)
next
  case (9 s nm off n bs r s')
  then show ?case
    by (elim board_write_effect [of s nm off n bs]) (auto intro!: cont_other)
next
  case (10 s nm off n r s')
  then show ?case
    by (elim board_erase_effect [of s nm off n]) (auto intro!: cont_other)
next
  case (11 s nm r s')
  then show ?case
    by (elim board_erase_all_effect [of s nm]) (auto intro!: cont_other)
qed (auto simp: board_names_def)

text \<open>A flash on which no operation on a usable block fails.\<close>

locale reliable_board = board_nand D ok page solid True base ops
  for D :: "'c nand_dev" and ok page solid base ops

sublocale reliable_board \<subseteq> store: reliable_ota "board_if base ops D" ok board_names "board_cont page"
proof (unfold_locales, goal_cases)
  case (1 s nm off n r bs s')
  then have "unat off + unat n < 2 ^ 32"
    using place_bounds(2) [of nm] by simp
  with 1 show ?case
    by (elim board_read_effect [of s nm off n]) auto
next
  case (2 s nm off n bs r s')
  then have "unat off + unat n < 2 ^ 32"
    using place_bounds(2) [of nm] by simp
  with 2 show ?case
    by (elim board_write_effect [of s nm off n bs]) auto
next
  case (3 s nm off n r s')
  then have "unat off + unat n < 2 ^ 32"
    using place_bounds(2) [of nm] by simp
  with 3 show ?case
    by (elim board_erase_effect [of s nm off n]) auto
next
  case (4 s nm r s')
  then show ?case
    by (elim board_erase_all_effect [of s nm]) auto
qed

end
