(* ===== verification/Nand_Chip.thy ===== *)
theory Nand_Chip
  imports Nand_Board
begin

text \<open>
  The flash chip as its data sheet describes it, seen through the SPI bus: a page register, a
  write-enable latch, busy time that passes with every status read, and the two failure bits.  From
  this contract (\<open>nand_chip\<close>) follow the facts about the driver's page operations, and so the
  contract \<open>nand_pages\<close> of the partition device.  A simulated chip shows that the contract can be met.
\<close>

section \<open>The contract of the chip\<close>

record chip_view =
  cv_page :: "nat \<Rightarrow> u8 list"
  cv_reg :: "u8 list"
  cv_wel :: bool
  cv_busy :: nat
  cv_efail :: bool
  cv_pfail :: bool

lemma idle_view [simp]: "cv_busy v = 0 \<Longrightarrow> v\<lparr>cv_busy := 0\<rparr> = v"
  by (cases v) simp

abbreviation "status_msg \<equiv> rx_msg [opcode OPCODE_GET_FEATURE, sr_addr SR_ADDR_STATUS] 2 1"

text \<open>
  Transfers succeed.  \<open>solid\<close> are the pages of the blocks that are neither protected nor worn out;
  programming another page sets the program-failure bit and changes nothing.  \<open>rel\<close> says that
  erasing a solid block never fails.
\<close>

locale nand_chip =
  fixes B :: "'c spi_bus" and ok :: "'c \<Rightarrow> bool" and view :: "'c \<Rightarrow> chip_view" and solid :: "nat set" and rel :: bool
  assumes page_length: "ok c \<Longrightarrow> q < 131072 \<Longrightarrow> length (cv_page (view c) q) = 2048"
    and solid_block: "q \<in> solid \<Longrightarrow> q' div 64 = q div 64 \<Longrightarrow> q' \<in> solid"
    and status: "ok c \<Longrightarrow> \<exists>v c'. bus_transfer B status_msg c = Some (0, [v], c') \<and> ok c' \<and>
      view c' = (view c)\<lparr>cv_busy := cv_busy (view c) - 1\<rparr> \<and> (v AND 0x01 = 0x01 \<longleftrightarrow> 0 < cv_busy (view c)) \<and>
      (cv_busy (view c) = 0 \<longrightarrow> (v AND 0x04 \<noteq> 0 \<longleftrightarrow> cv_efail (view c)) \<and> (v AND 0x08 \<noteq> 0 \<longleftrightarrow> cv_pfail (view c)))"
    and load: "ok c \<Longrightarrow> cv_busy (view c) = 0 \<Longrightarrow> unat p < 131072 \<Longrightarrow>
      \<exists>bs k c'. bus_transfer B (tx_msg (opcode OPCODE_PAGE_READ # addr24 p) 4) c = Some (0, bs, c') \<and> ok c' \<and>
        view c' = (view c)\<lparr>cv_reg := cv_page (view c) (unat p), cv_busy := k\<rparr>"
    and read_cache: "ok c \<Longrightarrow> cv_busy (view c) = 0 \<Longrightarrow> unat off + unat n \<le> 2048 \<Longrightarrow>
      \<exists>c'. bus_transfer B (rx_msg (opcode OPCODE_READ_CACHE # addr16 off @ [0x00]) 4 n) c =
          Some (0, bslice (unat off) (unat n) (cv_reg (view c)), c') \<and> ok c' \<and> view c' = view c"
    and enable: "ok c \<Longrightarrow> cv_busy (view c) = 0 \<Longrightarrow>
      \<exists>bs c'. bus_transfer B (tx_msg [opcode OPCODE_WRITE_ENABLE] 1) c = Some (0, bs, c') \<and> ok c' \<and>
        view c' = (view c)\<lparr>cv_wel := True\<rparr>"
    and program_load: "ok c \<Longrightarrow> cv_busy (view c) = 0 \<Longrightarrow> unat off + unat n \<le> 2048 \<Longrightarrow> unat n \<le> length bs \<Longrightarrow>
      \<exists>k c'. bus_transfer2 B (tx_msg (opcode OPCODE_PROGRAM_LOAD # addr16 off) 3) (tx_msg bs n) c = Some (0, c') \<and> ok c' \<and>
        view c' = (view c)\<lparr>cv_reg := patch (unat off) (take (unat n) bs) blank_page, cv_busy := k\<rparr>"
    and load_prefix: "unat n \<le> length bs \<Longrightarrow>
      bus_transfer2 B m (tx_msg bs n) c = bus_transfer2 B m (tx_msg (take (unat n) bs) n) c"
    and program_exec: "ok c \<Longrightarrow> cv_busy (view c) = 0 \<Longrightarrow> cv_wel (view c) \<Longrightarrow> unat p < 131072 \<Longrightarrow>
      \<exists>bs k c'. bus_transfer B (tx_msg (opcode OPCODE_PROGRAM_EXEC # addr24 p) 4) c = Some (0, bs, c') \<and> ok c' \<and>
        view c' = (view c)\<lparr>cv_wel := False, cv_busy := k, cv_pfail := unat p \<notin> solid,
          cv_page := (if unat p \<in> solid
            then (cv_page (view c))(unat p := map2 (AND) (cv_reg (view c)) (cv_page (view c) (unat p)))
            else cv_page (view c))\<rparr>"
    and block_erase: "ok c \<Longrightarrow> cv_busy (view c) = 0 \<Longrightarrow> cv_wel (view c) \<Longrightarrow> unat p < 131072 \<Longrightarrow>
      \<exists>bs k e pg c'. bus_transfer B (tx_msg (opcode OPCODE_BLOCK_ERASE # addr24 p) 4) c = Some (0, bs, c') \<and> ok c' \<and>
        view c' = (view c)\<lparr>cv_wel := False, cv_busy := k, cv_efail := e, cv_page := pg\<rparr> \<and>
        (\<forall>q. q div 64 \<noteq> unat p div 64 \<longrightarrow> pg q = cv_page (view c) q) \<and>
        (if unat p \<in> solid then (\<not> e \<longrightarrow> (\<forall>q. q div 64 = unat p div 64 \<longrightarrow> pg q = blank_page)) \<and> (rel \<longrightarrow> \<not> e)
         else e \<and> pg = cv_page (view c))"

text \<open>A range of bytes within one page of the board's chip.\<close>

definition board_page :: "spi_nand_info \<Rightarrow> u32 \<Rightarrow> u32 \<Rightarrow> u32 \<Rightarrow> bool" where
  "board_page info p off n \<longleftrightarrow> board_info info \<and> unat p < 131072 \<and> unat off + unat n \<le> 2048"

lemma args_ok: "board_page info p off n \<Longrightarrow> \<not> page_args_bad info p off n"
  by (simp add: board_page_def board_info_def page_args_bad_def word_less_nat_alt not_less)

context nand_chip
begin

lemma poll:
  assumes "ok c"
  obtains v c' where "bus_transfer B status_msg c = Some (0, [v], c')" "ok c'"
    "view c' = (view c)\<lparr>cv_busy := cv_busy (view c) - 1\<rparr>" "v AND 0x01 = 0x01 \<longleftrightarrow> 0 < cv_busy (view c)"
    "cv_busy (view c) = 0 \<Longrightarrow> (v AND 0x04 \<noteq> 0 \<longleftrightarrow> cv_efail (view c)) \<and> (v AND 0x08 \<noteq> 0 \<longleftrightarrow> cv_pfail (view c))"
  using status [OF assms] by metis

text \<open>Waiting ends, and leaves everything but the busy time as it was.\<close>

lemma busy_loop_ends:
  "ok c \<Longrightarrow> \<exists>c'. nand_busy_loop B buf c = Some (0, c') \<and> ok c' \<and> view c' = (view c)\<lparr>cv_busy := 0\<rparr>"
proof (induction "cv_busy (view c)" arbitrary: c buf)
  case 0
  obtain v c' where "bus_transfer B status_msg c = Some (0, [v], c')" "ok c'"
    "view c' = (view c)\<lparr>cv_busy := cv_busy (view c) - 1\<rparr>" "v AND 0x01 = 0x01 \<longleftrightarrow> 0 < cv_busy (view c)"
    by (rule poll [OF 0(2)]) metis
  with 0(1) show ?case
    by (subst nand_busy_loop.simps) (simp add: overlay_def)
next
  case (Suc n)
  obtain v c' where "bus_transfer B status_msg c = Some (0, [v], c')" "ok c'"
    "view c' = (view c)\<lparr>cv_busy := cv_busy (view c) - 1\<rparr>" "v AND 0x01 = 0x01 \<longleftrightarrow> 0 < cv_busy (view c)"
    by (rule poll [OF Suc(3)]) metis
  moreover from this(3) have "n = cv_busy (view c')"
    using Suc(2) by simp
  ultimately show ?case
    using Suc(1) [of c' "overlay [v] buf"] Suc(2)
    by (subst nand_busy_loop.simps) (auto simp: Let_def overlay_def)
qed

lemma wait_ends:
  assumes "ok c"
  obtains c' where "nand_wait_while_busy B c = Some (0, c')" "ok c'" "view c' = (view c)\<lparr>cv_busy := 0\<rparr>"
  using busy_loop_ends [OF assms] that by (auto simp: nand_wait_while_busy_def)

lemma feature_status:
  assumes "ok c" and "cv_busy (view c) = 0"
  obtains v c' where "nand_get_feature B SR_ADDR_STATUS x c = Some (0, v, c')" "ok c'" "view c' = view c"
    "v AND 0x04 \<noteq> 0 \<longleftrightarrow> cv_efail (view c)" "v AND 0x08 \<noteq> 0 \<longleftrightarrow> cv_pfail (view c)"
proof -
  obtain v c' where "bus_transfer B status_msg c = Some (0, [v], c')" "ok c'"
    "view c' = (view c)\<lparr>cv_busy := cv_busy (view c) - 1\<rparr>"
    "v AND 0x04 \<noteq> 0 \<longleftrightarrow> cv_efail (view c)" "v AND 0x08 \<noteq> 0 \<longleftrightarrow> cv_pfail (view c)"
    by (rule poll [OF assms(1)]) (use assms(2) in metis)
  with assms(2) show thesis
    by (intro that [of v c']) (simp_all add: nand_get_feature_def overlay_def)
qed

lemma load_page:
  assumes "ok c" and "cv_busy (view c) = 0" and "unat p < 131072"
  obtains c' where "nand_load_page B p c = Some (0, c')" "ok c'" "view c' = (view c)\<lparr>cv_reg := cv_page (view c) (unat p)\<rparr>"
proof -
  obtain bs k c1 where 1: "bus_transfer B (tx_msg (opcode OPCODE_PAGE_READ # addr24 p) 4) c = Some (0, bs, c1)" "ok c1"
    "view c1 = (view c)\<lparr>cv_reg := cv_page (view c) (unat p), cv_busy := k\<rparr>"
    using load [OF assms] by blast
  obtain c2 where 2: "nand_wait_while_busy B c1 = Some (0, c2)" "ok c2" "view c2 = (view c1)\<lparr>cv_busy := 0\<rparr>"
    by (rule wait_ends [OF 1(2)])
  show thesis
    by (rule that [of c2]) (use 1 2 assms(2) in \<open>simp_all add: nand_load_page_def\<close>)
qed

lemma write_enable:
  assumes "ok c" and "cv_busy (view c) = 0"
  obtains c' where "nand_write_enable B c = Some (0, c')" "ok c'" "view c' = (view c)\<lparr>cv_wel := True\<rparr>"
proof -
  obtain bs c1 where 1: "bus_transfer B (tx_msg [opcode OPCODE_WRITE_ENABLE] 1) c = Some (0, bs, c1)" "ok c1"
    "view c1 = (view c)\<lparr>cv_wel := True\<rparr>"
    using enable [OF assms] by blast
  obtain c2 where 2: "nand_wait_while_busy B c1 = Some (0, c2)" "ok c2" "view c2 = (view c1)\<lparr>cv_busy := 0\<rparr>"
    by (rule wait_ends [OF 1(2)])
  show thesis
    by (rule that [of c2]) (use 1 2 assms(2) in \<open>simp_all add: nand_write_enable_def\<close>)
qed

lemma exec_program:
  assumes "ok c" and "cv_busy (view c) = 0" and "unat p < 131072"
  obtains c' where "nand_exec_program B p c = Some (0, c')" "ok c'"
    "view c' = (view c)\<lparr>cv_wel := False, cv_pfail := unat p \<notin> solid,
       cv_page := (if unat p \<in> solid
         then (cv_page (view c))(unat p := map2 (AND) (cv_reg (view c)) (cv_page (view c) (unat p)))
         else cv_page (view c))\<rparr>"
proof -
  obtain c1 where 1: "nand_write_enable B c = Some (0, c1)" "ok c1" "view c1 = (view c)\<lparr>cv_wel := True\<rparr>"
    by (rule write_enable [OF assms(1,2)])
  then obtain bs k c2 where 2: "bus_transfer B (tx_msg (opcode OPCODE_PROGRAM_EXEC # addr24 p) 4) c1 = Some (0, bs, c2)" "ok c2"
    "view c2 = (view c1)\<lparr>cv_wel := False, cv_busy := k, cv_pfail := unat p \<notin> solid,
       cv_page := (if unat p \<in> solid
         then (cv_page (view c1))(unat p := map2 (AND) (cv_reg (view c1)) (cv_page (view c1) (unat p)))
         else cv_page (view c1))\<rparr>"
    using program_exec [OF 1(2) _ _ assms(3)] assms(2) by auto
  obtain c3 where 3: "nand_wait_while_busy B c2 = Some (0, c3)" "ok c3" "view c3 = (view c2)\<lparr>cv_busy := 0\<rparr>"
    by (rule wait_ends [OF 2(2)])
  show thesis
    by (rule that [of c3]) (use 1 2 3 assms(2) in \<open>simp_all add: nand_exec_program_def\<close>)
qed

section \<open>The page operations\<close>

lemma page_read:
  assumes "ok c" and "cv_busy (view c) = 0" and pg: "board_page info p off n"
  obtains c' where "nand_page_read B (Some info) p off False n c =
      Some (0, bslice (unat off) (unat n) (cv_page (view c) (unat p)), c')" "ok c'"
    "view c' = (view c)\<lparr>cv_reg := cv_page (view c) (unat p)\<rparr>"
proof -
  have p: "unat p < 131072" and rng: "unat off + unat n \<le> 2048"
    using pg by (simp_all add: board_page_def)
  obtain c1 where 1: "nand_load_page B p c = Some (0, c1)" "ok c1" "view c1 = (view c)\<lparr>cv_reg := cv_page (view c) (unat p)\<rparr>"
    by (rule load_page [OF assms(1,2) p])
  then have b1: "cv_busy (view c1) = 0"
    using assms(2) by simp
  obtain c2 where 2: "bus_transfer B (rx_msg (opcode OPCODE_READ_CACHE # addr16 off @ [0x00]) 4 n) c1 =
      Some (0, bslice (unat off) (unat n) (cv_reg (view c1)), c2)" "ok c2" "view c2 = view c1"
    using read_cache [OF 1(2) b1 rng] by blast
  obtain c3 where 3: "nand_wait_while_busy B c2 = Some (0, c3)" "ok c3" "view c3 = (view c2)\<lparr>cv_busy := 0\<rparr>"
    by (rule wait_ends [OF 2(2)])
  have b3: "cv_busy (view c3) = 0"
    by (simp add: 3(3))
  obtain v c4 where 4: "nand_get_feature B SR_ADDR_STATUS 0 c3 = Some (0, v, c4)" "ok c4" "view c4 = view c3"
    by (rule feature_status [OF 3(2) b3])
  show thesis
    by (rule that [of c4])
      (use 1 2 3 4 b1 in \<open>simp_all add: nand_page_read_def args_ok [OF pg] del: opcode.simps\<close>)
qed

lemma page_write:
  assumes "ok c" and "cv_busy (view c) = 0" and pg: "board_page info p off n" and len: "unat n \<le> length bs"
  obtains c' where "nand_page_write B (Some info) p off (Some bs) n c = Some (if cv_pfail (view c) then -1 else 0, c')" "ok c'"
    "cv_busy (view c') = 0" "cv_efail (view c') = cv_efail (view c)"
    "cv_pfail (view c') = (cv_pfail (view c) \<or> unat p \<notin> solid)"
    "cv_page (view c') = (if \<not> cv_pfail (view c) \<and> unat p \<in> solid
       then (cv_page (view c))(unat p := map2 (AND) (patch (unat off) (take (unat n) bs) blank_page) (cv_page (view c) (unat p)))
       else cv_page (view c))"
proof -
  have p: "unat p < 131072" and rng: "unat off + unat n \<le> 2048"
    using pg by (simp_all add: board_page_def)
  obtain c1 where 1: "nand_write_enable B c = Some (0, c1)" "ok c1" "view c1 = (view c)\<lparr>cv_wel := True\<rparr>"
    by (rule write_enable [OF assms(1,2)])
  then have b1: "cv_busy (view c1) = 0"
    using assms(2) by simp
  obtain k c2 where 2: "bus_transfer2 B (tx_msg (opcode OPCODE_PROGRAM_LOAD # addr16 off) 3) (tx_msg bs n) c1 = Some (0, c2)" "ok c2"
    "view c2 = (view c1)\<lparr>cv_reg := patch (unat off) (take (unat n) bs) blank_page, cv_busy := k\<rparr>"
    using program_load [OF 1(2) b1 rng len] by blast
  obtain c3 where 3: "nand_wait_while_busy B c2 = Some (0, c3)" "ok c3" "view c3 = (view c2)\<lparr>cv_busy := 0\<rparr>"
    by (rule wait_ends [OF 2(2)])
  have b3: "cv_busy (view c3) = 0"
    by (simp add: 3(3))
  obtain v c4 where 4: "nand_get_feature B SR_ADDR_STATUS 0 c3 = Some (0, v, c4)" "ok c4" "view c4 = view c3"
    "v AND 0x04 \<noteq> 0 \<longleftrightarrow> cv_efail (view c3)" "v AND 0x08 \<noteq> 0 \<longleftrightarrow> cv_pfail (view c3)"
    by (rule feature_status [OF 3(2) b3])
  have v: "v AND 0x08 \<noteq> 0 \<longleftrightarrow> cv_pfail (view c)"
    using 4(5) 3(3) 2(3) 1(3) by simp
  note run = nand_page_write_def args_ok [OF pg] 1(1) 2(1) 3(1) 4(1)
  show thesis
  proof (cases "cv_pfail (view c)")
    case True
    show thesis
      by (rule that [of c4]) (use v True 1 2 3 4 in \<open>simp_all add: run del: opcode.simps\<close>)
  next
    case False
    have b4: "cv_busy (view c4) = 0"
      using 4(3) b3 by simp
    obtain c5 where 5: "nand_exec_program B p c4 = Some (0, c5)" "ok c5"
      "view c5 = (view c4)\<lparr>cv_wel := False, cv_pfail := unat p \<notin> solid,
         cv_page := (if unat p \<in> solid
           then (cv_page (view c4))(unat p := map2 (AND) (cv_reg (view c4)) (cv_page (view c4) (unat p)))
           else cv_page (view c4))\<rparr>"
      by (rule exec_program [OF 4(2) b4 p])
    show thesis
      by (rule that [of c5]) (use v False 1 2 3 4 5 in \<open>simp_all add: run del: opcode.simps\<close>)
  qed
qed

lemma page_erase:
  assumes "ok c" and "cv_busy (view c) = 0" and pg: "board_page info p 0 0"
  obtains r c' where "nand_erase_page B (Some info) p c = Some (r, c')" "ok c'" "cv_busy (view c') = 0"
    "cv_pfail (view c') = cv_pfail (view c)" "r \<noteq> 0 \<longleftrightarrow> cv_efail (view c')"
    "\<And>q. q div 64 \<noteq> unat p div 64 \<Longrightarrow> cv_page (view c') q = cv_page (view c) q"
    "unat p \<in> solid \<Longrightarrow> r = 0 \<Longrightarrow> \<forall>q. q div 64 = unat p div 64 \<longrightarrow> cv_page (view c') q = blank_page"
    "unat p \<in> solid \<Longrightarrow> rel \<Longrightarrow> r = 0"
    "unat p \<notin> solid \<Longrightarrow> r = -1 \<and> cv_page (view c') = cv_page (view c)"
proof -
  have p: "unat p < 131072" and info: "board_info info"
    using pg by (simp_all add: board_page_def)
  have arg: "\<not> p > ni_blocks_total info * ni_pages_per_block info"
    using p info by (simp add: board_info_def word_less_nat_alt)
  obtain c1 where 1: "nand_write_enable B c = Some (0, c1)" "ok c1" "view c1 = (view c)\<lparr>cv_wel := True\<rparr>"
    by (rule write_enable [OF assms(1,2)])
  then have b1: "cv_busy (view c1) = 0" "cv_wel (view c1)"
    using assms(2) by simp_all
  obtain bs k e pgs c2 where 2: "bus_transfer B (tx_msg (opcode OPCODE_BLOCK_ERASE # addr24 p) 4) c1 = Some (0, bs, c2)" "ok c2"
    "view c2 = (view c1)\<lparr>cv_wel := False, cv_busy := k, cv_efail := e, cv_page := pgs\<rparr>"
    "\<forall>q. q div 64 \<noteq> unat p div 64 \<longrightarrow> pgs q = cv_page (view c1) q"
    "if unat p \<in> solid then (\<not> e \<longrightarrow> (\<forall>q. q div 64 = unat p div 64 \<longrightarrow> pgs q = blank_page)) \<and> (rel \<longrightarrow> \<not> e)
     else e \<and> pgs = cv_page (view c1)"
    using block_erase [OF 1(2) b1 p] by metis
  obtain c3 where 3: "nand_wait_while_busy B c2 = Some (0, c3)" "ok c3" "view c3 = (view c2)\<lparr>cv_busy := 0\<rparr>"
    by (rule wait_ends [OF 2(2)])
  have b3: "cv_busy (view c3) = 0"
    by (simp add: 3(3))
  obtain v c4 where 4: "nand_get_feature B SR_ADDR_STATUS 0 c3 = Some (0, v, c4)" "ok c4" "view c4 = view c3"
    "v AND 0x04 \<noteq> 0 \<longleftrightarrow> cv_efail (view c3)" "v AND 0x08 \<noteq> 0 \<longleftrightarrow> cv_pfail (view c3)"
    by (rule feature_status [OF 3(2) b3])
  have v: "v AND 0x04 \<noteq> 0 \<longleftrightarrow> e"
    using 4(4) 3(3) 2(3) by simp
  have run: "nand_erase_page B (Some info) p c = Some (if v AND 0x04 \<noteq> 0 then -1 else 0, c4)"
    by (simp add: nand_erase_page_def arg 1(1) 2(1) 3(1) 4(1) del: opcode.simps)
  show thesis
    by (rule that [OF run 4(2)])
      (use v 1(3) 2(3-5) 3(3) 4(3) in \<open>auto split: if_splits\<close>)
qed

end

section \<open>The device and the board on a chip\<close>

text \<open>The chip at rest, with no failed program behind it.\<close>

definition chip_ready :: "('c \<Rightarrow> bool) \<Rightarrow> ('c \<Rightarrow> chip_view) \<Rightarrow> 'c \<Rightarrow> bool" where
  "chip_ready ok view c \<longleftrightarrow> ok c \<and> cv_busy (view c) = 0 \<and> \<not> cv_pfail (view c)"

locale nand_on_chip = nand_chip +
  fixes info :: spi_nand_info
  assumes geometry: "board_info info"

sublocale nand_on_chip \<subseteq> pages: nand_pages "nand_dev_of B info" "chip_ready ok view" "\<lambda>c. cv_page (view c)" solid rel
proof (unfold_locales, goal_cases)
  case (4 c q)
  then show ?case
    by (simp add: chip_ready_def page_length)
next
  case (5 q q')
  then show ?case
    by (rule solid_block)
next
  case (6 c p off n)
  then have "board_page info p off n"
    using geometry by (simp add: board_page_def)
  with 6 show ?case
    by (auto simp: chip_ready_def nand_dev_of_def length_bslice_le elim: page_read [of c info p off n])
next
  case (7 n bs p off c)
  show ?case
    unfolding nand_dev_of_def nand_dev.simps nand_page_write_def prod.case option.case load_prefix [OF 7] by (rule refl)
next
  case (8 c p off n bs)
  then have "board_page info p off n"
    using geometry by (simp add: board_page_def)
  with 8 show ?case
    by (auto simp: chip_ready_def nand_dev_of_def elim: page_write [of c info p off n bs])
next
  case (9 c p)
  then have pg: "board_page info p 0 0"
    using geometry by (simp add: board_page_def)
  have c: "ok c" "cv_busy (view c) = 0"
    using 9(1) by (simp_all add: chip_ready_def)
  obtain r c' where "nand_erase_page B (Some info) p c = Some (r, c')" "ok c'" "cv_busy (view c') = 0"
    "cv_pfail (view c') = cv_pfail (view c)" "r \<noteq> 0 \<longleftrightarrow> cv_efail (view c')"
    "\<And>q. q div 64 \<noteq> unat p div 64 \<Longrightarrow> cv_page (view c') q = cv_page (view c) q"
    "unat p \<in> solid \<Longrightarrow> r = 0 \<Longrightarrow> \<forall>q. q div 64 = unat p div 64 \<longrightarrow> cv_page (view c') q = blank_page"
    "unat p \<in> solid \<Longrightarrow> rel \<Longrightarrow> r = 0"
    "unat p \<notin> solid \<Longrightarrow> r = -1 \<and> cv_page (view c') = cv_page (view c)"
    by (rule page_erase [OF c pg]) blast
  with 9 show ?case
    by (intro exI [of _ r] exI [of _ c']) (simp add: chip_ready_def nand_dev_of_def)
qed (use geometry in \<open>simp_all add: board_info_def nand_dev_of_def\<close>)

locale board_on_chip = nand_on_chip +
  fixes base ops :: u32
  assumes ops_address: "ops \<noteq> 0" and board_solid: "1024 \<le> q \<Longrightarrow> q < 2624 \<Longrightarrow> q \<in> solid"

sublocale board_on_chip \<subseteq> board: board_nand "nand_dev_of B info" "chip_ready ok view" "\<lambda>c. cv_page (view c)" solid rel base ops
  by unfold_locales (use ops_address board_solid in auto)

locale reliable_board_on_chip = board_on_chip B ok view solid True info base ops
  for B :: "'c spi_bus" and ok view solid info base ops

sublocale reliable_board_on_chip \<subseteq> rboard: reliable_board "nand_dev_of B info" "chip_ready ok view" "\<lambda>c. cv_page (view c)" solid base ops
  by unfold_locales

section \<open>A simulated chip\<close>

text \<open>
  The states of the simulation are the views themselves.  Blocks 0 to 15 are protected; every
  command that takes time leaves the chip busy for three status reads.
\<close>

definition sim_solid :: "nat set" where "sim_solid = {q. 1024 \<le> q}"

definition page_of :: "u8 list \<Rightarrow> nat" where
  "page_of a = unat (a ! 0) * 65536 + unat (a ! 1) * 256 + unat (a ! 2)"

definition offset_of :: "u8 list \<Rightarrow> nat" where
  "offset_of a = unat (a ! 0) * 256 + unat (a ! 1)"

definition sim_status :: "chip_view \<Rightarrow> u8" where
  "sim_status c = (if 0 < cv_busy c then 1 else 0) OR (if cv_efail c then 4 else 0) OR (if cv_pfail c then 8 else 0)"

definition sim_transfer :: "spi_trans_msg \<Rightarrow> chip_view \<Rightarrow> (int \<times> u8 list \<times> chip_view) option" where
  "sim_transfer m c =
     (let op = hd (m_tx_buf m); a = tl (m_tx_buf m) in
      if op = opcode OPCODE_GET_FEATURE then Some (0, [sim_status c], c\<lparr>cv_busy := cv_busy c - 1\<rparr>)
      else if op = opcode OPCODE_READ_ID then Some (0, [0xff, 0xcd, 0x72, 0x72], c)
      else if op = opcode OPCODE_PAGE_READ then Some (0, [], c\<lparr>cv_reg := cv_page c (page_of a), cv_busy := 3\<rparr>)
      else if op = opcode OPCODE_READ_CACHE then Some (0, bslice (offset_of a) (unat (m_rx_len m)) (cv_reg c), c)
      else if op = opcode OPCODE_WRITE_ENABLE then Some (0, [], c\<lparr>cv_wel := True\<rparr>)
      else if op = opcode OPCODE_PROGRAM_EXEC then
        Some (0, [], c\<lparr>cv_wel := False, cv_busy := 3, cv_pfail := page_of a \<notin> sim_solid,
          cv_page := (if page_of a \<in> sim_solid
            then (cv_page c)(page_of a := map2 (AND) (cv_reg c) (cv_page c (page_of a))) else cv_page c)\<rparr>)
      else if op = opcode OPCODE_BLOCK_ERASE then
        Some (0, [], c\<lparr>cv_wel := False, cv_busy := 3, cv_efail := page_of a \<notin> sim_solid,
          cv_page := (if page_of a \<in> sim_solid
            then (\<lambda>q. if q div 64 = page_of a div 64 then blank_page else cv_page c q) else cv_page c)\<rparr>)
      else Some (0, [], c))"

definition sim_transfer2 :: "spi_trans_msg \<Rightarrow> spi_trans_msg \<Rightarrow> chip_view \<Rightarrow> (int \<times> chip_view) option" where
  "sim_transfer2 m d c =
     Some (0, c\<lparr>cv_reg := patch (offset_of (tl (m_tx_buf m))) (take (unat (m_tx_len d)) (m_tx_buf d)) blank_page, cv_busy := 3\<rparr>)"

definition sim_bus :: "chip_view spi_bus" where
  "sim_bus = \<lparr>bus_init = (\<lambda>c. Some (0, c)), bus_deinit = (\<lambda>c. Some (0, c)), bus_transfer = sim_transfer,
     bus_transfer2 = sim_transfer2\<rparr>"

definition sim_ok :: "chip_view \<Rightarrow> bool" where
  "sim_ok c \<longleftrightarrow> (\<forall>q. length (cv_page c q) = 2048) \<and> length (cv_reg c) = 2048"

definition sim_info :: spi_nand_info where
  "sim_info = \<lparr>ni_mfr_id = 0xcd, ni_dev_id = 0x7272, ni_page_size = 2048, ni_spare_size = 64,
     ni_pages_per_block = 64, ni_blocks_total = 2048\<rparr>"

lemma unat_ucast_byte: "unat (ucast (drop_bit k w) :: u8) = unat (w :: u32) div 2 ^ k mod 256"
proof -
  have "unat (ucast (drop_bit k w) :: u8) = take_bit 8 (drop_bit k (unat w))"
  proof -
    have "take_bit 32 (unat w) = unat w"
      using unsigned_less [of w, where ?'a = nat] by (subst take_bit_nat_eq_self_iff) simp
    then show ?thesis
      by (simp add: unsigned_ucast_eq unsigned_drop_bit_eq)
  qed
  then show ?thesis
    by (simp add: take_bit_eq_mod drop_bit_eq_div)
qed

lemma page_of_addr24 [simp]: "unat p < 16777216 \<Longrightarrow> page_of (addr24 p) = unat p"
proof -
  assume "unat p < 16777216"
  then have "unat p div 65536 mod 256 = unat p div 65536"
    by (simp add: less_mult_imp_div_less)
  moreover have "unat (ucast p :: u8) = unat p mod 256"
    using unat_ucast_byte [of 0 p] by simp
  ultimately have "page_of (addr24 p) = unat p div 65536 * 65536 + unat p div 256 mod 256 * 256 + unat p mod 256"
    using unat_ucast_byte [of 16 p] unat_ucast_byte [of 8 p] by (simp add: page_of_def addr24_def)
  also have "\<dots> = unat p"
    using div_mult_mod_eq [of "unat p" 256] div_mult_mod_eq [of "unat p div 256" 256]
      div_mult2_eq [of "unat p" 256 256, simplified] by linarith
  finally show "page_of (addr24 p) = unat p" .
qed

lemma offset_of_addr16 [simp]: "unat off < 65536 \<Longrightarrow> offset_of (addr16 off @ x) = unat off"
  using unat_ucast_byte [of 8 off] unat_ucast_byte [of 0 off]
  by (simp add: offset_of_def addr16_def less_mult_imp_div_less)

lemma sim_bus_sel [simp]:
  "bus_transfer sim_bus = sim_transfer" "bus_transfer2 sim_bus = sim_transfer2"
  by (simp_all add: sim_bus_def)

lemma sim_messages:
  "sim_transfer status_msg c = Some (0, [sim_status c], c\<lparr>cv_busy := cv_busy c - 1\<rparr>)"
  "sim_transfer (tx_msg (opcode OPCODE_PAGE_READ # a) k) c = Some (0, [], c\<lparr>cv_reg := cv_page c (page_of a), cv_busy := 3\<rparr>)"
  "sim_transfer (rx_msg (opcode OPCODE_READ_CACHE # a) k n) c = Some (0, bslice (offset_of a) (unat n) (cv_reg c), c)"
  "sim_transfer (tx_msg [opcode OPCODE_WRITE_ENABLE] k) c = Some (0, [], c\<lparr>cv_wel := True\<rparr>)"
  "sim_transfer (tx_msg (opcode OPCODE_PROGRAM_EXEC # a) k) c =
     Some (0, [], c\<lparr>cv_wel := False, cv_busy := 3, cv_pfail := page_of a \<notin> sim_solid,
       cv_page := (if page_of a \<in> sim_solid
         then (cv_page c)(page_of a := map2 (AND) (cv_reg c) (cv_page c (page_of a))) else cv_page c)\<rparr>)"
  "sim_transfer (tx_msg (opcode OPCODE_BLOCK_ERASE # a) k) c =
     Some (0, [], c\<lparr>cv_wel := False, cv_busy := 3, cv_efail := page_of a \<notin> sim_solid,
       cv_page := (if page_of a \<in> sim_solid
         then (\<lambda>q. if q div 64 = page_of a div 64 then blank_page else cv_page c q) else cv_page c)\<rparr>)"
  by (simp_all add: sim_transfer_def tx_msg_def rx_msg_def)

lemma tx_msg_sel [simp]: "m_tx_buf (tx_msg bs n) = bs" "m_tx_len (tx_msg bs n) = n"
  by (simp_all add: tx_msg_def)

lemmas offset_of_addr16' [simp] = offset_of_addr16 [of _ "[]", unfolded append_Nil2]

lemma sim_status_bits:
  "sim_status c AND 0x01 = 0x01 \<longleftrightarrow> 0 < cv_busy c" "sim_status c AND 0x04 \<noteq> 0 \<longleftrightarrow> cv_efail c"
  "sim_status c AND 0x08 \<noteq> 0 \<longleftrightarrow> cv_pfail c"
  by (auto simp: sim_status_def)

interpretation sim: reliable_board_on_chip sim_bus sim_ok "\<lambda>c. c" sim_solid sim_info base "0x1000" for base
proof (unfold_locales, goal_cases)
  case (2 q q')
  then have "1024 \<le> q div 64 * 64 + 64 - 1"
    by (simp add: sim_solid_def)
  then have "16 \<le> q' div 64"
    using 2 by (simp add: sim_solid_def)
  then show ?case
    by (simp add: sim_solid_def)
next
  case (3 c)
  then show ?case
    by (intro exI [of _ "sim_status c"]) (simp add: sim_messages sim_status_bits sim_ok_def del: opcode.simps sr_addr.simps)
next
  case (10 c p)
  then show ?case
    by (intro exI [of _ "[]"] exI [of _ 3] exI [of _ "unat p \<notin> sim_solid"]
        exI [of _ "if unat p \<in> sim_solid then (\<lambda>q. if q div 64 = unat p div 64 then blank_page else cv_page c q) else cv_page c"]
        exI [of _ "c\<lparr>cv_wel := False, cv_busy := 3, cv_efail := unat p \<notin> sim_solid, cv_page :=
          (if unat p \<in> sim_solid then (\<lambda>q. if q div 64 = unat p div 64 then blank_page else cv_page c q) else cv_page c)\<rparr>"])
      (simp add: sim_messages sim_ok_def blank_page_def del: opcode.simps)
qed (auto simp: sim_messages sim_ok_def sim_transfer2_def sim_solid_def board_info_def sim_info_def blank_page_def
  simp del: opcode.simps)

end
