(* ===== verification/Board_Facts.thy ===== *)
theory Board_Facts
  imports Nand_Chip Firmware
begin

text \<open>
  Properties of the NAND driver, the partition device and the whole chain from the chip to the
  running firmware, with concrete runs on the simulated chip.
\<close>

section \<open>The driver\<close>

text \<open>On a chip at rest, \<open>nand_page_read\<close> returns exactly the addressed bytes of the page and changes
  nothing but the page register.\<close>

theorem nand_page_read_returns_page:
  assumes "nand_chip B ok view solid rel" and "ok c" and "cv_busy (view c) = 0" and "board_page info p off n"
  shows "\<exists>c'. nand_page_read B (Some info) p off False n c =
      Some (0, bslice (unat off) (unat n) (cv_page (view c) (unat p)), c') \<and>
    view c' = (view c)\<lparr>cv_reg := cv_page (view c) (unat p)\<rparr>"
  using nand_chip.page_read [OF assms] by metis

text \<open>On a usable page, \<open>nand_page_write\<close> programs the given bytes at the offset (it can only clear
  bits) and changes no other page.\<close>

theorem nand_page_write_programs:
  assumes "nand_chip B ok view solid rel" and "ok c" and "cv_busy (view c) = 0" and "board_page info p off n"
    and "unat n \<le> length bs" and "\<not> cv_pfail (view c)" and "unat p \<in> solid"
  shows "\<exists>c'. nand_page_write B (Some info) p off (Some bs) n c = Some (0, c') \<and>
    cv_page (view c') = (cv_page (view c))
      (unat p := map2 (AND) (patch (unat off) (take (unat n) bs) blank_page) (cv_page (view c) (unat p)))"
  by (rule nand_chip.page_write [OF assms(1-5)]) (use assms(6,7) in auto)

text \<open>C24: Programming a page of a protected or worn block fails in the chip, but \<open>nand_page_write\<close> looks at
  the failure bit before it programs: it returns 0 although nothing was stored, and the next write, to
  whatever page, returns -1 and stores nothing.\<close>

theorem nand_write_failure_noticed_too_late:
  assumes "nand_chip B ok view solid rel" and "ok c" and "cv_busy (view c) = 0" and "board_page info p off n"
    and "unat n \<le> length bs" and "\<not> cv_pfail (view c)" and "unat p \<notin> solid"
    and "board_page info p2 off2 n2" and "unat n2 \<le> length bs2"
  shows "\<exists>c1 c2. nand_page_write B (Some info) p off (Some bs) n c = Some (0, c1) \<and>
    cv_page (view c1) = cv_page (view c) \<and>
    nand_page_write B (Some info) p2 off2 (Some bs2) n2 c1 = Some (-1, c2) \<and>
    cv_page (view c2) = cv_page (view c)"
proof -
  obtain c1 where 1: "nand_page_write B (Some info) p off (Some bs) n c = Some (if cv_pfail (view c) then -1 else 0, c1)" "ok c1"
    "cv_busy (view c1) = 0" "cv_efail (view c1) = cv_efail (view c)"
    "cv_pfail (view c1) = (cv_pfail (view c) \<or> unat p \<notin> solid)"
    "cv_page (view c1) = (if \<not> cv_pfail (view c) \<and> unat p \<in> solid
       then (cv_page (view c))(unat p := map2 (AND) (patch (unat off) (take (unat n) bs) blank_page) (cv_page (view c) (unat p)))
       else cv_page (view c))"
    by (rule nand_chip.page_write [OF assms(1-5)])
  then have p1: "cv_pfail (view c1)" "cv_page (view c1) = cv_page (view c)"
    using assms(7) by simp_all
  obtain c2 where "nand_page_write B (Some info) p2 off2 (Some bs2) n2 c1 = Some (if cv_pfail (view c1) then -1 else 0, c2)" "ok c2"
    "cv_busy (view c2) = 0" "cv_efail (view c2) = cv_efail (view c1)"
    "cv_pfail (view c2) = (cv_pfail (view c1) \<or> unat p2 \<notin> solid)"
    "cv_page (view c2) = (if \<not> cv_pfail (view c1) \<and> unat p2 \<in> solid
       then (cv_page (view c1))(unat p2 := map2 (AND) (patch (unat off2) (take (unat n2) bs2) blank_page) (cv_page (view c1) (unat p2)))
       else cv_page (view c1))"
    by (rule nand_chip.page_write [OF assms(1) 1(2,3) assms(8,9)])
  with 1(1) p1 assms(6) show ?thesis by auto
qed

text \<open>C26: Waiting has no bound: when the status reads of a chip report busy for ever, \<open>nand_wait_while_busy\<close>
  never returns.\<close>

theorem nand_wait_hangs_on_busy_chip:
  assumes "c \<in> S" and "\<forall>c \<in> S. \<exists>v c'. bus_transfer B status_msg c = Some (0, [v], c') \<and> v AND 0x01 = 0x01 \<and> c' \<in> S"
  shows "nand_wait_while_busy B c = None"
proof -
  have "B' = B \<longrightarrow> c \<notin> S" if "nand_busy_loop B' buf c = Some y" for B' buf c y
  proof (rule nand_busy_loop.raw_induct [OF _ that, where P = "\<lambda>B' buf c y. B' = B \<longrightarrow> c \<notin> S"], intro impI notI)
    fix loop :: "'a spi_bus \<Rightarrow> u8 list \<Rightarrow> 'a \<Rightarrow> (int \<times> 'a) option" and B' buf c y
    assume loop: "\<And>B' buf c y. loop B' buf c = Some y \<Longrightarrow> B' = B \<longrightarrow> c \<notin> S"
      and body: "bus_transfer B' status_msg c \<bind> (\<lambda>(ret, bs, c).
        let buf = overlay bs buf in if ret \<noteq> 0 then Some (ret, c)
          else if buf ! 0 AND 0x01 = 0x01 then loop B' buf c else Some (0, c)) = Some y"
      and here: "B' = B" "c \<in> S"
    obtain v c' where "bus_transfer B status_msg c = Some (0, [v], c')" "v AND 0x01 = 0x01" "c' \<in> S"
      using assms(2) here(2) by blast
    with body here(1) loop show False
      by (auto simp: overlay_def Let_def)
  qed
  then show ?thesis
    using assms(1) by (cases "nand_wait_while_busy B c") (auto simp: nand_wait_while_busy_def)
qed

text \<open>Whatever a call returns satisfies \<open>Q\<close>.\<close>

definition post :: "('a \<Rightarrow> bool) \<Rightarrow> 'a option \<Rightarrow> bool" where
  "post Q x \<longleftrightarrow> (\<forall>y. x = Some y \<longrightarrow> Q y)"

lemma post_Some [simp]: "post Q (Some y) = Q y" "post Q None"
  by (simp_all add: post_def)

lemma post_bind: "(\<And>y. post Q (f y)) \<Longrightarrow> post Q (m \<bind> f)"
  by (cases m) simp_all

lemma post_bind2: "(\<And>a b. post Q (f (a, b))) \<Longrightarrow> post Q (m \<bind> f)"
  by (cases m) auto

lemma post_bind3: "(\<And>a b c. post Q (f (a, b, c))) \<Longrightarrow> post Q (m \<bind> f)"
  by (cases m) auto

lemma post_if: "(b \<Longrightarrow> post Q x) \<Longrightarrow> (\<not> b \<Longrightarrow> post Q y) \<Longrightarrow> post Q (if b then x else y)"
  by simp

lemma nand_configure_ok:
  "post (\<lambda>(r, N'). r = 0 \<longrightarrow> (\<exists>c. N' = nand_set_geometry (N\<lparr>nand_spi := c\<rparr>))) (nand_configure B v j1 j2 N)"
  unfolding nand_configure_def Let_def prod.case
  by (rule post_bind3 post_bind2 post_if | simp only: prod.case | (auto; fail))+

text \<open>When \<open>nand_init\<close> reports success, the handle was not NULL, the chip identified itself as
  manufacturer 0xCD, device 0x7272, and the handle holds its geometry.\<close>

theorem nand_init_accepts_only_known_chip:
  assumes "nand_init B junk nul N = Some (0, N')"
  shows "\<not> nul \<and> ni_mfr_id (nand_info N') = 0xcd \<and> ni_dev_id (nand_info N') = 0x7272 \<and> board_info (nand_info N')"
proof -
  obtain v j1 j2 N1 where "\<not> nul" "nand_configure B v j1 j2 N1 = Some (0, N')"
    "ni_mfr_id (nand_info N1) = 0xcd" "ni_dev_id (nand_info N1) = 0x7272"
    using assms unfolding nand_init_def by (auto simp: bind_eq_Some_conv split: if_splits)
  with nand_configure_ok [of N1 B v j1 j2] show ?thesis
    by (auto simp: post_def nand_set_geometry_def board_info_def)
qed

section \<open>The partitions of the board\<close>

text \<open>C25: \<open>partition_nand_register\<close> registers the six partitions on an empty table without an error; they
  are the entries of the layout, in order, one behind the other without overlap, inside the flash.\<close>

theorem board_partitions_registered:
  assumes "ops \<noteq> 0" and "board_info info"
  shows "\<exists>T. nand_register_tables ops info (part_tables_init base) = (0, T) \<and>
    entries T = map2 (board_entry base) [0..<6] nand_layout \<and>
    sorted_wrt (\<lambda>(a, s, n) (b, t, m). unat s + unat n \<le> unat t) nand_layout \<and>
    (\<forall>(a, s, n) \<in> set nand_layout. unat s + unat n \<le> 2 ^ 28)"
  using nand_register_tables_ok [OF assms, of base] by (auto simp: nand_layout_def)

context board_on_chip
begin

lemma other_blocks:
  assumes "chip_ready ok view c" and "nm \<in> board_names" and "unat off + unat n < 2 ^ 32"
  defines "P \<equiv> board_if base ops (nand_dev_of B info)" and "fl \<equiv> \<lambda>c. flash_of (cv_page (view c))"
  shows "\<exists>r bs c'. if_read P nm False off n c = Some (r, bs, c') \<and> chip_ready ok view c' \<and> fl c' = fl c"
    and "unat n \<le> length bs \<Longrightarrow>
      \<exists>r c'. if_write P nm bs off n c = Some (r, c') \<and> chip_ready ok view c' \<and> (\<forall>x. \<not> own_block nm x \<longrightarrow> fl c' x = fl c x)"
    and "0 < unat n \<Longrightarrow>
      \<exists>r c'. if_erase P nm off n c = Some (r, c') \<and> chip_ready ok view c' \<and> (\<forall>x. \<not> own_block nm x \<longrightarrow> fl c' x = fl c x)"
    and "\<exists>r c'. if_erase_all P nm c = Some (r, c') \<and> chip_ready ok view c' \<and> (\<forall>x. \<not> own_block nm x \<longrightarrow> fl c' x = fl c x)"
proof -
  show "\<exists>r bs c'. if_read P nm False off n c = Some (r, bs, c') \<and> chip_ready ok view c' \<and> fl c' = fl c"
    using board.board_read_effect [OF assms(1,2,3)] unfolding P_def fl_def by metis
  show "\<exists>r c'. if_write P nm bs off n c = Some (r, c') \<and> chip_ready ok view c' \<and> (\<forall>x. \<not> own_block nm x \<longrightarrow> fl c' x = fl c x)"
    if "unat n \<le> length bs"
    using board.board_write_effect [OF assms(1,2,3) that] unfolding P_def fl_def by metis
  show "\<exists>r c'. if_erase P nm off n c = Some (r, c') \<and> chip_ready ok view c' \<and> (\<forall>x. \<not> own_block nm x \<longrightarrow> fl c' x = fl c x)"
    if "0 < unat n"
    using board.board_erase_effect [OF assms(1,2,3) that] unfolding P_def fl_def by metis
  show "\<exists>r c'. if_erase_all P nm c = Some (r, c') \<and> chip_ready ok view c' \<and> (\<forall>x. \<not> own_block nm x \<longrightarrow> fl c' x = fl c x)"
    using board.board_erase_all_effect [OF assms(1,2)] unfolding P_def fl_def by metis
qed

end

context reliable_board_on_chip
begin

abbreviation "PB \<equiv> board_if base ops (nand_dev_of B info)"
abbreviation "arrays \<equiv> board_cont (\<lambda>c. cv_page (view c))"

lemma refines_ram:
  assumes "chip_ready ok view c" and "nm \<in> board_names" and "unat off + unat n \<le> place_size nm"
  shows "\<exists>bs c'. if_read PB nm False off n c = Some (0, bs, c') \<and> chip_ready ok view c' \<and>
      if_read ram_if nm False off n (arrays c) = Some (0, bs, arrays c) \<and> (\<forall>m \<in> board_names. arrays c' m = arrays c m)"
    and "unat n \<le> length bs \<Longrightarrow> bslice (unat off) (unat n) (arrays c nm) = replicate (unat n) erased \<Longrightarrow>
      \<exists>c' a'. if_write PB nm bs off n c = Some (0, c') \<and> chip_ready ok view c' \<and>
        if_write ram_if nm bs off n (arrays c) = Some (0, a') \<and> (\<forall>m \<in> board_names. arrays c' m = a' m)"
    and "0 < unat n \<Longrightarrow>
      \<exists>c' a'. if_erase PB nm off n c = Some (0, c') \<and> chip_ready ok view c' \<and>
        if_erase ram_if nm off n (arrays c) = Some (0, a') \<and> (\<forall>m \<in> board_names. arrays c' m = a' m)"
    and "\<exists>c' a'. if_erase_all PB nm c = Some (0, c') \<and> chip_ready ok view c' \<and>
        if_erase_all ram_if nm (arrays c) = Some (0, a') \<and> (\<forall>m \<in> board_names. arrays c' m = a' m)"
proof -
  have rng: "unat off + unat n \<le> length (arrays c nm)"
    using assms(3) by simp
  show "\<exists>bs c'. if_read PB nm False off n c = Some (0, bs, c') \<and> chip_ready ok view c' \<and>
      if_read ram_if nm False off n (arrays c) = Some (0, bs, arrays c) \<and> (\<forall>m \<in> board_names. arrays c' m = arrays c m)"
    by (rule rboard.store.read_in_range [OF assms(1,2) rng]) (use rng in \<open>auto simp: ram_if_def\<close>)
  show "\<exists>c' a'. if_write PB nm bs off n c = Some (0, c') \<and> chip_ready ok view c' \<and>
        if_write ram_if nm bs off n (arrays c) = Some (0, a') \<and> (\<forall>m \<in> board_names. arrays c' m = a' m)"
    if "unat n \<le> length bs" "bslice (unat off) (unat n) (arrays c nm) = replicate (unat n) erased"
    by (rule rboard.store.write_in_range [OF assms(1,2) rng that]) (use rng in \<open>auto simp: ram_if_def\<close>)
  show "\<exists>c' a'. if_erase PB nm off n c = Some (0, c') \<and> chip_ready ok view c' \<and>
        if_erase ram_if nm off n (arrays c) = Some (0, a') \<and> (\<forall>m \<in> board_names. arrays c' m = a' m)" if "0 < unat n"
    by (rule rboard.store.erase_in_range [OF assms(1,2) rng that]) (use rng in \<open>auto simp: ram_if_def\<close>)
  show "\<exists>c' a'. if_erase_all PB nm c = Some (0, c') \<and> chip_ready ok view c' \<and>
        if_erase_all ram_if nm (arrays c) = Some (0, a') \<and> (\<forall>m \<in> board_names. arrays c' m = a' m)"
    by (rule rboard.store.erase_all_in_range [OF assms(1,2)]) (auto simp: ram_if_def)
qed

lemmas firmware_run = rboard.store.download_update_boot

end

text \<open>The boot partitions, and every other partition of the layout, lie outside the blocks of \<open>nm\<close>.\<close>

lemma board_starts:
  "place_start APP1_PART = 0x200000" "place_start APP2_PART = 0x300000" "place_start DOWN_PART = 0x400000"
  "place_start PARA_PART = 0x500000"
  by (simp_all add: board_place_def part_name_defs cstr_def)

lemma layout_apart:
  assumes "nm \<in> board_names" and "(a, s, n) \<in> set nand_layout" and "cstr a \<noteq> nm"
  shows "unat s + unat n \<le> place_start nm \<or> place_start nm + 1048576 \<le> unat s"
proof -
  have "\<forall>(a, s, n) \<in> set nand_layout. \<forall>nm \<in> board_names. cstr a = nm \<or>
      unat s + unat n \<le> place_start nm \<or> place_start nm + 1048576 \<le> unat s"
    unfolding nand_layout_def board_names_def by (simp add: board_starts) (simp add: part_name_defs)
  with assms show ?thesis
    by auto
qed

lemma layout_other_blocks:
  assumes "nm \<in> board_names" and "(a, s, n) \<in> set nand_layout" and "cstr a \<noteq> nm"
    and "unat s \<le> x" and "x < unat s + unat n"
  shows "\<not> own_block nm x"
proof
  assume "own_block nm x"
  then obtain y where y: "place_start nm \<le> y" "y < place_start nm + place_size nm" "y div 131072 = x div 131072"
    by (auto simp: own_block_def touches_def)
  define k where "k = place_start nm div 131072"
  have k: "place_start nm = k * 131072"
    by (simp add: k_def board_place_def)
  have d: "k \<le> x div 131072" "x div 131072 < k + 8"
    using place_block [OF y(1,2)] y(3) k by simp_all
  have "k * 131072 \<le> x div 131072 * 131072" "x div 131072 * 131072 \<le> x"
    using d(1) by (rule mult_le_mono1) (rule div_times_less_eq_dividend)
  moreover have "x < (k + 8) * 131072"
    using d(2) by (simp only: div_less_iff_less_mult zero_less_numeral)
  ultimately have "place_start nm \<le> x" "x < place_start nm + 1048576"
    using k by simp_all
  with layout_apart [OF assms(1-3)] show False
    using assms(4,5) by linarith
qed

text \<open>C23: An access to one of the four partitions of the firmware spares the rest of the flash.  Whatever
  erases and programs fail on the chip, a read or write of a range whose end does not wrap around 32 bits, an
  erase of such a range that is not empty, and an erase of the whole partition return and leave every byte
  outside the blocks of the partition as it was, so every byte of the five other partitions of the
  board, although erasing rewrites whole blocks.\<close>

theorem board_access_spares_other_partitions:
  fixes base :: u32
  assumes "board_on_chip B ok view solid rel info ops" and "chip_ready ok view c"
    and "nm \<in> board_names" and "unat off + unat n < 2 ^ 32" and "unat n \<le> length bs"
  defines "P \<equiv> board_if base ops (nand_dev_of B info)" and "fl \<equiv> \<lambda>c. flash_of (cv_page (view c))"
  shows "(\<exists>r bs c'. if_read P nm False off n c = Some (r, bs, c') \<and> fl c' = fl c) \<and>
    (\<exists>r c'. if_write P nm bs off n c = Some (r, c') \<and> (\<forall>x. \<not> own_block nm x \<longrightarrow> fl c' x = fl c x)) \<and>
    (0 < unat n \<longrightarrow> (\<exists>r c'. if_erase P nm off n c = Some (r, c') \<and> (\<forall>x. \<not> own_block nm x \<longrightarrow> fl c' x = fl c x))) \<and>
    (\<exists>r c'. if_erase_all P nm c = Some (r, c') \<and> (\<forall>x. \<not> own_block nm x \<longrightarrow> fl c' x = fl c x)) \<and>
    (\<forall>(a, s, m) \<in> set nand_layout. cstr a \<noteq> nm \<longrightarrow> (\<forall>x. unat s \<le> x \<and> x < unat s + unat m \<longrightarrow> \<not> own_block nm x))"
  using board_on_chip.other_blocks [OF assms(1-4)] assms(5) layout_other_blocks [OF assms(3)]
  unfolding P_def fl_def by blast

text \<open>C2: Seen through the partition manager, the flash is one array of bytes per partition: the chain of
  partition manager, partition device and NAND driver refines the store in memory.  Reads return the
  same bytes, writes to erased bytes and erases, also of parts of a block, have the same effect.\<close>

theorem board_refines_byte_arrays:
  fixes base :: u32
  assumes "reliable_board_on_chip B ok view solid info ops" and "chip_ready ok view c"
    and "nm \<in> board_names" and "unat off + unat n \<le> place_size nm" and "0 < unat n" and "unat n \<le> length bs"
  defines "P \<equiv> board_if base ops (nand_dev_of B info)" and "ab \<equiv> board_cont (\<lambda>c. cv_page (view c))"
  shows "(\<exists>bs c'. if_read P nm False off n c = Some (0, bs, c') \<and>
      if_read ram_if nm False off n (ab c) = Some (0, bs, ab c) \<and> (\<forall>m \<in> board_names. ab c' m = ab c m)) \<and>
    (bslice (unat off) (unat n) (ab c nm) = replicate (unat n) erased \<longrightarrow>
      (\<exists>c' a'. if_write P nm bs off n c = Some (0, c') \<and> if_write ram_if nm bs off n (ab c) = Some (0, a') \<and>
        (\<forall>m \<in> board_names. ab c' m = a' m))) \<and>
    (\<exists>c' a'. if_erase P nm off n c = Some (0, c') \<and> if_erase ram_if nm off n (ab c) = Some (0, a') \<and>
        (\<forall>m \<in> board_names. ab c' m = a' m)) \<and>
    (\<exists>c' a'. if_erase_all P nm c = Some (0, c') \<and> if_erase_all ram_if nm (ab c) = Some (0, a') \<and>
        (\<forall>m \<in> board_names. ab c' m = a' m))"
  using reliable_board_on_chip.refines_ram [OF assms(1-4)] assms(5,6) unfolding P_def ab_def by blast

text \<open>C1: The whole program on the board: an image sent over YMODEM ends up, through partition manager,
  partition device and NAND driver, in the slot that was not running, boot loads exactly its payload
  from there and returns its entry address, and the other slot keeps its bytes.\<close>

theorem firmware_on_the_board:
  fixes base :: u32
  assumes "reliable_board_on_chip B ok view solid info ops" and "chip_ready ok view (y_env Y)"
    and "length cache = 1024" and "length (f_buf (cache_frame Y)) = PACKET_SIZE_1K" and "y_port Y"
    and "0 \<notin> set name" and "packet_size (length (header_block name n rest))" and "n < 2 ^ 31"
    and "\<forall>(k, b) \<in> set blocks. packet_size (length b)" and "fits (int n) (map (length \<circ> snd) blocks)" and "packet_size z"
    and "y_line Y = \<lparr>rx = map Some (packet num (header_block name n rest) @ data_packets blocks @ closing num' z) @ r, tx = t\<rparr>"
    and "concat (map snd blocks) = header_bytes h @ body @ pad" "unat (fh_size h) = length body"
      "fh_magic h = OTA_FIRMWARE_MAGIC" "fh_crc32 h = crc32 body" "fh_load_addr h \<noteq> 0"
    and "length (concat (map snd blocks)) \<le> 1048576"
  defines "P \<equiv> board_if base ops (nand_dev_of B info)" and "ab \<equiv> board_cont (\<lambda>c. cv_page (view c))"
  defines "p \<equiv> para_at ab (y_env Y)"
  shows "\<exists>c1 Y1 c2 s2 s3.
    ota_download_firmware P cache Y = Some (0, c1, Y1) \<and>
    ota_update_firmware P c1 (y_env Y1) = Some (0, c2, s2) \<and>
    boot_firmware P m s2 = Some (fh_exec_addr h, mem_store (fh_load_addr h) body m, s3) \<and>
    active_part (para_at ab s3) = spare_part p \<and> ab s3 (active_part p) = ab (y_env Y) (active_part p)"
proof -
  have sizes: "place_size DOWN_PART = 1048576" "place_size PARA_PART = 122880" "place_size (spare_part q) = 1048576" for q
    by (simp_all add: board_place_def spare_part_def)
  have "32 + length body \<le> 1048576"
    using assms(13,18) by simp
  with assms(18) show ?thesis
    unfolding P_def ab_def p_def
    by (intro reliable_board_on_chip.firmware_run [OF assms(1-17)]) (simp_all add: sizes)
qed

section \<open>Concrete runs\<close>

text \<open>A blank chip at rest.\<close>

definition demo_chip :: chip_view where
  "demo_chip = \<lparr>cv_page = (\<lambda>_. blank_page), cv_reg = blank_page, cv_wel = False, cv_busy = 0,
     cv_efail = False, cv_pfail = False\<rparr>"

lemma demo_chip_facts [simp]:
  "sim_ok demo_chip" "cv_busy demo_chip = 0" "\<not> cv_pfail demo_chip" "cv_page demo_chip q = blank_page"
  "chip_ready sim_ok (\<lambda>c. c) demo_chip" "board_info sim_info"
  by (simp_all add: demo_chip_def sim_ok_def blank_page_def chip_ready_def board_info_def sim_info_def)

theorem nand_page_read_returns_page_witness:
  "\<exists>c'. nand_page_read sim_bus (Some sim_info) 1024 4 False 2 demo_chip = Some (0, [erased, erased], c')"
proof -
  have "bslice 4 2 blank_page = [erased, erased]"
    by (simp add: bslice_def blank_page_def numeral_2_eq_2)
  then show ?thesis
    using nand_page_read_returns_page [OF sim.nand_chip_axioms, of demo_chip sim_info 1024 4 2]
    by (auto simp: board_page_def)
qed

theorem nand_page_write_programs_witness:
  "\<exists>c'. nand_page_write sim_bus (Some sim_info) 1024 0 (Some [7]) 1 demo_chip = Some (0, c') \<and>
     hd (cv_page c' 1024) = 7"
proof -
  have "hd (map2 (AND) (patch 0 [7] blank_page) blank_page) = 7"
    by (simp add: patch_def blank_page_def numeral_eq_Suc)
  then show ?thesis
    using nand_page_write_programs [OF sim.nand_chip_axioms, of demo_chip sim_info 1024 0 1 "[7]"]
    by (auto simp: board_page_def sim_solid_def)
qed

theorem nand_write_failure_noticed_too_late_witness:
  "\<exists>c1 c2. nand_page_write sim_bus (Some sim_info) 512 0 (Some [7]) 1 demo_chip = Some (0, c1) \<and>
     cv_page c1 512 = blank_page \<and>
     nand_page_write sim_bus (Some sim_info) 1024 0 (Some [7]) 1 c1 = Some (-1, c2) \<and> cv_page c2 1024 = blank_page"
  using nand_write_failure_noticed_too_late [OF sim.nand_chip_axioms, of demo_chip sim_info 512 0 1 "[7]" 1024 0 1 "[7]"]
  by (auto simp: board_page_def sim_solid_def)

text \<open>A bus whose chip reports busy for ever.\<close>

definition stuck_bus :: "unit spi_bus" where
  "stuck_bus = \<lparr>bus_init = (\<lambda>c. Some (0, c)), bus_deinit = (\<lambda>c. Some (0, c)),
     bus_transfer = (\<lambda>m c. Some (0, [1], c)), bus_transfer2 = (\<lambda>m d c. Some (0, c))\<rparr>"

theorem nand_wait_hangs_on_busy_chip_witness: "nand_wait_while_busy stuck_bus () = None"
  by (rule nand_wait_hangs_on_busy_chip [of _ UNIV]) (simp_all add: stuck_bus_def)

theorem board_partitions_registered_witness:
  "\<exists>T. nand_register_tables 0x1000 sim_info (part_tables_init 0x8000) = (0, T) \<and> length (entries T) = 6"
  using board_partitions_registered [of "0x1000" sim_info "0x8000"] by (auto simp: nand_layout_def)

theorem board_access_spares_other_partitions_witness:
  "\<exists>r c'. if_erase (board_if 0x8000 0x1000 (nand_dev_of sim_bus sim_info)) PARA_PART 0 32 demo_chip = Some (r, c') \<and>
     flash_of (cv_page c') 0x4FFFFF = flash_of (cv_page demo_chip) 0x4FFFFF"
proof -
  have "\<not> own_block PARA_PART 0x4FFFFF"
    by (rule layout_other_blocks [of _ "''Download''" "2048 * 2048" "512 * 2048"])
      (simp_all add: board_names_def nand_layout_def part_name_defs cstr_def)
  then show ?thesis
    using board_access_spares_other_partitions [OF sim.board_on_chip_axioms, where c = demo_chip and nm = PARA_PART and off = 0 and n = 32
      and bs = "replicate 32 0" and base = "0x8000"]
    by (auto simp: board_names_def)
qed

theorem board_refines_byte_arrays_witness:
  "\<exists>c' a'. if_erase (board_if 0x8000 0x1000 (nand_dev_of sim_bus sim_info)) PARA_PART 4 32 demo_chip = Some (0, c') \<and>
     if_erase ram_if PARA_PART 4 32 (board_cont cv_page demo_chip) = Some (0, a') \<and>
     (\<forall>m \<in> board_names. board_cont cv_page c' m = a' m)"
proof -
  have "36 \<le> place_size PARA_PART"
    by (simp add: board_place_def)
  then show ?thesis
    using board_refines_byte_arrays [OF sim.reliable_board_on_chip_axioms, of demo_chip PARA_PART 4 32 "replicate 32 0" "0x8000"]
    by (auto simp: board_names_def)
qed

definition demo_board :: "chip_view part_if" where
  "demo_board = board_if 0x8000 0x1000 (nand_dev_of sim_bus sim_info)"

theorem firmware_on_the_board_witness:
  "\<exists>c1 Y1 c2 s2 s3. ota_download_firmware demo_board (replicate 1024 0) (demo_sender demo_chip) = Some (0, c1, Y1) \<and>
    ota_update_firmware demo_board c1 (y_env Y1) = Some (0, c2, s2) \<and>
    boot_firmware demo_board (\<lambda>_. 0) s2 = Some (0x40000100, mem_store 0x40000000 demo_body (\<lambda>_. 0), s3)"
  unfolding demo_board_def
  using firmware_on_the_board [OF sim.reliable_board_on_chip_axioms, of "demo_sender demo_chip" "replicate 1024 0" "cstr ''a''" 130
    "replicate 122 0" demo_blocks 128 0 0 "[]" "[]" "demo_image 7" demo_body "replicate 92 0 @ replicate 128 0" "0x8000" "\<lambda>_. 0",
    unfolded demo_header_unfold]
  by auto

text \<open>The initialisation on the simulated chip.\<close>

theorem nand_init_accepts_only_known_chip_witness:
  "\<exists>N'. nand_init sim_bus (\<lambda>_. 0) False \<lparr>nand_info = sim_info, nand_spi = demo_chip\<rparr> = Some (0, N') \<and> board_info (nand_info N')"
proof -
  let ?N = "\<lparr>nand_info = sim_info, nand_spi = demo_chip\<rparr>"
  have w: "nand_wait_while_busy sim_bus demo_chip = Some (0, demo_chip)"
    using sim.wait_ends [of demo_chip] by (metis demo_chip_facts(1,2) idle_view)
  have idle: "demo_chip\<lparr>cv_busy := 0\<rparr> = demo_chip" "sim_status demo_chip = 0"
    by (simp_all add: demo_chip_def sim_status_def)
  have "nand_init sim_bus (\<lambda>_. 0) False ?N = Some (0, nand_set_geometry ?N)"
    by (simp add: nand_init_def nand_reset_def w nand_get_id_def nand_configure_def nand_get_feature_def nand_set_feature_def
        sim_bus_def [THEN arg_cong, of bus_init] sim_transfer_def tx_msg_def rx_msg_def overlay_def idle sim_info_def)
  from nand_init_accepts_only_known_chip [OF this] this show ?thesis
    by blast
qed

end
