(* ===== verification/Xstring.thy ===== *)
theory Xstring
  imports HG_Prelude
begin

text \<open>
  The string library of \<^verbatim>\<open>hgboot/shell/xstring.c\<close>.  A pointer into a character array is the
  rest of that array from the pointer on, so that every dereference is a match on a list and a
  run off the end of the array is \<^term>\<open>None\<close>.  A function that writes returns the array after
  the call; one that returns a pointer returns the index it points to, or \<^term>\<open>None\<close> for a
  null pointer, inside the outer option.  Counters of type \<^verbatim>\<open>unsigned int\<close> are naturals.
\<close>

section \<open>The routines\<close>

fun xmemset :: "u8 list \<Rightarrow> u32 \<Rightarrow> nat \<Rightarrow> u8 list option" where
  "xmemset d val 0 = Some d"
| "xmemset [] val (Suc cnt) = None"
| "xmemset (x # d) val (Suc cnt) = map_option ((#) (ucast val)) (xmemset d val cnt)"

fun xmemcmp :: "u8 list \<Rightarrow> u8 list \<Rightarrow> nat \<Rightarrow> int option" where
  "xmemcmp d s 0 = Some 0"
| "xmemcmp (x # d) (y # s) (Suc cnt) =
     (let r = int (unat x) - int (unat y) in if r = 0 then xmemcmp d s cnt else Some r)"
| "xmemcmp d s (Suc cnt) = None"

fun xstrlen :: "u8 list \<Rightarrow> nat option" where
  "xstrlen [] = None"
| "xstrlen (c # str) = (if c = 0 then Some 0 else map_option Suc (xstrlen str))"

fun xstrcpy :: "u8 list \<Rightarrow> u8 list \<Rightarrow> u8 list option" where
  "xstrcpy (d # dst) (c # src) =
     (if c = 0 then Some (c # dst) else map_option ((#) c) (xstrcpy dst src))"
| "xstrcpy dst src = None"

fun nul_pad :: "u8 list \<Rightarrow> nat \<Rightarrow> u8 list option" where
  "nul_pad d 0 = Some d"
| "nul_pad [] (Suc n) = None"
| "nul_pad (x # d) (Suc n) = map_option ((#) 0) (nul_pad d n)"

fun xstrncpy :: "u8 list \<Rightarrow> u8 list \<Rightarrow> nat \<Rightarrow> u8 list option" where
  "xstrncpy dst src 0 = Some dst"
| "xstrncpy (d # dst) (c # src) (Suc n) =
     map_option ((#) c) (if c = 0 then nul_pad dst n else xstrncpy dst src n)"
| "xstrncpy dst src (Suc n) = None"

fun xstrcat :: "u8 list \<Rightarrow> u8 list \<Rightarrow> u8 list option" where
  "xstrcat [] src = None"
| "xstrcat (d # dst) src =
     (if d \<noteq> 0 then map_option ((#) d) (xstrcat dst src) else xstrcpy (d # dst) src)"

fun xstrcmp :: "u8 list \<Rightarrow> u8 list \<Rightarrow> int option" where
  "xstrcmp (c1 # p1) (c2 # p2) =
     (if c1 \<noteq> c2 then Some (if c1 < c2 then -1 else 1)
      else if c1 = 0 then Some 0
      else xstrcmp p1 p2)"
| "xstrcmp p1 p2 = None"

fun xstrncmp :: "u8 list \<Rightarrow> u8 list \<Rightarrow> nat \<Rightarrow> int option" where
  "xstrncmp p1 p2 0 = Some 0"
| "xstrncmp (c1 # p1) (c2 # p2) (Suc cnt) =
     (if c1 \<noteq> c2 then Some (if c1 < c2 then -1 else 1)
      else if c1 = 0 then Some 0
      else xstrncmp p1 p2 cnt)"
| "xstrncmp p1 p2 (Suc cnt) = None"

fun xstrchr :: "u8 list \<Rightarrow> u32 \<Rightarrow> nat option option" where
  "xstrchr [] c = None"
| "xstrchr (x # s) c =
     (if x = ucast c then Some (Some 0)
      else if x = 0 then Some None
      else map_option (map_option Suc) (xstrchr s c))"

text \<open>
  The loop of \<^verbatim>\<open>xstrstr\<close> holds the start \<open>i\<close> of the current attempt (\<open>s1\<close>), the place in the
  text it has reached (\<open>s\<close>) and the place in the pattern (\<open>p\<close>).
\<close>

fun xstrstr_loop :: "u8 list \<Rightarrow> nat \<Rightarrow> u8 list \<Rightarrow> u8 list \<Rightarrow> u8 list \<Rightarrow> nat option option" where
  "xstrstr_loop s2 i s1 s [] = None"
| "xstrstr_loop s2 i s1 s (p0 # p) =
     (if p0 = 0 then Some (Some i)
      else case s of [] \<Rightarrow> None
      | c # s' \<Rightarrow>
          if p0 = c then xstrstr_loop s2 i s1 s' p
          else if c = 0 then Some None
          else case s1 of [] \<Rightarrow> None
          | _ # s1' \<Rightarrow> xstrstr_loop s2 (Suc i) s1' s1' s2)"

definition xstrstr :: "u8 list \<Rightarrow> u8 list \<Rightarrow> nat option option" where
  "xstrstr s1 s2 = xstrstr_loop s2 0 s1 s1 s2"

fun xmemchr :: "u8 list \<Rightarrow> u32 \<Rightarrow> nat \<Rightarrow> nat option option" where
  "xmemchr s val 0 = Some None"
| "xmemchr [] val (Suc cnt) = None"
| "xmemchr (c # s) val (Suc cnt) =
     (if ucast c = val then Some (Some 0)
      else map_option (map_option Suc) (xmemchr s val cnt))"

text \<open>Both pointers of \<^verbatim>\<open>xmemmove\<close> are indices into one array, so that they may overlap.\<close>

fun move_forward :: "u8 list \<Rightarrow> nat \<Rightarrow> nat \<Rightarrow> nat \<Rightarrow> u8 list option" where
  "move_forward m p s 0 = Some m"
| "move_forward m p s (Suc cnt) =
     (if p < length m \<and> s < length m then move_forward (m[p := m ! s]) (Suc p) (Suc s) cnt
      else None)"

fun move_backward :: "u8 list \<Rightarrow> nat \<Rightarrow> nat \<Rightarrow> nat \<Rightarrow> u8 list option" where
  "move_backward m dst src 0 = Some m"
| "move_backward m dst src (Suc cnt) =
     (if dst + cnt < length m \<and> src + cnt < length m
      then move_backward (m[dst + cnt := m ! (src + cnt)]) dst src cnt
      else None)"

definition xmemmove :: "u8 list \<Rightarrow> nat \<Rightarrow> nat \<Rightarrow> nat \<Rightarrow> u8 list option" where
  "xmemmove m dst src cnt =
     (if dst \<le> src then move_forward m dst src cnt else move_backward m dst src cnt)"

section \<open>Reading a number\<close>

text \<open>
  \<^verbatim>\<open>xstrtol\<close> returns its code and, when it stores through \<^verbatim>\<open>out\<close>, the stored word.  The
  arithmetic on \<^verbatim>\<open>int\<close> wraps modulo $2^{32}$.
\<close>

fun skip_blanks :: "u8 list \<Rightarrow> u8 list" where
  "skip_blanks (c # str) = (if c = 0x20 \<or> c = 0x09 then skip_blanks str else c # str)"
| "skip_blanks [] = []"

definition digit_of :: "u8 \<Rightarrow> u32 option" where
  "digit_of c =
     (if 0x30 \<le> c \<and> c \<le> 0x39 then Some (ucast (c - 0x30))
      else if 0x61 \<le> c \<and> c \<le> 0x66 then Some (10 + ucast (c - 0x61))
      else if 0x41 \<le> c \<and> c \<le> 0x46 then Some (10 + ucast (c - 0x41))
      else None)"

fun xstrtol_digits :: "u32 \<Rightarrow> u32 \<Rightarrow> u8 list \<Rightarrow> (int + u32) option" where
  "xstrtol_digits base result [] = None"
| "xstrtol_digits base result (c # str) =
     (if c = 0 then Some (Inr result)
      else case digit_of c of
        None \<Rightarrow> Some (Inl (-2))
      | Some digit \<Rightarrow>
          if digit \<ge> base then Some (Inl (-3))
          else xstrtol_digits base (result * base + digit) str)"

definition xstrtol_sign :: "u8 list \<Rightarrow> (u32 \<times> u8 list) option" where
  "xstrtol_sign str = (case str of [] \<Rightarrow> None
     | c # str' \<Rightarrow> Some (if c = 0x2D then (-1, str') else if c = 0x2B then (1, str') else (1, c # str')))"

definition xstrtol_base :: "u8 list \<Rightarrow> (u32 \<times> u8 list) option" where
  "xstrtol_base str = (case str of [] \<Rightarrow> None
     | c # str' \<Rightarrow>
         if c = 0x30 then
           (case str' of [] \<Rightarrow> None
            | x # str'' \<Rightarrow> Some (if x = 0x78 \<or> x = 0x58 then (16, str'') else (10, c # str')))
         else Some (10, c # str'))"

definition xstrtol :: "u8 list \<Rightarrow> (int \<times> u32 option) option" where
  "xstrtol str = do {
     (sign, str1) \<leftarrow> xstrtol_sign (skip_blanks str);
     (base, str2) \<leftarrow> xstrtol_base str1;
     r \<leftarrow> xstrtol_digits base 0 str2;
     Some (case r of Inl e \<Rightarrow> (e, None) | Inr result \<Rightarrow> (0, Some (result * sign)))
   }"

section \<open>Strings inside arrays\<close>

text \<open>The string an array holds, and the arrays that hold one.\<close>

definition str_of :: "u8 list \<Rightarrow> u8 list" where
  "str_of buf = takeWhile (\<lambda>c. c \<noteq> 0) buf"

abbreviation terminated :: "u8 list \<Rightarrow> bool" where
  "terminated buf \<equiv> 0 \<in> set buf"

named_theorems str_simps \<open>what the string routines compute on terminated arrays\<close>

lemma str_of_Nil [simp]: "str_of [] = []"
  by (simp add: str_of_def)

lemma str_of_Cons [simp]: "str_of (c # s) = (if c = 0 then [] else c # str_of s)"
  by (simp add: str_of_def)

lemma str_of_no_nul [simp]: "0 \<notin> set (str_of s)"
  by (auto simp: str_of_def dest: set_takeWhileD)

lemma str_of_append_nul [simp]: "0 \<notin> set w \<Longrightarrow> str_of (w @ 0 # t) = w"
  by (induction w) auto

lemma terminated_split: "terminated s \<Longrightarrow> \<exists>t. s = str_of s @ 0 # t"
  by (induction s) auto

lemma length_str_of: "terminated s \<Longrightarrow> length (str_of s) < length s"
  by (induction s) auto

lemma str_of_le: "length (str_of s) \<le> length s"
  by (simp add: str_of_def length_takeWhile_le)

lemma str_of_take: "terminated (take n s) \<Longrightarrow> str_of (take n s) = str_of s"
  by (induction s arbitrary: n) (auto simp: take_Cons split: nat.splits)

lemma xstrlen_str [str_simps]: "terminated s \<Longrightarrow> xstrlen s = Some (length (str_of s))"
  by (induction s) auto

lemma xmemset_fill [str_simps]:
  "cnt \<le> length d \<Longrightarrow> xmemset d val cnt = Some (replicate cnt (ucast val) @ drop cnt d)"
  by (induction d val cnt rule: xmemset.induct) auto

lemma nul_pad_fill: "n \<le> length d \<Longrightarrow> nul_pad d n = Some (replicate n 0 @ drop n d)"
  by (induction d n rule: nul_pad.induct) auto

lemma xstrcpy_str [str_simps]:
  "terminated src \<Longrightarrow> length (str_of src) < length dst \<Longrightarrow>
   xstrcpy dst src = Some (str_of src @ 0 # drop (Suc (length (str_of src))) dst)"
  by (induction dst src rule: xstrcpy.induct) auto

lemma xstrcpy_overrun: "terminated src \<Longrightarrow> length dst \<le> length (str_of src) \<Longrightarrow> xstrcpy dst src = None"
  by (induction dst src rule: xstrcpy.induct) (auto split: if_splits)

lemma xstrcat_str [str_simps]:
  "terminated dst \<Longrightarrow> terminated src \<Longrightarrow> length (str_of dst) + length (str_of src) < length dst \<Longrightarrow>
   xstrcat dst src = Some (str_of dst @ str_of src @ 0 #
     drop (Suc (length (str_of dst) + length (str_of src))) dst)"
  by (induction dst src rule: xstrcat.induct) (auto simp: xstrcpy_str)

lemma xstrncpy_fit [str_simps]:
  "terminated src \<Longrightarrow> length (str_of src) < n \<Longrightarrow> n \<le> length dst \<Longrightarrow>
   xstrncpy dst src n =
     Some (str_of src @ replicate (n - length (str_of src)) 0 @ drop n dst)"
proof (induction dst src n rule: xstrncpy.induct)
  case (2 d dst c src n)
  then show ?case
    by (auto simp: nul_pad_fill Suc_diff_le simp flip: replicate_Suc Suc_diff_Suc)
qed auto

lemma xstrcmp_eq [str_simps]:
  "terminated p \<Longrightarrow> terminated q \<Longrightarrow> \<exists>r. xstrcmp p q = Some r \<and> (r = 0 \<longleftrightarrow> str_of p = str_of q)"
  by (induction p q rule: xstrcmp.induct) auto

lemma xstrncmp_eq:
  "terminated p \<Longrightarrow> terminated q \<Longrightarrow>
   \<exists>r. xstrncmp p q n = Some r \<and> (r = 0 \<longleftrightarrow> take n (str_of p) = take n (str_of q))"
  by (induction p q n rule: xstrncmp.induct) auto

text \<open>A comparison of at most \<open>n\<close> characters needs only \<open>n\<close> characters of the second string.\<close>

lemma xstrncmp_eq_prefix:
  "terminated p \<Longrightarrow> n \<le> length q \<Longrightarrow>
   \<exists>r. xstrncmp p q n = Some r \<and> (r = 0 \<longleftrightarrow> take n (str_of p) = str_of (take n q))"
  by (induction p q n rule: xstrncmp.induct) (auto split: if_splits)


lemma nth_bslice: "i < n \<Longrightarrow> s + n \<le> length m \<Longrightarrow> bslice s n m ! i = m ! (s + i)"
  by (simp add: bslice_def)

lemma move_forward_slice:
  "p \<le> s \<Longrightarrow> s + n \<le> length m \<Longrightarrow> move_forward m p s n = Some (patch p (bslice s n m) m)"
proof (induction m p s n rule: move_forward.induct)
  case (2 m p s n)
  let ?m = "m[p := m ! s]"
  have "patch (Suc p) (bslice (Suc s) n ?m) ?m = patch p (bslice s (Suc n) m) m"
    using 2(2,3) by (intro nth_equalityI) (auto simp: nth_patch nth_bslice nth_list_update Suc_diff_Suc)
  then show ?case
    using 2 by simp
qed simp

lemma move_backward_slice:
  "s \<le> p \<Longrightarrow> p + n \<le> length m \<Longrightarrow> move_backward m p s n = Some (patch p (bslice s n m) m)"
proof (induction m p s n rule: move_backward.induct)
  case (2 m p s n)
  let ?m = "m[p + n := m ! (s + n)]"
  have "patch p (bslice s n ?m) ?m = patch p (bslice s (Suc n) m) m"
    using 2(2,3) by (intro nth_equalityI) (auto simp: nth_patch nth_bslice nth_list_update Suc_diff_le)
  then show ?case
    using 2 by simp
qed simp

text \<open>Overlap or not, the bytes that were at the source are at the destination afterwards.\<close>

lemma xmemmove_slice [str_simps]:
  "s + n \<le> length m \<Longrightarrow> p + n \<le> length m \<Longrightarrow> xmemmove m p s n = Some (patch p (bslice s n m) m)"
  by (simp add: xmemmove_def move_forward_slice move_backward_slice)

text \<open>The naive search returns the first place at which the pattern occurs.\<close>

fun first_occurrence :: "u8 list \<Rightarrow> u8 list \<Rightarrow> nat option" where
  "first_occurrence [] p = (if p = [] then Some 0 else None)"
| "first_occurrence (c # t) p =
     (if take (length p) (c # t) = p then Some 0 else map_option Suc (first_occurrence t p))"

lemma first_occurrence_prefix [simp]: "first_occurrence (p @ t) p = Some 0"
  by (cases "p @ t") (use append_eq_conv_conj [of p t "p @ t"] in auto)

lemma first_occurrence_short: "length t < length p \<Longrightarrow> first_occurrence t p = None"
  by (induction t) (auto dest: arg_cong [where f = length])

lemma str_of_append: "0 \<notin> set d \<Longrightarrow> str_of (d @ s) = d @ str_of s"
  by (induction d) auto

lemma xstrstr_loop_str:
  "s1 = d @ s \<Longrightarrow> s2 = d @ p \<Longrightarrow> 0 \<notin> set d \<Longrightarrow> terminated s1 \<Longrightarrow> terminated s2 \<Longrightarrow>
    xstrstr_loop s2 i s1 s p = Some (map_option ((+) i) (first_occurrence (str_of s1) (str_of s2)))"
proof (induction s2 i s1 s p arbitrary: d rule: xstrstr_loop.induct)
  case (2 s2 i s1 s p0 p)
  show ?case
  proof (cases "p0 = 0")
    case True
    then show ?thesis
      using 2(3-) by (simp add: str_of_append)
  next
    case False
    obtain c s' where s: "s = c # s'"
      using 2(3-) by (cases s) auto
    show ?thesis
    proof (cases "p0 = c")
      case True
      then show ?thesis
        using 2(1) [OF False s True, of "d @ [c]"] 2(3-) False s by simp
    next
      case neq: False
      show ?thesis
      proof (cases "c = 0")
        case True
        then show ?thesis
          using 2(3-) False s by (simp add: str_of_append first_occurrence_short)
      next
        case c: False
        have "s1 \<noteq> []"
          using 2(3) s by simp
        then obtain x s1' where s1: "s1 = x # s1'"
          by (cases s1) auto
        have x: "x \<noteq> 0"
          using 2(3,5) s s1 c by (cases d) auto
        have "take (length (str_of s2)) (str_of s1) \<noteq> str_of s2"
          using 2(3-) s False neq c by (simp add: str_of_append)
        then have "first_occurrence (str_of s1) (str_of s2)
            = map_option Suc (first_occurrence (str_of s1') (str_of s2))"
          using s1 x by simp
        moreover have "xstrstr_loop s2 (Suc i) s1' s1' s2
            = Some (map_option ((+) (Suc i)) (first_occurrence (str_of s1') (str_of s2)))"
          using 2(2) [OF False s neq c s1, of "[]"] 2(6,7) s1 x
          by (cases "first_occurrence (str_of s1') (str_of s2)") simp_all
        ultimately show ?thesis
          using False neq c s s1
          by (cases "first_occurrence (str_of s1') (str_of s2)") simp_all
      qed
    qed
  qed
qed auto

lemma xstrstr_str [str_simps]:
  "terminated s1 \<Longrightarrow> terminated s2 \<Longrightarrow>
   xstrstr s1 s2 = Some (first_occurrence (str_of s1) (str_of s2))"
  by (simp add: xstrstr_def xstrstr_loop_str [where d = "[]"] option.map_ident [unfolded id_def]
      cong: option.map_cong)

end
