(* ===== verification/Xformat.thy ===== *)
theory Xformat
  imports Xstring
begin

text \<open>
  The formatted output of \<^verbatim>\<open>hgboot/shell/xformat.c\<close>, configured as \<^verbatim>\<open>xformat.h\<close> does: \<^verbatim>\<open>long\<close>
  is the 32-bit machine word and there is no \<^verbatim>\<open>long long\<close>.  The conversion \<^verbatim>\<open>%f\<close> is outside
  the model (no caller of the boot loader uses it) and yields \<^term>\<open>None\<close>, like reading a
  variable argument of the wrong kind, one that was not passed, and a write below the start of
  the conversion buffer.  The characters go to \<open>xf_sink\<close> in the order of the calls of
  \<^verbatim>\<open>outchar\<close>.
\<close>

section \<open>Parameters of a conversion\<close>

datatype xarg = Arg_int u32 | Arg_str "u8 list option"

definition int32 :: "int \<Rightarrow> int" where
  "int32 x = sint (word_of_int x :: u32)"

abbreviation chr :: "char \<Rightarrow> u8" where
  "chr c \<equiv> of_char c"

text \<open>
  The buffer has \<open>sizeof(long) * 8 + 1\<close> bytes and is filled from its end: \<open>xf_free\<close> bytes of it
  are still unwritten, and \<open>xf_out\<close> are the characters above the write pointer (or those of a
  string argument), of which \<open>xf_length\<close> belong to the field.
\<close>

record xparam =
  xf_lvalue :: u32
  xf_out :: "u8 list"
  xf_free :: nat
  xf_length :: int
  xf_prec :: int
  xf_width :: int
  xf_count :: u32
  xf_flags :: u32
  xf_prefixlen :: int
  xf_prefix :: "u8 list"
  xf_radix :: nat
  xf_pad :: u8
  xf_state :: nat
  xf_sink :: "u8 list"

definition XF_BUFFER_SIZE :: nat where "XF_BUFFER_SIZE = 33"

definition FLAG_TYPE_INT :: u32 where "FLAG_TYPE_INT = 0x0000"
definition FLAG_TYPE_LONG :: u32 where "FLAG_TYPE_LONG = 0x0001"
definition FLAG_TYPE_SIZEOF :: u32 where "FLAG_TYPE_SIZEOF = 0x0002"
definition FLAG_TYPE_MASK :: u32 where "FLAG_TYPE_MASK = 0x0003"
definition FLAG_PREC :: u32 where "FLAG_PREC = 0x0004"
definition FLAG_LEFT :: u32 where "FLAG_LEFT = 0x0008"
definition FLAG_BLANK :: u32 where "FLAG_BLANK = 0x0010"
definition FLAG_PREFIX :: u32 where "FLAG_PREFIX = 0x0020"
definition FLAG_PLUS :: u32 where "FLAG_PLUS = 0x0040"
definition FLAG_UPPER :: u32 where "FLAG_UPPER = 0x0080"
definition FLAG_DECIMAL :: u32 where "FLAG_DECIMAL = 0x0100"
definition FLAG_INTEGER :: u32 where "FLAG_INTEGER = 0x0200"
definition FLAG_MINUS :: u32 where "FLAG_MINUS = 0x0400"
definition FLAG_VALUE :: u32 where "FLAG_VALUE = 0x0800"
definition FLAG_BUFFER :: u32 where "FLAG_BUFFER = 0x1000"

lemmas xf_flag_defs = FLAG_TYPE_INT_def FLAG_TYPE_LONG_def FLAG_TYPE_SIZEOF_def FLAG_TYPE_MASK_def
  FLAG_PREC_def FLAG_LEFT_def FLAG_BLANK_def FLAG_PREFIX_def FLAG_PLUS_def FLAG_UPPER_def
  FLAG_DECIMAL_def FLAG_INTEGER_def FLAG_MINUS_def FLAG_VALUE_def FLAG_BUFFER_def

definition has_flag :: "u32 \<Rightarrow> xparam \<Rightarrow> bool" where
  "has_flag f p \<longleftrightarrow> xf_flags p AND f \<noteq> 0"

definition set_flag :: "u32 \<Rightarrow> xparam \<Rightarrow> xparam" where
  "set_flag f p = p\<lparr>xf_flags := xf_flags p OR f\<rparr>"

definition set_type :: "u32 \<Rightarrow> xparam \<Rightarrow> xparam" where
  "set_type f p = p\<lparr>xf_flags := (xf_flags p AND NOT FLAG_TYPE_MASK) OR f\<rparr>"

definition set_prefix :: "u8 list \<Rightarrow> xparam \<Rightarrow> xparam" where
  "set_prefix pre p = p\<lparr>xf_prefix := overlay pre (xf_prefix p), xf_prefixlen := int (length pre)\<rparr>"

section \<open>The state machine of the parser\<close>

definition ST_NORMAL :: nat where "ST_NORMAL = 0"
definition ST_PERCENT :: nat where "ST_PERCENT = 1"
definition ST_FLAG :: nat where "ST_FLAG = 2"
definition ST_WIDTH :: nat where "ST_WIDTH = 3"
definition ST_DOT :: nat where "ST_DOT = 4"
definition ST_PRECIS :: nat where "ST_PRECIS = 5"
definition ST_SIZE :: nat where "ST_SIZE = 6"
definition ST_TYPE :: nat where "ST_TYPE = 7"

lemmas xf_state_defs = ST_NORMAL_def ST_PERCENT_def ST_FLAG_def ST_WIDTH_def ST_DOT_def
  ST_PRECIS_def ST_SIZE_def ST_TYPE_def

definition formatStates :: "nat list" where
  "formatStates = [
    0x06, 0x00, 0x00, 0x06, 0x00, 0x01, 0x00, 0x00, 0x10, 0x00, 0x03, 0x06, 0x00, 0x06, 0x02, 0x10, 0x04, 0x45, 0x45,
    0x45, 0x45, 0x05, 0x05, 0x05, 0x05, 0x35, 0x30, 0x00, 0x50, 0x60, 0x00, 0x00, 0x00, 0x20, 0x28, 0x38, 0x50, 0x50,
    0x00, 0x00, 0x00, 0x30, 0x30, 0x30, 0x50, 0x50, 0x00, 0x00, 0x08, 0x20, 0x20, 0x28, 0x20, 0x20, 0x20, 0x00, 0x08,
    0x60, 0x60, 0x60, 0x60, 0x60, 0x60, 0x00, 0x00, 0x70, 0x78, 0x78, 0x78, 0x70, 0x78, 0x00, 0x07, 0x08, 0x00, 0x00,
    0x07, 0x00, 0x00, 0x08, 0x08, 0x00, 0x00, 0x08, 0x00, 0x08, 0x00, 0x00, 0x08, 0x00, 0x07]"

definition char_class :: "u8 \<Rightarrow> nat" where
  "char_class c = (if c < 0x20 \<or> c > 0x7A then 0 else formatStates ! (unat c - 0x20) mod 16)"

definition next_state :: "nat \<Rightarrow> u8 \<Rightarrow> nat" where
  "next_state state c = formatStates ! (char_class c * 8 + state) div 16"

section \<open>Output\<close>

definition xf_outchar :: "u8 \<Rightarrow> xparam \<Rightarrow> xparam" where
  "xf_outchar c p = p\<lparr>xf_sink := xf_sink p @ [c], xf_count := xf_count p + 1\<rparr>"

definition xf_upcase :: "bool \<Rightarrow> u8 \<Rightarrow> u8" where
  "xf_upcase toupper c = (if toupper \<and> chr CHR ''a'' \<le> c \<and> c \<le> chr CHR ''z'' then c - 0x20 else c)"

text \<open>\<^verbatim>\<open>outBuffer\<close> puts out the first \<open>len\<close> characters, none when \<open>len\<close> is negative.\<close>

definition outBuffer :: "u8 list \<Rightarrow> int \<Rightarrow> bool \<Rightarrow> xparam \<Rightarrow> xparam option" where
  "outBuffer buffer len toupper p =
     (if len \<le> int (length buffer)
      then Some (fold (\<lambda>c. xf_outchar (xf_upcase toupper c)) (take (nat len) buffer) p)
      else None)"

definition outChars :: "u8 \<Rightarrow> int \<Rightarrow> xparam \<Rightarrow> xparam" where
  "outChars ch len p = fold xf_outchar (replicate (nat len) ch) p"

fun xfstrlen :: "u8 list \<Rightarrow> nat option" where
  "xfstrlen [] = None"
| "xfstrlen (c # s) = (if c = 0 then Some 0 else map_option Suc (xfstrlen s))"

section \<open>Digits\<close>

definition ms_digits :: "u8 list" where
  "ms_digits = cstr ''0123456789abcdef''"

definition digit_step :: "nat \<Rightarrow> u32 \<Rightarrow> u32 \<times> u32" where
  "digit_step radix v =
     (if radix = 2 then (v AND 0x01, drop_bit 1 v)
      else if radix = 8 then (v AND 0x07, drop_bit 3 v)
      else if radix = 16 then (v AND 0x0F, drop_bit 4 v)
      else (v mod 10, v div 10))"

function ulong2a :: "xparam \<Rightarrow> xparam option" where
  "ulong2a p =
     (if 0 < xf_prec p \<or> xf_lvalue p \<noteq> 0 then
        (if xf_free p = 0 then None
         else ulong2a (p\<lparr>
           xf_prec := int32 (xf_prec p - 1),
           xf_lvalue := snd (digit_step (xf_radix p) (xf_lvalue p)),
           xf_out := ms_digits ! unat (fst (digit_step (xf_radix p) (xf_lvalue p))) # xf_out p,
           xf_free := xf_free p - 1,
           xf_length := int32 (xf_length p + 1)\<rparr>))
      else Some (p\<lparr>xf_prec := int32 (xf_prec p - 1)\<rparr>))"
  by pat_completeness auto
termination
  by (relation "measure xf_free") auto

declare ulong2a.simps [simp del]

section \<open>Variable arguments\<close>

fun va_int :: "xarg list \<Rightarrow> (u32 \<times> xarg list) option" where
  "va_int (Arg_int w # args) = Some (w, args)"
| "va_int args = None"

fun va_str :: "xarg list \<Rightarrow> (u8 list option \<times> xarg list) option" where
  "va_str (Arg_str s # args) = Some (s, args)"
| "va_str args = None"

definition ms_null :: "u8 list" where "ms_null = cstr ''(null)'' @ [0]"
definition ms_true :: "u8 list" where "ms_true = cstr ''True'' @ [0]"
definition ms_false :: "u8 list" where "ms_false = cstr ''False'' @ [0]"

section \<open>The steps of the parser\<close>

definition xf_percent :: "xparam \<Rightarrow> xparam" where
  "xf_percent p = p\<lparr>xf_length := 0, xf_prefixlen := 0, xf_width := 0, xf_prec := 0,
     xf_flags := 0, xf_pad := chr CHR '' ''\<rparr>"

definition digit_append :: "int \<Rightarrow> u8 \<Rightarrow> int" where
  "digit_append n c = int32 (n * 10 + (int (unat c) - 0x30))"

definition xf_width_step :: "u8 \<Rightarrow> xparam \<Rightarrow> xarg list \<Rightarrow> (xparam \<times> xarg list) option" where
  "xf_width_step c p args =
     (if c = chr CHR ''*'' then do { (w, args') \<leftarrow> va_int args; Some (p\<lparr>xf_width := sint w\<rparr>, args') }
      else Some (p\<lparr>xf_width := digit_append (xf_width p) c\<rparr>, args))"

definition xf_precis_step :: "u8 \<Rightarrow> xparam \<Rightarrow> xarg list \<Rightarrow> (xparam \<times> xarg list) option" where
  "xf_precis_step c p args =
     (let p = set_flag FLAG_PREC p in
      if c = chr CHR ''*'' then do { (w, args') \<leftarrow> va_int args; Some (p\<lparr>xf_prec := sint w\<rparr>, args') }
      else Some (p\<lparr>xf_prec := digit_append (xf_prec p) c\<rparr>, args))"

definition xf_size_step :: "u8 \<Rightarrow> xparam \<Rightarrow> xparam" where
  "xf_size_step c p =
     (if c = chr CHR ''z'' then set_type FLAG_TYPE_SIZEOF p
      else if c = chr CHR ''l'' then set_type FLAG_TYPE_LONG p
      else p)"

definition xf_flag_step :: "u8 \<Rightarrow> xparam \<Rightarrow> xparam" where
  "xf_flag_step c p =
     (if c = chr CHR ''-'' then set_flag FLAG_LEFT p
      else if c = chr CHR ''0'' then p\<lparr>xf_pad := chr CHR ''0''\<rparr>
      else if c = chr CHR '' '' then set_flag FLAG_BLANK p
      else if c = chr CHR ''#'' then set_flag FLAG_PREFIX p
      else if c = chr CHR ''+'' then set_flag FLAG_PLUS p
      else p)"

text \<open>The conversions that only set up the parameters of an integer field.\<close>

definition xf_pointer :: "xparam \<Rightarrow> xparam" where
  "xf_pointer p = set_prefix [chr CHR ''-'', chr CHR ''>'']
     (set_type FLAG_TYPE_SIZEOF (set_flag FLAG_INTEGER p)\<lparr>xf_radix := 16, xf_prec := 8\<rparr>)"

definition xf_binary :: "xparam \<Rightarrow> xparam" where
  "xf_binary p = (let p = set_flag FLAG_INTEGER p\<lparr>xf_radix := 2\<rparr> in
     if has_flag FLAG_PREFIX p then set_prefix [chr CHR ''0'', chr CHR ''b''] p else p)"

definition xf_octal :: "xparam \<Rightarrow> xparam" where
  "xf_octal p = (let p = set_flag FLAG_INTEGER p\<lparr>xf_radix := 8\<rparr> in
     if has_flag FLAG_PREFIX p then set_prefix [chr CHR ''0''] p else p)"

definition xf_hex :: "xparam \<Rightarrow> xparam" where
  "xf_hex p = (let p = set_flag FLAG_INTEGER p\<lparr>xf_radix := 16\<rparr> in
     if has_flag FLAG_PREFIX p then set_prefix [chr CHR ''0'', chr CHR ''x''] p else p)"

definition xf_string :: "xparam \<Rightarrow> xarg list \<Rightarrow> (xparam \<times> xarg list) option" where
  "xf_string p args = do {
     (s, args') \<leftarrow> va_str args;
     let str = (case s of None \<Rightarrow> ms_null | Some str \<Rightarrow> str);
     n \<leftarrow> xfstrlen str;
     Some (p\<lparr>xf_out := str, xf_length := int32 (int n)\<rparr>, args')
   }"

definition xf_char :: "xparam \<Rightarrow> xarg list \<Rightarrow> (xparam \<times> xarg list) option" where
  "xf_char p args = do {
     (w, args') \<leftarrow> va_int args;
     Some (p\<lparr>xf_out := [ucast w], xf_length := 1\<rparr>, args')
   }"

definition xf_bool :: "xparam \<Rightarrow> xarg list \<Rightarrow> (xparam \<times> xarg list) option" where
  "xf_bool p args = do {
     (w, args') \<leftarrow> va_int args;
     let str = (if w \<noteq> 0 then ms_true else ms_false);
     n \<leftarrow> xfstrlen str;
     Some (p\<lparr>xf_out := str, xf_length := int32 (int n)\<rparr>, args')
   }"

definition xf_type_step :: "u8 \<Rightarrow> xparam \<Rightarrow> xarg list \<Rightarrow> (xparam \<times> xarg list) option" where
  "xf_type_step c p args =
     (if c = chr CHR ''P'' then Some (xf_pointer (set_flag FLAG_UPPER p), args)
      else if c = chr CHR ''p'' then Some (xf_pointer p, args)
      else if c = chr CHR ''b'' then Some (xf_binary p, args)
      else if c = chr CHR ''o'' then Some (xf_octal p, args)
      else if c = chr CHR ''X'' then Some (xf_hex (set_flag FLAG_UPPER p), args)
      else if c = chr CHR ''x'' then Some (xf_hex p, args)
      else if c = chr CHR ''d'' \<or> c = chr CHR ''i''
      then Some (set_flag (FLAG_DECIMAL OR FLAG_INTEGER) p\<lparr>xf_radix := 10\<rparr>, args)
      else if c = chr CHR ''u'' then Some (set_flag FLAG_INTEGER p\<lparr>xf_radix := 10\<rparr>, args)
      else if c = chr CHR ''S'' then xf_string (set_flag FLAG_UPPER p) args
      else if c = chr CHR ''s'' then xf_string p args
      else if c = chr CHR ''C'' then xf_char (set_flag FLAG_UPPER p) args
      else if c = chr CHR ''c'' then xf_char p args
      else if c = chr CHR ''f'' then None
      else if c = chr CHR ''B'' then xf_bool p args
      else Some (p\<lparr>xf_length := 0\<rparr>, args))"

section \<open>Integer fields\<close>

text \<open>
  Every kind of integer argument is one machine word, so the two switches over the size of the
  argument fetch the same word.
\<close>

definition xf_fetch :: "xparam \<Rightarrow> xarg list \<Rightarrow> (xparam \<times> xarg list) option" where
  "xf_fetch p args =
     (if has_flag FLAG_VALUE p then Some (p, args)
      else if xf_flags p AND FLAG_TYPE_MASK \<in> {FLAG_TYPE_SIZEOF, FLAG_TYPE_LONG, FLAG_TYPE_INT} then
        do { (w, args') \<leftarrow> va_int args; Some (p\<lparr>xf_lvalue := w\<rparr>, args') }
      else Some (p, args))"

definition xf_signed :: "xparam \<Rightarrow> xparam" where
  "xf_signed p =
     (if has_flag FLAG_DECIMAL p then
        let p = (if sint (xf_lvalue p) < 0
                 then set_flag FLAG_MINUS (p\<lparr>xf_lvalue := NOT (xf_lvalue p) + 1\<rparr>) else p) in
        if \<not> has_flag FLAG_MINUS p \<and> has_flag FLAG_BLANK p then set_prefix [chr CHR '' ''] p else p
      else p)"

definition xf_sign_char :: "xparam \<Rightarrow> xparam option" where
  "xf_sign_char p =
     (if has_flag (FLAG_MINUS OR FLAG_PLUS) p then
        let c = (if has_flag FLAG_MINUS p then chr CHR ''-'' else chr CHR ''+'') in
        if xf_pad p = chr CHR ''0'' then Some (set_prefix [c] p)
        else if xf_free p = 0 then None
        else Some (p\<lparr>xf_out := c # xf_out p, xf_free := xf_free p - 1,
          xf_length := int32 (xf_length p + 1)\<rparr>)
      else Some p)"

definition xf_integer :: "xparam \<Rightarrow> xarg list \<Rightarrow> (xparam \<times> xarg list) option" where
  "xf_integer p args = do {
     let p = (if xf_prec p = 0 then p\<lparr>xf_prec := 1\<rparr> else p);
     (p, args) \<leftarrow> xf_fetch p args;
     let p = (if has_flag FLAG_PREFIX p \<and> xf_lvalue p = 0 then p\<lparr>xf_prefixlen := 0\<rparr> else p);
     let p = xf_signed p;
     let p = (if \<not> has_flag FLAG_BUFFER p then p\<lparr>xf_out := [], xf_free := XF_BUFFER_SIZE\<rparr> else p);
     p \<leftarrow> ulong2a p;
     p \<leftarrow> xf_sign_char p;
     Some (p, args)
   }"

section \<open>Putting out a field\<close>

definition xf_clip :: "xparam \<Rightarrow> xparam" where
  "xf_clip p = (if xf_width p \<noteq> 0 \<and> xf_length p > xf_width p then p\<lparr>xf_length := xf_width p\<rparr> else p)"

definition xf_field :: "xparam \<Rightarrow> xparam option" where
  "xf_field p = do {
     let p = p\<lparr>xf_width := int32 (xf_width p - (xf_length p + xf_prefixlen p))\<rparr>;
     p \<leftarrow> outBuffer (xf_prefix p) (xf_prefixlen p) (has_flag FLAG_UPPER p) p;
     let p = (if \<not> has_flag FLAG_LEFT p then outChars (xf_pad p) (xf_width p) p else p);
     p \<leftarrow> outBuffer (xf_out p) (xf_length p) (has_flag FLAG_UPPER p) p;
     Some (if has_flag FLAG_LEFT p then outChars (xf_pad p) (xf_width p) p else p)
   }"

definition xf_type :: "u8 \<Rightarrow> xparam \<Rightarrow> xarg list \<Rightarrow> (xparam \<times> xarg list) option" where
  "xf_type c p args = do {
     (p, args) \<leftarrow> xf_type_step c p args;
     (p, args) \<leftarrow> (if has_flag FLAG_INTEGER p then xf_integer p args else Some (xf_clip p, args));
     p \<leftarrow> xf_field p;
     Some (p, args)
   }"

section \<open>The main loop\<close>

definition xf_step :: "u8 \<Rightarrow> xparam \<Rightarrow> xarg list \<Rightarrow> (xparam \<times> xarg list) option" where
  "xf_step c p args =
     (let p = p\<lparr>xf_state := next_state (xf_state p) c\<rparr> in
      if xf_state p = ST_PERCENT then Some (xf_percent p, args)
      else if xf_state p = ST_WIDTH then xf_width_step c p args
      else if xf_state p = ST_DOT then Some (p, args)
      else if xf_state p = ST_PRECIS then xf_precis_step c p args
      else if xf_state p = ST_SIZE then Some (xf_size_step c p, args)
      else if xf_state p = ST_FLAG then Some (xf_flag_step c p, args)
      else if xf_state p = ST_TYPE then xf_type c p args
      else Some (xf_outchar c p, args))"

fun xf_loop :: "u8 list \<Rightarrow> xparam \<Rightarrow> xarg list \<Rightarrow> xparam option" where
  "xf_loop [] p args = None"
| "xf_loop (c # fmt) p args =
     (if c = 0 then Some p
      else do { (p', args') \<leftarrow> xf_step c p args; xf_loop fmt p' args' })"

text \<open>The fields that the code leaves uninitialised are parameters of the start state.\<close>

definition xf_start :: "xparam \<Rightarrow> xparam" where
  "xf_start p = p\<lparr>xf_count := 0, xf_state := ST_NORMAL, xf_sink := []\<rparr>"

definition xvformat :: "xparam \<Rightarrow> u8 list \<Rightarrow> xarg list \<Rightarrow> (u8 list \<times> u32) option" where
  "xvformat junk fmt args = map_option (\<lambda>p. (xf_sink p, xf_count p)) (xf_loop fmt (xf_start junk) args)"

definition xformat :: "xparam \<Rightarrow> u8 list \<Rightarrow> xarg list \<Rightarrow> (u8 list \<times> u32) option" where
  "xformat junk fmt args = xvformat junk fmt args"

end
