(* ===== verification/Xformat_Facts.thy ===== *)
theory Xformat_Facts
  imports Xformat
begin

text \<open>
  What the formatted output prints: the digits of a number, the space a conversion needs in its
  buffer, and the round trip through \<^verbatim>\<open>xstrtol\<close>.
\<close>

section \<open>Digits\<close>

fun digits :: "nat \<Rightarrow> nat \<Rightarrow> nat list" where
  "digits r n = (if n = 0 \<or> r < 2 then [] else digits r (n div r) @ [n mod r])"

declare digits.simps [simp del]

lemma digits_0 [simp]: "digits r 0 = []"
  by (subst digits.simps) simp

lemma digits_rec: "0 < n \<Longrightarrow> 2 \<le> r \<Longrightarrow> digits r n = digits r (n div r) @ [n mod r]"
  by (subst digits.simps) simp

lemma digits_lt: "d \<in> set (digits r n) \<Longrightarrow> d < r"
proof (induction r n rule: digits.induct)
  case (1 r n)
  then show ?case
    by (subst (asm) (2) digits.simps) (auto split: if_splits)
qed

lemma digits_hd: "0 < n \<Longrightarrow> 2 \<le> r \<Longrightarrow> digits r n \<noteq> [] \<and> hd (digits r n) \<noteq> 0"
proof (induction r n rule: digits.induct)
  case (1 r n)
  show ?case
  proof (cases "n div r = 0")
    case True
    then show ?thesis
      using 1(2,3) by (simp add: digits_rec div_eq_0_iff)
  next
    case False
    then have "digits r (n div r) \<noteq> [] \<and> hd (digits r (n div r)) \<noteq> 0"
      using 1 by simp
    then show ?thesis
      using 1(2,3) by (simp add: digits_rec)
  qed
qed

lemma length_digits: "n < r ^ k \<Longrightarrow> 2 \<le> r \<Longrightarrow> length (digits r n) \<le> k"
proof (induction k arbitrary: n)
  case (Suc k)
  show ?case
  proof (cases "n = 0")
    case False
    moreover have "n div r < r ^ k"
      using Suc(2,3) by (simp add: less_mult_imp_div_less mult.commute)
    ultimately show ?thesis
      using Suc(1) [of "n div r"] Suc(3) by (simp add: digits_rec)
  qed simp
qed simp

text \<open>The characters of the digits, in lower or upper case.\<close>

definition digit_chars :: "bool \<Rightarrow> nat list \<Rightarrow> u8 list" where
  "digit_chars up ds = map (\<lambda>d. xf_upcase up (ms_digits ! d)) ds"

lemma digit_chars_simps [simp]:
  "digit_chars up [] = []"
  "digit_chars up (d # ds) = xf_upcase up (ms_digits ! d) # digit_chars up ds"
  "digit_chars up (ds @ es) = digit_chars up ds @ digit_chars up es"
  "length (digit_chars up ds) = length ds"
  "digit_chars up ds = [] \<longleftrightarrow> ds = []"
  by (simp_all add: digit_chars_def)

lemma digit_cases: "(\<And>d. d \<in> set [0..<16] \<Longrightarrow> P d) \<Longrightarrow> d < 16 \<Longrightarrow> P (d :: nat)"
  by simp

lemma digit_of_ms_digits [simp]:
  "d < 16 \<Longrightarrow> digit_of (xf_upcase up (ms_digits ! d)) = Some (of_nat d)"
proof (erule digit_cases [rotated])
  have "\<forall>d\<in>set [0..<16]. \<forall>up\<in>{True, False}. digit_of (xf_upcase up (ms_digits ! d)) = Some (of_nat d)"
    by code_simp
  then show "d \<in> set [0..<16] \<Longrightarrow> digit_of (xf_upcase up (ms_digits ! d)) = Some (of_nat d)" for d
    by blast
qed

lemma digit_char_graph:
  "d < 16 \<Longrightarrow> 0x30 \<le> xf_upcase up (ms_digits ! d) \<and> xf_upcase up (ms_digits ! d) \<le> 0x66 \<and>
     (xf_upcase up (ms_digits ! d) = 0x30 \<longleftrightarrow> d = 0)"
proof (erule digit_cases [rotated])
  have "\<forall>d\<in>set [0..<16]. \<forall>up\<in>{True, False}. 0x30 \<le> xf_upcase up (ms_digits ! d)
     \<and> xf_upcase up (ms_digits ! d) \<le> 0x66 \<and> (xf_upcase up (ms_digits ! d) = 0x30 \<longleftrightarrow> d = 0)"
    by code_simp
  then show "d \<in> set [0..<16] \<Longrightarrow> 0x30 \<le> xf_upcase up (ms_digits ! d)
     \<and> xf_upcase up (ms_digits ! d) \<le> 0x66 \<and> (xf_upcase up (ms_digits ! d) = 0x30 \<longleftrightarrow> d = 0)" for d
    by blast
qed

section \<open>Parsing digits\<close>

definition digits_value :: "u32 \<Rightarrow> u32 \<Rightarrow> nat list \<Rightarrow> u32" where
  "digits_value b r ds = foldl (\<lambda>v d. v * b + of_nat d) r ds"

lemma xstrtol_digits_run:
  "\<forall>d\<in>set ds. d < unat base \<Longrightarrow> base \<le> 16 \<Longrightarrow>
   xstrtol_digits base r (digit_chars up ds @ [0]) = Some (Inr (digits_value base r ds))"
proof (induction ds arbitrary: r)
  case (Cons d ds)
  have d: "d < 16"
    using Cons(2,3) by (auto simp: word_le_nat_alt)
  have "of_nat d < base"
    using Cons(2) d by (simp add: word_less_nat_alt unat_of_nat)
  moreover have "xf_upcase up (ms_digits ! d) \<noteq> 0"
    using digit_char_graph [OF d, of up] by auto
  ultimately show ?case
    using Cons d by (simp add: digits_value_def not_le)
qed (simp add: digits_value_def)

lemma digits_value_digits: "2 \<le> r \<Longrightarrow> digits_value (of_nat r) 0 (digits r n) = of_nat n"
proof (induction r n rule: digits.induct)
  case (1 r n)
  show ?case
  proof (cases "n = 0")
    case False
    then have "digits_value (of_nat r) 0 (digits r n)
        = of_nat (n div r) * of_nat r + of_nat (n mod r)"
      using 1 by (simp add: digits_rec digits_value_def)
    also have "\<dots> = (of_nat n :: u32)"
      by (metis div_mult_mod_eq of_nat_add of_nat_mult)
    finally show ?thesis .
  qed (simp add: digits_value_def)
qed

section \<open>Converting a number\<close>

definition radices :: "nat set" where "radices = {2, 8, 10, 16}"

lemma digit_step_div:
  assumes "r \<in> radices"
  shows "unat (fst (digit_step r v)) = unat v mod r" "unat (snd (digit_step r v)) = unat v div r"
proof -
  have bits: "v AND 1 = v mod 2 ^ 1" "v AND 7 = v mod 2 ^ 3" "v AND 15 = v mod 2 ^ 4"
    using take_bit_eq_mask [of 1 v] take_bit_eq_mask [of 3 v] take_bit_eq_mask [of 4 v]
    by (simp_all add: take_bit_eq_mod mask_eq_exp_minus_1)
  show "unat (fst (digit_step r v)) = unat v mod r" "unat (snd (digit_step r v)) = unat v div r"
    using assms by (auto simp: radices_def digit_step_def bits unat_mod unat_div drop_bit_eq_div)
qed

text \<open>The digits with the zeros that a precision demands in front.\<close>

definition zero_padded :: "nat \<Rightarrow> nat list \<Rightarrow> nat list" where
  "zero_padded k ds = replicate (k - length ds) 0 @ ds"

lemma length_zero_padded [simp]: "length (zero_padded k ds) = max k (length ds)"
  by (simp add: zero_padded_def)

lemma zero_padded_0 [simp]: "zero_padded 0 ds = ds"
  by (simp add: zero_padded_def)

lemma zero_padded_rec:
  "2 \<le> r \<Longrightarrow> 0 < k \<or> 0 < n \<Longrightarrow>
   zero_padded k (digits r n) = zero_padded (k - 1) (digits r (n div r)) @ [n mod r]"
  by (cases "n = 0"; cases k) (simp_all add: zero_padded_def digits_rec replicate_append_same)

lemma int32_id [simp]: "- 2147483648 \<le> x \<Longrightarrow> x < 2147483648 \<Longrightarrow> int32 x = x"
  by (simp add: int32_def signed_of_int signed_take_bit_int_eq_self)

text \<open>
  The conversion prints exactly these digits when they fit into the free part of the buffer, and
  otherwise writes below its start.
\<close>

lemma ulong2a_run:
  assumes "xf_radix p \<in> radices"
  shows "zero_padded (nat (xf_prec p)) (digits (xf_radix p) (unat (xf_lvalue p))) = ds \<Longrightarrow>
    - 1000 \<le> xf_prec p - int (xf_free p) \<Longrightarrow> xf_prec p < 2147483648 \<Longrightarrow>
    0 \<le> xf_length p \<Longrightarrow> xf_length p + int (xf_free p) < 1000 \<Longrightarrow>
    ulong2a p = (if length ds \<le> xf_free p then
      Some (p\<lparr>xf_prec := xf_prec p - int (length ds) - 1, xf_lvalue := 0,
        xf_out := digit_chars False ds @ xf_out p, xf_free := xf_free p - length ds,
        xf_length := xf_length p + int (length ds)\<rparr>)
    else None)"
  using assms
proof (induction p arbitrary: ds rule: ulong2a.induct)
  case (1 p)
  let ?r = "xf_radix p" and ?v = "xf_lvalue p"
  have r: "2 \<le> ?r"
    using 1(7) by (auto simp: radices_def)
  show ?case
  proof (cases "0 < xf_prec p \<or> ?v \<noteq> 0")
    case False
    then have "ds = []"
      using 1(2) by (simp add: unat_eq_0)
    then show ?thesis
      using False 1(2-) by (simp add: ulong2a.simps [of p])
  next
    case True
    define ds' where "ds' = zero_padded (nat (xf_prec p) - 1) (digits ?r (unat ?v div ?r))"
    have ds: "ds = ds' @ [unat ?v mod ?r]"
      unfolding 1(2) [symmetric] ds'_def
      by (rule zero_padded_rec [OF r]) (use True in \<open>auto simp: unat_gt_0\<close>)
    show ?thesis
    proof (cases "xf_free p")
      case 0
      then show ?thesis
        using True ds by (simp add: ulong2a.simps [of p])
    next
      case (Suc f)
      define q where "q = p\<lparr>xf_prec := xf_prec p - 1, xf_lvalue := snd (digit_step ?r ?v),
        xf_out := ms_digits ! (unat ?v mod ?r) # xf_out p, xf_free := f,
        xf_length := xf_length p + 1\<rparr>"
      have step: "ulong2a p = ulong2a q"
        using True Suc 1(3-) by (simp add: ulong2a.simps [of p] q_def digit_step_div)
      have "nat (xf_prec p - 1) = nat (xf_prec p) - 1"
        by linarith
      then have "zero_padded (nat (xf_prec q)) (digits (xf_radix q) (unat (xf_lvalue q))) = ds'"
        using 1(7) by (simp add: q_def ds'_def digit_step_div)
      moreover have "q = p\<lparr>xf_prec := int32 (xf_prec p - 1), xf_lvalue := snd (digit_step ?r ?v),
        xf_out := ms_digits ! unat (fst (digit_step ?r ?v)) # xf_out p, xf_free := xf_free p - 1,
        xf_length := int32 (xf_length p + 1)\<rparr>"
        using Suc 1(3-) by (simp add: q_def digit_step_div)
      ultimately have "ulong2a q = (if length ds' \<le> f then
          Some (q\<lparr>xf_prec := xf_prec q - int (length ds') - 1, xf_lvalue := 0,
            xf_out := digit_chars False ds' @ xf_out q, xf_free := f - length ds',
            xf_length := xf_length q + int (length ds')\<rparr>) else None)"
        using 1(1) [OF True, of ds'] Suc 1(3-) by (simp add: q_def)
      then show ?thesis
        using Suc by (simp add: step ds q_def xf_upcase_def)
    qed
  qed
qed

section \<open>Integer fields\<close>

text \<open>Putting out characters only moves them to the sink and counts them.\<close>

definition emit :: "u8 list \<Rightarrow> xparam \<Rightarrow> xparam" where
  "emit cs p = p\<lparr>xf_sink := xf_sink p @ cs, xf_count := xf_count p + of_nat (length cs)\<rparr>"

lemma emit_simps [simp]:
  "xf_lvalue (emit cs p) = xf_lvalue p" "xf_out (emit cs p) = xf_out p"
  "xf_length (emit cs p) = xf_length p" "xf_width (emit cs p) = xf_width p"
  "xf_flags (emit cs p) = xf_flags p" "xf_pad (emit cs p) = xf_pad p"
  "xf_state (emit cs p) = xf_state p" "has_flag f (emit cs p) = has_flag f p"
  "xf_sink (emit cs p) = xf_sink p @ cs" "xf_count (emit cs p) = xf_count p + of_nat (length cs)"
  "emit [] p = p" "emit es (emit cs p) = emit (cs @ es) p"
  by (simp_all add: emit_def has_flag_def add.assoc)

lemma xf_outchar_emit: "xf_outchar c p = emit [c] p"
  by (simp add: xf_outchar_def emit_def)

lemma fold_outchar: "fold (\<lambda>c. xf_outchar (f c)) cs p = emit (map f cs) p"
  by (induction cs arbitrary: p) (simp_all add: xf_outchar_emit)

lemma outBuffer_emit:
  "len \<le> int (length buf) \<Longrightarrow> outBuffer buf len up p = Some (emit (map (xf_upcase up) (take (nat len) buf)) p)"
  by (simp add: outBuffer_def fold_outchar)

lemma outChars_emit: "outChars c len p = emit (replicate (nat len) c) p"
  using fold_outchar [of "\<lambda>c. c"] by (simp add: outChars_def del: fold_replicate)

text \<open>The digits of an integer field without precision.\<close>

definition digits_text :: "nat \<Rightarrow> nat \<Rightarrow> nat list" where
  "digits_text r n = zero_padded 1 (digits r n)"

lemma digits_text_lt: "2 \<le> r \<Longrightarrow> d \<in> set (digits_text r n) \<Longrightarrow> d < r"
  by (auto simp: digits_text_def zero_padded_def dest: digits_lt)

lemma length_digits_text: "2 \<le> r \<Longrightarrow> length (digits_text r (unat (w :: u32))) \<le> 32"
proof -
  assume r: "2 \<le> r"
  have "unat w < 2 ^ 32"
    using unsigned_less [of w] by simp
  also have "(2 :: nat) ^ 32 \<le> r ^ 32"
    using r by (rule power_mono) simp
  finally show ?thesis
    using length_digits [OF _ r, of "unat w" 32] by (simp add: digits_text_def)
qed

lemma ulong2a_text:
  assumes "xf_radix p \<in> radices" "xf_prec p = 1" "xf_length p = 0" "xf_free p = XF_BUFFER_SIZE"
  defines "ds \<equiv> digits_text (xf_radix p) (unat (xf_lvalue p))"
  shows "ulong2a p = Some (p\<lparr>xf_prec := - int (length ds), xf_lvalue := 0,
        xf_out := digit_chars False ds @ xf_out p, xf_free := 33 - length ds,
        xf_length := int (length ds)\<rparr>)"
proof -
  have "2 \<le> xf_radix p"
    using assms(1) by (auto simp: radices_def)
  then have "length ds \<le> 32"
    unfolding ds_def by (rule length_digits_text)
  moreover have "zero_padded (nat (xf_prec p)) (digits (xf_radix p) (unat (xf_lvalue p))) = ds"
    using assms(2) by (simp add: ds_def digits_text_def)
  ultimately show ?thesis
    using ulong2a_run [OF assms(1), of ds] assms(2-4) by (simp add: XF_BUFFER_SIZE_def)
qed

lemma xf_upcase_False [simp]: "xf_upcase False c = c"
  by (simp add: xf_upcase_def)

lemma upcase_digit_chars: "map (xf_upcase up) (digit_chars False ds) = digit_chars up ds"
  by (simp add: digit_chars_def xf_upcase_def)

definition field_text :: "xparam \<Rightarrow> u8 list \<Rightarrow> u8 list" where
  "field_text p cs = replicate (nat (xf_width p) - length cs) (xf_pad p) @ cs"

lemma xf_field_text:
  assumes "\<not> has_flag FLAG_LEFT p" "xf_prefixlen p = 0" "xf_length p = int (length (xf_out p))"
    "0 \<le> xf_width p" "xf_width p < 1000" "length (xf_out p) < 1000"
    "has_flag FLAG_UPPER p = up"
  shows "xf_field p = Some (emit (field_text p (map (xf_upcase up) (xf_out p)))
     (p\<lparr>xf_width := xf_width p - int (length (xf_out p))\<rparr>))"
proof -
  have "nat (xf_width p - int (length (xf_out p))) = nat (xf_width p) - length (xf_out p)"
    using assms(4) by linarith
  then show ?thesis
    using assms by (simp add: xf_field_def outBuffer_emit outChars_emit field_text_def has_flag_def)
qed

text \<open>An unsigned conversion, in the state the conversion character leaves.\<close>

lemma xf_integer_unsigned:
  fixes w :: u32
  assumes p: "xf_flags p \<in> {FLAG_INTEGER, FLAG_INTEGER OR FLAG_UPPER}" "xf_prec p = 0"
    "xf_length p = 0" "xf_radix p \<in> radices"
  defines "ds \<equiv> digits_text (xf_radix p) (unat w)"
  shows "xf_integer p (Arg_int w # args) = Some (p\<lparr>xf_prec := - int (length ds), xf_lvalue := 0,
    xf_out := digit_chars False ds, xf_free := 33 - length ds, xf_length := int (length ds)\<rparr>, args)"
  using p by (auto simp: xf_integer_def xf_fetch_def xf_signed_def xf_sign_char_def has_flag_def
      xf_flag_defs ulong2a_text ds_def XF_BUFFER_SIZE_def)

text \<open>The magnitude of a signed word, in both cases a word of its own.\<close>

lemma unat_magnitude:
  fixes w :: u32
  shows "unat (if sint w < 0 then NOT w + 1 else w) = nat \<bar>sint w\<bar>"
proof -
  have "nat \<bar>sint w\<bar> < 2 ^ 32"
    using sint_greater_eq [of w] sint_less [of w] by simp
  then have "unat (of_nat (nat \<bar>sint w\<bar>) :: u32) = nat \<bar>sint w\<bar>"
    by (simp add: unat_of_nat del: of_nat_nat)
  moreover have "NOT w + 1 = - w"
    by (simp add: minus_eq_not_plus_1)
  moreover have "of_nat (nat \<bar>sint w\<bar>) = (if sint w < 0 then - w else w)"
    by (simp add: of_nat_nat abs_if)
  ultimately show ?thesis
    by (simp only:)
qed

lemma xf_integer_signed:
  fixes w :: u32
  assumes p: "xf_flags p = FLAG_INTEGER OR FLAG_DECIMAL" "xf_prec p = 0"
    "xf_length p = 0" "xf_radix p = 10" "xf_pad p \<noteq> chr CHR ''0''"
  defines "ds \<equiv> digits_text 10 (nat \<bar>sint w\<bar>)"
  defines "cs \<equiv> (if sint w < 0 then [chr CHR ''-''] else []) @ digit_chars False ds"
  shows "\<exists>p'. xf_integer p (Arg_int w # args) = Some (p', args)
    \<and> xf_out p' = cs \<and> xf_length p' = int (length cs) \<and> xf_prefixlen p' = xf_prefixlen p \<and> xf_width p' = xf_width p \<and> xf_pad p' = xf_pad p
    \<and> xf_sink p' = xf_sink p \<and> xf_count p' = xf_count p \<and> xf_state p' = xf_state p
    \<and> \<not> has_flag FLAG_LEFT p' \<and> \<not> has_flag FLAG_UPPER p' \<and> length cs \<le> 33"
proof (cases "sint w < 0")
  case True
  then show ?thesis
    using p unat_magnitude [of w] length_digits_text [of 10 "NOT w + 1"]
    by (auto simp: xf_integer_def xf_fetch_def xf_signed_def xf_sign_char_def has_flag_def
      set_flag_def xf_flag_defs ulong2a_text ds_def cs_def XF_BUFFER_SIZE_def radices_def)
next
  case False
  then show ?thesis
    using p unat_magnitude [of w] length_digits_text [of 10 w]
    by (auto simp: xf_integer_def xf_fetch_def xf_signed_def xf_sign_char_def has_flag_def
      xf_flag_defs ulong2a_text ds_def cs_def XF_BUFFER_SIZE_def radices_def)
qed

section \<open>Whole conversions\<close>

text \<open>A conversion prints \<open>cs\<close>, zero_padded on the left, and moves on in the parser.\<close>

definition prints :: "xparam \<Rightarrow> u8 list \<Rightarrow> (xparam \<times> xarg list) option \<Rightarrow> xarg list \<Rightarrow> bool" where
  "prints p cs r args \<longleftrightarrow> (\<exists>p'. r = Some (p', args) \<and> xf_sink p' = xf_sink p @ field_text p cs \<and>
     xf_count p' = xf_count p + of_nat (length (field_text p cs)) \<and> xf_state p' = xf_state p)"

definition field_ready :: "xparam \<Rightarrow> bool" where
  "field_ready p \<longleftrightarrow> xf_flags p = 0 \<and> xf_prec p = 0 \<and> xf_prefixlen p = 0 \<and> xf_length p = 0 \<and>
     0 \<le> xf_width p \<and> xf_width p < 1000"

lemma xf_type_unsigned:
  fixes w :: u32
  assumes p: "field_ready p"
    and c: "c = chr CHR ''X'' \<and> r = 16 \<and> up \<or> c = chr CHR ''x'' \<and> r = 16 \<and> \<not> up \<or> c = chr CHR ''u'' \<and> r = 10 \<and> \<not> up"
  shows "prints p (digit_chars up (digits_text r (unat w))) (xf_type c p (Arg_int w # args)) args"
proof -
  define q where "q = p\<lparr>xf_flags := if up then FLAG_INTEGER OR FLAG_UPPER else FLAG_INTEGER, xf_radix := r\<rparr>"
  have r: "r \<in> radices" "2 \<le> r"
    using c by (auto simp: radices_def)
  have "xf_type_step c p (Arg_int w # args) = Some (q, Arg_int w # args)"
    using p c unfolding field_ready_def
    by (elim disjE conjE; simp add: xf_type_step_def xf_hex_def set_flag_def has_flag_def q_def xf_flag_defs)
  moreover have "has_flag FLAG_INTEGER q"
    by (simp add: has_flag_def q_def xf_flag_defs)
  ultimately show ?thesis
    using p r length_digits_text [OF r(2), of w] unfolding prints_def xf_type_def
    by (simp add: xf_integer_unsigned xf_field_text q_def field_ready_def has_flag_def xf_flag_defs
        upcase_digit_chars field_text_def)
qed

lemma xf_type_signed:
  fixes w :: u32
  assumes p: "field_ready p" "xf_pad p \<noteq> chr CHR ''0''" and c: "c = chr CHR ''d'' \<or> c = chr CHR ''i''"
  shows "prints p ((if sint w < 0 then [chr CHR ''-''] else []) @ digit_chars False (digits_text 10 (nat \<bar>sint w\<bar>)))
     (xf_type c p (Arg_int w # args)) args"
proof -
  define q where "q = p\<lparr>xf_flags := FLAG_INTEGER OR FLAG_DECIMAL, xf_radix := 10\<rparr>"
  have "xf_type_step c p (Arg_int w # args) = Some (q, Arg_int w # args)"
    using p c by (auto simp: xf_type_step_def set_flag_def field_ready_def q_def xf_flag_defs)
  moreover have "has_flag FLAG_INTEGER q"
    by (simp add: has_flag_def q_def xf_flag_defs)
  moreover have up: "map (xf_upcase False) cs = cs" for cs
    by (simp add: map_idI)
  ultimately show ?thesis
    using p xf_integer_signed [of q w args] unfolding prints_def xf_type_def
    by (auto simp: xf_field_text up field_text_def field_ready_def q_def)
qed

lemma next_states:
  "next_state 0 (chr CHR ''%'') = 1" "next_state 0 (chr CHR ''0'') = 0" "next_state 0 (chr CHR ''x'') = 0"
  "next_state 1 (chr CHR ''0'') = 2" "next_state 1 (chr CHR ''1'') = 3" "next_state 1 (chr CHR ''8'') = 3"
  "next_state 2 (chr CHR ''8'') = 3" "next_state 3 (chr CHR ''2'') = 3"
  "next_state 1 (chr CHR ''d'') = 7" "next_state 3 (chr CHR ''d'') = 7" "next_state 1 (chr CHR ''i'') = 7"
  "next_state 1 (chr CHR ''u'') = 7" "next_state 3 (chr CHR ''x'') = 7" "next_state 3 (chr CHR ''X'') = 7"
  "next_state 1 (chr CHR ''x'') = 7" "next_state 1 (chr CHR ''X'') = 7"
  by code_simp+

section \<open>Parsing what was printed\<close>

lemma digits_value_zeros: "digits_value b 0 (replicate k 0 @ ds) = digits_value b 0 ds"
  by (induction k) (simp_all add: digits_value_def)

lemma digits_value_text: "2 \<le> r \<Longrightarrow> digits_value (of_nat r) 0 (digits_text r n) = of_nat n"
  by (simp add: digits_text_def zero_padded_def digits_value_zeros digits_value_digits)

lemma digits_text_cases:
  assumes "2 \<le> r"
  obtains "n = 0" "digits_text r n = [0]"
  | d ds where "n \<noteq> 0" "digits_text r n = d # ds" "d \<noteq> 0" "d < r"
proof (cases "n = 0")
  case True
  then show ?thesis
    using that(1) by (simp add: digits_text_def zero_padded_def)
next
  case False
  then obtain d ds where "digits r n = d # ds" "d \<noteq> 0"
    using digits_hd [of n r] assms by (cases "digits r n") auto
  moreover have "d < r"
    using digits_lt [of d r n] \<open>digits r n = d # ds\<close> by simp
  ultimately show ?thesis
    using that(2) [of d ds] False by (simp add: digits_text_def zero_padded_def)
qed

lemma skip_blanks_replicate [simp]: "skip_blanks (replicate k 0x20 @ s) = skip_blanks s"
  by (induction k) simp_all

lemma skip_digit:
  assumes "d < 16"
  shows "skip_blanks (xf_upcase up (ms_digits ! d) # s) = xf_upcase up (ms_digits ! d) # s"
    "xstrtol_sign (xf_upcase up (ms_digits ! d) # s) = Some (1, xf_upcase up (ms_digits ! d) # s)"
    "d \<noteq> 0 \<Longrightarrow> xstrtol_base (xf_upcase up (ms_digits ! d) # s) = Some (10, xf_upcase up (ms_digits ! d) # s)"
  using digit_char_graph [OF assms, of up]
  by (auto simp: xstrtol_sign_def xstrtol_base_def)

lemma unat_u32_lt: "unat (w :: u32) < 2 ^ 32"
proof -
  have "unat w < 2 ^ LENGTH(32)"
    by (rule unsigned_less)
  then show ?thesis
    by simp
qed

lemma parse_decimal_digits:
  assumes "n < 2 ^ 32"
  defines "cs \<equiv> digit_chars False (digits_text 10 n)"
  shows "skip_blanks (cs @ [0]) = cs @ [0]" "xstrtol_sign (cs @ [0]) = Some (1, cs @ [0])"
    "xstrtol_base (cs @ [0]) = Some (10, cs @ [0])"
    "xstrtol_digits 10 0 (cs @ [0]) = Some (Inr (of_nat n))"
proof -
  have "xstrtol_digits 10 0 (cs @ [0]) = Some (Inr (digits_value 10 0 (digits_text 10 n)))"
    unfolding cs_def by (rule xstrtol_digits_run) (auto dest: digits_text_lt [of 10, rotated])
  then show "xstrtol_digits 10 0 (cs @ [0]) = Some (Inr (of_nat n))"
    using digits_value_text [of 10 n] by simp
  have "skip_blanks (cs @ [0]) = cs @ [0] \<and> xstrtol_sign (cs @ [0]) = Some (1, cs @ [0])
      \<and> xstrtol_base (cs @ [0]) = Some (10, cs @ [0])"
  proof (rule digits_text_cases [of 10 n])
    assume "n = 0" "digits_text 10 n = [0]"
    then show ?thesis
      by (simp add: cs_def xstrtol_sign_def xstrtol_base_def ms_digits_def cstr_def)
  next
    fix d ds assume "n \<noteq> 0" "digits_text 10 n = d # ds" "d \<noteq> 0" "d < 10"
    then show ?thesis
      using skip_digit [of d False] by (simp add: cs_def)
  qed simp
  then show "skip_blanks (cs @ [0]) = cs @ [0]" "xstrtol_sign (cs @ [0]) = Some (1, cs @ [0])"
    "xstrtol_base (cs @ [0]) = Some (10, cs @ [0])"
    by simp_all
qed

lemma parse_signed:
  fixes w :: u32
  shows "xstrtol (replicate k 0x20 @ ((if sint w < 0 then [chr CHR ''-''] else []) @
     digit_chars False (digits_text 10 (nat \<bar>sint w\<bar>))) @ [0]) = Some (0, Some w)"
proof -
  let ?n = "nat \<bar>sint w\<bar>"
  have n: "?n < 2 ^ 32"
    using unat_u32_lt [of "if sint w < 0 then NOT w + 1 else w"] unat_magnitude [of w] by simp
  have "of_nat ?n = (if sint w < 0 then - w else w)"
    by (simp add: abs_if)
  then show ?thesis
    using parse_decimal_digits [OF n]
    by (cases "sint w < 0") (simp_all add: xstrtol_def xstrtol_sign_def)
qed

lemma parse_unsigned:
  fixes w :: u32
  shows "xstrtol (replicate k 0x20 @ digit_chars False (digits_text 10 (unat w)) @ [0]) = Some (0, Some w)"
  using parse_decimal_digits [of "unat w"] unat_u32_lt [of w] by (simp add: xstrtol_def)

lemma parse_hex:
  fixes w :: u32
  assumes "x = chr CHR ''x'' \<or> x = chr CHR ''X''"
  shows "xstrtol ([chr CHR ''0'', x] @ replicate k (chr CHR ''0'') @ digit_chars up (digits_text 16 (unat w)) @ [0])
     = Some (0, Some w)"
proof -
  let ?ds = "replicate k 0 @ digits_text 16 (unat w)"
  have "xf_upcase up (ms_digits ! 0) = chr CHR ''0''"
    using digit_char_graph [of 0 up] by simp
  then have cs: "digit_chars up (replicate k 0) = replicate k (chr CHR ''0'')"
    by (simp add: digit_chars_def)
  have "xstrtol_digits 16 0 (digit_chars up ?ds @ [0]) = Some (Inr (digits_value 16 0 ?ds))"
    by (rule xstrtol_digits_run) (auto dest: digits_text_lt [of 16, rotated])
  then have "xstrtol_digits 16 0 (digit_chars up ?ds @ [0]) = Some (Inr w)"
    using digits_value_text [of 16 "unat w"] by (simp add: digits_value_zeros)
  then show ?thesis
    using assms by (auto simp: xstrtol_def xstrtol_sign_def xstrtol_base_def cs)
qed

section \<open>Printing and parsing\<close>

lemma xf_step_states:
  "next_state (xf_state p) c = 0 \<Longrightarrow> xf_step c p args = Some (xf_outchar c (p\<lparr>xf_state := 0\<rparr>), args)"
  "next_state (xf_state p) c = 1 \<Longrightarrow> xf_step c p args = Some (xf_percent (p\<lparr>xf_state := 1\<rparr>), args)"
  "next_state (xf_state p) c = 2 \<Longrightarrow> xf_step c p args = Some (xf_flag_step c (p\<lparr>xf_state := 2\<rparr>), args)"
  "next_state (xf_state p) c = 3 \<Longrightarrow> xf_step c p args = xf_width_step c (p\<lparr>xf_state := 3\<rparr>) args"
  "next_state (xf_state p) c = 7 \<Longrightarrow> xf_step c p args = xf_type c (p\<lparr>xf_state := 7\<rparr>) args"
  by (simp_all add: xf_step_def Let_def xf_state_defs)

lemma xf_loop_last:
  assumes "prints (p\<lparr>xf_state := 7\<rparr>) cs (xf_type c (p\<lparr>xf_state := 7\<rparr>) args) args'"
    "next_state (xf_state p) c = 7" "c \<noteq> 0" "xf_sink p = pre" "xf_count p = of_nat (length pre)"
  shows "\<exists>p'. xf_loop [c, 0] p args = Some p' \<and> xf_sink p' = pre @ field_text p cs \<and>
    xf_count p' = of_nat (length (pre @ field_text p cs))"
  using assms by (auto simp: prints_def xf_step_states field_text_def)

definition decimal_formats :: "string set" where
  "decimal_formats = {''%d'', ''%i'', ''%u'', ''%12d''}"

definition hex_formats :: "string set" where
  "hex_formats = {''0x%x'', ''0x%X'', ''0x%08x'', ''0x%08X''}"

lemmas xf_run_simps = cstr_def xf_start_def xf_state_defs xf_step_states xf_percent_def xf_flag_step_def
  xf_width_step_def digit_append_def xf_outchar_def

text \<open>The parser in front of the conversion character, after \<open>pre\<close> has been put out.\<close>

definition at_field :: "xparam \<Rightarrow> u8 list \<Rightarrow> u8 \<Rightarrow> int \<Rightarrow> nat \<Rightarrow> xparam" where
  "at_field junk pre pad W st = xf_percent (junk\<lparr>xf_sink := pre, xf_count := of_nat (length pre)\<rparr>)
     \<lparr>xf_pad := pad, xf_width := W, xf_state := st\<rparr>"

lemma at_field_simps [simp]:
  "0 \<le> W \<Longrightarrow> W < 1000 \<Longrightarrow> field_ready (at_field junk pre pad W st)"
  "xf_pad (at_field junk pre pad W st) = pad" "xf_width (at_field junk pre pad W st) = W"
  "xf_sink (at_field junk pre pad W st) = pre" "xf_count (at_field junk pre pad W st) = of_nat (length pre)"
  "xf_state (at_field junk pre pad W st) = st"
  "(at_field junk pre pad W st)\<lparr>xf_state := st'\<rparr> = at_field junk pre pad W st'"
  by (simp_all add: at_field_def field_ready_def xf_percent_def)

lemmas next_states' = next_states [simplified]

lemma field_starts:
  "xf_loop (cstr ''%d'' @ [0]) (xf_start junk) args = xf_loop [chr CHR ''d'', 0] (at_field junk [] 0x20 0 1) args"
  "xf_loop (cstr ''%i'' @ [0]) (xf_start junk) args = xf_loop [chr CHR ''i'', 0] (at_field junk [] 0x20 0 1) args"
  "xf_loop (cstr ''%u'' @ [0]) (xf_start junk) args = xf_loop [chr CHR ''u'', 0] (at_field junk [] 0x20 0 1) args"
  "xf_loop (cstr ''%12d'' @ [0]) (xf_start junk) args = xf_loop [chr CHR ''d'', 0] (at_field junk [] 0x20 12 3) args"
  "xf_loop (cstr ''0x%x'' @ [0]) (xf_start junk) args = xf_loop [chr CHR ''x'', 0] (at_field junk [0x30, 0x78] 0x20 0 1) args"
  "xf_loop (cstr ''0x%X'' @ [0]) (xf_start junk) args = xf_loop [chr CHR ''X'', 0] (at_field junk [0x30, 0x78] 0x20 0 1) args"
  "xf_loop (cstr ''0x%08x'' @ [0]) (xf_start junk) args = xf_loop [chr CHR ''x'', 0] (at_field junk [0x30, 0x78] 0x30 8 3) args"
  "xf_loop (cstr ''0x%08X'' @ [0]) (xf_start junk) args = xf_loop [chr CHR ''X'', 0] (at_field junk [0x30, 0x78] 0x30 8 3) args"
  by (cases junk, simp add: xf_run_simps at_field_def next_states')+

lemma xvformat_last:
  assumes "xf_loop (cstr f @ [0]) (xf_start junk) args = xf_loop [c, 0] (at_field junk pre pad W st) args"
    "next_state st c = 7" "c \<noteq> 0"
    "prints (at_field junk pre pad W 7) cs (xf_type c (at_field junk pre pad W 7) args) []"
  shows "xvformat junk (cstr f @ [0]) args = Some (pre @ replicate (nat W - length cs) pad @ cs,
     of_nat (length (pre @ replicate (nat W - length cs) pad @ cs)))"
  using xf_loop_last [of "at_field junk pre pad W st" cs c args "[]" pre] assms
  by (auto simp: xvformat_def field_text_def)

lemma decimal_output:
  fixes w :: u32
  assumes "f \<in> decimal_formats"
  shows "\<exists>k cs. xvformat junk (cstr f @ [0]) [Arg_int w]
      = Some (replicate k 0x20 @ cs, of_nat (length (replicate k (0x20 :: u8) @ cs))) \<and>
    (cs = (if sint w < 0 then [chr CHR ''-''] else []) @ digit_chars False (digits_text 10 (nat \<bar>sint w\<bar>)) \<or>
     cs = digit_chars False (digits_text 10 (unat w)))"
proof -
  consider "f = ''%d''" | "f = ''%i''" | "f = ''%u''" | "f = ''%12d''"
    using assms by (auto simp: decimal_formats_def)
  then show ?thesis
    by cases (use xvformat_last [OF field_starts(1) next_states(9) _ xf_type_signed]
        xvformat_last [OF field_starts(2) next_states(11) _ xf_type_signed]
        xvformat_last [OF field_starts(3) next_states(12) _ xf_type_unsigned [where r = 10 and up = False]]
        xvformat_last [OF field_starts(4) next_states(10) _ xf_type_signed] in \<open>fastforce simp del: append.simps\<close>)+
qed

lemma hex_output:
  fixes w :: u32
  assumes "f \<in> hex_formats"
  shows "\<exists>k up. xvformat junk (cstr f @ [0]) [Arg_int w]
      = (let out = [0x30, 0x78] @ replicate k 0x30 @ digit_chars up (digits_text 16 (unat w))
         in Some (out, of_nat (length out)))"
proof -
  note hex = xf_type_unsigned [where r = 16]
  consider "f = ''0x%x''" | "f = ''0x%X''" | "f = ''0x%08x''" | "f = ''0x%08X''"
    using assms by (auto simp: hex_formats_def)
  then show ?thesis
  proof cases
    case 1
    show ?thesis
      by (rule exI [of _ 0], rule exI [of _ False], unfold 1,
          subst xvformat_last [OF field_starts(5) next_states(15) _ hex [where up = False]]) simp_all
  next
    case 2
    show ?thesis
      by (rule exI [of _ 0], rule exI [of _ True], unfold 2,
          subst xvformat_last [OF field_starts(6) next_states(16) _ hex [where up = True]]) simp_all
  next
    case 3
    show ?thesis
      by (rule exI [of _ "8 - length (digits_text 16 (unat w))"], rule exI [of _ False], unfold 3,
          subst xvformat_last [OF field_starts(7) next_states(13) _ hex [where up = False]]) simp_all
  next
    case 4
    show ?thesis
      by (rule exI [of _ "8 - length (digits_text 16 (unat w))"], rule exI [of _ True], unfold 4,
          subst xvformat_last [OF field_starts(8) next_states(14) _ hex [where up = True]]) simp_all
  qed
qed

text \<open>C35: what the shell prints for a number it can read back.  For every 32-bit word, the output of
  \<^verbatim>\<open>xvformat\<close> in one of the decimal formats (signed, unsigned or zero_padded to a width) or in one of
  the hexadecimal formats with the prefix \<^verbatim>\<open>0x\<close> is parsed by \<^verbatim>\<open>xstrtol\<close> without an error and
  gives the word again, and the returned count is the number of characters put out.
\<close>
theorem number_print_parse_roundtrip:
  fixes w :: u32
  assumes "f \<in> decimal_formats \<union> hex_formats"
  shows "\<exists>out. xvformat junk (cstr f @ [0]) [Arg_int w] = Some (out, of_nat (length out))
    \<and> xstrtol (out @ [0]) = Some (0, Some w)"
  using assms
proof
  assume "f \<in> decimal_formats"
  then show ?thesis
    using decimal_output [of f junk w] by (force simp: parse_signed [simplified] parse_unsigned)
next
  assume "f \<in> hex_formats"
  then show ?thesis
    using hex_output [of f junk w] by (force simp: Let_def parse_hex [simplified])
qed

lemma number_print_parse_roundtrip_witness:
  "\<exists>out. xvformat (xf_percent (at_field undefined [] 0 0 0)) (cstr ''0x%08X'' @ [0]) [Arg_int 0xC0FFEE]
      = Some (out, of_nat (length out)) \<and> xstrtol (out @ [0]) = Some (0, Some 0xC0FFEE)"
  by (rule number_print_parse_roundtrip) (simp add: hex_formats_def)

text \<open>space of a conversion.  The conversion buffer has 33 bytes.  A conversion in one of the four
  radices puts the digits of the value into it, with leading zeros up to the precision, exactly
  when the precision is at most 33; with a larger precision the digits run below the start of
  the buffer, for every value.
\<close>
theorem conversion_buffer_bounds:
  assumes "xf_radix p \<in> {2, 8, 10, 16}" "xf_free p = XF_BUFFER_SIZE" "xf_length p = 0"
    "0 \<le> xf_prec p" "xf_prec p < 2 ^ 31"
  shows "case ulong2a p of
      None \<Rightarrow> 33 < xf_prec p
    | Some q \<Rightarrow> xf_prec p \<le> 33 \<and>
        xf_out q = digit_chars False (zero_padded (nat (xf_prec p)) (digits (xf_radix p) (unat (xf_lvalue p)))) @ xf_out p"
proof -
  let ?ds = "zero_padded (nat (xf_prec p)) (digits (xf_radix p) (unat (xf_lvalue p)))"
  have "2 \<le> xf_radix p"
    using assms(1) by auto
  from length_digits_text [OF this, of "xf_lvalue p"]
  have "length (digits (xf_radix p) (unat (xf_lvalue p))) \<le> 32"
    by (simp add: digits_text_def)
  then have "length ?ds \<le> 33 \<longleftrightarrow> xf_prec p \<le> 33"
    by auto
  moreover have "ulong2a p = (if length ?ds \<le> 33 then
      Some (p\<lparr>xf_prec := xf_prec p - int (length ?ds) - 1, xf_lvalue := 0,
        xf_out := digit_chars False ?ds @ xf_out p, xf_free := 33 - length ?ds,
        xf_length := xf_length p + int (length ?ds)\<rparr>) else None)"
    using ulong2a_run [of p ?ds] assms by (simp add: radices_def XF_BUFFER_SIZE_def)
  ultimately show ?thesis
    by simp
qed

lemma conversion_buffer_bounds_witness:
  "ulong2a ((at_field undefined [] 0 0 0)\<lparr>xf_radix := 10, xf_free := XF_BUFFER_SIZE, xf_prec := 34\<rparr>) = None"
  using conversion_buffer_bounds [of "(at_field undefined [] 0 0 0)\<lparr>xf_radix := 10, xf_free := XF_BUFFER_SIZE, xf_prec := 34\<rparr>"]
  by (simp add: at_field_def xf_percent_def split: option.splits)

end
