(* ===== verification/Shell.thy ===== *)
theory Shell
  imports Xformat
begin

text \<open>
  The command shell of \<^verbatim>\<open>hgboot/shell/shell.c\<close>: the line editor with its history, the completion,
  the parser of a command line, the dispatch to the registered commands and the built-in ones.

  \<open>'s\<close> is the world outside the shell (the serial line, the memory, what the commands change).
  \<open>pc\<close> is \<^verbatim>\<open>s_port->shell_putchar\<close>.  \<^term>\<open>None\<close> means an access outside an array, a
  command that does not return, or a formatted output that fails.
\<close>

section \<open>Characters and constants\<close>

definition CMD_HISTORY_DEPTH :: nat where "CMD_HISTORY_DEPTH = 5"
definition CMD_BUF_SIZE :: nat where "CMD_BUF_SIZE = 128"
definition CMD_MAX_ARGV :: nat where "CMD_MAX_ARGV = 10"
definition SHELL_PROMPT :: "u8 list" where "SHELL_PROMPT = cstr ''shell />''"
definition SHEEL_PROMPT_SIZE :: nat where "SHEEL_PROMPT_SIZE = 8"

abbreviation CR :: u8 where "CR \<equiv> 0x0D"
abbreviation LF :: u8 where "LF \<equiv> 0x0A"
abbreviation TAB :: u8 where "TAB \<equiv> 0x09"
abbreviation BS :: u8 where "BS \<equiv> 0x08"
abbreviation DEL :: u8 where "DEL \<equiv> 0x7F"
abbreviation ESC :: u8 where "ESC \<equiv> 0x1B"
abbreviation SP :: u8 where "SP \<equiv> 0x20"

lemmas shell_sizes = CMD_HISTORY_DEPTH_def CMD_BUF_SIZE_def CMD_MAX_ARGV_def SHEEL_PROMPT_SIZE_def

section \<open>State\<close>

record shell_input =
  in_buffer :: "u8 list"
  in_pos :: nat
  in_length :: nat

record shell_history =
  h_rows :: "u8 list list"
  h_count :: nat
  h_current :: nat
  h_max_len :: nat

datatype input_state = STATE_NORMAL | STATE_ESC_RECEIVED | STATE_BRACKET_RECEIVED

record shell_line =
  sh_in :: shell_input
  sh_his :: shell_history
  sh_state :: input_state

text \<open>
  A registered command: the address of its node, its name and description, and its function, which
  gets the list of names and descriptions (only \<^verbatim>\<open>help\<close> looks at it) and the arguments; the
  number of arguments is the length of that list.
\<close>

datatype 's shell_command = Shell_Command (cm_node: nat) (cm_name: "u8 list") (cm_desc: "u8 list")
  (cm_func: "(u8 list \<times> u8 list) list \<Rightarrow> u8 list list \<Rightarrow> 's \<Rightarrow> (u32 \<times> 's) option")

definition listing :: "'s shell_command list \<Rightarrow> (u8 list \<times> u8 list) list" where
  "listing cmds = map (\<lambda>c. (cm_name c, cm_desc c)) cmds"

record 's shell_port =
  shell_putchar :: "(u8 \<Rightarrow> 's \<Rightarrow> 's) option"
  shell_getchar :: "('s \<Rightarrow> u8 \<times> 's) option"

record 's shell =
  s_port :: "'s shell_port option"
  shell_cmd_list :: "'s shell_command list"
  shell_st :: shell_line

definition shell_in_init :: shell_input where
  "shell_in_init = \<lparr>in_buffer = replicate CMD_BUF_SIZE 0, in_pos = 0, in_length = 0\<rparr>"

definition shell_his_init :: shell_history where
  "shell_his_init = \<lparr>h_rows = replicate CMD_HISTORY_DEPTH (replicate CMD_BUF_SIZE 0),
     h_count = 0, h_current = 0, h_max_len = 0\<rparr>"

definition shell_line_init :: shell_line where
  "shell_line_init = \<lparr>sh_in = shell_in_init, sh_his = shell_his_init, sh_state = STATE_NORMAL\<rparr>"

section \<open>Array accesses and output\<close>

definition puts :: "(u8 \<Rightarrow> 's \<Rightarrow> 's) \<Rightarrow> u8 list \<Rightarrow> 's \<Rightarrow> 's" where
  "puts pc cs s = fold pc cs s"

definition store_at :: "u8 list \<Rightarrow> nat \<Rightarrow> u8 list \<Rightarrow> u8 list option" where
  "store_at buf i cs = (if i + length cs \<le> length buf then Some (patch i cs buf) else None)"

definition load_at :: "u8 list \<Rightarrow> nat \<Rightarrow> nat \<Rightarrow> u8 list option" where
  "load_at buf i n = (if i + n \<le> length buf then Some (bslice i n buf) else None)"

text \<open>A negative count is a size near $2^{32}$, with which the copy leaves every array.\<close>

definition size_diff :: "nat \<Rightarrow> nat \<Rightarrow> nat option" where
  "size_diff a b = (if b \<le> a then Some (a - b) else None)"

text \<open>The characters of an array up to its NUL.\<close>

definition load_str :: "u8 list \<Rightarrow> nat \<Rightarrow> u8 list option" where
  "load_str buf i = (if terminated (drop i buf) then Some (str_of (drop i buf)) else None)"

text \<open>
  The conversion state of \<^verbatim>\<open>xvformat\<close> is a local variable without an initial value; every field
  is assigned before it is read.  The model starts it with zeros.
\<close>

definition xf_frame :: xparam where
  "xf_frame = \<lparr>xf_lvalue = 0, xf_out = [], xf_free = 0, xf_length = 0, xf_prec = 0, xf_width = 0,
     xf_count = 0, xf_flags = 0, xf_prefixlen = 0, xf_prefix = [0, 0], xf_radix = 0, xf_pad = 0,
     xf_state = 0, xf_sink = []\<rparr>"

definition s_printf :: "(u8 \<Rightarrow> 's \<Rightarrow> 's) option \<Rightarrow> string \<Rightarrow> xarg list \<Rightarrow> 's \<Rightarrow> 's option" where
  "s_printf port fmt args s =
     (case port of None \<Rightarrow> Some s
      | Some pc \<Rightarrow> map_option (\<lambda>(out, _). puts pc out s) (xvformat xf_frame (cstr fmt @ [0]) args))"

definition show_prompt :: "(u8 \<Rightarrow> 's \<Rightarrow> 's) \<Rightarrow> 's \<Rightarrow> 's" where
  "show_prompt pc s = puts pc (CR # take SHEEL_PROMPT_SIZE SHELL_PROMPT) s"

definition show_unknown_cmd :: "(u8 \<Rightarrow> 's \<Rightarrow> 's) \<Rightarrow> u8 list \<Rightarrow> 's \<Rightarrow> 's option" where
  "show_unknown_cmd pc arg s = do {
     cs \<leftarrow> load_str arg 0;
     Some (puts pc (cstr ''Unknown command: '' @ cs @ [CR, LF]) s)
   }"

definition redraw_input :: "(u8 \<Rightarrow> 's \<Rightarrow> 's) \<Rightarrow> shell_input \<Rightarrow> 's \<Rightarrow> 's option" where
  "redraw_input pc inp s = do {
     let s = show_prompt pc s;
     cs \<leftarrow> load_at (in_buffer inp) 0 (in_length inp);
     let back_steps = unat (of_nat (in_length inp) - of_nat (in_pos inp) :: u32);
     Some (puts pc (cs @ [SP, BS] @ concat (replicate back_steps [ESC, 0x5B, 0x44])) s)
   }"

section \<open>History\<close>

fun history_has :: "u8 list list \<Rightarrow> u8 list \<Rightarrow> bool option" where
  "history_has [] buffer = Some False"
| "history_has (row # rows) buffer = do {
     r \<leftarrow> xstrcmp row buffer;
     if r = 0 then Some True else history_has rows buffer
   }"

fun shift_rows :: "u8 list list \<Rightarrow> u8 list list option" where
  "shift_rows (r0 # r1 # rows) = do {
     r \<leftarrow> xstrcpy r0 r1;
     rs \<leftarrow> shift_rows (r1 # rows);
     Some (r # rs)
   }"
| "shift_rows rows = Some rows"

definition save_to_history :: "shell_history \<Rightarrow> u8 list \<Rightarrow> shell_history option" where
  "save_to_history hi buffer = do {
     found \<leftarrow> history_has (take (h_count hi) (h_rows hi)) buffer;
     if found then Some hi
     else do {
       hi \<leftarrow> (if h_count hi = CMD_HISTORY_DEPTH
         then map_option (\<lambda>rows. hi\<lparr>h_rows := rows, h_count := h_count hi - 1\<rparr>) (shift_rows (h_rows hi))
         else Some hi);
       row \<leftarrow> (if h_count hi < length (h_rows hi) then xstrcpy (h_rows hi ! h_count hi) buffer else None);
       Some (hi\<lparr>h_rows := (h_rows hi)[h_count hi := row], h_count := h_count hi + 1,
         h_current := h_count hi + 1\<rparr>)
     }
   }"

text \<open>The common end of both browsing functions: the current row becomes the line.\<close>

definition load_history :: "(u8 \<Rightarrow> 's \<Rightarrow> 's) \<Rightarrow> shell_history \<Rightarrow> shell_input \<Rightarrow> 's \<Rightarrow> (shell_input \<times> 's) option" where
  "load_history pc hi inp s = do {
     row \<leftarrow> (if h_current hi < length (h_rows hi) then Some (h_rows hi ! h_current hi) else None);
     buf \<leftarrow> xstrcpy (in_buffer inp) row;
     n \<leftarrow> xstrlen buf;
     let inp = \<lparr>in_buffer = buf, in_pos = n, in_length = n\<rparr>;
     let s = (if n < h_max_len hi
       then puts pc (replicate (h_max_len hi + SHEEL_PROMPT_SIZE) SP
         @ replicate (h_max_len hi + SHEEL_PROMPT_SIZE) BS) s
       else s);
     s \<leftarrow> redraw_input pc inp s;
     Some (inp, s)
   }"

definition browse_history_up ::
  "(u8 \<Rightarrow> 's \<Rightarrow> 's) \<Rightarrow> shell_history \<Rightarrow> shell_input \<Rightarrow> 's \<Rightarrow> (shell_history \<times> shell_input \<times> 's) option" where
  "browse_history_up pc hi inp s =
     (if (h_count hi = 0 \<or> h_current hi = 0) \<and> in_length inp \<noteq> 0 then Some (hi, inp, s)
      else do {
        let s = puts pc (replicate (in_length inp) BS) s;
        let hi = (if h_current hi \<noteq> 0 then hi\<lparr>h_current := h_current hi - 1\<rparr> else hi);
        (inp, s) \<leftarrow> load_history pc hi inp s;
        Some (hi, inp, s)
      })"

definition browse_history_down ::
  "(u8 \<Rightarrow> 's \<Rightarrow> 's) \<Rightarrow> shell_history \<Rightarrow> shell_input \<Rightarrow> 's \<Rightarrow> (shell_history \<times> shell_input \<times> 's) option" where
  "browse_history_down pc hi inp s =
     (if (h_count hi = 0 \<or> h_current hi + 1 = h_count hi) \<and> in_length inp \<noteq> 0 then Some (hi, inp, s)
      else do {
        let s = puts pc (replicate (in_length inp) BS) s;
        let hi = (if h_current hi + 1 \<noteq> h_count hi then hi\<lparr>h_current := h_current hi + 1\<rparr> else hi);
        (inp, s) \<leftarrow> load_history pc hi inp s;
        Some (hi, inp, s)
      })"

section \<open>Command lines\<close>

text \<open>A \<open>while\<close> loop that moves the pointer \<open>p\<close> into the array forward.\<close>

function skip_chars :: "(u8 \<Rightarrow> bool) \<Rightarrow> u8 list \<Rightarrow> nat \<Rightarrow> nat option" where
  "skip_chars f buf p =
     (if p < length buf then (if f (buf ! p) then skip_chars f buf (Suc p) else Some p) else None)"
  by pat_completeness auto
termination
  by (relation "measure (\<lambda>(f, buf, p). length buf - p)") auto

declare skip_chars.simps [simp del]

fun parse_loop :: "nat \<Rightarrow> u8 list \<Rightarrow> nat \<Rightarrow> nat list \<Rightarrow> (u8 list \<times> nat list) option" where
  "parse_loop 0 buf p argv = Some (buf, argv)"
| "parse_loop (Suc k) buf p argv = do {
     c \<leftarrow> load_at buf p 1;
     if c = [0] then Some (buf, argv)
     else do {
       p \<leftarrow> skip_chars (\<lambda>c. c = SP) buf p;
       if buf ! p = 0 then Some (buf, argv)
       else do {
         q \<leftarrow> skip_chars (\<lambda>c. c \<noteq> 0 \<and> c \<noteq> SP) buf p;
         if buf ! q \<noteq> 0 then parse_loop k (buf[q := 0]) (Suc q) (argv @ [p])
         else parse_loop k buf q (argv @ [p])
       }
     }
   }"

text \<open>The array with the NULs written into it, and the positions of the arguments.\<close>

definition shell_parse_args :: "u8 list \<Rightarrow> nat \<Rightarrow> (u8 list \<times> nat list) option" where
  "shell_parse_args cmdline max_args = parse_loop max_args cmdline 0 []"

fun dispatch_loop :: "(u8 \<Rightarrow> 's \<Rightarrow> 's) \<Rightarrow> (u8 list \<times> u8 list) list \<Rightarrow> 's shell_command list \<Rightarrow>
    u8 list list \<Rightarrow> 's \<Rightarrow> 's option" where
  "dispatch_loop pc names [] argv s = show_unknown_cmd pc (hd argv) s"
| "dispatch_loop pc names (cmd # cmds) argv s = do {
     r \<leftarrow> xstrcmp (hd argv) (cm_name cmd);
     if r = 0 then map_option snd (cm_func cmd names argv s)
     else dispatch_loop pc names cmds argv s
   }"

definition shell_handle_command ::
  "(u8 \<Rightarrow> 's \<Rightarrow> 's) \<Rightarrow> 's shell_command list \<Rightarrow> u8 list \<Rightarrow> 's \<Rightarrow> 's option" where
  "shell_handle_command pc cmds input_buffer s = do {
     c \<leftarrow> load_at input_buffer 0 1;
     if c = [0] then Some s
     else do {
       buf \<leftarrow> xstrncpy (replicate CMD_BUF_SIZE 0) input_buffer CMD_BUF_SIZE;
       let buf = buf[CMD_BUF_SIZE - 1 := 0];
       (buf, argv) \<leftarrow> shell_parse_args buf CMD_MAX_ARGV;
       if argv = [] then Some s
       else dispatch_loop pc (listing cmds) cmds (map (\<lambda>p. drop p buf) argv) s
     }
   }"

section \<open>Built-in commands\<close>

text \<open>\<open>port\<close> is the character output of \<^verbatim>\<open>s_port\<close>, if there is one.\<close>

definition fmt_str :: "u8 list \<Rightarrow> xarg" where
  "fmt_str s = Arg_str (Some s)"

fun echo_loop :: "(u8 \<Rightarrow> 's \<Rightarrow> 's) option \<Rightarrow> u8 list list \<Rightarrow> 's \<Rightarrow> 's option" where
  "echo_loop port [] s = Some s"
| "echo_loop port (arg # args) s = do {
     s \<leftarrow> s_printf port ''%s '' [fmt_str arg] s;
     echo_loop port args s
   }"

definition CRLF :: string where
  "CRLF = [CHR 0x0D, CHR 0x0A]"

definition echo :: "(u8 \<Rightarrow> 's \<Rightarrow> 's) option \<Rightarrow> u8 list list \<Rightarrow> 's \<Rightarrow> (u32 \<times> 's) option" where
  "echo port argv s = do {
     s \<leftarrow> echo_loop port (tl argv) s;
     s \<leftarrow> s_printf port CRLF [] s;
     Some (0, s)
   }"

fun help_loop :: "(u8 \<Rightarrow> 's \<Rightarrow> 's) option \<Rightarrow> (u8 list \<times> u8 list) list \<Rightarrow> 's \<Rightarrow> 's option" where
  "help_loop port [] s = Some s"
| "help_loop port ((name, desc) # cmds) s = do {
     s \<leftarrow> s_printf port (''%-12s : %s'' @ CRLF) [fmt_str name, fmt_str desc] s;
     help_loop port cmds s
   }"

definition help_func :: "(u8 \<Rightarrow> 's \<Rightarrow> 's) option \<Rightarrow> (u8 list \<times> u8 list) list \<Rightarrow> 's \<Rightarrow> (u32 \<times> 's) option" where
  "help_func port names s = do {
     s \<leftarrow> (if names \<noteq> [] then do {
         s \<leftarrow> s_printf port (''shell commads:'' @ CRLF) [] s;
         help_loop port names s
       } else s_printf port (''no shell commads'' @ CRLF) [] s);
     Some (0, s)
   }"

text \<open>One line of the dump; \<open>rd\<close> reads a byte of the memory.\<close>

fun hexdump_cols :: "(u8 \<Rightarrow> 's \<Rightarrow> 's) option \<Rightarrow> (u32 \<Rightarrow> 's \<Rightarrow> u8 option) \<Rightarrow> u32 \<Rightarrow> u32 \<Rightarrow> u32 \<Rightarrow>
    nat \<Rightarrow> nat \<Rightarrow> u8 list \<Rightarrow> 's \<Rightarrow> (u8 list \<times> 's) option" where
  "hexdump_cols port rd start_base len i j 0 ascii_buf s = Some (ascii_buf, s)"
| "hexdump_cols port rd start_base len i j (Suc k) ascii_buf s =
     (if i + of_nat j < len then do {
        val \<leftarrow> rd (start_base + i + of_nat j) s;
        s \<leftarrow> s_printf port ''%02X '' [Arg_int (ucast val)] s;
        hexdump_cols port rd start_base len i (Suc j) k
          (ascii_buf[j := if 32 \<le> val \<and> val \<le> 126 then val else 0x2E]) s
      } else do {
        s \<leftarrow> s_printf port ''   '' [] s;
        hexdump_cols port rd start_base len i (Suc j) k (ascii_buf[j := SP]) s
      })"

partial_function (option) hexdump_rows ::
  "(u8 \<Rightarrow> 's \<Rightarrow> 's) option \<Rightarrow> (u32 \<Rightarrow> 's \<Rightarrow> u8 option) \<Rightarrow> u32 \<Rightarrow> u32 \<Rightarrow> u32 \<Rightarrow> u8 list \<Rightarrow> 's \<Rightarrow> 's option" where
  "hexdump_rows port rd start_base len i ascii_buf s =
     (if i < len then do {
        s \<leftarrow> s_printf port ''0x%08X  '' [Arg_int (start_base + i)] s;
        (ascii_buf, s) \<leftarrow> hexdump_cols port rd start_base len i 0 16 ascii_buf s;
        s \<leftarrow> s_printf port ('' %s'' @ CRLF) [fmt_str ascii_buf] s;
        hexdump_rows port rd start_base len (i + 16) ascii_buf s
      } else Some s)"

definition hexdump :: "(u8 \<Rightarrow> 's \<Rightarrow> 's) option \<Rightarrow> (u32 \<Rightarrow> 's \<Rightarrow> u8 option) \<Rightarrow> u8 list list \<Rightarrow> 's \<Rightarrow>
    (u32 \<times> 's) option" where
  "hexdump port rd argv s =
     (if length argv < 3 then do {
        s \<leftarrow> s_printf port (''Usage: hexdump <addr> <len>'' @ CRLF) [] s;
        Some (-1, s)
      } else do {
        (r1, start) \<leftarrow> xstrtol (argv ! 1);
        if r1 \<noteq> 0 then do {
          s \<leftarrow> s_printf port (''Invalid address: %s'' @ CRLF) [fmt_str (argv ! 1)] s;
          Some (-2, s)
        } else do {
          (r2, dumplen) \<leftarrow> xstrtol (argv ! 2);
          if r2 \<noteq> 0 then do {
            s \<leftarrow> s_printf port (''Invalid length: %s'' @ CRLF) [fmt_str (argv ! 2)] s;
            Some (-3, s)
          } else do {
            start_base \<leftarrow> start;
            len \<leftarrow> dumplen;
            s \<leftarrow> s_printf port (''Dump 0x%p %dBytes'' @ CRLF) [Arg_int start_base, Arg_int len] s;
            s \<leftarrow> s_printf port (''Offset      00 01 02 03 04 05 06 07 08 09 0A 0B 0C 0D 0E 0F'' @ CRLF) [] s;
            s \<leftarrow> hexdump_rows port rd start_base len 0 (replicate 17 0) s;
            Some (0, s)
          }
        }
      })"

definition help_cmd :: "(u8 \<Rightarrow> 's \<Rightarrow> 's) option \<Rightarrow> 's shell_command" where
  "help_cmd port = Shell_Command 1 (cstr ''help'' @ [0]) (cstr ''show help'' @ [0])
     (\<lambda>names argv. help_func port names)"

definition echo_cmd :: "(u8 \<Rightarrow> 's \<Rightarrow> 's) option \<Rightarrow> 's shell_command" where
  "echo_cmd port = Shell_Command 2 (cstr ''echo'' @ [0]) (cstr ''show parameters'' @ [0])
     (\<lambda>names argv. echo port argv)"

definition hexdump_cmd :: "(u8 \<Rightarrow> 's \<Rightarrow> 's) option \<Rightarrow> (u32 \<Rightarrow> 's \<Rightarrow> u8 option) \<Rightarrow> 's shell_command" where
  "hexdump_cmd port rd = Shell_Command 3 (cstr ''hexdump'' @ [0]) (cstr ''show mem info'' @ [0])
     (\<lambda>names argv. hexdump port rd argv)"

section \<open>Completion\<close>

fun match_loop :: "'s shell_command list \<Rightarrow> u8 list \<Rightarrow> nat \<Rightarrow> nat \<Rightarrow> 's shell_command option \<Rightarrow>
    (nat \<times> 's shell_command option) option" where
  "match_loop [] pfx n match_count matched_cmd = Some (match_count, matched_cmd)"
| "match_loop (cmd # cmds) pfx n match_count matched_cmd = do {
     r \<leftarrow> xstrncmp (cm_name cmd) pfx n;
     if r = 0 then match_loop cmds pfx n (Suc match_count) (if match_count = 0 then Some cmd else matched_cmd)
     else match_loop cmds pfx n match_count matched_cmd
   }"

fun print_matches :: "(u8 \<Rightarrow> 's \<Rightarrow> 's) \<Rightarrow> 's shell_command list \<Rightarrow> u8 list \<Rightarrow> nat \<Rightarrow> 's \<Rightarrow> 's option" where
  "print_matches pc [] pfx n s = Some s"
| "print_matches pc (cmd # cmds) pfx n s = do {
     r \<leftarrow> xstrncmp (cm_name cmd) pfx n;
     if r = 0 then do {
       cs \<leftarrow> load_str (cm_name cmd) 0;
       print_matches pc cmds pfx n (puts pc (cs @ [CR, LF]) s)
     } else print_matches pc cmds pfx n s
   }"

definition complete_unique :: "(u8 \<Rightarrow> 's \<Rightarrow> 's) \<Rightarrow> 's shell_command \<Rightarrow> shell_input \<Rightarrow> shell_history \<Rightarrow> 's \<Rightarrow>
    (shell_input \<times> shell_history \<times> 's) option" where
  "complete_unique pc cmd inp hi s = do {
     n \<leftarrow> xstrlen (cm_name cmd);
     let remaining = int n - int (in_pos inp);
     if int (in_pos inp) + remaining \<ge> int CMD_BUF_SIZE then Some (inp, hi, s)
     else do {
       cs \<leftarrow> load_at (cm_name cmd) (if remaining > 0 then in_pos inp else 0) (nat remaining);
       buf \<leftarrow> store_at (in_buffer inp) (if remaining > 0 then in_pos inp else 0) cs;
       let pos = nat (int (in_pos inp) + remaining);
       buf \<leftarrow> store_at buf pos [0];
       let inp = \<lparr>in_buffer = buf, in_pos = pos, in_length = pos\<rparr>;
       let hi = (if in_length inp > h_max_len hi then hi\<lparr>h_max_len := in_length inp\<rparr> else hi);
       s \<leftarrow> redraw_input pc inp s;
       Some (inp, hi, s)
     }
   }"

definition input_tab :: "(u8 \<Rightarrow> 's \<Rightarrow> 's) \<Rightarrow> 's shell_command list \<Rightarrow> shell_input \<Rightarrow> shell_history \<Rightarrow> 's \<Rightarrow>
    (shell_input \<times> shell_history \<times> 's) option" where
  "input_tab pc cmds inp hi s = do {
     buf \<leftarrow> store_at (in_buffer inp) (in_pos inp) [0];
     let inp = inp\<lparr>in_buffer := buf\<rparr>;
     if in_pos inp = 0 then do {
       let s = puts pc [CR, LF] s;
       (_, s) \<leftarrow> help_func (Some pc) (listing cmds) s;
       let s = show_prompt pc s;
       s \<leftarrow> redraw_input pc inp s;
       Some (inp, hi, s)
     } else do {
       (match_count, matched_cmd) \<leftarrow> match_loop cmds (in_buffer inp) (in_pos inp) 0 None;
       if match_count = 1 then do { cmd \<leftarrow> matched_cmd; complete_unique pc cmd inp hi s }
       else if match_count > 1 then do {
         let s = puts pc [CR, LF] s;
         s \<leftarrow> print_matches pc cmds (in_buffer inp) (in_pos inp) s;
         let inp = inp\<lparr>in_length := in_pos inp\<rparr>;
         let s = show_prompt pc (puts pc [CR, LF] s);
         s \<leftarrow> redraw_input pc inp s;
         Some (inp, hi, s)
       }
       else Some (inp, hi, s)
     }
   }"

section \<open>Editing\<close>

definition input_enter :: "(u8 \<Rightarrow> 's \<Rightarrow> 's) \<Rightarrow> 's shell_command list \<Rightarrow> shell_input \<Rightarrow> shell_history \<Rightarrow> 's \<Rightarrow>
    (shell_input \<times> shell_history \<times> 's) option" where
  "input_enter pc cmds inp hi s = do {
     let s = puts pc [CR, LF] s;
     buf \<leftarrow> store_at (in_buffer inp) (in_length inp) [0];
     (hi, s) \<leftarrow> (if in_length inp > 0 then do {
         hi \<leftarrow> save_to_history hi buf;
         s \<leftarrow> shell_handle_command pc cmds buf s;
         Some (hi, s)
       } else Some (hi, s));
     buf \<leftarrow> xmemset buf 0 CMD_BUF_SIZE;
     let hi = hi\<lparr>h_current := h_count hi\<rparr>;
     Some (\<lparr>in_buffer = buf, in_pos = 0, in_length = 0\<rparr>, hi, show_prompt pc s)
   }"

definition input_backspace :: "(u8 \<Rightarrow> 's \<Rightarrow> 's) \<Rightarrow> shell_input \<Rightarrow> 's \<Rightarrow> (shell_input \<times> 's) option" where
  "input_backspace pc inp s =
     (if in_pos inp > 0 then do {
        cnt \<leftarrow> size_diff (in_length inp + 1) (in_pos inp);
        buf \<leftarrow> xmemmove (in_buffer inp) (in_pos inp - 1) (in_pos inp) cnt;
        cs \<leftarrow> load_at buf (in_pos inp - 1) (in_length inp - (in_pos inp - 1));
        let s = puts pc ([BS] @ cs @ [SP, BS] @ replicate (in_length inp - in_pos inp) BS) s;
        Some (\<lparr>in_buffer = buf, in_pos = in_pos inp - 1, in_length = in_length inp - 1\<rparr>, s)
      } else Some (inp, s))"

definition input_insert :: "(u8 \<Rightarrow> 's \<Rightarrow> 's) \<Rightarrow> u8 \<Rightarrow> shell_input \<Rightarrow> shell_history \<Rightarrow> 's \<Rightarrow>
    (shell_input \<times> shell_history \<times> 's) option" where
  "input_insert pc ch inp hi s = do {
     cnt \<leftarrow> size_diff (in_length inp) (in_pos inp);
     buf \<leftarrow> xmemmove (in_buffer inp) (in_pos inp + 1) (in_pos inp) cnt;
     buf \<leftarrow> store_at buf (in_pos inp) [ch];
     let inp = \<lparr>in_buffer = buf, in_pos = in_pos inp + 1, in_length = in_length inp + 1\<rparr>;
     let hi = (if in_length inp > h_max_len hi then hi\<lparr>h_max_len := in_length inp\<rparr> else hi);
     s \<leftarrow> (if in_pos inp < in_length inp then do {
         cs \<leftarrow> load_str buf (in_pos inp - 1);
         Some (puts pc (cs @ replicate (in_length inp - in_pos inp) BS) s)
       } else Some (puts pc [ch] s));
     Some (inp, hi, s)
   }"

definition input_right :: "(u8 \<Rightarrow> 's \<Rightarrow> 's) \<Rightarrow> shell_input \<Rightarrow> 's \<Rightarrow> shell_input \<times> 's" where
  "input_right pc inp s =
     (if in_pos inp < in_length inp
      then (inp\<lparr>in_pos := in_pos inp + 1\<rparr>, puts pc [ESC, 0x5B, 0x43] s) else (inp, s))"

definition input_left :: "(u8 \<Rightarrow> 's \<Rightarrow> 's) \<Rightarrow> shell_input \<Rightarrow> 's \<Rightarrow> shell_input \<times> 's" where
  "input_left pc inp s =
     (if in_pos inp > 0
      then (inp\<lparr>in_pos := in_pos inp - 1\<rparr>, puts pc [ESC, 0x5B, 0x44] s) else (inp, s))"

definition input_normal :: "(u8 \<Rightarrow> 's \<Rightarrow> 's) \<Rightarrow> 's shell_command list \<Rightarrow> u8 \<Rightarrow> shell_input \<Rightarrow> shell_history \<Rightarrow>
    's \<Rightarrow> (shell_input \<times> shell_history \<times> 's) option" where
  "input_normal pc cmds ch inp hi s =
     (if ch = CR \<or> ch = LF then input_enter pc cmds inp hi s
      else if ch = TAB then input_tab pc cmds inp hi s
      else if ch = BS \<or> ch = DEL then map_option (\<lambda>(inp, s). (inp, hi, s)) (input_backspace pc inp s)
      else if 0x20 \<le> ch \<and> ch \<le> 0x7E \<and> in_length inp < CMD_BUF_SIZE - 1 then input_insert pc ch inp hi s
      else Some (inp, hi, s))"

definition input_bracket :: "(u8 \<Rightarrow> 's \<Rightarrow> 's) \<Rightarrow> u8 \<Rightarrow> shell_input \<Rightarrow> shell_history \<Rightarrow> 's \<Rightarrow>
    (shell_input \<times> shell_history \<times> 's) option" where
  "input_bracket pc ch inp hi s =
     (if ch = 0x41 then map_option (\<lambda>(hi, inp, s). (inp, hi, s)) (browse_history_up pc hi inp s)
      else if ch = 0x42 then map_option (\<lambda>(hi, inp, s). (inp, hi, s)) (browse_history_down pc hi inp s)
      else if ch = 0x43 then (let (inp, s) = input_right pc inp s in Some (inp, hi, s))
      else if ch = 0x44 then (let (inp, s) = input_left pc inp s in Some (inp, hi, s))
      else Some (inp, hi, s))"

definition console_input_char :: "(u8 \<Rightarrow> 's \<Rightarrow> 's) \<Rightarrow> 's shell_command list \<Rightarrow> u8 \<Rightarrow> shell_line \<Rightarrow> 's \<Rightarrow>
    (shell_line \<times> 's) option" where
  "console_input_char pc cmds ch l s =
     (case sh_state l of
        STATE_NORMAL \<Rightarrow>
          if ch = ESC then Some (l\<lparr>sh_state := STATE_ESC_RECEIVED\<rparr>, s)
          else do {
            (inp, hi, s) \<leftarrow> input_normal pc cmds ch (sh_in l) (sh_his l) s;
            Some (\<lparr>sh_in = inp, sh_his = hi, sh_state = STATE_NORMAL\<rparr>, s)
          }
      | STATE_ESC_RECEIVED \<Rightarrow>
          Some (l\<lparr>sh_state := if ch = 0x5B then STATE_BRACKET_RECEIVED else STATE_NORMAL\<rparr>, s)
      | STATE_BRACKET_RECEIVED \<Rightarrow> do {
          (inp, hi, s) \<leftarrow> input_bracket pc ch (sh_in l) (sh_his l) s;
          Some (\<lparr>sh_in = inp, sh_his = hi, sh_state = STATE_NORMAL\<rparr>, s)
        })"

section \<open>The interface of the shell\<close>

text \<open>
  The walk to the tail ends at the last node.  When the node is already in the list, the tail's link
  to it is followed by cutting the list behind it.
\<close>

definition shell_register_command :: "'s shell_command \<Rightarrow> 's shell_command list \<Rightarrow> 's shell_command list" where
  "shell_register_command cmd cmds = takeWhile (\<lambda>c. cm_node c \<noteq> cm_node cmd) cmds @ [cmd]"

text \<open>
  \<^verbatim>\<open>shell_init\<close> tests the functions of the old \<^verbatim>\<open>s_port\<close>.  When that is null the test reads the
  words at the addresses 0 and 4: \<open>null_words\<close> says whether they are zero.
\<close>

definition shell_init :: "bool \<times> bool \<Rightarrow> (u32 \<Rightarrow> 's \<Rightarrow> u8 option) \<Rightarrow> 's shell_port option \<Rightarrow>
    u8 list option \<Rightarrow> 's shell \<Rightarrow> 's \<Rightarrow> (int \<times> 's shell \<times> 's) option" where
  "shell_init null_words rd port sheel_headtag sh s =
     (let missing = (case s_port sh of None \<Rightarrow> fst null_words \<or> snd null_words
            | Some p \<Rightarrow> shell_putchar p = None \<or> shell_getchar p = None) in
      case port of
        None \<Rightarrow> Some (-1, sh\<lparr>s_port := None\<rparr>, s)
      | Some new \<Rightarrow>
          if missing then Some (-1, sh\<lparr>s_port := None\<rparr>, s)
          else do {
            s \<leftarrow> (case shell_putchar new of None \<Rightarrow> Some s
              | Some pc \<Rightarrow> do {
                  tag \<leftarrow> (case sheel_headtag of None \<Rightarrow> Some [] | Some t \<Rightarrow> load_str t 0);
                  Some (show_prompt pc (puts pc tag s))
                });
            let cmds = shell_register_command (help_cmd (shell_putchar new)) (shell_cmd_list sh);
            let cmds = shell_register_command (echo_cmd (shell_putchar new)) cmds;
            let cmds = shell_register_command (hexdump_cmd (shell_putchar new) rd) cmds;
            Some (0, sh\<lparr>s_port := Some new, shell_cmd_list := cmds\<rparr>, s)
          })"

definition shell_deinit :: "'s shell \<Rightarrow> 's shell_port option \<times> 's shell" where
  "shell_deinit sh = (s_port sh, sh\<lparr>s_port := None\<rparr>)"

text \<open>\<^verbatim>\<open>char\<close> is unsigned on the target, so the test \<open>ch >= 0\<close> of the code always succeeds.\<close>

definition shell_servise :: "'s shell \<Rightarrow> 's \<Rightarrow> ('s shell \<times> 's) option" where
  "shell_servise sh s =
     (case s_port sh of None \<Rightarrow> Some (sh, s)
      | Some p \<Rightarrow>
          (case (shell_putchar p, shell_getchar p) of
             (Some pc, Some gc) \<Rightarrow>
               let (ch, s) = gc s in
               map_option (\<lambda>(l, s). (sh\<lparr>shell_st := l\<rparr>, s))
                 (console_input_char pc (shell_cmd_list sh) ch (shell_st sh) s)
           | _ \<Rightarrow> Some (sh, s)))"

end
