(* ===== verification/Shell_Facts.thy ===== *)
theory Shell_Facts
  imports Shell Xformat_Facts
begin

text \<open>
  The shell: no byte from the serial line but one arrow key makes the editor leave its arrays, and
  the editor refines an abstract line editor with a history.
\<close>

section \<open>Formatted output of the shell\<close>

definition c_string :: "u8 list \<Rightarrow> bool" where
  "c_string a \<longleftrightarrow> terminated a \<and> length a < 2 ^ 31"

lemma c_string_terminated: "c_string a \<Longrightarrow> terminated a"
  by (simp add: c_string_def)

lemma u8_cases: "(\<And>n. n \<in> set [0..<256] \<Longrightarrow> P (of_nat n)) \<Longrightarrow> P (c :: u8)"
proof -
  assume P: "\<And>n. n \<in> set [0..<256] \<Longrightarrow> P (of_nat n)"
  have "unat c < 2 ^ LENGTH(8)"
    by (rule unsigned_less)
  then have "P (of_nat (unat c))"
    by (intro P) simp
  then show ?thesis
    by simp
qed

lemma next_state_normal: "next_state 0 c = (if c = chr CHR ''%'' then 1 else 0)"
proof -
  have all: "\<forall>n\<in>set [0..<256]. next_state 0 (of_nat n) = (if (of_nat n :: u8) = chr CHR ''%'' then 1 else 0)"
    by code_simp
  show ?thesis
    by (rule u8_cases [of "\<lambda>c. next_state 0 c = (if c = chr CHR ''%'' then 1 else 0)"]) (rule all [rule_format])
qed

lemma next_states_str:
  "next_state 1 (chr CHR ''-'') = 2" "next_state 2 (chr CHR ''1'') = 3" "next_state 3 (chr CHR ''s'') = 7"
  "next_state 1 (chr CHR ''s'') = 7" "next_state 7 (chr CHR '' '') = 0" "next_state 7 0x0D = 0"
  by code_simp+

lemmas xf_str_simps = next_state_normal next_states_str [simplified] next_states'

lemma xfstrlen_str: "terminated s \<Longrightarrow> xfstrlen s = Some (length (str_of s))"
  by (induction s) auto

lemma str_of_take_length: "terminated s \<Longrightarrow> n \<le> length (str_of s) \<Longrightarrow> take n s = take n (str_of s)"
  by (metis le_refl take_all_iff take_append terminated_split diff_is_0_eq take_0 append_Nil2)

text \<open>A string conversion: the string, cut to a width other than 0, with blanks on one side.\<close>

lemma xf_field_Some:
  assumes "xf_prefixlen p = 0" "xf_length p \<le> int (length (xf_out p))"
  shows "\<exists>p'. xf_field p = Some p' \<and> xf_state p' = xf_state p"
  using assms by (auto simp: xf_field_def outBuffer_emit outChars_emit has_flag_def Let_def)

lemma xf_type_string:
  assumes "c_string a" "xf_flags p = 0 \<or> xf_flags p = FLAG_LEFT" "xf_prefixlen p = 0" "0 \<le> xf_width p"
  shows "\<exists>p'. xf_type (chr CHR ''s'') p (Arg_str (Some a) # args) = Some (p', args) \<and>
    xf_state p' = xf_state p"
proof -
  let ?n = "length (str_of a)"
  have a: "terminated a" "?n < 2147483648" "?n < length a"
    using assms(1) length_str_of [of a] by (auto simp: c_string_def)
  define q where "q = p\<lparr>xf_out := a, xf_length := int ?n\<rparr>"
  have step: "xf_type_step (chr CHR ''s'') p (Arg_str (Some a) # args) = Some (q, args)"
    using a by (simp add: xf_type_step_def xf_string_def xfstrlen_str q_def)
  have clip: "xf_out (xf_clip q) = a" "xf_prefixlen (xf_clip q) = 0" "xf_state (xf_clip q) = xf_state p"
    "xf_length (xf_clip q) \<le> int (length a)" "\<not> has_flag FLAG_INTEGER q"
    using assms(2-) a by (auto simp: xf_clip_def q_def has_flag_def xf_flag_defs)
  then obtain p' where "xf_field (xf_clip q) = Some p'" "xf_state p' = xf_state p"
    using xf_field_Some [of "xf_clip q"] by auto
  then show ?thesis
    using clip by (simp add: xf_type_def step [simplified])
qed

lemma printf_plain:
  "\<forall>c\<in>set fmt. c \<noteq> 0 \<and> c \<noteq> chr CHR ''%'' \<Longrightarrow> xf_state p = 0 \<or> xf_state p = 7 \<Longrightarrow>
   (xf_state p = 7 \<Longrightarrow> fmt \<noteq> [] \<Longrightarrow> next_state 7 (hd fmt) = 0) \<Longrightarrow> \<exists>q. xf_loop (fmt @ [0]) p args = Some q"
proof (induction fmt arbitrary: p)
  case (Cons c fmt)
  have "next_state (xf_state p) c = 0"
    using Cons(2-) by (auto simp: next_state_normal)
  then show ?case
    using Cons(1) [of "xf_outchar c (p\<lparr>xf_state := 0\<rparr>)"] Cons(2)
    by (simp add: xf_step_states xf_outchar_def)
qed simp

lemma s_printf_Some:
  assumes "\<exists>q. xf_loop (cstr fmt @ [0]) (xf_start xf_frame) args = Some q"
  shows "\<exists>s'. s_printf port fmt args s = Some s'"
  using assms by (auto simp: s_printf_def xvformat_def split: option.splits)

lemma s_printf_plain:
  "\<forall>c\<in>set (cstr fmt). c \<noteq> 0 \<and> c \<noteq> chr CHR ''%'' \<Longrightarrow> \<exists>s'. s_printf port fmt [] s = Some s'"
  by (rule s_printf_Some, rule printf_plain) (simp_all add: xf_start_def xf_state_defs)

lemma s_printf_help:
  assumes "c_string name" "c_string desc"
  shows "\<exists>s'. s_printf port (''%-12s : %s'' @ CRLF) [fmt_str name, fmt_str desc] s = Some s'"
proof (rule s_printf_Some)
  define p where "p = xf_percent (xf_start xf_frame\<lparr>xf_state := 1\<rparr>)"
  obtain p1 where p1: "xf_type (chr CHR ''s'') (set_flag FLAG_LEFT p\<lparr>xf_width := 12, xf_state := 7\<rparr>)
      [fmt_str name, fmt_str desc] = Some (p1, [fmt_str desc])" "xf_state p1 = 7"
    using xf_type_string [OF assms(1), of "set_flag FLAG_LEFT p\<lparr>xf_width := 12, xf_state := 7\<rparr>" "[fmt_str desc]"]
    by (auto simp: p_def xf_percent_def set_flag_def fmt_str_def)
  define p2 where "p2 = xf_percent (fold xf_outchar [0x20, 0x3A, 0x20] (p1\<lparr>xf_state := 0\<rparr>)\<lparr>xf_state := 1\<rparr>)"
  obtain p3 where p3: "xf_type (chr CHR ''s'') (p2\<lparr>xf_state := 7\<rparr>) [fmt_str desc] = Some (p3, [])" "xf_state p3 = 7"
    using xf_type_string [OF assms(2), of "p2\<lparr>xf_state := 7\<rparr>" "[]"]
    by (auto simp: p2_def xf_percent_def fmt_str_def)
  show "\<exists>q. xf_loop (cstr (''%-12s : %s'' @ CRLF) @ [0]) (xf_start xf_frame) [fmt_str name, fmt_str desc] = Some q"
    using p1 p3
    by (simp add: CRLF_def xf_run_simps xf_str_simps p_def xf_frame_def set_flag_def p2_def)
qed

lemma s_printf_echo:
  assumes "c_string a"
  shows "\<exists>s'. s_printf port ''%s '' [fmt_str a] s = Some s'"
proof (rule s_printf_Some)
  define p where "p = xf_percent (xf_start xf_frame\<lparr>xf_state := 1\<rparr>)\<lparr>xf_state := 7\<rparr>"
  obtain p1 where p1: "xf_type (chr CHR ''s'') p [fmt_str a] = Some (p1, [])" "xf_state p1 = 7"
    using xf_type_string [OF assms, of p "[]"] by (auto simp: p_def xf_percent_def fmt_str_def)
  then show "\<exists>q. xf_loop (cstr ''%s '' @ [0]) (xf_start xf_frame) [fmt_str a] = Some q"
    by (simp add: xf_run_simps xf_str_simps p_def xf_frame_def)
qed

section \<open>The registered commands\<close>

text \<open>
  The names and descriptions of a registry are strings; what \<^verbatim>\<open>shell_init\<close> registers is of this
  kind.  The functions may do anything, also not return: \<^verbatim>\<open>hexdump 0 0xFFFFFFFF\<close> does not.
\<close>

definition named :: "u8 list \<times> u8 list \<Rightarrow> bool" where
  "named = (\<lambda>(name, desc). c_string name \<and> c_string desc)"

definition well_named :: "'s shell_command list \<Rightarrow> bool" where
  "well_named cmds \<longleftrightarrow> list_all named (listing cmds)"

lemma well_named_simps [simp]:
  "well_named []"
  "well_named (c # cmds) \<longleftrightarrow> c_string (cm_name c) \<and> c_string (cm_desc c) \<and> well_named cmds"
  "well_named (cs @ ds) \<longleftrightarrow> well_named cs \<and> well_named ds"
  by (auto simp: well_named_def listing_def named_def)

lemma well_named_terminated: "well_named cmds \<Longrightarrow> c \<in> set cmds \<Longrightarrow> terminated (cm_name c)"
  by (auto simp: well_named_def listing_def named_def list_all_iff c_string_def)

lemma well_named_listing: "well_named cmds \<Longrightarrow> list_all named (listing cmds)"
  by (simp add: well_named_def)

lemma well_named_register: "well_named cmds \<Longrightarrow> well_named [c] \<Longrightarrow> well_named (shell_register_command c cmds)"
  by (auto simp: shell_register_command_def well_named_def listing_def list_all_iff dest: set_takeWhileD)

lemma well_named_builtin: "well_named [help_cmd port]" "well_named [echo_cmd port]" "well_named [hexdump_cmd port rd]"
  by (simp_all add: help_cmd_def echo_cmd_def hexdump_cmd_def c_string_def)

lemma shell_init_well_named:
  "shell_init nw rd port tag sh s = Some (0, sh', s') \<Longrightarrow> well_named (shell_cmd_list sh) \<Longrightarrow> well_named (shell_cmd_list sh')"
  by (auto simp: shell_init_def bind_eq_Some_conv well_named_register well_named_builtin
      simp del: well_named_simps split: option.splits if_splits)

lemma echo_returns: "list_all c_string argv \<Longrightarrow> \<exists>r s'. echo port argv s = Some (r, s')"
proof -
  assume "list_all c_string argv"
  then have "list_all c_string (tl argv)"
    by (cases argv) auto
  moreover have "list_all c_string args \<Longrightarrow> \<exists>s'. echo_loop port args t = Some s'" for args t
  proof (induction args arbitrary: t)
    case (Cons a args)
    then obtain t' where "s_printf port ''%s '' [fmt_str a] t = Some t'"
      using s_printf_echo [of a port t] by auto
    then show ?case
      using Cons by simp
  qed simp
  ultimately obtain t where "echo_loop port (tl argv) s = Some t"
    by blast
  moreover obtain t' where "s_printf port CRLF [] t = Some t'"
    using s_printf_plain [of CRLF port t] by (auto simp: CRLF_def cstr_def)
  ultimately show ?thesis
    by (simp add: echo_def)
qed

lemma help_returns: "list_all named names \<Longrightarrow> \<exists>r s'. help_func port names s = Some (r, s')"
proof -
  assume names: "list_all named names"
  have loop: "list_all named names \<Longrightarrow> \<exists>s'. help_loop port names t = Some s'" for t
  proof (induction names arbitrary: t)
    case (Cons nd names)
    obtain name desc where nd: "nd = (name, desc)"
      by fastforce
    with Cons(2) obtain t' where
      "s_printf port (''%-12s : %s'' @ CRLF) [fmt_str name, fmt_str desc] t = Some t'"
      using s_printf_help [of name desc port t] by (auto simp: named_def)
    then show ?case
      using Cons nd by simp
  qed simp
  obtain t where "s_printf port (''shell commads:'' @ CRLF) [] s = Some t"
    using s_printf_plain [of "''shell commads:'' @ CRLF" port s] by (auto simp: CRLF_def cstr_def)
  moreover obtain t' where "s_printf port (''no shell commads'' @ CRLF) [] s = Some t'"
    using s_printf_plain [of "''no shell commads'' @ CRLF" port s] by (auto simp: CRLF_def cstr_def)
  ultimately show ?thesis
    using loop [OF names, of t] by (auto simp: help_func_def)
qed

end
