(* ===== verification/Shell_Editor.thy ===== *)
theory Shell_Editor
  imports Shell_Facts
begin

text \<open>
  The editor, the history and the parser of command lines: the bounds that every byte from the
  serial line preserves, and the abstract editor that they implement.
\<close>

section \<open>Bounds of the state\<close>

definition row_ok :: "u8 list \<Rightarrow> bool" where
  "row_ok r \<longleftrightarrow> length r = CMD_BUF_SIZE \<and> terminated r"

definition input_ok :: "shell_input \<Rightarrow> bool" where
  "input_ok inp \<longleftrightarrow> length (in_buffer inp) = CMD_BUF_SIZE \<and> in_pos inp \<le> in_length inp \<and>
     in_length inp < CMD_BUF_SIZE \<and> in_buffer inp ! (CMD_BUF_SIZE - 1) = 0"

definition history_ok :: "shell_history \<Rightarrow> bool" where
  "history_ok hi \<longleftrightarrow> length (h_rows hi) = CMD_HISTORY_DEPTH \<and> list_all row_ok (h_rows hi) \<and>
     h_count hi \<le> CMD_HISTORY_DEPTH \<and> h_current hi \<le> CMD_HISTORY_DEPTH \<and> h_max_len hi < CMD_BUF_SIZE \<and>
     (\<forall>i < CMD_HISTORY_DEPTH. h_count hi \<le> i \<longrightarrow> str_of (h_rows hi ! i) = [])"

definition line_ok :: "shell_line \<Rightarrow> bool" where
  "line_ok l \<longleftrightarrow> input_ok (sh_in l) \<and> history_ok (sh_his l)"

lemma row_ok_str: "row_ok r \<Longrightarrow> length (str_of r) < CMD_BUF_SIZE"
  using length_str_of [of r] by (simp add: row_ok_def)

lemma terminated_nth: "i < length b \<Longrightarrow> b ! i = 0 \<Longrightarrow> terminated b"
  using nth_mem [of i b] by simp

lemma input_ok_row:
  assumes "input_ok inp"
  shows "row_ok (in_buffer inp)" "p < CMD_BUF_SIZE \<Longrightarrow> terminated (drop p (in_buffer inp))"
proof -
  show "row_ok (in_buffer inp)"
    using assms terminated_nth [of "CMD_BUF_SIZE - 1" "in_buffer inp"]
    by (simp add: input_ok_def row_ok_def CMD_BUF_SIZE_def)
  show "p < CMD_BUF_SIZE \<Longrightarrow> terminated (drop p (in_buffer inp))"
    using assms by (intro terminated_nth [of "CMD_BUF_SIZE - 1 - p"]) (auto simp: input_ok_def CMD_BUF_SIZE_def)
qed

section \<open>Array accesses\<close>

lemma store_at_Some: "i + length cs \<le> length buf \<Longrightarrow> store_at buf i cs = Some (patch i cs buf)"
  by (simp add: store_at_def)

lemma load_at_Some: "i + n \<le> length buf \<Longrightarrow> load_at buf i n = Some (bslice i n buf)"
  by (simp add: load_at_def)

lemma load_str_Some: "terminated (drop i buf) \<Longrightarrow> load_str buf i = Some (str_of (drop i buf))"
  by (simp add: load_str_def)

lemma size_diff_Some: "b \<le> a \<Longrightarrow> size_diff a b = Some (a - b)"
  by (simp add: size_diff_def)

lemmas access_simps = store_at_Some load_at_Some load_str_Some size_diff_Some

lemma redraw_input_Some: "in_length inp \<le> length (in_buffer inp) \<Longrightarrow> \<exists>s'. redraw_input pc inp s = Some s'"
  by (simp add: redraw_input_def access_simps Let_def)

lemma patch_patch_before:
  "off + Suc (length zs) \<le> length xs \<Longrightarrow> patch off [y] (patch (Suc off) zs xs) = patch off (y # zs) xs"
  by (intro nth_equalityI) (auto simp: nth_patch nth_Cons' Suc_diff_le)

section \<open>Editing\<close>

text \<open>The line is what the editor holds on both sides of the cursor.\<close>

definition left_of :: "shell_input \<Rightarrow> u8 list" where
  "left_of inp = take (in_pos inp) (in_buffer inp)"

definition right_of :: "shell_input \<Rightarrow> u8 list" where
  "right_of inp = bslice (in_pos inp) (in_length inp - in_pos inp) (in_buffer inp)"

lemma length_sides:
  "input_ok inp \<Longrightarrow> length (left_of inp) = in_pos inp"
  "input_ok inp \<Longrightarrow> length (right_of inp) = in_length inp - in_pos inp"
  by (simp_all add: left_of_def right_of_def input_ok_def)

lemma sides_line: "input_ok inp \<Longrightarrow> left_of inp @ right_of inp = take (in_length inp) (in_buffer inp)"
  by (simp add: left_of_def right_of_def bslice_def input_ok_def flip: take_add)

lemma take_patch: "off \<le> length xs \<Longrightarrow> n \<le> off \<Longrightarrow> take n (patch off ys xs) = take n xs"
  by (simp add: patch_def)

text \<open>A step that at most raises the maximal length.\<close>

definition same_rows :: "shell_history \<Rightarrow> shell_history \<Rightarrow> bool" where
  "same_rows hi hi' \<longleftrightarrow> h_rows hi' = h_rows hi \<and> h_count hi' = h_count hi \<and> h_current hi' = h_current hi \<and>
     (h_max_len hi < CMD_BUF_SIZE \<longrightarrow> h_max_len hi' < CMD_BUF_SIZE)"

lemma same_rows_refl [simp]: "same_rows hi hi"
  by (simp add: same_rows_def)

lemma same_rows_max_len [simp]: "same_rows hi (hi\<lparr>h_max_len := m\<rparr>) \<longleftrightarrow> (h_max_len hi < CMD_BUF_SIZE \<longrightarrow> m < CMD_BUF_SIZE)"
  by (simp add: same_rows_def)

lemma same_rows_ok: "same_rows hi hi' \<Longrightarrow> history_ok hi \<Longrightarrow> history_ok hi'"
  by (simp add: same_rows_def history_ok_def)

lemma input_insert_ok:
  assumes "input_ok inp" "in_length inp < CMD_BUF_SIZE - 1"
  shows "\<exists>inp' hi' s'. input_insert pc ch inp hi s = Some (inp', hi', s') \<and> input_ok inp' \<and>
    same_rows hi hi' \<and> left_of inp' = left_of inp @ [ch] \<and> right_of inp' = right_of inp \<and>
    (right_of inp = [] \<longrightarrow> s' = puts pc [ch] s)"
proof -
  let ?b = "in_buffer inp" and ?p = "in_pos inp" and ?n = "in_length inp"
  define b where "b = patch ?p (ch # right_of inp) ?b"
  have ok: "length ?b = 128" "?p \<le> ?n" "?n < 127" "?b ! 127 = 0"
    using assms(1,2) by (auto simp: input_ok_def CMD_BUF_SIZE_def)
  have r: "length (right_of inp) = ?n - ?p"
    using length_sides assms(1) by blast
  have b: "length b = 128" "b ! 127 = 0"
    using ok r by (auto simp: b_def nth_patch)
  then have "terminated (drop ?p b)"
    using ok by (intro terminated_nth [of "127 - ?p"]) auto
  moreover have "xmemmove ?b (?p + 1) ?p (?n - ?p) = Some (patch (Suc ?p) (right_of inp) ?b)"
    using ok by (simp add: xmemmove_slice right_of_def)
  moreover have "patch ?p [ch] (patch (Suc ?p) (right_of inp) ?b) = b"
    unfolding b_def by (rule patch_patch_before) (use ok r in simp)
  moreover have "take (Suc ?p) b = take ?p ?b @ [ch]" "bslice (Suc ?p) (?n - ?p) b = right_of inp"
    using ok r by (simp_all add: b_def patch_def bslice_def)
  ultimately show ?thesis
    using ok r b unfolding input_insert_def
    by (auto simp: access_simps Let_def input_ok_def CMD_BUF_SIZE_def left_of_def right_of_def [of "\<lparr>in_buffer = _, in_pos = _, in_length = _\<rparr>"])
qed

lemma input_backspace_ok:
  assumes "input_ok inp"
  shows "\<exists>inp' s'. input_backspace pc inp s = Some (inp', s') \<and> input_ok inp' \<and>
    left_of inp' = butlast (left_of inp) \<and> right_of inp' = right_of inp"
proof (cases "in_pos inp = 0")
  case True
  then show ?thesis
    using assms by (simp add: input_backspace_def left_of_def)
next
  case False
  let ?b = "in_buffer inp" and ?p = "in_pos inp" and ?n = "in_length inp"
  define b where "b = patch (?p - 1) (bslice ?p (?n + 1 - ?p) ?b) ?b"
  have ok: "length ?b = 128" "?p \<le> ?n" "?n < 128" "?b ! 127 = 0" "0 < ?p"
    using assms False by (auto simp: input_ok_def CMD_BUF_SIZE_def)
  have r: "length (right_of inp) = ?n - ?p"
    using length_sides assms by blast
  have slice: "bslice ?p (?n + 1 - ?p) ?b = right_of inp @ [?b ! ?n]"
    using ok by (simp add: right_of_def bslice_def Suc_diff_le take_Suc_conv_app_nth)
  have b: "length b = 128" "b ! 127 = 0"
    using ok r by (auto simp: b_def nth_patch slice)
  moreover have "xmemmove ?b (?p - 1) ?p (?n + 1 - ?p) = Some b"
    using ok by (simp add: xmemmove_slice b_def)
  moreover have "take (?p - 1) b = butlast (left_of inp)"
    using ok by (simp add: b_def take_patch left_of_def butlast_take)
  moreover have "bslice (?p - 1) (?n - ?p) b = right_of inp"
    using ok r unfolding b_def slice by (simp add: patch_def bslice_def)
  ultimately show ?thesis
    using ok by (auto simp: input_backspace_def access_simps Let_def input_ok_def CMD_BUF_SIZE_def left_of_def
        right_of_def [of "\<lparr>in_buffer = _, in_pos = _, in_length = _\<rparr>"])
qed

lemma bslice_Suc: "p < length b \<Longrightarrow> bslice p (Suc k) b = b ! p # bslice (Suc p) k b"
  by (simp add: bslice_def flip: Cons_nth_drop_Suc)

lemma input_right_ok:
  assumes "input_ok inp"
  obtains inp' s' where "input_right pc inp s = (inp', s')" "input_ok inp'"
    "left_of inp' = left_of inp @ take 1 (right_of inp)" "right_of inp' = drop 1 (right_of inp)"
proof (cases "in_pos inp < in_length inp")
  case True
  then obtain k where k: "in_length inp - in_pos inp = Suc k"
    by (metis Suc_diff_Suc)
  have p: "in_pos inp < length (in_buffer inp)"
    using True assms by (simp add: input_ok_def)
  have r: "right_of inp = in_buffer inp ! in_pos inp # bslice (Suc (in_pos inp)) k (in_buffer inp)"
    using k by (simp add: right_of_def bslice_Suc [OF p])
  have "k = in_length inp - Suc (in_pos inp)"
    using k by simp
  then have "left_of (inp\<lparr>in_pos := in_pos inp + 1\<rparr>) = left_of inp @ take 1 (right_of inp)"
      "right_of (inp\<lparr>in_pos := in_pos inp + 1\<rparr>) = drop 1 (right_of inp)"
    by (simp_all add: r left_of_def right_of_def [of "inp\<lparr>in_pos := _\<rparr>"] take_Suc_conv_app_nth p)
  then show thesis
    using True assms by (intro that [of "inp\<lparr>in_pos := in_pos inp + 1\<rparr>" "puts pc [ESC, 0x5B, 0x43] s"])
      (simp_all add: input_right_def input_ok_def)
next
  case False
  then have "right_of inp = []"
    by (simp add: right_of_def)
  then show thesis
    using False assms by (intro that [of inp s]) (simp_all add: input_right_def)
qed

lemma input_left_ok:
  assumes "input_ok inp"
  obtains inp' s' where "input_left pc inp s = (inp', s')" "input_ok inp'"
    "left_of inp' = butlast (left_of inp)"
    "right_of inp' = drop (length (left_of inp) - 1) (left_of inp) @ right_of inp"
proof (cases "0 < in_pos inp")
  case True
  let ?p = "in_pos inp - 1"
  have "right_of (inp\<lparr>in_pos := ?p\<rparr>) = bslice ?p (1 + (in_length inp - in_pos inp)) (in_buffer inp)"
    using True assms by (simp add: right_of_def input_ok_def Suc_diff_le)
  also have "\<dots> = bslice ?p 1 (in_buffer inp) @ right_of inp"
    using True by (simp only: bslice_append right_of_def) simp
  also have "bslice ?p 1 (in_buffer inp) = drop (length (left_of inp) - 1) (left_of inp)"
    using True assms by (simp add: bslice_def left_of_def input_ok_def drop_take)
  finally have "right_of (inp\<lparr>in_pos := ?p\<rparr>) = drop (length (left_of inp) - 1) (left_of inp) @ right_of inp" .
  moreover have "left_of (inp\<lparr>in_pos := ?p\<rparr>) = butlast (left_of inp)"
    using True assms by (simp add: left_of_def butlast_take input_ok_def)
  ultimately show thesis
    using True assms by (intro that [of "inp\<lparr>in_pos := ?p\<rparr>" "puts pc [ESC, 0x5B, 0x44] s"])
      (auto simp: input_left_def input_ok_def)
next
  case False
  then have "left_of inp = []"
    by (simp add: left_of_def)
  then show thesis
    using False assms by (intro that [of inp s]) (simp_all add: input_left_def)
qed

section \<open>History\<close>

definition hist_of :: "shell_history \<Rightarrow> u8 list list" where
  "hist_of hi = map str_of (take (h_count hi) (h_rows hi))"

text \<open>What remembering a line means: at most five lines, no line twice, the oldest one leaves.\<close>

definition hist_save :: "u8 list \<Rightarrow> u8 list list \<Rightarrow> u8 list list" where
  "hist_save line hist =
     (if line \<in> set hist then hist
      else (if length hist = CMD_HISTORY_DEPTH then tl hist else hist) @ [line])"

lemma length_hist_of: "history_ok hi \<Longrightarrow> length (hist_of hi) = h_count hi"
  by (simp add: hist_of_def history_ok_def)

lemma history_has_str:
  "list_all row_ok rows \<Longrightarrow> terminated buf \<Longrightarrow> history_has rows buf = Some (str_of buf \<in> set (map str_of rows))"
proof (induction rows)
  case (Cons row rows)
  then obtain r where "xstrcmp row buf = Some r" "(r = 0) = (str_of row = str_of buf)"
    using xstrcmp_eq [of row buf] by (auto simp: row_ok_def)
  then show ?case
    using Cons by auto
qed simp

lemma xstrcpy_row:
  assumes "row_ok dst" "row_ok src"
  shows "\<exists>r. xstrcpy dst src = Some r \<and> row_ok r \<and> str_of r = str_of src"
  using assms row_ok_str [of src] by (auto simp: row_ok_def xstrcpy_str)

lemma shift_rows_str:
  "list_all row_ok rows \<Longrightarrow> rows \<noteq> [] \<Longrightarrow> \<exists>rows'. shift_rows rows = Some rows' \<and> list_all row_ok rows' \<and>
     length rows' = length rows \<and> map str_of rows' = tl (map str_of rows) @ [str_of (last rows)]"
proof (induction rows rule: shift_rows.induct)
  case (1 r0 r1 rows)
  obtain r where r: "xstrcpy r0 r1 = Some r" "row_ok r" "str_of r = str_of r1"
    using xstrcpy_row [of r0 r1] 1(2) by auto
  then obtain rs where "shift_rows (r1 # rows) = Some rs" "list_all row_ok rs" "length rs = length (r1 # rows)"
      "map str_of rs = tl (map str_of (r1 # rows)) @ [str_of (last (r1 # rows))]"
    using 1(1) [OF r(1)] 1(2) by auto
  then show ?case
    using r by simp
qed simp_all

lemma list_all_nth_ok: "list_all P xs \<Longrightarrow> i < length xs \<Longrightarrow> P (xs ! i)"
  by (simp add: list_all_length)

lemma list_all_update: "list_all P xs \<Longrightarrow> P x \<Longrightarrow> list_all P (xs[i := x])"
  by (auto simp: list_all_iff dest: set_update_subset_insert [THEN subsetD])

text \<open>Storing a row behind the first \<open>n\<close> ones.\<close>

lemma store_row:
  assumes "length rows = CMD_HISTORY_DEPTH" "list_all row_ok rows" "n < CMD_HISTORY_DEPTH" "row_ok buf"
  shows "\<exists>row. xstrcpy (rows ! n) buf = Some row \<and> list_all row_ok (rows[n := row]) \<and>
    map str_of (take (Suc n) (rows[n := row])) = map str_of (take n rows) @ [str_of buf]"
proof -
  obtain row where row: "xstrcpy (rows ! n) buf = Some row" "row_ok row" "str_of row = str_of buf"
    using xstrcpy_row [of "rows ! n" buf] assms list_all_nth_ok [of row_ok rows n] by auto
  then show ?thesis
    using assms by (simp add: list_all_update take_Suc_conv_app_nth)
qed

lemma save_to_history_ok:
  assumes "history_ok hi" "row_ok buf"
  shows "\<exists>hi'. save_to_history hi buf = Some hi' \<and> history_ok hi' \<and>
    hist_of hi' = hist_save (str_of buf) (hist_of hi)"
proof -
  let ?n = "h_count hi" and ?rows = "h_rows hi"
  have hi: "length ?rows = CMD_HISTORY_DEPTH" "list_all row_ok ?rows" "?n \<le> CMD_HISTORY_DEPTH"
    using assms(1) by (auto simp: history_ok_def)
  have has: "history_has (take ?n ?rows) buf = Some (str_of buf \<in> set (hist_of hi))"
    using history_has_str [of "take ?n ?rows" buf] hi assms(2)
    by (auto simp: hist_of_def row_ok_def list_all_iff dest: in_set_takeD)
  consider "str_of buf \<in> set (hist_of hi)" | "str_of buf \<notin> set (hist_of hi)" "?n = CMD_HISTORY_DEPTH"
    | "str_of buf \<notin> set (hist_of hi)" "?n < CMD_HISTORY_DEPTH"
    using hi(3) by linarith
  then show ?thesis
  proof cases
    case 1
    then show ?thesis
      using assms(1) by (simp add: save_to_history_def has hist_save_def)
  next
    case 2
    have "?rows \<noteq> []"
      using hi(1) by (auto simp: CMD_HISTORY_DEPTH_def)
    then obtain rows where rows: "shift_rows ?rows = Some rows" "list_all row_ok rows"
        "length rows = CMD_HISTORY_DEPTH" "map str_of rows = tl (map str_of ?rows) @ [str_of (last ?rows)]"
      using shift_rows_str [OF hi(2)] hi(1) by auto
    obtain row where row: "xstrcpy (rows ! (CMD_HISTORY_DEPTH - 1)) buf = Some row"
        "list_all row_ok (rows[CMD_HISTORY_DEPTH - 1 := row])"
        "map str_of (take (Suc (CMD_HISTORY_DEPTH - 1)) (rows[CMD_HISTORY_DEPTH - 1 := row]))
          = map str_of (take (CMD_HISTORY_DEPTH - 1) rows) @ [str_of buf]"
      using store_row [OF rows(3,2) _ assms(2), of "CMD_HISTORY_DEPTH - 1"] by (auto simp: CMD_HISTORY_DEPTH_def)
    have "map str_of (take (CMD_HISTORY_DEPTH - 1) rows) = tl (hist_of hi)"
      using rows(4) hi(1) 2 by (simp add: take_map [symmetric] hist_of_def)
    moreover have "history_has ?rows buf = Some False"
      using has 2 hi(1) by simp
    ultimately show ?thesis
      using rows row assms(1) 2
      by (simp add: save_to_history_def Let_def history_ok_def hist_of_def hist_save_def CMD_HISTORY_DEPTH_def)
  next
    case 3
    obtain row where row: "xstrcpy (?rows ! ?n) buf = Some row" "list_all row_ok (?rows[?n := row])"
        "map str_of (take (Suc ?n) (?rows[?n := row])) = hist_of hi @ [str_of buf]"
      using store_row [OF hi(1,2) 3(2) assms(2)] by (auto simp: hist_of_def)
    then show ?thesis
      using assms(1) 3 hi
      by (auto simp: save_to_history_def has history_ok_def hist_of_def hist_save_def nth_list_update)
  qed
qed

text \<open>The row the editor shows for an index: empty behind the remembered lines.\<close>

definition hist_row :: "u8 list list \<Rightarrow> nat \<Rightarrow> u8 list" where
  "hist_row hist i = (if i < length hist then hist ! i else [])"

lemma load_history_ok:
  assumes "history_ok hi" "input_ok inp" "h_current hi < CMD_HISTORY_DEPTH"
  shows "\<exists>inp' s'. load_history pc hi inp s = Some (inp', s') \<and> input_ok inp' \<and>
    left_of inp' = hist_row (hist_of hi) (h_current hi) \<and> right_of inp' = []"
proof -
  let ?b = "in_buffer inp" and ?row = "h_rows hi ! h_current hi"
  let ?w = "str_of ?row"
  define b where "b = ?w @ 0 # drop (Suc (length ?w)) ?b"
  have row: "row_ok ?row" "h_current hi < length (h_rows hi)"
    using assms(1,3) list_all_nth_ok [of row_ok "h_rows hi" "h_current hi"] by (auto simp: history_ok_def)
  have w: "length ?w < 128"
    using row_ok_str [OF row(1)] by (simp add: CMD_BUF_SIZE_def)
  have buf: "length ?b = 128" "?b ! 127 = 0"
    using assms(2) by (auto simp: input_ok_def CMD_BUF_SIZE_def)
  have "xstrcpy ?b ?row = Some b"
    using row w buf by (simp add: b_def xstrcpy_str row_ok_def)
  moreover have "xstrlen b = Some (length ?w)"
    by (simp add: b_def xstrlen_str)
  moreover have b: "length b = 128" "b ! 127 = 0"
    using w buf by (auto simp: b_def nth_append nth_Cons')
  moreover have "?w = hist_row (hist_of hi) (h_current hi)"
    using assms(1,3) by (auto simp: hist_row_def hist_of_def history_ok_def)
  moreover obtain s' where "redraw_input pc \<lparr>in_buffer = b, in_pos = length ?w, in_length = length ?w\<rparr>
      (if length ?w < h_max_len hi then puts pc (replicate (h_max_len hi + SHEEL_PROMPT_SIZE) SP
         @ replicate (h_max_len hi + SHEEL_PROMPT_SIZE) BS) s else s) = Some s'"
    using redraw_input_Some [of "\<lparr>in_buffer = b, in_pos = length ?w, in_length = length ?w\<rparr>"] b w by fastforce
  ultimately show ?thesis
    using row w by (auto simp: load_history_def Let_def input_ok_def CMD_BUF_SIZE_def left_of_def right_of_def b_def)
qed

section \<open>Command lines\<close>

text \<open>The words of a line: the longest pieces without a blank.\<close>

function line_words :: "u8 list \<Rightarrow> u8 list list" where
  "line_words [] = []"
| "line_words (c # cs) =
     (if c = SP then line_words cs
      else (c # takeWhile (\<lambda>c. c \<noteq> SP) cs) # line_words (dropWhile (\<lambda>c. c \<noteq> SP) cs))"
  by pat_completeness auto
termination
  by (relation "measure length") (auto simp: le_imp_less_Suc length_dropWhile_le)

lemma line_words_spaces: "\<forall>c\<in>set sp. c = SP \<Longrightarrow> line_words (sp @ w) = line_words w"
  by (induction sp) auto

lemma while_word:
  "SP \<notin> set v \<Longrightarrow> takeWhile (\<lambda>c. c \<noteq> SP) (v @ SP # w) = v"
  "SP \<notin> set v \<Longrightarrow> dropWhile (\<lambda>c. c \<noteq> SP) (v @ SP # w) = SP # w"
  "SP \<notin> set v \<Longrightarrow> takeWhile (\<lambda>c. c \<noteq> SP) v = v"
  "SP \<notin> set v \<Longrightarrow> dropWhile (\<lambda>c. c \<noteq> SP) v = []"
  by (induction v) auto

lemma line_words_word:
  assumes "v \<noteq> []" "SP \<notin> set v"
  shows "line_words (v @ SP # w) = v # line_words w" "line_words v = [v]"
proof -
  obtain a v' where "v = a # v'" "a \<noteq> SP" "SP \<notin> set v'"
    using assms by (cases v) auto
  then show "line_words (v @ SP # w) = v # line_words w" "line_words v = [v]"
    by (simp_all add: while_word)
qed

text \<open>Every line has this shape: blanks, then nothing or a word that ends the line or a blank.\<close>

lemma line_shape:
  obtains sp where "w = sp" "\<forall>c\<in>set sp. c = SP"
  | sp v where "w = sp @ v" "\<forall>c\<in>set sp. c = SP" "v \<noteq> []" "SP \<notin> set v"
  | sp v w' where "w = sp @ v @ SP # w'" "\<forall>c\<in>set sp. c = SP" "v \<noteq> []" "SP \<notin> set v"
proof -
  define sp v r where "sp = takeWhile (\<lambda>c. c = SP) w"
    and "v = takeWhile (\<lambda>c. c \<noteq> SP) (dropWhile (\<lambda>c. c = SP) w)"
    and "r = dropWhile (\<lambda>c. c \<noteq> SP) (dropWhile (\<lambda>c. c = SP) w)"
  have w: "w = sp @ v @ r"
    by (simp add: sp_def v_def r_def)
  have sp: "\<forall>c\<in>set sp. c = SP" and v: "SP \<notin> set v"
    by (auto simp: sp_def v_def dest: set_takeWhileD)
  show thesis
  proof (cases r)
    case Nil
    then show thesis
      using that(1) [of sp] that(2) [of sp v] w sp v by (cases "v = []") auto
  next
    case (Cons c w')
    then have "c = SP"
      using hd_dropWhile [of "\<lambda>c. c \<noteq> SP" "dropWhile (\<lambda>c. c = SP) w"] by (simp add: r_def)
    moreover have "v \<noteq> []"
    proof
      assume "v = []"
      then have "r = dropWhile (\<lambda>c. c = SP) w"
        using w by (metis append_Nil append_same_eq sp_def takeWhile_dropWhile_id same_append_eq)
      then show False
        using Cons \<open>c = SP\<close> dropWhile_eq_Cons_conv [of "\<lambda>c. c = SP" w c w'] by simp
    qed
    ultimately show thesis
      using that(3) [of sp v w'] w sp v Cons by simp
  qed
qed

lemma skip_chars_run:
  "\<forall>x\<in>set xs. f x \<Longrightarrow> \<not> f y \<Longrightarrow> skip_chars f (pre @ xs @ y # t) (length pre) = Some (length pre + length xs)"
proof (induction xs arbitrary: pre)
  case Nil
  then show ?case
    by (simp add: skip_chars.simps [of f "pre @ y # t" "length pre"])
next
  case (Cons x xs)
  then show ?case
    using Cons(1) [of "pre @ [x]"] by (simp add: skip_chars.simps [of f "pre @ x # xs @ y # t" "length pre"])
qed

text \<open>
  The parser cuts the line at the blanks behind the words.  \<open>pre\<close> is the part it has passed; it does
  not write there, and the NUL behind the line stays.
\<close>

definition args_at :: "u8 list \<Rightarrow> nat list \<Rightarrow> u8 list list \<Rightarrow> bool" where
  "args_at buf qs ws \<longleftrightarrow> map (\<lambda>q. str_of (drop q buf)) qs = ws \<and> (\<forall>q\<in>set qs. terminated (drop q buf))"

lemma parse_step:
  assumes "\<forall>c\<in>set sp. c = SP" "v \<noteq> []" "SP \<notin> set v" "0 \<notin> set v" "x = 0 \<or> x = SP"
  shows "parse_loop (Suc k) (pre @ sp @ v @ x # r) (length pre) argv =
    (let p = length pre + length sp; q = p + length v in
     if x = 0 then parse_loop k (pre @ sp @ v @ 0 # r) q (argv @ [p])
     else parse_loop k (pre @ sp @ v @ 0 # r) (Suc q) (argv @ [p]))"
proof -
  obtain a v' where v: "v = a # v'" "a \<noteq> SP" "a \<noteq> 0"
    using assms(2-4) by (cases v) auto
  let ?buf = "pre @ sp @ v @ x # r"
  have "skip_chars (\<lambda>c. c = SP) ?buf (length pre) = Some (length pre + length sp)"
    using skip_chars_run [of sp "\<lambda>c. c = SP" a pre "v' @ x # r"] assms(1) v by simp
  moreover have "skip_chars (\<lambda>c. c \<noteq> 0 \<and> c \<noteq> SP) ?buf (length pre + length sp)
      = Some (length pre + length sp + length v)"
    using skip_chars_run [of v "\<lambda>c. c \<noteq> 0 \<and> c \<noteq> SP" x "pre @ sp" r] assms(3-5) by auto
  moreover have "?buf ! (length pre + length sp) = a" "?buf ! (length pre + length sp + length v) = x"
    using v by (simp_all add: nth_append)
  moreover have "load_at ?buf (length pre) 1 = Some [hd (sp @ v)]" "hd (sp @ v) \<noteq> 0"
    using assms(1) v by (cases sp; simp add: load_at_def bslice_def)+
  moreover have "?buf[length pre + length sp + length v := 0] = pre @ sp @ v @ 0 # r"
    by (simp add: list_update_append)
  ultimately show ?thesis
    using assms(5) v(3) by (auto simp: Let_def)
qed

lemma parse_loop_words:
  "0 \<notin> set w \<Longrightarrow> \<exists>buf' qs. parse_loop k (pre @ w @ 0 # t) (length pre) argv = Some (buf', argv @ qs) \<and>
     length buf' = length (pre @ w @ 0 # t) \<and> take (length pre) buf' = pre \<and>
     buf' ! (length pre + length w) = 0 \<and> args_at buf' qs (take k (line_words w))"
proof (induction k arbitrary: pre w t argv)
  case 0
  then show ?case
    by (simp add: args_at_def nth_append)
next
  case (Suc k)
  show ?case
  proof (cases w rule: line_shape)
    case (1 sp)
    have "skip_chars (\<lambda>c. c = SP) (pre @ w @ 0 # t) (length pre) = Some (length pre + length w)"
      using 1 by (intro skip_chars_run) auto
    then show ?thesis
      using 1 line_words_spaces [of sp "[]"]
      by (cases w) (auto simp: load_at_def bslice_def args_at_def nth_append)
  next
    case (2 sp v)
    let ?p = "length pre + length sp"
    obtain buf' qs where IH: "parse_loop k ((pre @ sp @ v) @ [] @ 0 # t) (length (pre @ sp @ v)) (argv @ [?p])
        = Some (buf', (argv @ [?p]) @ qs)" "length buf' = length ((pre @ sp @ v) @ [] @ 0 # t)"
        "take (length (pre @ sp @ v)) buf' = pre @ sp @ v" "buf' ! (length (pre @ sp @ v)) = 0"
        "args_at buf' qs []"
      using Suc(1) [of "[]" "pre @ sp @ v" t "argv @ [?p]"] by auto
    define r where "r = drop (Suc (length (pre @ sp @ v))) buf'"
    have "buf' = (pre @ sp @ v) @ 0 # r"
      using id_take_nth_drop [of "length (pre @ sp @ v)" buf'] IH(2-4) by (simp add: r_def)
    then have eq: "drop ?p buf' = v @ 0 # r" "take (length pre) buf' = pre"
      by simp_all
    then have "args_at buf' (?p # qs) (take (Suc k) (line_words w))"
      using IH(5) 2 Suc(2) line_words_spaces [of sp v] by (simp add: args_at_def line_words_word)
    moreover have "parse_loop (Suc k) (pre @ w @ 0 # t) (length pre) argv = Some (buf', argv @ ?p # qs)"
      using parse_step [of sp v 0 k pre t argv] IH(1) 2 Suc(2)
      by (simp del: parse_loop.simps add: Let_def add.assoc)
    ultimately show ?thesis
      using IH(2,4) 2 eq(2) by (intro exI [of _ buf'] exI [of _ "?p # qs"]) (simp del: parse_loop.simps add: add.assoc)
  next
    case (3 sp v w')
    let ?p = "length pre + length sp"
    obtain buf' qs where IH: "parse_loop k ((pre @ sp @ v @ [0]) @ w' @ 0 # t) (length (pre @ sp @ v @ [0])) (argv @ [?p])
        = Some (buf', (argv @ [?p]) @ qs)" "length buf' = length ((pre @ sp @ v @ [0]) @ w' @ 0 # t)"
        "take (length (pre @ sp @ v @ [0])) buf' = pre @ sp @ v @ [0]"
        "buf' ! (length (pre @ sp @ v @ [0]) + length w') = 0" "args_at buf' qs (take k (line_words w'))"
      using Suc(1) [of w' "pre @ sp @ v @ [0]" t "argv @ [?p]"] Suc(2) 3 by auto
    define r where "r = drop (length (pre @ sp @ v @ [0])) buf'"
    have "buf' = (pre @ sp @ v @ [0]) @ r"
      using append_take_drop_id [of "length (pre @ sp @ v @ [0])" buf'] IH(3) by (simp only: r_def)
    then have eq: "drop ?p buf' = v @ 0 # r" "take (length pre) buf' = pre"
      by simp_all
    then have "args_at buf' (?p # qs) (take (Suc k) (line_words w))"
      using IH(5) 3 Suc(2) line_words_spaces [of sp "v @ SP # w'"] by (simp add: args_at_def line_words_word)
    moreover have "parse_loop (Suc k) (pre @ w @ 0 # t) (length pre) argv = Some (buf', argv @ ?p # qs)"
      using parse_step [of sp v SP k pre "w' @ 0 # t" argv] IH(1) 3 Suc(2)
      by (simp del: parse_loop.simps add: Let_def add.assoc)
    ultimately show ?thesis
      using IH(2,4) 3 eq(2) by (intro exI [of _ buf'] exI [of _ "?p # qs"]) (simp del: parse_loop.simps add: add.assoc)
  qed
qed

lemma dispatch_loop_find:
  assumes "terminated (hd argv)"
  shows "(\<And>c. c \<in> set cs \<Longrightarrow> terminated (cm_name c)) \<Longrightarrow> dispatch_loop pc names cs argv s =
    (case find (\<lambda>c. str_of (cm_name c) = str_of (hd argv)) cs of
       None \<Rightarrow> Some (puts pc (cstr ''Unknown command: '' @ str_of (hd argv) @ [CR, LF]) s)
     | Some c \<Rightarrow> map_option snd (cm_func c names argv s))"
proof (induction cs)
  case Nil
  then show ?case
    using assms by (simp add: show_unknown_cmd_def access_simps)
next
  case (Cons c cs)
  obtain r where "xstrcmp (hd argv) (cm_name c) = Some r" "(r = 0) = (str_of (hd argv) = str_of (cm_name c))"
    using xstrcmp_eq [of "hd argv" "cm_name c"] assms Cons(2) by auto
  then show ?case
    using Cons by auto
qed

text \<open>
  What running a line means: nothing for a blank line, otherwise the first command with the name of
  the first word gets the words, ten at most, as its arguments.
\<close>

definition runs_line :: "(u8 \<Rightarrow> 's \<Rightarrow> 's) \<Rightarrow> 's shell_command list \<Rightarrow> u8 list \<Rightarrow> 's \<Rightarrow> 's option \<Rightarrow> bool" where
  "runs_line pc cmds line s r \<longleftrightarrow> (\<exists>argv. map str_of argv = take CMD_MAX_ARGV (line_words line) \<and>
     list_all c_string argv \<and>
     r = (if argv = [] then Some s
          else case find (\<lambda>c. str_of (cm_name c) = hd (line_words line)) cmds of
              None \<Rightarrow> Some (puts pc (cstr ''Unknown command: '' @ hd (line_words line) @ [CR, LF]) s)
            | Some c \<Rightarrow> map_option snd (cm_func c (listing cmds) argv s)))"

lemma shell_handle_command_runs:
  assumes "row_ok buf" "\<And>c. c \<in> set cmds \<Longrightarrow> terminated (cm_name c)"
  shows "runs_line pc cmds (str_of buf) s (shell_handle_command pc cmds buf s)"
proof -
  let ?w = "str_of buf" and ?n = "length (str_of buf)"
  have n: "?n < 128" "length buf = 128" "terminated buf"
    using assms(1) row_ok_str [of buf] by (auto simp: row_ok_def CMD_BUF_SIZE_def)
  then obtain c b where buf: "buf = c # b"
    by (cases buf) auto
  show ?thesis
  proof (cases "c = 0")
    case True
    then show ?thesis
      using buf by (simp add: shell_handle_command_def runs_line_def load_at_def bslice_def)
  next
    case False
    define t where "t = replicate (127 - ?n) (0 :: u8)"
    have copy: "xstrncpy (replicate CMD_BUF_SIZE 0) buf CMD_BUF_SIZE = Some (?w @ 0 # t)"
      using xstrncpy_fit [of buf 128 "replicate 128 0"] n
      by (simp add: CMD_BUF_SIZE_def t_def flip: replicate_Suc Suc_diff_le)
    have last: "(?w @ 0 # t)[CMD_BUF_SIZE - 1 := 0] = ?w @ 0 # t"
      using n by (intro nth_equalityI) (auto simp: CMD_BUF_SIZE_def t_def nth_list_update nth_append nth_Cons')
    obtain buf' qs where parse: "shell_parse_args (?w @ 0 # t) CMD_MAX_ARGV = Some (buf', qs)"
        "length buf' = length (?w @ 0 # t)" "args_at buf' qs (take CMD_MAX_ARGV (line_words ?w))"
      using parse_loop_words [of ?w CMD_MAX_ARGV "[]" t "[]"] by (auto simp: shell_parse_args_def)
    define argv where "argv = map (\<lambda>q. drop q buf') qs"
    have len: "length buf' = 128"
      using parse(2) n by (simp add: t_def)
    have argv: "map str_of argv = take CMD_MAX_ARGV (line_words ?w)" "list_all c_string argv"
      using parse(3) len by (auto simp: argv_def args_at_def list_all_iff c_string_def comp_def)
    have handle: "shell_handle_command pc cmds buf s =
        (if qs = [] then Some s else dispatch_loop pc (listing cmds) cmds argv s)"
      using False buf copy last parse(1) by (simp add: shell_handle_command_def load_at_def bslice_def argv_def)
    show ?thesis
    proof (cases argv)
      case Nil
      then show ?thesis
        using handle argv by (auto simp: runs_line_def argv_def intro!: exI [of _ "[]"])
    next
      case (Cons a as)
      have "str_of (hd argv) = hd (map str_of argv)"
        using Cons by simp
      also have "\<dots> = hd (line_words ?w)"
        unfolding argv(1) by (rule hd_take) (simp add: CMD_MAX_ARGV_def)
      finally have "terminated (hd argv)" "str_of (hd argv) = hd (line_words ?w)" "qs \<noteq> []"
        using argv(2) Cons by (auto simp: c_string_def argv_def)
      then show ?thesis
        using dispatch_loop_find [of argv cmds pc "listing cmds" s] assms(2) handle argv Cons
        by (auto simp: runs_line_def intro!: exI [of _ argv] split: option.split)
    qed
  qed
qed

section \<open>The keys\<close>

lemma xmemset_whole: "length buf = n \<Longrightarrow> xmemset buf 0 n = Some (replicate n 0)"
  by (simp add: xmemset_fill)

text \<open>
  Enter: the line is remembered and run.  \<open>r\<close> is the world after the command, \<^term>\<open>None\<close> when it
  does not return; then enter does not return either.
\<close>

lemma input_enter_ok:
  assumes "input_ok inp" "history_ok hi" "well_named cmds"
  shows "\<exists>hi' r. input_enter pc cmds inp hi s = map_option (\<lambda>s'. (shell_in_init, hi', show_prompt pc s')) r \<and>
     history_ok hi' \<and> h_current hi' = h_count hi' \<and>
     (if in_length inp = 0 then hist_of hi' = hist_of hi \<and> r = Some (puts pc [CR, LF] s)
      else let line = str_of (left_of inp @ right_of inp @ [0]) in
        hist_of hi' = hist_save line (hist_of hi) \<and> runs_line pc cmds line (puts pc [CR, LF] s) r)"
proof -
  let ?n = "in_length inp" and ?s = "puts pc [CR, LF] s"
  define b where "b = patch ?n [0] (in_buffer inp)"
  have ok: "length (in_buffer inp) = CMD_BUF_SIZE" "?n < CMD_BUF_SIZE"
    using assms(1) by (auto simp: input_ok_def)
  have b: "length b = CMD_BUF_SIZE" "b = take ?n (in_buffer inp) @ 0 # drop (Suc ?n) (in_buffer inp)"
    using ok by (simp_all add: b_def patch_def)
  then have row: "row_ok b"
    by (simp add: row_ok_def)
  have line: "str_of b = str_of (left_of inp @ right_of inp @ [0])"
    using sides_line [OF assms(1)] b(2) str_of_take [of "Suc ?n" b] ok by (simp flip: append_assoc)
  obtain hi1 where hi1: "save_to_history hi b = Some hi1" "history_ok hi1" "hist_of hi1 = hist_save (str_of b) (hist_of hi)"
    using save_to_history_ok [OF assms(2) row] by auto
  have runs: "runs_line pc cmds (str_of b) ?s (shell_handle_command pc cmds b ?s)"
    by (rule shell_handle_command_runs [OF row well_named_terminated [OF assms(3)]])
  have cur: "history_ok (h\<lparr>h_current := h_count h\<rparr>)" "hist_of (h\<lparr>h_current := h_count h\<rparr>) = hist_of h"
    if "history_ok h" for h
    using that by (simp_all add: history_ok_def hist_of_def)
  show ?thesis
  proof (cases "?n = 0")
    case True
    then show ?thesis
      using ok b(1) cur [OF assms(2)]
      by (auto simp: input_enter_def access_simps b_def [symmetric] xmemset_whole shell_in_init_def Let_def)
  next
    case False
    have "input_enter pc cmds inp hi s = map_option (\<lambda>s'. (shell_in_init, hi1\<lparr>h_current := h_count hi1\<rparr>, show_prompt pc s'))
        (shell_handle_command pc cmds b ?s)"
      using False ok b(1) hi1(1)
      by (cases "shell_handle_command pc cmds b ?s")
        (simp_all add: input_enter_def access_simps b_def [symmetric] xmemset_whole shell_in_init_def Let_def)
    then show ?thesis
      using False runs cur [OF hi1(2)] hi1(3)
      by (intro exI [of _ "hi1\<lparr>h_current := h_count hi1\<rparr>"] exI [of _ "shell_handle_command pc cmds b ?s"])
        (simp add: line Let_def)
  qed
qed

lemma match_loop_Some:
  "(\<And>c. c \<in> set cs \<Longrightarrow> terminated (cm_name c)) \<Longrightarrow> n \<le> length pfx \<Longrightarrow> set_option m \<subseteq> set cmds \<Longrightarrow>
   set cs \<subseteq> set cmds \<Longrightarrow> (0 < k \<longrightarrow> m \<noteq> None) \<Longrightarrow>
   \<exists>k' m'. match_loop cs pfx n k m = Some (k', m') \<and> set_option m' \<subseteq> set cmds \<and> (0 < k' \<longrightarrow> m' \<noteq> None)"
proof (induction cs arbitrary: k m)
  case (Cons c cs)
  obtain r where r: "xstrncmp (cm_name c) pfx n = Some r"
    using xstrncmp_eq_prefix [of "cm_name c" n pfx] Cons(2,3) by auto
  show ?case
  proof (cases "r = 0")
    case True
    then show ?thesis
      using Cons(1) [of "if k = 0 then Some c else m" "Suc k"] Cons(2-) r by (cases k) auto
  next
    case False
    then show ?thesis
      using Cons(1) [of m k] Cons(2-) r by auto
  qed
qed simp

lemma print_matches_Some:
  "(\<And>c. c \<in> set cs \<Longrightarrow> terminated (cm_name c)) \<Longrightarrow> n \<le> length pfx \<Longrightarrow> \<exists>s'. print_matches pc cs pfx n s = Some s'"
proof (induction cs arbitrary: s)
  case (Cons c cs)
  obtain r where "xstrncmp (cm_name c) pfx n = Some r"
    using xstrncmp_eq_prefix [of "cm_name c" n pfx] Cons(2,3) by auto
  then show ?case
    using Cons by (simp add: access_simps)
qed simp

lemma complete_unique_ok:
  assumes "input_ok inp" "terminated (cm_name c)"
  shows "\<exists>inp' hi' s'. complete_unique pc c inp hi s = Some (inp', hi', s') \<and> input_ok inp' \<and> same_rows hi hi'"
proof -
  let ?name = "cm_name c" and ?p = "in_pos inp" and ?b = "in_buffer inp"
  let ?n = "length (str_of ?name)"
  have ok: "length ?b = 128" "?p < 128" "?b ! 127 = 0"
    using assms(1) by (auto simp: input_ok_def CMD_BUF_SIZE_def)
  have n: "?n < length ?name"
    by (rule length_str_of [OF assms(2)])
  show ?thesis
  proof (cases "?n \<ge> CMD_BUF_SIZE")
    case True
    then show ?thesis
      using assms by (simp add: complete_unique_def xstrlen_str)
  next
    case False
    define off cs b where "off = (if ?p < ?n then ?p else 0)" and "cs = bslice off (?n - ?p) ?name"
      and "b = patch ?n [0] (patch off cs ?b)"
    have cs: "off + (?n - ?p) \<le> length ?name" "length cs = ?n - ?p" "off + length cs \<le> ?n"
      using n by (auto simp: off_def cs_def)
    have b: "length (patch off cs ?b) = 128" "length b = 128" "b ! 127 = 0"
      using ok cs False by (auto simp: b_def nth_patch CMD_BUF_SIZE_def)
    obtain s' where "redraw_input pc \<lparr>in_buffer = b, in_pos = ?n, in_length = ?n\<rparr> s = Some s'"
      using redraw_input_Some [of "\<lparr>in_buffer = b, in_pos = ?n, in_length = ?n\<rparr>" pc s] b False
      by (auto simp: CMD_BUF_SIZE_def)
    moreover have "input_ok \<lparr>in_buffer = b, in_pos = ?n, in_length = ?n\<rparr>"
      using b False by (simp add: input_ok_def CMD_BUF_SIZE_def)
    moreover have "nat (int ?n - int ?p) = ?n - ?p" "(int ?n - int ?p > 0) = (?p < ?n)"
        "nat (int ?p + (int ?n - int ?p)) = ?n"
      by auto
    ultimately show ?thesis
      using False ok cs b(1) assms(2)
      by (simp add: complete_unique_def xstrlen_str access_simps off_def [symmetric] cs_def [symmetric]
          b_def [symmetric] CMD_BUF_SIZE_def Let_def)
  qed
qed

lemma input_tab_ok:
  assumes "input_ok inp" "well_named cmds"
  shows "\<exists>inp' hi' s'. input_tab pc cmds inp hi s = Some (inp', hi', s') \<and> input_ok inp' \<and> same_rows hi hi'"
proof -
  let ?p = "in_pos inp"
  define b where "b = patch ?p [0] (in_buffer inp)"
  define inp1 where "inp1 = inp\<lparr>in_buffer := b\<rparr>"
  have store: "store_at (in_buffer inp) ?p [0] = Some b"
    using assms(1) by (auto simp: b_def store_at_def input_ok_def)
  have ok: "input_ok inp1" "input_ok (inp1\<lparr>in_length := ?p\<rparr>)"
    using assms(1) by (auto simp: inp1_def b_def input_ok_def nth_patch CMD_BUF_SIZE_def)
  have redraw: "input_ok i \<Longrightarrow> \<exists>t'. redraw_input pc i t = Some t'" for i t
    by (rule redraw_input_Some) (simp add: input_ok_def)
  have names: "\<And>c. c \<in> set cmds \<Longrightarrow> terminated (cm_name c)"
    using assms(2) by (rule well_named_terminated)
  have p: "?p \<le> length b"
    using assms(1) by (auto simp: b_def input_ok_def)
  show ?thesis
  proof (cases "?p = 0")
    case True
    obtain r t where helped: "help_func (Some pc) (listing cmds) (puts pc [CR, LF] s) = Some (r, t)"
      using help_returns [OF well_named_listing [OF assms(2)], of "Some pc" "puts pc [CR, LF] s"] by blast
    then show ?thesis
      using redraw [OF ok(1), of "show_prompt pc t"] True store ok
      by (auto simp: input_tab_def Let_def inp1_def)
  next
    case False
    obtain k m where m: "match_loop cmds b ?p 0 None = Some (k, m)" "set_option m \<subseteq> set cmds" "0 < k \<longrightarrow> m \<noteq> None"
      using match_loop_Some [of cmds ?p b None cmds 0] names p by auto
    obtain t where t: "print_matches pc cmds b ?p (puts pc [CR, LF] s) = Some t"
      using print_matches_Some [OF names p] by blast
    obtain t' where t': "redraw_input pc (inp1\<lparr>in_length := ?p\<rparr>) (show_prompt pc (puts pc [CR, LF] t)) = Some t'"
      using redraw [OF ok(2)] by blast
    consider "k = 0" | "k = 1" | "1 < k"
      by linarith
    then show ?thesis
    proof cases
      case 1
      then show ?thesis
        using False store m ok by (simp add: input_tab_def inp1_def)
    next
      case 2
      then obtain c where c: "m = Some c" "c \<in> set cmds"
        using m by auto
      then show ?thesis
        using 2 False store m complete_unique_ok [OF ok(1) names [OF c(2)], of pc hi s]
        by (auto simp: input_tab_def inp1_def)
    next
      case 3
      then show ?thesis
        using False store m t t' ok by (simp add: input_tab_def inp1_def Let_def)
    qed
  qed
qed

lemma bind_Pair: "m \<bind> (\<lambda>(a, b). Some (h, a, b)) = map_option (Pair h) m"
  by (cases m) auto

lemma browse_history_up_ok:
  assumes "history_ok hi" "input_ok inp"
  shows "\<exists>hi' inp' s'. browse_history_up pc hi inp s = Some (hi', inp', s') \<and> history_ok hi' \<and> input_ok inp' \<and>
    hist_of hi' = hist_of hi \<and>
    (if (h_count hi = 0 \<or> h_current hi = 0) \<and> in_length inp \<noteq> 0 then hi' = hi \<and> inp' = inp
     else h_current hi' = h_current hi - 1 \<and> left_of inp' = hist_row (hist_of hi) (h_current hi - 1) \<and>
       right_of inp' = [])"
proof -
  define hi1 where "hi1 = (if h_current hi \<noteq> 0 then hi\<lparr>h_current := h_current hi - 1\<rparr> else hi)"
  have hi1: "history_ok hi1" "hist_of hi1 = hist_of hi" "h_current hi1 = h_current hi - 1" "h_current hi1 < CMD_HISTORY_DEPTH"
    using assms(1) by (auto simp: hi1_def history_ok_def hist_of_def CMD_HISTORY_DEPTH_def)
  have up: "browse_history_up pc hi inp s =
      (if (h_count hi = 0 \<or> h_current hi = 0) \<and> in_length inp \<noteq> 0 then Some (hi, inp, s)
       else map_option (Pair hi1) (load_history pc hi1 inp (puts pc (replicate (in_length inp) BS) s)))"
    by (simp only: browse_history_up_def hi1_def [symmetric] Let_def bind_Pair)
  show ?thesis
    using load_history_ok [OF hi1(1) assms(2) hi1(4), of pc "puts pc (replicate (in_length inp) BS) s"] assms hi1
    unfolding up by auto
qed

text \<open>The place of the history that the down arrow moves to, and when it moves.\<close>

definition down_moves :: "shell_history \<Rightarrow> shell_input \<Rightarrow> bool" where
  "down_moves hi inp \<longleftrightarrow> \<not> ((h_count hi = 0 \<or> h_current hi + 1 = h_count hi) \<and> in_length inp \<noteq> 0)"

definition down_to :: "shell_history \<Rightarrow> nat" where
  "down_to hi = (if h_current hi + 1 \<noteq> h_count hi then h_current hi + 1 else h_current hi)"

lemma browse_history_down_ok:
  assumes "history_ok hi" "input_ok inp"
  shows "case browse_history_down pc hi inp s of
      None \<Rightarrow> down_moves hi inp \<and> CMD_HISTORY_DEPTH \<le> down_to hi
    | Some (hi', inp', s') \<Rightarrow> history_ok hi' \<and> input_ok inp' \<and> hist_of hi' = hist_of hi \<and>
        (if down_moves hi inp
         then down_to hi < CMD_HISTORY_DEPTH \<and> h_current hi' = down_to hi \<and>
           left_of inp' = hist_row (hist_of hi) (down_to hi) \<and> right_of inp' = []
         else hi' = hi \<and> inp' = inp)"
proof -
  define hi1 where "hi1 = (if h_current hi + 1 \<noteq> h_count hi then hi\<lparr>h_current := h_current hi + 1\<rparr> else hi)"
  let ?s = "puts pc (replicate (in_length inp) BS) s"
  have cur: "h_current hi1 = down_to hi" "h_rows hi1 = h_rows hi"
    by (simp_all add: hi1_def down_to_def)
  have down: "browse_history_down pc hi inp s =
      (if down_moves hi inp
       then map_option (Pair hi1) (load_history pc hi1 inp ?s) else Some (hi, inp, s))"
    by (simp only: browse_history_down_def down_moves_def hi1_def [symmetric] Let_def bind_Pair if_not_P) simp
  show ?thesis
  proof (cases "down_moves hi inp \<and> CMD_HISTORY_DEPTH \<le> down_to hi")
    case True
    then show ?thesis
      using assms(1) cur by (simp add: down load_history_def history_ok_def)
  next
    case False
    then have "down_moves hi inp \<Longrightarrow> history_ok hi1" "hist_of hi1 = hist_of hi"
      using assms(1) by (auto simp: hi1_def down_to_def history_ok_def hist_of_def)
    then show ?thesis
      using False load_history_ok [of hi1 inp pc ?s] assms cur by (auto simp: down)
  qed
qed

end
