(* ===== verification/Shell_Props.thy ===== *)
theory Shell_Props
  imports Shell_Editor
begin

text \<open>
  The properties of the shell as a whole: memory safety for every byte but one arrow key, the
  refinement of an abstract editor, what a typed line runs, and the cases in which the editor does
  something else than it shows.
\<close>

section \<open>Bytes from the serial line\<close>

text \<open>The only byte that may leave the arrays: the end of the sequence of the down arrow.\<close>

definition down_leaves :: "u8 \<Rightarrow> shell_line \<Rightarrow> bool" where
  "down_leaves ch l \<longleftrightarrow> sh_state l = STATE_BRACKET_RECEIVED \<and> ch = 0x42 \<and>
     down_moves (sh_his l) (sh_in l) \<and> CMD_HISTORY_DEPTH \<le> down_to (sh_his l)"

fun feed :: "(u8 \<Rightarrow> 's \<Rightarrow> 's) \<Rightarrow> 's shell_command list \<Rightarrow> u8 list \<Rightarrow> shell_line \<Rightarrow> 's \<Rightarrow> (shell_line \<times> 's) option" where
  "feed pc cmds [] l s = Some (l, s)"
| "feed pc cmds (ch # chs) l s = do {
     (l, s) \<leftarrow> console_input_char pc cmds ch l s;
     feed pc cmds chs l s
   }"

lemma feed_append:
  "feed pc cmds (as @ bs) l s = do { (l, s) \<leftarrow> feed pc cmds as l s; feed pc cmds bs l s }"
proof (induction as arbitrary: l s)
  case (Cons a as)
  then show ?case
    by (cases "console_input_char pc cmds a l s") auto
qed simp

text \<open>
  Enter pressed on a line whose command does not return: the only other way in which the handling
  of a byte does not come to an end.
\<close>

definition typed_line :: "shell_input \<Rightarrow> u8 list" where
  "typed_line inp = str_of (left_of inp @ right_of inp @ [0])"

definition stalls :: "(u8 \<Rightarrow> 's \<Rightarrow> 's) \<Rightarrow> 's shell_command list \<Rightarrow> shell_input \<Rightarrow> 's \<Rightarrow> bool" where
  "stalls pc cmds inp s \<longleftrightarrow> in_length inp \<noteq> 0 \<and> runs_line pc cmds (typed_line inp) (puts pc [CR, LF] s) None"

lemma input_normal_ok:
  assumes "input_ok inp" "history_ok hi" "well_named cmds"
  shows "case input_normal pc cmds ch inp hi s of
      None \<Rightarrow> (ch = CR \<or> ch = LF) \<and> stalls pc cmds inp s
    | Some (inp', hi', s') \<Rightarrow> input_ok inp' \<and> history_ok hi'"
proof -
  have init: "input_ok shell_in_init"
    by (simp add: input_ok_def shell_in_init_def CMD_BUF_SIZE_def)
  consider "ch = CR \<or> ch = LF" | "ch = TAB" | "ch = BS \<or> ch = DEL"
    | "ch \<noteq> CR" "ch \<noteq> LF" "ch \<noteq> TAB" "ch \<noteq> BS" "ch \<noteq> DEL"
    by auto
  then show ?thesis
  proof cases
    case 1
    obtain hi' r where "input_enter pc cmds inp hi s = map_option (\<lambda>s'. (shell_in_init, hi', show_prompt pc s')) r"
      "history_ok hi'" "if in_length inp = 0 then hist_of hi' = hist_of hi \<and> r = Some (puts pc [CR, LF] s)
        else let line = typed_line inp in
          hist_of hi' = hist_save line (hist_of hi) \<and> runs_line pc cmds line (puts pc [CR, LF] s) r"
      using input_enter_ok [OF assms, of pc s] unfolding typed_line_def by blast
    then show ?thesis
      using 1 init by (cases r) (auto simp: input_normal_def stalls_def Let_def split: if_splits)
  next
    case 2
    then show ?thesis
      using input_tab_ok [OF assms(1,3), of pc hi s] same_rows_ok [OF _ assms(2)] by (auto simp: input_normal_def)
  next
    case 3
    then show ?thesis
      using input_backspace_ok [OF assms(1), of pc s] assms(2) by (auto simp: input_normal_def)
  next
    case 4
    then show ?thesis
      using input_insert_ok [OF assms(1), of pc ch hi s] same_rows_ok [OF _ assms(2)] assms(1,2)
      by (cases "0x20 \<le> ch \<and> ch \<le> 0x7E \<and> in_length inp < CMD_BUF_SIZE - 1") (auto simp: input_normal_def)
  qed
qed

lemma input_bracket_ok:
  assumes "input_ok inp" "history_ok hi"
  shows "case input_bracket pc ch inp hi s of
      None \<Rightarrow> ch = 0x42 \<and> down_moves hi inp \<and> CMD_HISTORY_DEPTH \<le> down_to hi
    | Some (inp', hi', s') \<Rightarrow> input_ok inp' \<and> history_ok hi' \<and>
        \<not> (ch = 0x42 \<and> down_moves hi inp \<and> CMD_HISTORY_DEPTH \<le> down_to hi)"
proof -
  obtain ir sr where right: "input_right pc inp s = (ir, sr)" "input_ok ir"
    using input_right_ok [OF assms(1)] by metis
  obtain il sl where left: "input_left pc inp s = (il, sl)" "input_ok il"
    using input_left_ok [OF assms(1)] by metis
  obtain hu iu su where up: "browse_history_up pc hi inp s = Some (hu, iu, su)" "history_ok hu" "input_ok iu"
    using browse_history_up_ok [OF assms(2,1), of pc s] by auto
  show ?thesis
    using browse_history_down_ok [OF assms(2,1), of pc s] right left up assms
    by (auto simp: input_bracket_def split: option.splits)
qed

text \<open>C10: the line editor stays inside its arrays.  Whatever byte arrives in whatever state of the
  escape sequence, handling it keeps the cursor inside the line, the line and every remembered row
  inside its 128 bytes and terminated, and the history within its five rows; the handling fails
  only for the last byte of a down arrow that moves the history to a row that does not exist, or
  for an enter on a line whose command does not return.  The registry may hold any commands with
  proper names.\<close>
theorem shell_input_stays_in_bounds:
  assumes "line_ok l" "well_named cmds"
  shows "case console_input_char pc cmds ch l s of
      None \<Rightarrow> down_leaves ch l \<or> sh_state l = STATE_NORMAL \<and> (ch = CR \<or> ch = LF) \<and> stalls pc cmds (sh_in l) s
    | Some (l', _) \<Rightarrow> line_ok l' \<and> \<not> down_leaves ch l"
proof (cases "sh_state l")
  case STATE_NORMAL
  then show ?thesis
    using input_normal_ok [of "sh_in l" "sh_his l" cmds, where pc = pc and ch = ch and s = s] assms
    by (auto simp: console_input_char_def line_ok_def down_leaves_def split: option.splits)
next
  case STATE_ESC_RECEIVED
  then show ?thesis
    using assms by (simp add: console_input_char_def line_ok_def down_leaves_def)
next
  case STATE_BRACKET_RECEIVED
  then show ?thesis
    using input_bracket_ok [of "sh_in l" "sh_his l" ch pc s] assms
    by (auto simp: console_input_char_def line_ok_def down_leaves_def split: option.splits)
qed

lemma str_of_replicate_0 [simp]: "str_of (replicate n 0) = []"
  by (cases n) auto

lemma line_ok_init: "line_ok shell_line_init"
  by (simp add: line_ok_def shell_line_init_def input_ok_def shell_in_init_def history_ok_def shell_his_init_def
      row_ok_def shell_sizes list_all_iff)

text \<open>The serial line as the world: the characters put out.\<close>

definition log_char :: "u8 \<Rightarrow> u8 list \<Rightarrow> u8 list" where
  "log_char c out = out @ [c]"

text \<open>The registry after \<^verbatim>\<open>shell_init\<close>, with a memory of zeros behind \<^verbatim>\<open>hexdump\<close>.\<close>

definition demo_cmds :: "u8 list shell_command list" where
  "demo_cmds = [help_cmd (Some log_char), echo_cmd (Some log_char), hexdump_cmd (Some log_char) (\<lambda>_ _. Some 0)]"

lemma demo_cmds_init:
  "map_option (shell_cmd_list \<circ> fst \<circ> snd) (shell_init (False, False) (\<lambda>_ _. Some 0)
     (Some \<lparr>shell_putchar = Some log_char, shell_getchar = None\<rparr>) None
     \<lparr>s_port = None, shell_cmd_list = [], shell_st = shell_line_init\<rparr> []) = Some demo_cmds"
  by (simp add: shell_init_def demo_cmds_def shell_register_command_def help_cmd_def echo_cmd_def hexdump_cmd_def)

lemma demo_cmds_named: "well_named demo_cmds"
  by (simp add: demo_cmds_def help_cmd_def echo_cmd_def hexdump_cmd_def c_string_def)

lemma shell_input_stays_in_bounds_witness:
  "case console_input_char log_char demo_cmds TAB shell_line_init [] of
      None \<Rightarrow> down_leaves TAB shell_line_init
    | Some (l', _) \<Rightarrow> line_ok l' \<and> \<not> down_leaves TAB shell_line_init"
  using shell_input_stays_in_bounds [OF line_ok_init demo_cmds_named, where pc = log_char and ch = TAB and s = "[]"]
  by (auto split: option.splits)

section \<open>The abstract editor\<close>

text \<open>A line with a cursor and a history: what the shell implements with arrays and indices.\<close>

record editor =
  ed_left :: "u8 list"
  ed_right :: "u8 list"
  ed_hist :: "u8 list list"
  ed_cur :: nat

datatype key = Key_char u8 | Key_backspace | Key_left | Key_right | Key_up | Key_down | Key_enter

fun key_bytes :: "key \<Rightarrow> u8 list" where
  "key_bytes (Key_char c) = [c]"
| "key_bytes Key_backspace = [BS]"
| "key_bytes Key_left = [ESC, 0x5B, 0x44]"
| "key_bytes Key_right = [ESC, 0x5B, 0x43]"
| "key_bytes Key_up = [ESC, 0x5B, 0x41]"
| "key_bytes Key_down = [ESC, 0x5B, 0x42]"
| "key_bytes Key_enter = [CR]"

definition ed_line :: "editor \<Rightarrow> u8 list" where
  "ed_line e = ed_left e @ ed_right e"

definition ed_show :: "nat \<Rightarrow> editor \<Rightarrow> editor" where
  "ed_show i e = e\<lparr>ed_left := hist_row (ed_hist e) i, ed_right := [], ed_cur := i\<rparr>"

fun ed_key :: "key \<Rightarrow> editor \<Rightarrow> editor option" where
  "ed_key (Key_char c) e = Some (if length (ed_line e) < CMD_BUF_SIZE - 1 then e\<lparr>ed_left := ed_left e @ [c]\<rparr> else e)"
| "ed_key Key_backspace e = Some (e\<lparr>ed_left := butlast (ed_left e)\<rparr>)"
| "ed_key Key_left e = Some (if ed_left e = [] then e
     else e\<lparr>ed_left := butlast (ed_left e), ed_right := last (ed_left e) # ed_right e\<rparr>)"
| "ed_key Key_right e = Some (if ed_right e = [] then e
     else e\<lparr>ed_left := ed_left e @ [hd (ed_right e)], ed_right := tl (ed_right e)\<rparr>)"
| "ed_key Key_up e = Some (if (ed_hist e = [] \<or> ed_cur e = 0) \<and> ed_line e \<noteq> [] then e
     else ed_show (ed_cur e - 1) e)"
| "ed_key Key_down e =
     (if (ed_hist e = [] \<or> ed_cur e + 1 = length (ed_hist e)) \<and> ed_line e \<noteq> [] then Some e
      else let i = (if ed_cur e + 1 \<noteq> length (ed_hist e) then ed_cur e + 1 else ed_cur e)
        in if i < CMD_HISTORY_DEPTH then Some (ed_show i e) else None)"
| "ed_key Key_enter e =
     (let hist = (if ed_line e = [] then ed_hist e else hist_save (ed_line e) (ed_hist e))
      in Some \<lparr>ed_left = [], ed_right = [], ed_hist = hist, ed_cur = length hist\<rparr>)"

fun ed_run :: "key list \<Rightarrow> editor \<Rightarrow> editor option" where
  "ed_run [] e = Some e"
| "ed_run (k # ks) e = do { e \<leftarrow> ed_key k e; ed_run ks e }"

definition printable :: "u8 \<Rightarrow> bool" where
  "printable c \<longleftrightarrow> 0x20 \<le> c \<and> c \<le> 0x7E"

fun key_ok :: "key \<Rightarrow> bool" where
  "key_ok (Key_char c) = printable c"
| "key_ok k = True"

text \<open>The editor behind the arrays, and the states in which the line holds no NUL.\<close>

definition editor_of :: "shell_line \<Rightarrow> editor" where
  "editor_of l = \<lparr>ed_left = left_of (sh_in l), ed_right = right_of (sh_in l), ed_hist = hist_of (sh_his l),
     ed_cur = h_current (sh_his l)\<rparr>"

definition plain :: "shell_line \<Rightarrow> bool" where
  "plain l \<longleftrightarrow> line_ok l \<and> sh_state l = STATE_NORMAL \<and> 0 \<notin> set (ed_line (editor_of l))"

lemma editor_line:
  assumes "line_ok l"
  shows "length (ed_line (editor_of l)) = in_length (sh_in l)" "ed_line (editor_of l) = [] \<longleftrightarrow> in_length (sh_in l) = 0"
    "ed_left (editor_of l) = [] \<longleftrightarrow> in_pos (sh_in l) = 0" "ed_hist (editor_of l) = [] \<longleftrightarrow> h_count (sh_his l) = 0"
    "length (ed_hist (editor_of l)) = h_count (sh_his l)"
proof -
  have i: "input_ok (sh_in l)" and h: "history_ok (sh_his l)"
    using assms by (auto simp: line_ok_def)
  note len = length_sides [OF i] length_hist_of [OF h]
  show l1: "length (ed_line (editor_of l)) = in_length (sh_in l)"
    using len i by (simp add: ed_line_def editor_of_def input_ok_def)
  show "ed_line (editor_of l) = [] \<longleftrightarrow> in_length (sh_in l) = 0"
    using l1 by auto
  show "ed_left (editor_of l) = [] \<longleftrightarrow> in_pos (sh_in l) = 0"
    using len by (simp add: editor_of_def flip: length_0_conv)
  show "length (ed_hist (editor_of l)) = h_count (sh_his l)" "ed_hist (editor_of l) = [] \<longleftrightarrow> h_count (sh_his l) = 0"
    using len by (simp_all add: editor_of_def flip: length_0_conv)
qed

lemma hist_row_no_nul: "0 \<notin> set (hist_row (hist_of hi) i)"
  by (auto simp: hist_row_def hist_of_def dest!: nth_mem split: if_splits)

text \<open>Arrow keys arrive as three bytes.\<close>

lemma feed_arrow:
  assumes "sh_state l = STATE_NORMAL"
  shows "feed pc cmds [ESC, 0x5B, ch] l s =
    map_option (\<lambda>(inp, hi, s). (\<lparr>sh_in = inp, sh_his = hi, sh_state = STATE_NORMAL\<rparr>, s))
      (input_bracket pc ch (sh_in l) (sh_his l) s)"
  using assms by (cases "input_bracket pc ch (sh_in l) (sh_his l) s") (auto simp: console_input_char_def)

text \<open>One key: the state afterwards represents the editor afterwards.\<close>

definition key_effect :: "(shell_line \<times> 's) option \<Rightarrow> editor option \<Rightarrow> bool" where
  "key_effect r e \<longleftrightarrow> (case r of None \<Rightarrow> e = None | Some (l, s) \<Rightarrow> plain l \<and> e = Some (editor_of l))"

lemma key_effectI:
  "input_ok inp \<Longrightarrow> history_ok hi \<Longrightarrow>
   e = \<lparr>ed_left = left_of inp, ed_right = right_of inp, ed_hist = hist_of hi, ed_cur = h_current hi\<rparr> \<Longrightarrow>
   0 \<notin> set (ed_line e) \<Longrightarrow>
   key_effect (Some (\<lparr>sh_in = inp, sh_his = hi, sh_state = STATE_NORMAL\<rparr>, s)) (Some e)"
  by (simp add: key_effect_def plain_def line_ok_def editor_of_def)

lemma plainD:
  assumes "plain l"
  shows "line_ok l" "input_ok (sh_in l)" "history_ok (sh_his l)" "sh_state l = STATE_NORMAL"
    "0 \<notin> set (left_of (sh_in l))" "0 \<notin> set (right_of (sh_in l))"
    "\<lparr>sh_in = sh_in l, sh_his = sh_his l, sh_state = STATE_NORMAL\<rparr> = l"
  using assms by (auto simp: plain_def line_ok_def ed_line_def editor_of_def)

lemma printableD:
  "printable c \<Longrightarrow> c \<noteq> 0 \<and> c \<noteq> ESC \<and> c \<noteq> CR \<and> c \<noteq> LF \<and> c \<noteq> TAB \<and> c \<noteq> BS \<and> c \<noteq> DEL"
  by (auto simp: printable_def)

lemma feed_char:
  assumes "plain l" "printable c"
  shows "key_effect (feed pc cmds [c] l s) (ed_key (Key_char c) (editor_of l))"
proof (cases "in_length (sh_in l) < CMD_BUF_SIZE - 1")
  case True
  obtain inp hi s' where step: "input_insert pc c (sh_in l) (sh_his l) s = Some (inp, hi, s')" "input_ok inp"
      "same_rows (sh_his l) hi" "left_of inp = left_of (sh_in l) @ [c]" "right_of inp = right_of (sh_in l)"
    using input_insert_ok [OF plainD(2) [OF assms(1)] True, of pc c "sh_his l" s] by auto
  then have "feed pc cmds [c] l s = Some (\<lparr>sh_in = inp, sh_his = hi, sh_state = STATE_NORMAL\<rparr>, s')"
    using True assms(2) printableD [OF assms(2)] plainD(4) [OF assms(1)]
    by (simp add: console_input_char_def input_normal_def printable_def)
  then show ?thesis
    using step True plainD [OF assms(1)] printableD [OF assms(2)] same_rows_ok [OF step(3)]
      editor_line(1) [OF plainD(1) [OF assms(1)]]
    by (auto intro!: key_effectI simp: ed_line_def editor_of_def same_rows_def hist_of_def)
next
  case False
  then have "feed pc cmds [c] l s = Some (l, s)"
    using assms(2) printableD [OF assms(2)] plainD(4,7) [OF assms(1)]
    by (simp add: console_input_char_def input_normal_def)
  then show ?thesis
    using False assms(1) editor_line(1) [OF plainD(1) [OF assms(1)]] by (simp add: key_effect_def)
qed

lemma feed_backspace:
  assumes "plain l"
  shows "key_effect (feed pc cmds [BS] l s) (ed_key Key_backspace (editor_of l))"
proof -
  obtain inp s' where step: "input_backspace pc (sh_in l) s = Some (inp, s')" "input_ok inp"
      "left_of inp = butlast (left_of (sh_in l))" "right_of inp = right_of (sh_in l)"
    using input_backspace_ok [OF plainD(2) [OF assms(1)], of pc s] by auto
  then have "feed pc cmds [BS] l s = Some (\<lparr>sh_in = inp, sh_his = sh_his l, sh_state = STATE_NORMAL\<rparr>, s')"
    using plainD(4) [OF assms(1)] by (simp add: console_input_char_def input_normal_def)
  then show ?thesis
    using step plainD [OF assms]
    by (auto intro!: key_effectI simp: ed_line_def editor_of_def dest: in_set_butlastD)
qed

lemma feed_right:
  assumes "plain l"
  shows "key_effect (feed pc cmds [ESC, 0x5B, 0x43] l s) (ed_key Key_right (editor_of l))"
proof -
  let ?r = "right_of (sh_in l)"
  obtain inp s' where step: "input_right pc (sh_in l) s = (inp, s')" "input_ok inp"
      "left_of inp = left_of (sh_in l) @ take 1 ?r" "right_of inp = drop 1 ?r"
    using input_right_ok [OF plainD(2) [OF assms(1)]] by metis
  then have "feed pc cmds [ESC, 0x5B, 0x43] l s = Some (\<lparr>sh_in = inp, sh_his = sh_his l, sh_state = STATE_NORMAL\<rparr>, s')"
    using plainD(4) [OF assms(1)] by (simp add: feed_arrow input_bracket_def del: feed.simps)
  then show ?thesis
    using step plainD [OF assms]
    by (cases ?r) (auto intro!: key_effectI simp: ed_line_def editor_of_def simp del: feed.simps)
qed

lemma feed_left:
  assumes "plain l"
  shows "key_effect (feed pc cmds [ESC, 0x5B, 0x44] l s) (ed_key Key_left (editor_of l))"
proof -
  let ?w = "left_of (sh_in l)"
  obtain inp s' where step: "input_left pc (sh_in l) s = (inp, s')" "input_ok inp"
      "left_of inp = butlast ?w" "right_of inp = drop (length ?w - 1) ?w @ right_of (sh_in l)"
    using input_left_ok [OF plainD(2) [OF assms(1)]] by metis
  then have "feed pc cmds [ESC, 0x5B, 0x44] l s = Some (\<lparr>sh_in = inp, sh_his = sh_his l, sh_state = STATE_NORMAL\<rparr>, s')"
    using plainD(4) [OF assms(1)] by (simp add: feed_arrow input_bracket_def del: feed.simps)
  then show ?thesis
    using step plainD [OF assms]
    by (cases ?w rule: rev_cases) (auto intro!: key_effectI simp: ed_line_def editor_of_def simp del: feed.simps)
qed

lemma feed_up:
  assumes "plain l"
  shows "key_effect (feed pc cmds [ESC, 0x5B, 0x41] l s) (ed_key Key_up (editor_of l))"
proof -
  let ?hi = "sh_his l" and ?inp = "sh_in l"
  obtain hi inp s' where step: "browse_history_up pc ?hi ?inp s = Some (hi, inp, s')" "history_ok hi" "input_ok inp"
    "hist_of hi = hist_of ?hi"
    "if (h_count ?hi = 0 \<or> h_current ?hi = 0) \<and> in_length ?inp \<noteq> 0 then hi = ?hi \<and> inp = ?inp
     else h_current hi = h_current ?hi - 1 \<and> left_of inp = hist_row (hist_of ?hi) (h_current ?hi - 1) \<and> right_of inp = []"
    using browse_history_up_ok [OF plainD(3,2) [OF assms], of pc s] by auto
  have "feed pc cmds [ESC, 0x5B, 0x41] l s = Some (\<lparr>sh_in = inp, sh_his = hi, sh_state = STATE_NORMAL\<rparr>, s')"
    using plainD(4) [OF assms(1)] step(1) by (simp add: feed_arrow input_bracket_def del: feed.simps)
  then show ?thesis
    using step(2-) plainD [OF assms] editor_line [OF plainD(1) [OF assms]] hist_row_no_nul [of ?hi "h_current ?hi - 1"]
    by (auto intro!: key_effectI simp: ed_show_def ed_line_def editor_of_def simp del: feed.simps split: if_splits)
qed

lemma feed_down:
  assumes "plain l"
  shows "key_effect (feed pc cmds [ESC, 0x5B, 0x42] l s) (ed_key Key_down (editor_of l))"
proof -
  let ?hi = "sh_his l" and ?inp = "sh_in l"
  note down = browse_history_down_ok [OF plainD(3,2) [OF assms], of pc s]
  have moves: "down_moves ?hi ?inp \<longleftrightarrow> \<not> ((ed_hist (editor_of l) = [] \<or> ed_cur (editor_of l) + 1 = length (ed_hist (editor_of l)))
      \<and> ed_line (editor_of l) \<noteq> [])"
    using editor_line [OF plainD(1) [OF assms]] by (auto simp: down_moves_def editor_of_def)
  have to: "down_to ?hi = (if ed_cur (editor_of l) + 1 \<noteq> length (ed_hist (editor_of l)) then ed_cur (editor_of l) + 1 else ed_cur (editor_of l))"
    using editor_line [OF plainD(1) [OF assms]] by (simp add: down_to_def editor_of_def)
  have key: "ed_key Key_down (editor_of l) = (if \<not> down_moves ?hi ?inp then Some (editor_of l)
      else if down_to ?hi < CMD_HISTORY_DEPTH then Some (ed_show (down_to ?hi) (editor_of l)) else None)"
    unfolding ed_key.simps Let_def to [symmetric] moves by simp
  have feed: "feed pc cmds [ESC, 0x5B, 0x42] l s =
      map_option (\<lambda>(hi, inp, s). (\<lparr>sh_in = inp, sh_his = hi, sh_state = STATE_NORMAL\<rparr>, s)) (browse_history_down pc ?hi ?inp s)"
    using plainD(4) [OF assms(1)] by (cases "browse_history_down pc ?hi ?inp s") (auto simp: feed_arrow input_bracket_def simp del: feed.simps)
  show ?thesis
  proof (cases "browse_history_down pc ?hi ?inp s")
    case None
    then show ?thesis
      using down unfolding key feed by (simp add: key_effect_def)
  next
    case (Some r)
    then obtain hi inp s' where r: "browse_history_down pc ?hi ?inp s = Some (hi, inp, s')"
      by (cases r) auto
    then show ?thesis
      using down plainD [OF assms] hist_row_no_nul [of ?hi "down_to ?hi"] unfolding key feed
      by (auto intro!: key_effectI simp: ed_show_def ed_line_def editor_of_def split: if_splits)
  qed
qed

lemma str_of_line: "0 \<notin> set w \<Longrightarrow> str_of (w @ [0]) = w"
  by (rule str_of_append_nul)

lemma feed_enter:
  assumes "plain l" "well_named cmds"
  shows "key_effect (feed pc cmds [CR] l s) (ed_key Key_enter (editor_of l)) \<or>
    feed pc cmds [CR] l s = None \<and> stalls pc cmds (sh_in l) s"
proof -
  let ?hi = "sh_his l" and ?inp = "sh_in l"
  have line: "str_of (left_of ?inp @ right_of ?inp @ [0]) = ed_line (editor_of l)"
    using assms(1) str_of_line [of "left_of ?inp @ right_of ?inp"] by (simp add: plain_def ed_line_def editor_of_def)
  obtain hi r where step: "input_enter pc cmds ?inp ?hi s = map_option (\<lambda>s'. (shell_in_init, hi, show_prompt pc s')) r"
     "history_ok hi" "h_current hi = h_count hi"
     "hist_of hi = (if in_length ?inp = 0 then hist_of ?hi else hist_save (ed_line (editor_of l)) (hist_of ?hi))"
     "if in_length ?inp = 0 then r = Some (puts pc [CR, LF] s) else runs_line pc cmds (ed_line (editor_of l)) (puts pc [CR, LF] s) r"
    using input_enter_ok [OF plainD(2,3) [OF assms(1)] assms(2), of pc s] unfolding Let_def line
    by (cases "in_length ?inp = 0") (simp_all, blast+)
  have feed: "feed pc cmds [CR] l s =
      map_option (\<lambda>s'. (\<lparr>sh_in = shell_in_init, sh_his = hi, sh_state = STATE_NORMAL\<rparr>, show_prompt pc s')) r"
    using plainD(4) [OF assms(1)] step(1) by (cases r) (simp_all add: console_input_char_def input_normal_def)
  show ?thesis
  proof (cases r)
    case None
    then show ?thesis
      using feed step(5) by (auto simp: stalls_def typed_line_def line split: if_splits)
  next
    case (Some s')
    have "input_ok shell_in_init" "left_of shell_in_init = []" "right_of shell_in_init = []"
      using line_ok_init by (simp_all add: line_ok_def shell_line_init_def left_of_def right_of_def shell_in_init_def)
    moreover have "ed_hist (editor_of l) = hist_of ?hi" "length (hist_of hi) = h_current hi"
      using step(3) length_hist_of [OF step(2)] by (simp_all add: editor_of_def)
    ultimately show ?thesis
      using feed Some step(2-4) editor_line(2) [OF plainD(1) [OF assms(1)]]
      by (auto intro!: key_effectI simp: ed_line_def [of "\<lparr>ed_left = _, ed_right = _, ed_hist = _, ed_cur = _\<rparr>"] simp del: feed.simps)
  qed
qed

lemma feed_key:
  assumes "plain l" "well_named cmds" "key_ok k"
  shows "key_effect (feed pc cmds (key_bytes k) l s) (ed_key k (editor_of l)) \<or>
    k = Key_enter \<and> feed pc cmds (key_bytes k) l s = None \<and> stalls pc cmds (sh_in l) s"
  using assms feed_char feed_backspace feed_left feed_right feed_up feed_down feed_enter
  by (cases k) (simp_all del: ed_key.simps feed.simps)

text \<open>Some enter among the keys meets a command that does not return.\<close>

definition keys_stall :: "(u8 \<Rightarrow> 's \<Rightarrow> 's) \<Rightarrow> 's shell_command list \<Rightarrow> key list \<Rightarrow> shell_line \<Rightarrow> 's \<Rightarrow> bool" where
  "keys_stall pc cmds ks l s \<longleftrightarrow> (\<exists>ks1 ks2 l1 s1. ks = ks1 @ Key_enter # ks2 \<and>
     feed pc cmds (concat (map key_bytes ks1)) l s = Some (l1, s1) \<and> stalls pc cmds (sh_in l1) s1)"

lemma keys_stall_here: "stalls pc cmds (sh_in l) s \<Longrightarrow> keys_stall pc cmds (Key_enter # ks) l s"
  unfolding keys_stall_def by (rule exI [of _ "[]"]) simp

lemma keys_stall_later:
  assumes "feed pc cmds (key_bytes k) l s = Some (l', s')" "keys_stall pc cmds ks l' s'"
  shows "keys_stall pc cmds (k # ks) l s"
proof -
  obtain ks1 ks2 l1 s1 where "ks = ks1 @ Key_enter # ks2" "feed pc cmds (concat (map key_bytes ks1)) l' s' = Some (l1, s1)"
    "stalls pc cmds (sh_in l1) s1"
    using assms(2) by (auto simp: keys_stall_def)
  then show ?thesis
    unfolding keys_stall_def using assms(1)
    by (intro exI [of _ "k # ks1"] exI [of _ ks2] exI [of _ l1] exI [of _ s1]) (simp add: feed_append)
qed

lemma shell_refines_editor_keys:
  assumes "plain l" "well_named cmds" "list_all key_ok ks"
  shows "case feed pc cmds (concat (map key_bytes ks)) l s of
      None \<Rightarrow> ed_run ks (editor_of l) = None \<or> keys_stall pc cmds ks l s
    | Some (l', _) \<Rightarrow> plain l' \<and> ed_run ks (editor_of l) = Some (editor_of l')"
  using assms(1,3)
proof (induction ks arbitrary: l s)
  case (Cons k ks)
  have effect: "key_effect (feed pc cmds (key_bytes k) l s) (ed_key k (editor_of l)) \<or>
      k = Key_enter \<and> feed pc cmds (key_bytes k) l s = None \<and> stalls pc cmds (sh_in l) s"
    using feed_key [OF Cons(2) assms(2)] Cons(3) by simp
  then show ?case
  proof (cases "feed pc cmds (key_bytes k) l s")
    case None
    then show ?thesis
      using effect keys_stall_here [of pc cmds l s ks] by (auto simp: feed_append key_effect_def simp del: feed.simps)
  next
    case (Some r)
    then obtain l' s' where r: "feed pc cmds (key_bytes k) l s = Some (l', s')"
      by (cases r) auto
    then have "plain l'" "ed_key k (editor_of l) = Some (editor_of l')"
      using effect by (simp_all add: key_effect_def)
    then show ?thesis
      using Cons(1) [of l' s'] Cons(3) r keys_stall_later [OF r, of ks] by (auto simp: feed_append split: option.splits)
  qed
qed simp

text \<open>C9: the shell's editor refines a line with a cursor and a history.  From a state whose line
  holds no NUL, the bytes of any sequence of printable characters, backspaces, arrow keys and
  enters lead to a state that represents the outcome of the same keys on the abstract editor; they
  do so for every registry of commands with proper names, as long as no enter runs a command that
  does not return, and the shell leaves its arrays only when the abstract editor has no row to show.\<close>
theorem shell_refines_editor:
  assumes "plain l" "well_named cmds" "list_all key_ok ks"
  shows "case feed pc cmds (concat (map key_bytes ks)) l s of
      None \<Rightarrow> ed_run ks (editor_of l) = None \<or> keys_stall pc cmds ks l s
    | Some (l', _) \<Rightarrow> plain l' \<and> ed_run ks (editor_of l) = Some (editor_of l')"
  using assms by (rule shell_refines_editor_keys)

lemma plain_init: "plain shell_line_init" "editor_of shell_line_init = \<lparr>ed_left = [], ed_right = [], ed_hist = [], ed_cur = 0\<rparr>"
  using line_ok_init by (simp_all add: plain_def editor_of_def ed_line_def shell_line_init_def left_of_def right_of_def
      shell_in_init_def hist_of_def shell_his_init_def)

definition demo_keys :: "key list" where
  "demo_keys = [Key_char 0x62, Key_left, Key_char 0x61, Key_enter, Key_char 0x63, Key_backspace, Key_up, Key_up]"

lemma shell_refines_editor_witness:
  "case feed log_char demo_cmds (concat (map key_bytes demo_keys)) shell_line_init [] of
      None \<Rightarrow> keys_stall log_char demo_cmds demo_keys shell_line_init []
    | Some (l', _) \<Rightarrow> plain l' \<and> ed_run demo_keys (editor_of shell_line_init) = Some (editor_of l')"
proof -
  have "list_all key_ok demo_keys"
    by (simp add: demo_keys_def printable_def)
  moreover have "ed_run demo_keys \<lparr>ed_left = [], ed_right = [], ed_hist = [], ed_cur = 0\<rparr> \<noteq> None"
    by code_simp
  ultimately show ?thesis
    using shell_refines_editor [OF plain_init(1) demo_cmds_named, of demo_keys log_char "[]"]
    by (auto simp: plain_init(2) split: option.splits)
qed

section \<open>Running a typed line\<close>

lemma puts_append: "puts pc (as @ bs) s = puts pc bs (puts pc as s)"
  by (simp add: puts_def)

lemma feed_typed:
  "plain l \<Longrightarrow> list_all printable w \<Longrightarrow> ed_right (editor_of l) = [] \<Longrightarrow>
   length (ed_left (editor_of l)) + length w < CMD_BUF_SIZE \<Longrightarrow>
   \<exists>l'. feed pc cmds w l s = Some (l', puts pc w s) \<and> plain l' \<and>
     editor_of l' = (editor_of l)\<lparr>ed_left := ed_left (editor_of l) @ w\<rparr>"
proof (induction w arbitrary: l s)
  case Nil
  then show ?case
    by (simp add: puts_def)
next
  case (Cons c w)
  have right: "right_of (sh_in l) = []"
    using Cons(4) by (simp add: editor_of_def)
  have short: "in_length (sh_in l) < CMD_BUF_SIZE - 1"
    using Cons(5) Cons(4) editor_line(1) [OF plainD(1) [OF Cons(2)]] by (simp add: ed_line_def)
  obtain inp hi where step: "input_insert pc c (sh_in l) (sh_his l) s = Some (inp, hi, puts pc [c] s)"
    using input_insert_ok [OF plainD(2) [OF Cons(2)] short, of pc c "sh_his l" s] right by auto
  define l1 where "l1 = \<lparr>sh_in = inp, sh_his = hi, sh_state = STATE_NORMAL\<rparr>"
  have feed: "feed pc cmds [c] l s = Some (l1, puts pc [c] s)"
    using step short Cons(3) printableD [of c] plainD(4) [OF Cons(2)]
    by (simp add: console_input_char_def input_normal_def printable_def l1_def)
  have "key_effect (feed pc cmds [c] l s) (ed_key (Key_char c) (editor_of l))"
    using feed_char [OF Cons(2), of c pc cmds s] Cons(3) by (simp del: feed.simps ed_key.simps)
  then have l1: "plain l1" "editor_of l1 = (editor_of l)\<lparr>ed_left := ed_left (editor_of l) @ [c]\<rparr>"
    using short editor_line(1) [OF plainD(1) [OF Cons(2)]] by (simp_all add: feed key_effect_def del: feed.simps)
  obtain l' where "feed pc cmds w l1 (puts pc [c] s) = Some (l', puts pc w (puts pc [c] s))" "plain l'"
      "editor_of l' = (editor_of l)\<lparr>ed_left := ed_left (editor_of l) @ c # w\<rparr>"
    using Cons(1) [OF l1(1), of "puts pc [c] s"] Cons(3-) l1(2) by auto
  then show ?case
    using feed feed_append [of pc cmds "[c]" w l s] puts_append [of pc "[c]" w s] by simp
qed

text \<open>C13: a typed line is what runs.  Printable characters typed into the empty line of the shell
  are echoed one by one; enter then runs exactly that line: nothing for blanks, otherwise the first
  registered command whose name is the first word gets the words (ten at most) as its arguments, or
  the shell says that there is none.  The line is empty again, the history remembers it, and the
  prompt follows the output; when the command does not return, neither does the shell.\<close>
theorem shell_runs_typed_line:
  assumes "plain l" "well_named cmds" "ed_line (editor_of l) = []"
    "list_all printable w" "w \<noteq> []" "length w < CMD_BUF_SIZE"
  shows "\<exists>r. runs_line pc cmds w (puts pc (w @ [CR, LF]) s) r \<and>
    (case r of None \<Rightarrow> feed pc cmds (w @ [CR]) l s = None
     | Some s' \<Rightarrow> \<exists>l'. feed pc cmds (w @ [CR]) l s = Some (l', show_prompt pc s') \<and> plain l' \<and>
         ed_line (editor_of l') = [] \<and> ed_hist (editor_of l') = hist_save w (ed_hist (editor_of l)))"
proof -
  have empty: "ed_left (editor_of l) = []" "ed_right (editor_of l) = []"
    using assms(3) by (simp_all add: ed_line_def)
  then obtain l1 where l1: "feed pc cmds w l s = Some (l1, puts pc w s)" "plain l1"
      "editor_of l1 = (editor_of l)\<lparr>ed_left := w\<rparr>"
    using feed_typed [OF assms(1,4), of pc cmds s] assms(6) by auto
  have sides: "left_of (sh_in l1) = w" "right_of (sh_in l1) = []" "hist_of (sh_his l1) = ed_hist (editor_of l)"
    using l1(3) empty by (auto simp: editor_of_def)
  have w: "0 \<notin> set w" and len: "in_length (sh_in l1) \<noteq> 0"
    using assms(4,5) editor_line(2) [OF plainD(1) [OF l1(2)]] sides
    by (auto simp: list_all_iff printable_def ed_line_def editor_of_def)
  obtain hi r where step: "input_enter pc cmds (sh_in l1) (sh_his l1) (puts pc w s) =
       map_option (\<lambda>s'. (shell_in_init, hi, show_prompt pc s')) r"
     "hist_of hi = hist_save w (ed_hist (editor_of l))" "runs_line pc cmds w (puts pc (w @ [CR, LF]) s) r"
    using input_enter_ok [OF plainD(2,3) [OF l1(2)] assms(2), of pc "puts pc w s"] len str_of_line [OF w] sides
    by (auto simp: puts_append)
  define l2 where "l2 = \<lparr>sh_in = shell_in_init, sh_his = hi, sh_state = STATE_NORMAL\<rparr>"
  have feed: "feed pc cmds [CR] l1 (puts pc w s) = map_option (\<lambda>s'. (l2, show_prompt pc s')) r"
    using plainD(4) [OF l1(2)] step(1) by (cases r) (simp_all add: console_input_char_def input_normal_def l2_def)
  have whole: "feed pc cmds (w @ [CR]) l s = map_option (\<lambda>s'. (l2, show_prompt pc s')) r"
    using feed l1(1) by (simp add: feed_append del: feed.simps)
  have "plain l2" if "r = Some s'" for s'
    using feed_enter [OF l1(2) assms(2), of pc "puts pc w s"] feed that by (simp add: key_effect_def del: feed.simps ed_key.simps)
  moreover have "ed_line (editor_of l2) = []" "ed_hist (editor_of l2) = hist_of hi"
    by (simp_all add: l2_def editor_of_def ed_line_def left_of_def right_of_def shell_in_init_def)
  ultimately show ?thesis
    using whole step(2,3) by (intro exI [of _ r]) (auto split: option.split)
qed

lemma demo_help_returns:
  assumes "runs_line log_char demo_cmds w s r" "line_words w \<noteq> []" "hd (line_words w) = cstr ''help''"
  shows "\<exists>s'. r = Some s'"
proof -
  have "find (\<lambda>c. str_of (cm_name c) = hd (line_words w)) demo_cmds = Some (help_cmd (Some log_char))"
    by (simp add: assms(3) demo_cmds_def help_cmd_def cstr_def)
  moreover have "\<exists>k s'. help_func (Some log_char) (listing demo_cmds) s = Some (k, s')"
    by (rule help_returns [OF well_named_listing [OF demo_cmds_named]])
  ultimately show ?thesis
    using assms(1) by (auto simp: runs_line_def help_cmd_def)
qed

lemma shell_runs_typed_line_witness:
  "\<exists>l' s'. runs_line log_char demo_cmds (cstr ''help me'') (puts log_char (cstr ''help me'' @ [CR, LF]) []) (Some s') \<and>
    feed log_char demo_cmds (cstr ''help me'' @ [CR]) shell_line_init [] = Some (l', show_prompt log_char s') \<and> plain l' \<and>
    ed_line (editor_of l') = [] \<and> ed_hist (editor_of l') = hist_save (cstr ''help me'') (ed_hist (editor_of shell_line_init))"
proof -
  let ?w = "cstr ''help me''"
  obtain r where run: "runs_line log_char demo_cmds ?w (puts log_char (?w @ [CR, LF]) []) r"
    and r: "case r of None \<Rightarrow> feed log_char demo_cmds (?w @ [CR]) shell_line_init [] = None
     | Some s' \<Rightarrow> \<exists>l'. feed log_char demo_cmds (?w @ [CR]) shell_line_init [] = Some (l', show_prompt log_char s') \<and> plain l' \<and>
         ed_line (editor_of l') = [] \<and> ed_hist (editor_of l') = hist_save ?w (ed_hist (editor_of shell_line_init))"
    using shell_runs_typed_line [OF plain_init(1) demo_cmds_named, of ?w log_char "[]"]
    by (auto simp: plain_init ed_line_def cstr_def printable_def CMD_BUF_SIZE_def simp del: feed.simps)
  have "line_words ?w = [cstr ''help'', cstr ''me'']"
    by code_simp
  then obtain s' where "r = Some s'"
    using demo_help_returns [OF run] by auto
  then show ?thesis
    using run r by auto
qed

section \<open>Where the editor goes wrong\<close>

lemma feed_downs:
  "plain l \<Longrightarrow> case feed pc cmds (concat (replicate n (key_bytes Key_down))) l s of
      None \<Rightarrow> ed_run (replicate n Key_down) (editor_of l) = None
    | Some (l', _) \<Rightarrow> plain l' \<and> ed_run (replicate n Key_down) (editor_of l) = Some (editor_of l')"
proof (induction n arbitrary: l s)
  case (Suc n)
  have effect: "key_effect (feed pc cmds (key_bytes Key_down) l s) (ed_key Key_down (editor_of l))"
    using feed_down [OF Suc(2), of pc cmds s] by (simp del: feed.simps ed_key.simps)
  show ?case
  proof (cases "feed pc cmds (key_bytes Key_down) l s")
    case None
    then show ?thesis
      using effect by (simp add: feed_append key_effect_def del: feed.simps ed_key.simps key_bytes.simps)
  next
    case (Some r)
    then obtain l' s' where r: "feed pc cmds (key_bytes Key_down) l s = Some (l', s')"
      by (cases r) auto
    then have "plain l'" "ed_key Key_down (editor_of l) = Some (editor_of l')"
      using effect by (simp_all add: key_effect_def)
    then show ?thesis
      using Suc(1) [of l' s'] r
      by (auto simp: feed_append simp del: feed.simps ed_key.simps key_bytes.simps split: option.splits)
  qed
qed simp

text \<open>C36: the down arrow leaves the history.  After a reset, before any command has been entered, the
  fifth press of the down arrow makes the shell read a sixth row of its five-row history.\<close>
theorem shell_down_arrow_leaves_history:
  "feed pc cmds (concat (replicate 5 (key_bytes Key_down))) shell_line_init s = None"
proof -
  have "ed_run (replicate 5 Key_down) \<lparr>ed_left = [], ed_right = [], ed_hist = [], ed_cur = 0\<rparr> = None"
    by code_simp
  then show ?thesis
    using feed_downs [OF plain_init(1), where n = 5 and pc = pc and cmds = cmds and s = s] by (auto simp: plain_init(2) split: option.splits)
qed

lemma match_loop_none:
  "(\<And>c. c \<in> set cs \<Longrightarrow> terminated (cm_name c) \<and> take n (str_of (cm_name c)) \<noteq> str_of (take n pfx)) \<Longrightarrow>
   n \<le> length pfx \<Longrightarrow> match_loop cs pfx n k m = Some (k, m)"
proof (induction cs)
  case (Cons c cs)
  obtain r where "xstrncmp (cm_name c) pfx n = Some r" "r \<noteq> 0"
    using xstrncmp_eq_prefix [of "cm_name c" n pfx] Cons(2,3) by auto
  then show ?case
    using Cons by simp
qed simp

text \<open>a completion that finds nothing cuts the line.  When tab is pressed inside a line whose part
  left of the cursor begins no command, the shell prints nothing and goes on showing the whole line,
  but enter then runs only the part left of the cursor.\<close>
theorem shell_tab_cuts_line:
  assumes "plain l" "well_named cmds" "ed_left (editor_of l) \<noteq> []" "ed_right (editor_of l) \<noteq> []"
    "\<forall>c\<in>set cmds. take (length (ed_left (editor_of l))) (str_of (cm_name c)) \<noteq> ed_left (editor_of l)"
  shows "\<exists>l' r. feed pc cmds [TAB, CR] l s = map_option (\<lambda>s'. (l', show_prompt pc s')) r \<and>
    runs_line pc cmds (ed_left (editor_of l)) (puts pc [CR, LF] s) r"
proof -
  let ?inp = "sh_in l" and ?w = "left_of (sh_in l)"
  let ?p = "in_pos ?inp"
  define b where "b = patch ?p [0] (in_buffer ?inp)"
  define inp where "inp = ?inp\<lparr>in_buffer := b\<rparr>"
  have i: "input_ok ?inp" and nul: "0 \<notin> set ?w"
    using plainD [OF assms(1)] by simp_all
  have p: "?p \<noteq> 0" "?p < in_length ?inp" "length (in_buffer ?inp) = CMD_BUF_SIZE" "in_length ?inp < CMD_BUF_SIZE"
    using assms(3,4) length_sides [OF i] i
    by (simp_all add: editor_of_def input_ok_def flip: length_greater_0_conv)
  have store: "store_at (in_buffer ?inp) ?p [0] = Some b"
    using p by (simp add: b_def store_at_def)
  have left: "take ?p b = ?w"
    using p by (simp add: b_def take_patch left_of_def)
  have none: "match_loop cmds b ?p 0 None = Some (0, None)"
    using assms(5) well_named_terminated [OF assms(2)] p nul length_sides(1) [OF i] str_of_append [of ?w "[]"] left
    by (intro match_loop_none) (auto simp: editor_of_def b_def)
  have ok: "input_ok inp"
    using i p by (auto simp: inp_def b_def input_ok_def nth_patch CMD_BUF_SIZE_def)
  have "bslice ?p (in_length ?inp - ?p) b = b ! ?p # bslice (Suc ?p) (in_length ?inp - Suc ?p) b"
    using bslice_Suc [of ?p b "in_length ?inp - Suc ?p"] p by (simp add: b_def Suc_diff_Suc)
  moreover have "b ! ?p = 0"
    using p by (simp add: b_def nth_patch)
  ultimately have line: "left_of inp = ?w" "str_of (left_of inp @ right_of inp @ [0]) = ?w"
    using left nul by (simp_all add: inp_def left_of_def right_of_def)
  have tab: "feed pc cmds [TAB] l s = Some (l\<lparr>sh_in := inp\<rparr>, s)"
    using plainD(4) [OF assms(1)] store none p(1)
    by (simp add: console_input_char_def input_normal_def input_tab_def inp_def)
  obtain hi r where step: "input_enter pc cmds inp (sh_his l) s = map_option (\<lambda>s'. (shell_in_init, hi, show_prompt pc s')) r"
     "runs_line pc cmds ?w (puts pc [CR, LF] s) r"
    using input_enter_ok [OF ok plainD(3) [OF assms(1)] assms(2), of pc s] line p by (auto simp: Let_def inp_def)
  have "feed pc cmds [CR] (l\<lparr>sh_in := inp\<rparr>) s
      = map_option (\<lambda>s'. (\<lparr>sh_in = shell_in_init, sh_his = hi, sh_state = STATE_NORMAL\<rparr>, show_prompt pc s')) r"
    using plainD(4) [OF assms(1)] step(1) by (cases r) (simp_all add: console_input_char_def input_normal_def)
  then have "feed pc cmds [TAB, CR] l s
      = map_option (\<lambda>s'. (\<lparr>sh_in = shell_in_init, sh_his = hi, sh_state = STATE_NORMAL\<rparr>, show_prompt pc s')) r"
    using tab feed_append [of pc cmds "[TAB]" "[CR]" l s] by simp
  moreover have "ed_left (editor_of l) = ?w"
    by (simp add: editor_of_def)
  ultimately show ?thesis
    using step(2) by (simp only:) blast
qed

lemma shell_tab_cuts_line_witness:
  "\<exists>l l' s' r. feed log_char demo_cmds (concat (map key_bytes [Key_char 0x78, Key_char 0x79, Key_left])) shell_line_init [] = Some (l, s')
     \<and> ed_line (editor_of l) = [0x78, 0x79] \<and> feed log_char demo_cmds [TAB, CR] l s' = map_option (\<lambda>s'. (l', show_prompt log_char s')) r
     \<and> runs_line log_char demo_cmds [0x78] (puts log_char [CR, LF] s') r"
proof -
  let ?ks = "[Key_char 0x78, Key_char 0x79, Key_left]"
  have run: "ed_run ?ks (editor_of shell_line_init) = Some \<lparr>ed_left = [0x78], ed_right = [0x79], ed_hist = [], ed_cur = 0\<rparr>"
    by (simp add: plain_init ed_line_def CMD_BUF_SIZE_def)
  have no_enter: "\<not> keys_stall log_char demo_cmds ?ks shell_line_init []"
    by (auto simp: keys_stall_def Cons_eq_append_conv)
  obtain l s where l: "feed log_char demo_cmds (concat (map key_bytes ?ks)) shell_line_init [] = Some (l, s)" "plain l"
      "editor_of l = \<lparr>ed_left = [0x78], ed_right = [0x79], ed_hist = [], ed_cur = 0\<rparr>"
    using shell_refines_editor_keys [OF plain_init(1) demo_cmds_named, of ?ks log_char "[]"] no_enter run
    by (auto simp: printable_def split: option.splits simp del: feed.simps)
  then have "\<exists>l' r. feed log_char demo_cmds [TAB, CR] l s = map_option (\<lambda>s'. (l', show_prompt log_char s')) r \<and>
      runs_line log_char demo_cmds (ed_left (editor_of l)) (puts log_char [CR, LF] s) r"
    by (intro shell_tab_cuts_line demo_cmds_named) (auto simp: demo_cmds_def help_cmd_def echo_cmd_def hexdump_cmd_def cstr_def)
  then show ?thesis
    using l by (auto simp: ed_line_def simp del: feed.simps)
qed

end
