(* ===== verification/Memheap.thy ===== *)
theory Memheap
  imports HG_Prelude
begin

text \<open>
  The memory heap of \<^verbatim>\<open>memheap/memheap.c\<close>.  Every block of the pool starts with an item of 24
  bytes; all blocks form a ring in the order of their addresses (\<^verbatim>\<open>next\<close>, \<^verbatim>\<open>prev\<close>), the free ones a
  second ring with the header inside the heap object (\<^verbatim>\<open>next_free\<close>, \<^verbatim>\<open>prev_free\<close>).

  The memory is three typed stores indexed by addresses: the items, the heap objects and the bytes of
  the payload.  The free header is the item at offset 24 of its heap object.  Any address can be
  read and written, as on the target, which runs without memory protection.  Typed stores agree with
  the one memory of the target as long as items, heap object and payload do not overlap: the pool is
  assumed apart from the heap object, and that the headers stay apart from each other and from
  what is handed out is proved (\<open>headers_apart\<close>).
\<close>

section \<open>Data\<close>

record mh_item =
  mi_magic :: u32
  mi_pool_ptr :: u32
  mi_next :: u32
  mi_prev :: u32
  mi_next_free :: u32
  mi_prev_free :: u32

record mh_heap =
  mh_start_addr :: u32
  mh_pool_size :: u32
  mh_available_size :: u32
  mh_max_used_size :: u32
  mh_block_list :: u32
  mh_free_list :: u32
  mh_locked :: u32

record mh_mem =
  mm_items :: "u32 \<Rightarrow> mh_item"
  mm_heaps :: "u32 \<Rightarrow> mh_heap"
  mm_bytes :: "u32 \<Rightarrow> u8"

definition RT_NULL :: u32 where "RT_NULL = 0"
definition RT_EOK :: u32 where "RT_EOK = 0"
definition RT_ERROR :: u32 where "RT_ERROR = 1"
definition RT_FALSE :: u32 where "RT_FALSE = 0"
definition RT_ALIGN_SIZE :: u32 where "RT_ALIGN_SIZE = 4"

definition RT_ALIGN :: "u32 \<Rightarrow> u32 \<Rightarrow> u32" where
  "RT_ALIGN n align = (n + align - 1) AND NOT (align - 1)"

definition RT_ALIGN_DOWN :: "u32 \<Rightarrow> u32 \<Rightarrow> u32" where
  "RT_ALIGN_DOWN n align = n AND NOT (align - 1)"

definition RT_MEMHEAP_MAGIC :: u32 where "RT_MEMHEAP_MAGIC = 0x1ea01ea0"
definition RT_MEMHEAP_MASK :: u32 where "RT_MEMHEAP_MASK = 0xFFFFFFFE"
definition RT_MEMHEAP_USED :: u32 where "RT_MEMHEAP_USED = 0x01"
definition RT_MEMHEAP_FREED :: u32 where "RT_MEMHEAP_FREED = 0x00"
definition RT_MEMHEAP_MINIALLOC :: u32 where "RT_MEMHEAP_MINIALLOC = 12"

text \<open>The size of an item: two words and four pointers.\<close>

definition RT_MEMHEAP_SIZE :: u32 where
  "RT_MEMHEAP_SIZE = RT_ALIGN 24 RT_ALIGN_SIZE"

text \<open>The address of \<^verbatim>\<open>free_header\<close> in a heap object.\<close>

definition free_header :: "u32 \<Rightarrow> u32" where
  "free_header h = h + 24"

section \<open>Access to the fields\<close>

definition magic_of :: "mh_mem \<Rightarrow> u32 \<Rightarrow> u32" where "magic_of m p = mi_magic (mm_items m p)"
definition pool_of :: "mh_mem \<Rightarrow> u32 \<Rightarrow> u32" where "pool_of m p = mi_pool_ptr (mm_items m p)"
definition next_of :: "mh_mem \<Rightarrow> u32 \<Rightarrow> u32" where "next_of m p = mi_next (mm_items m p)"
definition prev_of :: "mh_mem \<Rightarrow> u32 \<Rightarrow> u32" where "prev_of m p = mi_prev (mm_items m p)"
definition next_free_of :: "mh_mem \<Rightarrow> u32 \<Rightarrow> u32" where "next_free_of m p = mi_next_free (mm_items m p)"
definition prev_free_of :: "mh_mem \<Rightarrow> u32 \<Rightarrow> u32" where "prev_free_of m p = mi_prev_free (mm_items m p)"

definition upd_item :: "u32 \<Rightarrow> (mh_item \<Rightarrow> mh_item) \<Rightarrow> mh_mem \<Rightarrow> mh_mem" where
  "upd_item p f m = m\<lparr>mm_items := (mm_items m)(p := f (mm_items m p))\<rparr>"

definition upd_heap :: "u32 \<Rightarrow> (mh_heap \<Rightarrow> mh_heap) \<Rightarrow> mh_mem \<Rightarrow> mh_mem" where
  "upd_heap h f m = m\<lparr>mm_heaps := (mm_heaps m)(h := f (mm_heaps m h))\<rparr>"

definition set_magic :: "u32 \<Rightarrow> u32 \<Rightarrow> mh_mem \<Rightarrow> mh_mem" where "set_magic p v = upd_item p (\<lambda>i. i\<lparr>mi_magic := v\<rparr>)"
definition set_pool :: "u32 \<Rightarrow> u32 \<Rightarrow> mh_mem \<Rightarrow> mh_mem" where "set_pool p v = upd_item p (\<lambda>i. i\<lparr>mi_pool_ptr := v\<rparr>)"
definition set_next :: "u32 \<Rightarrow> u32 \<Rightarrow> mh_mem \<Rightarrow> mh_mem" where "set_next p v = upd_item p (\<lambda>i. i\<lparr>mi_next := v\<rparr>)"
definition set_prev :: "u32 \<Rightarrow> u32 \<Rightarrow> mh_mem \<Rightarrow> mh_mem" where "set_prev p v = upd_item p (\<lambda>i. i\<lparr>mi_prev := v\<rparr>)"
definition set_next_free :: "u32 \<Rightarrow> u32 \<Rightarrow> mh_mem \<Rightarrow> mh_mem" where
  "set_next_free p v = upd_item p (\<lambda>i. i\<lparr>mi_next_free := v\<rparr>)"
definition set_prev_free :: "u32 \<Rightarrow> u32 \<Rightarrow> mh_mem \<Rightarrow> mh_mem" where
  "set_prev_free p v = upd_item p (\<lambda>i. i\<lparr>mi_prev_free := v\<rparr>)"

definition RT_MEMHEAP_IS_USED :: "mh_mem \<Rightarrow> u32 \<Rightarrow> bool" where
  "RT_MEMHEAP_IS_USED m p \<longleftrightarrow> magic_of m p AND RT_MEMHEAP_USED \<noteq> 0"

definition MEMITEM_SIZE :: "mh_mem \<Rightarrow> u32 \<Rightarrow> u32" where
  "MEMITEM_SIZE m p = next_of m p - p - RT_MEMHEAP_SIZE"

section \<open>Copying\<close>

fun memcpy_up :: "nat \<Rightarrow> u32 \<Rightarrow> u32 \<Rightarrow> (u32 \<Rightarrow> u8) \<Rightarrow> (u32 \<Rightarrow> u8)" where
  "memcpy_up 0 d s b = b"
| "memcpy_up (Suc n) d s b = memcpy_up n (d + 1) (s + 1) (b(d := b s))"

fun memcpy_down :: "nat \<Rightarrow> u32 \<Rightarrow> u32 \<Rightarrow> (u32 \<Rightarrow> u8) \<Rightarrow> (u32 \<Rightarrow> u8)" where
  "memcpy_down 0 d s b = b"
| "memcpy_down (Suc n) d s b = memcpy_down n d s (b(d + of_nat n := b (s + of_nat n)))"

definition rt_memcpy :: "u32 \<Rightarrow> u32 \<Rightarrow> u32 \<Rightarrow> mh_mem \<Rightarrow> mh_mem" where
  "rt_memcpy dst src count m =
     (if dst \<le> src \<or> dst > src + count
      then m\<lparr>mm_bytes := memcpy_up (unat count) dst src (mm_bytes m)\<rparr>
      else m\<lparr>mm_bytes := memcpy_down (unat count) dst src (mm_bytes m)\<rparr>)"

section \<open>The rings\<close>

text \<open>
  Four sequences of assignments that the operations share: insert an item behind another one into
  the ring of blocks, put an item at the front of the free list, take an item out of the free list,
  and take one out of both rings.
\<close>

definition insert_block :: "u32 \<Rightarrow> u32 \<Rightarrow> mh_mem \<Rightarrow> mh_mem" where
  "insert_block header_ptr new_ptr m =
     (let m = set_prev new_ptr header_ptr m;
          m = set_next new_ptr (next_of m header_ptr) m;
          m = set_prev (next_of m header_ptr) new_ptr m
      in set_next header_ptr new_ptr m)"

definition insert_free :: "u32 \<Rightarrow> u32 \<Rightarrow> mh_mem \<Rightarrow> mh_mem" where
  "insert_free heap item m =
     (let fl = mh_free_list (mm_heaps m heap);
          m = set_next_free item (next_free_of m fl) m;
          m = set_prev_free item fl m;
          m = set_prev_free (next_free_of m fl) item m
      in set_next_free fl item m)"

definition remove_free :: "u32 \<Rightarrow> mh_mem \<Rightarrow> mh_mem" where
  "remove_free item m =
     (let m = set_prev_free (next_free_of m item) (prev_free_of m item) m
      in set_next_free (prev_free_of m item) (next_free_of m item) m)"

definition remove_next_ptr :: "u32 \<Rightarrow> mh_mem \<Rightarrow> mh_mem" where
  "remove_next_ptr next_ptr m =
     (let m = set_prev_free (next_free_of m next_ptr) (prev_free_of m next_ptr) m;
          m = set_next_free (prev_free_of m next_ptr) (next_free_of m next_ptr) m;
          m = set_prev (next_of m next_ptr) (prev_of m next_ptr) m
      in set_next (prev_of m next_ptr) (next_of m next_ptr) m)"

text \<open>The count of available bytes goes down, the maximum of the used bytes may go up.\<close>

definition take_available :: "u32 \<Rightarrow> u32 \<Rightarrow> mh_mem \<Rightarrow> mh_mem" where
  "take_available heap n m =
     (let m = upd_heap heap (\<lambda>hp. hp\<lparr>mh_available_size := mh_available_size hp - n\<rparr>) m;
          hp = mm_heaps m heap
      in if mh_pool_size hp - mh_available_size hp > mh_max_used_size hp
         then upd_heap heap (\<lambda>hp. hp\<lparr>mh_max_used_size := mh_pool_size hp - mh_available_size hp\<rparr>) m
         else m)"

definition add_available :: "u32 \<Rightarrow> u32 \<Rightarrow> mh_mem \<Rightarrow> mh_mem" where
  "add_available heap n = upd_heap heap (\<lambda>hp. hp\<lparr>mh_available_size := mh_available_size hp + n\<rparr>)"

section \<open>Initialisation\<close>

definition rt_memheap_init :: "u32 \<Rightarrow> u32 \<Rightarrow> u32 \<Rightarrow> mh_mem \<Rightarrow> u32 \<times> mh_mem" where
  "rt_memheap_init memheap start_addr n m =
     (if memheap = RT_NULL then (- RT_ERROR, m)
      else
        let pool = RT_ALIGN_DOWN n RT_ALIGN_SIZE;
            avail = pool - (2 * RT_MEMHEAP_SIZE);
            m = upd_heap memheap (\<lambda>hp. hp\<lparr>mh_start_addr := start_addr, mh_pool_size := pool,
                  mh_available_size := avail, mh_max_used_size := pool - avail\<rparr>) m;
            \<comment> \<open>the free list header\<close>
            item = free_header memheap;
            m = set_magic item (RT_MEMHEAP_MAGIC OR RT_MEMHEAP_FREED) m;
            m = set_pool item memheap m;
            m = set_next item RT_NULL m;
            m = set_prev item RT_NULL m;
            m = set_next_free item item m;
            m = set_prev_free item item m;
            m = upd_heap memheap (\<lambda>hp. hp\<lparr>mh_free_list := item\<rparr>) m;
            \<comment> \<open>the first big block\<close>
            item = start_addr;
            m = set_magic item (RT_MEMHEAP_MAGIC OR RT_MEMHEAP_FREED) m;
            m = set_pool item memheap m;
            m = set_next item RT_NULL m;
            m = set_prev item RT_NULL m;
            m = set_next_free item item m;
            m = set_prev_free item item m;
            m = set_next item (item + mh_available_size (mm_heaps m memheap) + RT_MEMHEAP_SIZE) m;
            m = set_prev item (next_of m item) m;
            m = upd_heap memheap (\<lambda>hp. hp\<lparr>mh_block_list := item\<rparr>) m;
            m = insert_free memheap item m;
            \<comment> \<open>the used block at the end\<close>
            item = next_of m item;
            m = set_magic item (RT_MEMHEAP_MAGIC OR RT_MEMHEAP_USED) m;
            m = set_pool item memheap m;
            m = set_next item start_addr m;
            m = set_prev item start_addr m;
            m = set_prev_free item RT_NULL m;
            m = set_next_free item RT_NULL m;
            m = upd_heap memheap (\<lambda>hp. hp\<lparr>mh_locked := RT_FALSE\<rparr>) m
        in (RT_EOK, m))"

section \<open>Allocation\<close>

text \<open>
  The search of the free list returns the item it stopped at and the last size it looked at; on a
  list that never comes back to the header it would not end.
\<close>

partial_function (option) search_free :: "mh_mem \<Rightarrow> u32 \<Rightarrow> u32 \<Rightarrow> u32 \<Rightarrow> u32 \<Rightarrow> (u32 \<times> u32) option" where
  "search_free m fl n header_ptr free_size =
     (if header_ptr \<noteq> fl \<and> free_size < n
      then let free_size = MEMITEM_SIZE m header_ptr
           in if free_size < n then search_free m fl n (next_free_of m header_ptr) free_size
              else search_free m fl n header_ptr free_size
      else Some (header_ptr, free_size))"

definition clear_free :: "u32 \<Rightarrow> mh_mem \<Rightarrow> mh_mem" where
  "clear_free item m = set_prev_free item RT_NULL (set_next_free item RT_NULL m)"

definition alloc_block :: "u32 \<Rightarrow> u32 \<Rightarrow> u32 \<Rightarrow> u32 \<Rightarrow> mh_mem \<Rightarrow> u32 \<times> mh_mem" where
  "alloc_block heap n header_ptr free_size m =
     (let m = (if free_size \<ge> n + RT_MEMHEAP_SIZE + RT_MEMHEAP_MINIALLOC
               then
                 let new_ptr = header_ptr + n + RT_MEMHEAP_SIZE;
                     m = set_magic new_ptr (RT_MEMHEAP_MAGIC OR RT_MEMHEAP_FREED) m;
                     m = set_pool new_ptr heap m;
                     m = insert_block header_ptr new_ptr m;
                     m = remove_free header_ptr m;
                     m = clear_free header_ptr m;
                     m = insert_free heap new_ptr m
                 in take_available heap (n + RT_MEMHEAP_SIZE) m
               else
                 let m = take_available heap free_size m;
                     m = remove_free header_ptr m
                 in clear_free header_ptr m);
          m = set_magic header_ptr (RT_MEMHEAP_MAGIC OR RT_MEMHEAP_USED) m
      in (header_ptr + RT_MEMHEAP_SIZE, m))"

definition align_request :: "u32 \<Rightarrow> u32" where
  "align_request n =
     (let n = RT_ALIGN n RT_ALIGN_SIZE in if n < RT_MEMHEAP_MINIALLOC then RT_MEMHEAP_MINIALLOC else n)"

definition rt_memheap_alloc :: "u32 \<Rightarrow> u32 \<Rightarrow> mh_mem \<Rightarrow> (u32 \<times> mh_mem) option" where
  "rt_memheap_alloc heap n m =
     (if heap = RT_NULL then Some (RT_NULL, m)
      else
        let n = align_request n
        in if n < mh_available_size (mm_heaps m heap)
           then do {
             let fl = mh_free_list (mm_heaps m heap);
             (header_ptr, free_size) \<leftarrow> search_free m fl n (next_free_of m fl) 0;
             Some (if free_size \<ge> n then alloc_block heap n header_ptr free_size m else (RT_NULL, m))
           }
           else Some (RT_NULL, m))"

section \<open>Release\<close>

text \<open>Merging with the previous block returns the header of the merged block.\<close>

definition merge_prev :: "u32 \<Rightarrow> u32 \<Rightarrow> mh_mem \<Rightarrow> u32 \<times> mh_mem" where
  "merge_prev heap header_ptr m =
     (if \<not> RT_MEMHEAP_IS_USED m (prev_of m header_ptr)
      then let m = add_available heap RT_MEMHEAP_SIZE m;
               m = set_next (prev_of m header_ptr) (next_of m header_ptr) m;
               m = set_prev (next_of m header_ptr) (prev_of m header_ptr) m
           in (prev_of m header_ptr, m)
      else (header_ptr, m))"

definition merge_next :: "u32 \<Rightarrow> u32 \<Rightarrow> mh_mem \<Rightarrow> mh_mem" where
  "merge_next heap header_ptr m =
     (if \<not> RT_MEMHEAP_IS_USED m (next_of m header_ptr)
      then let m = add_available heap RT_MEMHEAP_SIZE m;
               new_ptr = next_of m header_ptr;
               m = set_prev (next_of m new_ptr) header_ptr m;
               m = set_next header_ptr (next_of m new_ptr) m
           in remove_free new_ptr m
      else m)"

definition link_front :: "u32 \<Rightarrow> u32 \<Rightarrow> mh_mem \<Rightarrow> mh_mem" where
  "link_front heap header_ptr m =
     (let n = next_free_of m (mh_free_list (mm_heaps m heap));
          m = set_next_free header_ptr n m;
          m = set_prev_free header_ptr (prev_free_of m n) m;
          m = set_next_free (prev_free_of m n) header_ptr m
      in set_prev_free n header_ptr m)"

definition rt_memheap_free :: "u32 \<Rightarrow> mh_mem \<Rightarrow> mh_mem" where
  "rt_memheap_free ptr m =
     (let header_ptr = ptr - RT_MEMHEAP_SIZE; heap = pool_of m header_ptr
      in if ptr = RT_NULL then m
      else if magic_of m header_ptr \<noteq> (RT_MEMHEAP_MAGIC OR RT_MEMHEAP_USED)
              \<or> magic_of m (next_of m header_ptr) AND RT_MEMHEAP_MASK \<noteq> RT_MEMHEAP_MAGIC then m
      else if heap = RT_NULL then m
      else
        let m = set_magic header_ptr (RT_MEMHEAP_MAGIC OR RT_MEMHEAP_FREED) m;
            m = add_available heap (MEMITEM_SIZE m header_ptr) m;
            insert_header = RT_MEMHEAP_IS_USED m (prev_of m header_ptr);
            (header_ptr, m) = merge_prev heap header_ptr m;
            m = merge_next heap header_ptr m
        in if insert_header then link_front heap header_ptr m else m)"

section \<open>Resizing\<close>

definition realloc_grow :: "u32 \<Rightarrow> u32 \<Rightarrow> u32 \<Rightarrow> u32 \<Rightarrow> u32 \<Rightarrow> mh_mem \<Rightarrow> mh_mem" where
  "realloc_grow heap ptr newsize oldsize next_ptr m =
     (let header_ptr = ptr - RT_MEMHEAP_SIZE;
          m = take_available heap (newsize - oldsize) m;
          m = remove_next_ptr next_ptr m;
          next_ptr = ptr + newsize;
          m = set_magic next_ptr (RT_MEMHEAP_MAGIC OR RT_MEMHEAP_FREED) m;
          m = set_pool next_ptr heap m;
          m = insert_block header_ptr next_ptr m
      in insert_free heap next_ptr m)"

definition realloc_shrink :: "u32 \<Rightarrow> u32 \<Rightarrow> u32 \<Rightarrow> mh_mem \<Rightarrow> mh_mem" where
  "realloc_shrink heap ptr newsize m =
     (let header_ptr = ptr - RT_MEMHEAP_SIZE;
          new_ptr = header_ptr + newsize + RT_MEMHEAP_SIZE;
          m = set_magic new_ptr (RT_MEMHEAP_MAGIC OR RT_MEMHEAP_FREED) m;
          m = set_pool new_ptr heap m;
          m = insert_block header_ptr new_ptr m;
          m = (if \<not> RT_MEMHEAP_IS_USED m (next_of m new_ptr)
               then let free_ptr = next_of m new_ptr;
                        m = upd_heap heap (\<lambda>hp. hp\<lparr>mh_available_size :=
                              mh_available_size hp - MEMITEM_SIZE m free_ptr\<rparr>) m;
                        m = set_prev (next_of m free_ptr) new_ptr m;
                        m = set_next new_ptr (next_of m free_ptr) m
                    in remove_free free_ptr m
               else m);
          m = insert_free heap new_ptr m
      in add_available heap (MEMITEM_SIZE m new_ptr) m)"

definition rt_memheap_realloc :: "u32 \<Rightarrow> u32 \<Rightarrow> u32 \<Rightarrow> mh_mem \<Rightarrow> (u32 \<times> mh_mem) option" where
  "rt_memheap_realloc heap ptr newsize m =
     (if heap = RT_NULL then Some (RT_NULL, m)
      else if newsize = 0 then Some (RT_NULL, rt_memheap_free ptr m)
      else
        let newsize = align_request newsize
        in if ptr = RT_NULL then rt_memheap_alloc heap newsize m
        else
          let header_ptr = ptr - RT_MEMHEAP_SIZE;
              oldsize = MEMITEM_SIZE m header_ptr;
              next_ptr = next_of m header_ptr;
              nextsize = MEMITEM_SIZE m next_ptr
          in if newsize > oldsize
             then if next_ptr < header_ptr then Some (RT_NULL, m)
             else if \<not> RT_MEMHEAP_IS_USED m next_ptr \<and> next_ptr \<le> 0 then Some (RT_NULL, m)
             else if \<not> RT_MEMHEAP_IS_USED m next_ptr
                  \<and> nextsize + oldsize > newsize + RT_MEMHEAP_MINIALLOC
             then Some (ptr, realloc_grow heap ptr newsize oldsize next_ptr m)
             else do {
               (new_ptr, m) \<leftarrow> rt_memheap_alloc heap newsize m;
               Some (if new_ptr \<noteq> RT_NULL
                     then (new_ptr, rt_memheap_free ptr
                             (rt_memcpy new_ptr ptr (if oldsize < newsize then oldsize else newsize) m))
                     else (new_ptr, m))
             }
             else if newsize + RT_MEMHEAP_SIZE + RT_MEMHEAP_MINIALLOC \<ge> oldsize then Some (ptr, m)
             else Some (ptr, realloc_shrink heap ptr newsize m))"

section \<open>Information\<close>

text \<open>The three results; \<^term>\<open>None\<close> where the caller passes a null pointer.\<close>

definition rt_memheap_info :: "u32 \<Rightarrow> bool \<Rightarrow> bool \<Rightarrow> bool \<Rightarrow> mh_mem \<Rightarrow> u32 option \<times> u32 option \<times> u32 option" where
  "rt_memheap_info heap want_total want_used want_max m =
     (let hp = mm_heaps m heap
      in (if want_total then Some (mh_pool_size hp) else None,
          if want_used then Some (mh_pool_size hp - mh_available_size hp) else None,
          if want_max then Some (mh_max_used_size hp) else None))"

end
