(* ===== verification/Memheap_Ring.thy ===== *)
theory Memheap_Ring
  imports Memheap
begin

text \<open>
  The items as six functions from addresses to words, and rings of items: what inserting and
  removing does to a doubly linked ring, whichever pair of fields links it.
\<close>

section \<open>Fields\<close>

named_theorems field_simps_mh \<open>reading a field after an assignment\<close>

lemma magic_of_upd [field_simps_mh]:
  "magic_of (set_magic p v m) = (magic_of m)(p := v)"
  "magic_of (set_pool p v m) = magic_of m"
  "magic_of (set_next p v m) = magic_of m"
  "magic_of (set_prev p v m) = magic_of m"
  "magic_of (set_next_free p v m) = magic_of m"
  "magic_of (set_prev_free p v m) = magic_of m"
  "magic_of (upd_heap h k m) = magic_of m"
  "magic_of (add_available h n m) = magic_of m"
  "magic_of (take_available h n m) = magic_of m"
  by (simp_all add: fun_eq_iff magic_of_def take_available_def Let_def set_magic_def set_pool_def set_next_def set_prev_def set_next_free_def set_prev_free_def upd_item_def upd_heap_def add_available_def)

lemma pool_of_upd [field_simps_mh]:
  "pool_of (set_magic p v m) = pool_of m"
  "pool_of (set_pool p v m) = (pool_of m)(p := v)"
  "pool_of (set_next p v m) = pool_of m"
  "pool_of (set_prev p v m) = pool_of m"
  "pool_of (set_next_free p v m) = pool_of m"
  "pool_of (set_prev_free p v m) = pool_of m"
  "pool_of (upd_heap h k m) = pool_of m"
  "pool_of (add_available h n m) = pool_of m"
  "pool_of (take_available h n m) = pool_of m"
  by (simp_all add: fun_eq_iff pool_of_def take_available_def Let_def set_magic_def set_pool_def set_next_def set_prev_def set_next_free_def set_prev_free_def upd_item_def upd_heap_def add_available_def)

lemma next_of_upd [field_simps_mh]:
  "next_of (set_magic p v m) = next_of m"
  "next_of (set_pool p v m) = next_of m"
  "next_of (set_next p v m) = (next_of m)(p := v)"
  "next_of (set_prev p v m) = next_of m"
  "next_of (set_next_free p v m) = next_of m"
  "next_of (set_prev_free p v m) = next_of m"
  "next_of (upd_heap h k m) = next_of m"
  "next_of (add_available h n m) = next_of m"
  "next_of (take_available h n m) = next_of m"
  by (simp_all add: fun_eq_iff next_of_def take_available_def Let_def set_magic_def set_pool_def set_next_def set_prev_def set_next_free_def set_prev_free_def upd_item_def upd_heap_def add_available_def)

lemma prev_of_upd [field_simps_mh]:
  "prev_of (set_magic p v m) = prev_of m"
  "prev_of (set_pool p v m) = prev_of m"
  "prev_of (set_next p v m) = prev_of m"
  "prev_of (set_prev p v m) = (prev_of m)(p := v)"
  "prev_of (set_next_free p v m) = prev_of m"
  "prev_of (set_prev_free p v m) = prev_of m"
  "prev_of (upd_heap h k m) = prev_of m"
  "prev_of (add_available h n m) = prev_of m"
  "prev_of (take_available h n m) = prev_of m"
  by (simp_all add: fun_eq_iff prev_of_def take_available_def Let_def set_magic_def set_pool_def set_next_def set_prev_def set_next_free_def set_prev_free_def upd_item_def upd_heap_def add_available_def)

lemma next_free_of_upd [field_simps_mh]:
  "next_free_of (set_magic p v m) = next_free_of m"
  "next_free_of (set_pool p v m) = next_free_of m"
  "next_free_of (set_next p v m) = next_free_of m"
  "next_free_of (set_prev p v m) = next_free_of m"
  "next_free_of (set_next_free p v m) = (next_free_of m)(p := v)"
  "next_free_of (set_prev_free p v m) = next_free_of m"
  "next_free_of (upd_heap h k m) = next_free_of m"
  "next_free_of (add_available h n m) = next_free_of m"
  "next_free_of (take_available h n m) = next_free_of m"
  by (simp_all add: fun_eq_iff next_free_of_def take_available_def Let_def set_magic_def set_pool_def set_next_def set_prev_def set_next_free_def set_prev_free_def upd_item_def upd_heap_def add_available_def)

lemma prev_free_of_upd [field_simps_mh]:
  "prev_free_of (set_magic p v m) = prev_free_of m"
  "prev_free_of (set_pool p v m) = prev_free_of m"
  "prev_free_of (set_next p v m) = prev_free_of m"
  "prev_free_of (set_prev p v m) = prev_free_of m"
  "prev_free_of (set_next_free p v m) = prev_free_of m"
  "prev_free_of (set_prev_free p v m) = (prev_free_of m)(p := v)"
  "prev_free_of (upd_heap h k m) = prev_free_of m"
  "prev_free_of (add_available h n m) = prev_free_of m"
  "prev_free_of (take_available h n m) = prev_free_of m"
  by (simp_all add: fun_eq_iff prev_free_of_def take_available_def Let_def set_magic_def set_pool_def set_next_def set_prev_def set_next_free_def set_prev_free_def upd_item_def upd_heap_def add_available_def)

lemma heaps_upd [field_simps_mh]:
  "mm_heaps (set_magic p v m) = mm_heaps m"
  "mm_heaps (set_pool p v m) = mm_heaps m"
  "mm_heaps (set_next p v m) = mm_heaps m"
  "mm_heaps (set_prev p v m) = mm_heaps m"
  "mm_heaps (set_next_free p v m) = mm_heaps m"
  "mm_heaps (set_prev_free p v m) = mm_heaps m"
  by (simp_all add: take_available_def Let_def set_magic_def set_pool_def set_next_def set_prev_def set_next_free_def set_prev_free_def upd_item_def upd_heap_def add_available_def)

lemma bytes_upd [field_simps_mh]:
  "mm_bytes (set_magic p v m) = mm_bytes m"
  "mm_bytes (set_pool p v m) = mm_bytes m"
  "mm_bytes (set_next p v m) = mm_bytes m"
  "mm_bytes (set_prev p v m) = mm_bytes m"
  "mm_bytes (set_next_free p v m) = mm_bytes m"
  "mm_bytes (set_prev_free p v m) = mm_bytes m"
  "mm_bytes (upd_heap h k m) = mm_bytes m"
  "mm_bytes (add_available h n m) = mm_bytes m"
  "mm_bytes (take_available h n m) = mm_bytes m"
  by (simp_all add: take_available_def Let_def set_magic_def set_pool_def set_next_def set_prev_def set_next_free_def set_prev_free_def upd_item_def upd_heap_def add_available_def)

lemma heaps_upd_heap [field_simps_mh]: "mm_heaps (upd_heap h k m) = (mm_heaps m)(h := k (mm_heaps m h))"
  by (simp add: upd_heap_def)

lemma heaps_add_available [field_simps_mh]:
  "mm_heaps (add_available h n m) =
     (mm_heaps m)(h := (mm_heaps m h)\<lparr>mh_available_size := mh_available_size (mm_heaps m h) + n\<rparr>)"
  by (simp add: add_available_def upd_heap_def)

lemma heaps_take_available [field_simps_mh]:
  "mm_heaps (take_available h n m) =
     (mm_heaps m)(h := (mm_heaps m h)\<lparr>mh_available_size := mh_available_size (mm_heaps m h) - n,
        mh_max_used_size := max (mh_max_used_size (mm_heaps m h))
          (mh_pool_size (mm_heaps m h) - (mh_available_size (mm_heaps m h) - n))\<rparr>)"
  by (auto simp: take_available_def Let_def upd_heap_def fun_eq_iff max_def)

section \<open>Chains and rings\<close>

text \<open>Neighbours in the list are linked in both directions.\<close>

fun chain :: "(u32 \<Rightarrow> u32) \<Rightarrow> (u32 \<Rightarrow> u32) \<Rightarrow> u32 list \<Rightarrow> bool" where
  "chain nx pv (x # y # zs) \<longleftrightarrow> nx x = y \<and> pv y = x \<and> chain nx pv (y # zs)"
| "chain nx pv _ \<longleftrightarrow> True"

definition ring :: "(u32 \<Rightarrow> u32) \<Rightarrow> (u32 \<Rightarrow> u32) \<Rightarrow> u32 list \<Rightarrow> bool" where
  "ring nx pv xs \<longleftrightarrow> xs \<noteq> [] \<and> distinct xs \<and> chain nx pv (xs @ [hd xs])"

lemma chain_append: "chain nx pv (xs @ y # zs) \<longleftrightarrow> chain nx pv (xs @ [y]) \<and> chain nx pv (y # zs)"
  by (induction xs rule: chain.induct [where ?a0.0 = nx and ?a1.0 = pv, case_names _ _ _])
    (auto elim: chain.elims)

lemma chain_cong:
  "chain nx pv xs \<Longrightarrow> (\<And>x. x \<in> set (butlast xs) \<Longrightarrow> nx' x = nx x) \<Longrightarrow>
   (\<And>x. x \<in> set (tl xs) \<Longrightarrow> pv' x = pv x) \<Longrightarrow> chain nx' pv' xs"
proof (induction nx pv xs rule: chain.induct)
  case (1 nx pv x y zs)
  then show ?case by (cases zs) auto
qed auto

lemma ring_cong:
  assumes "ring nx pv xs" and "\<And>x. x \<in> set xs \<Longrightarrow> nx' x = nx x" and "\<And>x. x \<in> set xs \<Longrightarrow> pv' x = pv x"
  shows "ring nx' pv' xs"
  using assms chain_cong [of nx pv "xs @ [hd xs]" nx' pv'] by (cases xs) (auto simp: ring_def butlast_append)

lemma ring_distinct: "ring nx pv xs \<Longrightarrow> distinct xs"
  by (simp add: ring_def)

text \<open>A ring around the place behind \<open>a\<close>: the successor \<open>c\<close> and the rest of the chain.\<close>

lemma ring_split:
  assumes "ring nx pv (xs @ a # ys)"
  obtains c zs where "ys @ [hd (xs @ [a])] = c # zs" "nx a = c" "pv c = a"
    "chain nx pv (xs @ [a])" "chain nx pv (c # zs)" "distinct (xs @ a # ys)"
    "c \<notin> set (tl (xs @ [a]))" "c \<notin> set zs" "set (butlast (c # zs)) = set ys" "c \<in> insert a (set xs \<union> set ys)"
    "set zs \<subseteq> insert a (set xs \<union> set ys)"
proof -
  define h where "h = hd (xs @ [a])"
  obtain c zs where cz: "ys @ [h] = c # zs" by (cases "ys @ [h]") auto
  have hd: "hd (xs @ a # ys) = h" by (simp add: h_def hd_append)
  have ch: "chain nx pv (xs @ a # ys @ [h])" and d: "distinct (xs @ a # ys)"
    using assms hd by (auto simp: ring_def)
  then have 1: "chain nx pv (xs @ [a])" and 2: "chain nx pv (a # c # zs)"
    using chain_append [of nx pv xs a "ys @ [h]"] cz by auto
  have hin: "h \<in> insert a (set xs)" and htl: "h \<notin> set (tl (xs @ [a]))"
    using d by (cases xs; auto simp: h_def)+
  have 3: "c \<notin> set (tl (xs @ [a]))"
    using cz d htl by (cases ys; cases xs; auto)
  have 4: "c \<notin> set zs"
    using cz d hin by (cases ys) auto
  have 5: "set (butlast (c # zs)) = set ys"
    unfolding cz [symmetric] by simp
  have 6: "set (c # zs) \<subseteq> insert a (set xs \<union> set ys)"
    unfolding cz [symmetric] using hin by auto
  show ?thesis
    by (rule that [OF cz [unfolded h_def]]) (use 1 2 3 4 5 6 d in auto)
qed

lemma hd_middle: "hd (xs @ a # ys) = hd (xs @ [a])"
  by (cases xs) auto

lemma chain_hd: "ys @ [h] = c # zs \<Longrightarrow> chain nx pv (xs @ a # ys @ [h]) \<longleftrightarrow>
    chain nx pv (xs @ [a]) \<and> nx a = c \<and> pv c = a \<and> chain nx pv (c # zs)"
  using chain_append [of nx pv xs a "ys @ [h]"] by auto

lemma ring_insert:
  assumes r: "ring nx pv (xs @ a # ys)" and n: "n \<notin> set (xs @ a # ys)"
  shows "ring (nx(n := nx a, a := n)) (pv(n := a, nx a := n)) (xs @ a # n # ys)"
proof -
  obtain c zs where s: "ys @ [hd (xs @ [a])] = c # zs" "nx a = c" "pv c = a"
    "chain nx pv (xs @ [a])" "chain nx pv (c # zs)" "distinct (xs @ a # ys)"
    "c \<notin> set (tl (xs @ [a]))" "c \<notin> set zs" "set (butlast (c # zs)) = set ys" "c \<in> insert a (set xs \<union> set ys)"
    "set zs \<subseteq> insert a (set xs \<union> set ys)"
    using r by (rule ring_split)
  let ?nx = "nx(n := nx a, a := n)" and ?pv = "pv(n := a, nx a := n)"
  have cn: "c \<noteq> n" using s n by auto
  have 1: "chain ?nx ?pv (xs @ [a])"
    using s(4) by (rule chain_cong) (use s n in \<open>auto dest: list.set_sel(2)\<close>, (cases xs; auto)+)
  have 2: "chain ?nx ?pv (c # zs)"
    using s(5) by (rule chain_cong) (use s n in auto)
  have "chain ?nx ?pv (xs @ a # (n # ys) @ [hd (xs @ [a])])"
    using chain_hd [of "n # ys" "hd (xs @ [a])" n "c # zs" ?nx ?pv xs a] s 1 2 cn n by auto
  then show ?thesis
    unfolding ring_def hd_middle [of xs a "n # ys"] using s(6) n by auto
qed

lemma ring_remove:
  assumes r: "ring nx pv (xs @ a # b # ys)"
  shows "ring (nx(a := nx b)) (pv(nx b := a)) (xs @ a # ys)"
proof -
  have r': "ring nx pv ((xs @ [a]) @ b # ys)" using r by simp
  obtain c zs where s: "ys @ [hd ((xs @ [a]) @ [b])] = c # zs" "nx b = c" "pv c = b"
    "chain nx pv ((xs @ [a]) @ [b])" "chain nx pv (c # zs)" "distinct ((xs @ [a]) @ b # ys)"
    "c \<notin> set (tl ((xs @ [a]) @ [b]))" "c \<notin> set zs" "set (butlast (c # zs)) = set ys"
    "c \<in> insert b (set (xs @ [a]) \<union> set ys)" "set zs \<subseteq> insert b (set (xs @ [a]) \<union> set ys)"
    using r' by (rule ring_split)
  let ?nx = "nx(a := nx b)" and ?pv = "pv(nx b := a)"
  have h: "hd ((xs @ [a]) @ [b]) = hd (xs @ [a])" by (cases xs) auto
  have ab: "chain nx pv (xs @ [a])"
    using s(4) chain_append [of nx pv xs a "[b]"] by simp
  have 1: "chain ?nx ?pv (xs @ [a])"
    using ab by (rule chain_cong) (use s in \<open>auto\<close>, (cases xs; auto)+)
  have 2: "chain ?nx ?pv (c # zs)"
    using s(5) by (rule chain_cong) (use s in auto)
  have "chain ?nx ?pv (xs @ a # ys @ [hd (xs @ [a])])"
    using chain_hd [of ys "hd (xs @ [a])" c zs ?nx ?pv xs a] s(1,2) h 1 2 by auto
  then show ?thesis
    unfolding ring_def hd_middle [of xs a ys] using s(6) by auto
qed

lemma ring_next: "ring nx pv (xs @ a # b # ys) \<Longrightarrow> nx a = b \<and> pv b = a"
  by (erule ring_split) auto

lemma ring_last: "ring nx pv (xs @ [a]) \<Longrightarrow> nx a = hd (xs @ [a]) \<and> pv (hd (xs @ [a])) = a"
  by (erule ring_split) auto

lemma ring_hd_prev:
  assumes r: "ring nx pv xs"
  shows "pv (hd xs) = last xs"
proof -
  obtain ys z where xs: "xs = ys @ [z]" using r by (cases xs rule: rev_cases) (auto simp: ring_def)
  show ?thesis using ring_last [of nx pv ys z] r by (simp add: xs)
qed

lemma ring_next_in:
  assumes r: "ring nx pv xs" and a: "a \<in> set xs"
  shows "nx a \<in> set xs"
proof -
  obtain us vs where xs: "xs = us @ a # vs" using a by (auto simp: in_set_conv_decomp)
  show ?thesis
    using r [unfolded xs] by (rule ring_split) (auto simp: xs)
qed

end
