(* ===== verification/Memheap_Facts.thy ===== *)
theory Memheap_Facts
  imports Memheap_Ring
begin

text \<open>
  The invariant of a heap, \<open>heap_inv\<close>, relates its memory to the list of its blocks in the order of
  their addresses and to its free list; allocation, release and resizing keep it.
\<close>

section \<open>Constants\<close>

lemma mh_consts [simp]:
  "RT_MEMHEAP_SIZE = 24" "RT_MEMHEAP_MINIALLOC = 12" "RT_NULL = 0" "RT_ALIGN_SIZE = 4"
  "RT_MEMHEAP_MAGIC OR RT_MEMHEAP_FREED = 0x1ea01ea0" "RT_MEMHEAP_MAGIC OR RT_MEMHEAP_USED = 0x1ea01ea1"
  by (simp_all add: RT_MEMHEAP_SIZE_def RT_ALIGN_def RT_ALIGN_SIZE_def RT_MEMHEAP_MINIALLOC_def RT_NULL_def
      RT_MEMHEAP_MAGIC_def RT_MEMHEAP_FREED_def RT_MEMHEAP_USED_def)

lemma used_iff [simp]:
  "magic_of m a = 0x1ea01ea0 \<Longrightarrow> \<not> RT_MEMHEAP_IS_USED m a"
  "magic_of m a = 0x1ea01ea1 \<Longrightarrow> RT_MEMHEAP_IS_USED m a"
  by (simp_all add: RT_MEMHEAP_IS_USED_def RT_MEMHEAP_USED_def)

lemma and_not_3: "x AND NOT 3 = push_bit 2 (drop_bit 2 (x :: u32))"
proof -
  have m: "(3 :: u32) = mask 2" by (simp add: mask_eq_exp_minus_1)
  show ?thesis
    unfolding m by (rule bit_word_eqI) (auto simp: bit_push_bit_iff bit_drop_bit_eq bit_and_iff bit_not_iff
        bit_mask_iff not_less le_iff_add dest: bit_u32_lt)
qed

lemma unat_and_not_3: "unat (x AND - 4 :: u32) = 4 * (unat x div 4)"
proof -
  have "x AND - 4 = 4 * (x div 4)" using and_not_3 [of x] by (simp add: push_bit_eq_mult drop_bit_eq_div)
  moreover have "unat x < 2 ^ 32" using unsigned_less [of x] by simp
  ultimately show ?thesis
    by (simp add: unat_word_ariths unat_div_distrib)
qed

lemma align_request_eq: "align_request n =
   (if unat ((n + 3) AND - 4) < 12 then 12 else (n + 3) AND - 4)"
  by (simp add: align_request_def Let_def RT_ALIGN_def word_less_nat_alt add.commute [of 3 n])

lemma align_request_props: "12 \<le> unat (align_request n)" "4 dvd unat (align_request n)"
  unfolding align_request_eq unat_and_not_3 by (auto simp del: unat_and_not_3 simp: unat_and_not_3)

lemma align_request_ge:
  assumes "unat n \<le> 2 ^ 32 - 4"
  shows "unat (align_request n) = max 12 (4 * ((unat n + 3) div 4))"
proof -
  have "unat (n + 3) = unat n + 3" by (subst unat_add_no_wrap) (use assms in auto)
  then show ?thesis
    unfolding align_request_eq by (simp add: unat_and_not_3 max_def)
qed

section \<open>The derived fields\<close>

lemma insert_block_fields [field_simps_mh]:
  "n \<noteq> a \<Longrightarrow> next_of (insert_block a n m) = (next_of m)(n := next_of m a, a := n)"
  "n \<noteq> a \<Longrightarrow> prev_of (insert_block a n m) = (prev_of m)(n := a, next_of m a := n)"
  "magic_of (insert_block a n m) = magic_of m" "pool_of (insert_block a n m) = pool_of m"
  "next_free_of (insert_block a n m) = next_free_of m" "prev_free_of (insert_block a n m) = prev_free_of m"
  "mm_heaps (insert_block a n m) = mm_heaps m" "mm_bytes (insert_block a n m) = mm_bytes m"
  by (simp_all add: insert_block_def Let_def field_simps_mh)

lemma insert_free_fields [field_simps_mh]:
  "n \<noteq> mh_free_list (mm_heaps m h) \<Longrightarrow> next_free_of (insert_free h n m) =
     (next_free_of m)(n := next_free_of m (mh_free_list (mm_heaps m h)), mh_free_list (mm_heaps m h) := n)"
  "n \<noteq> mh_free_list (mm_heaps m h) \<Longrightarrow> prev_free_of (insert_free h n m) =
     (prev_free_of m)(n := mh_free_list (mm_heaps m h), next_free_of m (mh_free_list (mm_heaps m h)) := n)"
  "magic_of (insert_free h n m) = magic_of m" "pool_of (insert_free h n m) = pool_of m"
  "next_of (insert_free h n m) = next_of m" "prev_of (insert_free h n m) = prev_of m"
  "mm_heaps (insert_free h n m) = mm_heaps m" "mm_bytes (insert_free h n m) = mm_bytes m"
  by (simp_all add: insert_free_def Let_def field_simps_mh)

lemma remove_free_fields [field_simps_mh]:
  "next_free_of (remove_free b m) = (next_free_of m)(prev_free_of m b := next_free_of m b)"
  "prev_free_of (remove_free b m) = (prev_free_of m)(next_free_of m b := prev_free_of m b)"
  "magic_of (remove_free b m) = magic_of m" "pool_of (remove_free b m) = pool_of m"
  "next_of (remove_free b m) = next_of m" "prev_of (remove_free b m) = prev_of m"
  "mm_heaps (remove_free b m) = mm_heaps m" "mm_bytes (remove_free b m) = mm_bytes m"
  by (simp_all add: remove_free_def Let_def field_simps_mh)

lemma clear_free_fields [field_simps_mh]:
  "next_free_of (clear_free b m) = (next_free_of m)(b := 0)"
  "prev_free_of (clear_free b m) = (prev_free_of m)(b := 0)"
  "magic_of (clear_free b m) = magic_of m" "pool_of (clear_free b m) = pool_of m"
  "next_of (clear_free b m) = next_of m" "prev_of (clear_free b m) = prev_of m"
  "mm_heaps (clear_free b m) = mm_heaps m" "mm_bytes (clear_free b m) = mm_bytes m"
  by (simp_all add: clear_free_def field_simps_mh)

lemma remove_next_ptr_split:
  "remove_next_ptr b m = set_next (prev_of m b) (next_of m b) (set_prev (next_of m b) (prev_of m b) (remove_free b m))"
  by (simp add: remove_next_ptr_def remove_free_def Let_def field_simps_mh)

lemma MEMITEM_SIZE_fields:
  "next_of m' a = next_of m a \<Longrightarrow> MEMITEM_SIZE m' a = MEMITEM_SIZE m a"
  by (simp add: MEMITEM_SIZE_def)

section \<open>The ring of blocks\<close>

definition gap :: "u32 \<Rightarrow> u32 \<Rightarrow> bool" where
  "gap x y \<longleftrightarrow> unat x + 36 \<le> unat y"

lemma gap_trans: "gap x y \<Longrightarrow> gap y z \<Longrightarrow> gap x z"
  by (simp add: gap_def)

lemma gap_le: "gap x y \<Longrightarrow> unat x \<le> unat y"
  by (simp add: gap_def)

text \<open>
  The blocks \<open>bs\<close> of heap \<open>h\<close>, the last one is the empty block at the end of the pool; \<open>F\<close> are the
  free ones.
\<close>

definition blocks_ok :: "mh_mem \<Rightarrow> u32 \<Rightarrow> u32 list \<Rightarrow> u32 set \<Rightarrow> bool" where
  "blocks_ok m h bs F \<longleftrightarrow>
     ring (next_of m) (prev_of m) bs \<and> sorted_wrt gap bs \<and> F \<subseteq> set (butlast bs)
     \<and> (\<forall>a \<in> set bs. 4 dvd unat a \<and> pool_of m a = h \<and> magic_of m a = (if a \<in> F then 0x1ea01ea0 else 0x1ea01ea1))
     \<and> unat (last bs) + 24 < 2 ^ 32
     \<and> (unat (free_header h) < unat (hd bs) \<or> unat (last bs) < unat (free_header h))"

lemma blocks_okI:
  assumes "ring (next_of m) (prev_of m) bs" "sorted_wrt gap bs" "F \<subseteq> set (butlast bs)"
    "\<And>a. a \<in> set bs \<Longrightarrow> 4 dvd unat a" "\<And>a. a \<in> set bs \<Longrightarrow> pool_of m a = h"
    "\<And>a. a \<in> set bs \<Longrightarrow> magic_of m a = (if a \<in> F then 0x1ea01ea0 else 0x1ea01ea1)"
    "unat (last bs) + 24 < 2 ^ 32" "unat (free_header h) < unat (hd bs) \<or> unat (last bs) < unat (free_header h)"
  shows "blocks_ok m h bs F"
  using assms by (simp add: blocks_ok_def)

lemma blocks_okD:
  assumes "blocks_ok m h bs F"
  shows "ring (next_of m) (prev_of m) bs" "sorted_wrt gap bs" "F \<subseteq> set (butlast bs)"
    "a \<in> set bs \<Longrightarrow> 4 dvd unat a" "a \<in> set bs \<Longrightarrow> pool_of m a = h"
    "a \<in> set bs \<Longrightarrow> magic_of m a = (if a \<in> F then 0x1ea01ea0 else 0x1ea01ea1)"
    "unat (last bs) + 24 < 2 ^ 32" "unat (free_header h) < unat (hd bs) \<or> unat (last bs) < unat (free_header h)"
  using assms by (simp_all add: blocks_ok_def)

lemma blocks_cong:
  "blocks_ok m h bs F \<Longrightarrow> next_of m' = next_of m \<Longrightarrow> prev_of m' = prev_of m \<Longrightarrow> magic_of m' = magic_of m \<Longrightarrow>
   pool_of m' = pool_of m \<Longrightarrow> blocks_ok m' h bs F"
  by (simp add: blocks_ok_def)

lemma blocks_insert:
  assumes b: "blocks_ok m h (xs @ a # c # ys) F" and n: "gap a n" "gap n c" "4 dvd unat n"
    and m': "next_of m' = (next_of m)(n := next_of m a, a := n)" "prev_of m' = (prev_of m)(n := a, next_of m a := n)"
      "magic_of m' = (magic_of m)(n := 0x1ea01ea0)" "pool_of m' = (pool_of m)(n := h)"
  shows "blocks_ok m' h (xs @ a # n # c # ys) (insert n F)"
proof (rule blocks_okI)
  note D = blocks_okD [OF b]
  show s: "sorted_wrt gap (xs @ a # n # c # ys)"
    using D(2) n by (auto simp: sorted_wrt_append dest: gap_trans)
  have nin: "n \<notin> set (xs @ a # c # ys)"
    using s by (auto simp: sorted_wrt_append gap_def)
  show "ring (next_of m') (prev_of m') (xs @ a # n # c # ys)"
    unfolding m' using D(1) nin by (rule ring_insert)
  show "insert n F \<subseteq> set (butlast (xs @ a # n # c # ys))"
    using D(3) by (auto simp: butlast_append)
  show "unat (last (xs @ a # n # c # ys)) + 24 < 2 ^ 32" using D(7) by simp
  show "unat (free_header h) < unat (hd (xs @ a # n # c # ys)) \<or>
      unat (last (xs @ a # n # c # ys)) < unat (free_header h)"
    using D(8) by (cases xs) auto
  fix x assume x: "x \<in> set (xs @ a # n # c # ys)"
  then have x': "x = n \<or> x \<in> set (xs @ a # c # ys)" by auto
  show "4 dvd unat x" using x' D(4) n(3) by blast
  show "pool_of m' x = h" using x' D(5) m' by auto
  have "x \<noteq> n \<longrightarrow> magic_of m x = (if x \<in> F then 0x1ea01ea0 else 0x1ea01ea1)" using x' D(6) by blast
  then show "magic_of m' x = (if x \<in> insert n F then 0x1ea01ea0 else 0x1ea01ea1)"
    unfolding m' by simp
qed

lemma blocks_remove:
  assumes b: "blocks_ok m h (xs @ a # n # c # ys) F"
    and m': "next_of m' = (next_of m)(a := next_of m n)" "prev_of m' = (prev_of m)(next_of m n := a)"
      "magic_of m' = magic_of m" "pool_of m' = pool_of m"
  shows "blocks_ok m' h (xs @ a # c # ys) (F - {n})"
proof (rule blocks_okI)
  note D = blocks_okD [OF b]
  show "sorted_wrt gap (xs @ a # c # ys)"
    using D(2) by (auto simp: sorted_wrt_append)
  have nin: "n \<notin> set (xs @ a # c # ys)"
    using D(2) by (auto simp: sorted_wrt_append gap_def)
  show "ring (next_of m') (prev_of m') (xs @ a # c # ys)"
    unfolding m' using D(1) by (rule ring_remove)
  show "F - {n} \<subseteq> set (butlast (xs @ a # c # ys))"
    using D(3) by (auto simp: butlast_append)
  show "unat (last (xs @ a # c # ys)) + 24 < 2 ^ 32" using D(7) by simp
  show "unat (free_header h) < unat (hd (xs @ a # c # ys)) \<or>
      unat (last (xs @ a # c # ys)) < unat (free_header h)"
    using D(8) by (cases xs) auto
  fix x assume x: "x \<in> set (xs @ a # c # ys)"
  then have x': "x \<noteq> n" "x \<in> set (xs @ a # n # c # ys)" using nin by auto
  show "4 dvd unat x" using x' D(4) by blast
  show "pool_of m' x = h" using x' D(5) m' by simp
  show "magic_of m' x = (if x \<in> F - {n} then 0x1ea01ea0 else 0x1ea01ea1)"
    using x' D(6) m' by simp
qed

lemma blocks_mark:
  assumes b: "blocks_ok m h bs F" and a: "a \<in> set (butlast bs)"
    and m': "next_of m' = next_of m" "prev_of m' = prev_of m" "pool_of m' = pool_of m"
  shows "magic_of m' = (magic_of m)(a := 0x1ea01ea1) \<Longrightarrow> blocks_ok m' h bs (F - {a})"
    and "magic_of m' = (magic_of m)(a := 0x1ea01ea0) \<Longrightarrow> blocks_ok m' h bs (insert a F)"
  using b a by (auto simp: blocks_ok_def m')

section \<open>The free list\<close>

definition free_ok :: "mh_mem \<Rightarrow> u32 \<Rightarrow> u32 list \<Rightarrow> bool" where
  "free_ok m h fs \<longleftrightarrow> ring (next_free_of m) (prev_free_of m) (free_header h # fs)
     \<and> mh_free_list (mm_heaps m h) = free_header h"

lemma free_cong:
  "free_ok m h fs \<Longrightarrow> (\<And>f. f \<in> set (free_header h # fs) \<Longrightarrow> next_free_of m' f = next_free_of m f) \<Longrightarrow>
   (\<And>f. f \<in> set (free_header h # fs) \<Longrightarrow> prev_free_of m' f = prev_free_of m f) \<Longrightarrow>
   mh_free_list (mm_heaps m' h) = mh_free_list (mm_heaps m h) \<Longrightarrow> free_ok m' h fs"
  using ring_cong [of "next_free_of m" "prev_free_of m" "free_header h # fs" "next_free_of m'" "prev_free_of m'"]
  by (simp add: free_ok_def)

lemma free_remove:
  assumes f: "free_ok m h (us @ b # vs)"
  shows "free_ok (remove_free b m) h (us @ vs)"
proof -
  obtain p ps where ps: "free_header h # us = ps @ [p]" by (metis rev_exhaust list.distinct(1))
  have r: "ring (next_free_of m) (prev_free_of m) (ps @ p # b # vs)"
    using f ps by (metis free_ok_def append_Cons append_assoc append.simps(1))
  have "ring ((next_free_of m)(p := next_free_of m b)) ((prev_free_of m)(next_free_of m b := p)) (ps @ p # vs)"
    using r by (rule ring_remove)
  moreover have "prev_free_of m b = p" using ring_next [OF r] by simp
  moreover have "ps @ p # vs = free_header h # us @ vs" using ps by (metis append_Cons append_assoc append.simps(1))
  ultimately show ?thesis using f by (simp add: free_ok_def field_simps_mh)
qed

lemma free_insert:
  assumes f: "free_ok m h fs" and n: "n \<notin> set (free_header h # fs)"
  shows "free_ok (insert_free h n m) h (n # fs)"
  using f n ring_insert [of "next_free_of m" "prev_free_of m" "[]" "free_header h" fs n]
  by (simp add: free_ok_def field_simps_mh)

section \<open>The invariant\<close>

definition apart :: "u32 set \<Rightarrow> u32 list \<Rightarrow> bool" where
  "apart F bs \<longleftrightarrow> successively (\<lambda>x y. x \<notin> F \<or> y \<notin> F) bs"

definition heap_core :: "mh_mem \<Rightarrow> u32 \<Rightarrow> u32 list \<Rightarrow> u32 list \<Rightarrow> bool" where
  "heap_core m h bs fs \<longleftrightarrow>
     h \<noteq> 0 \<and> blocks_ok m h bs (set fs) \<and> free_ok m h fs \<and> apart (set fs) bs \<and> 2 \<le> length bs
     \<and> mh_start_addr (mm_heaps m h) = hd bs
     \<and> mh_pool_size (mm_heaps m h) = last bs + 24 - hd bs
     \<and> mh_available_size (mm_heaps m h) = sum_list (map (MEMITEM_SIZE m) fs)"

definition heap_inv :: "mh_mem \<Rightarrow> u32 \<Rightarrow> u32 list \<Rightarrow> u32 list \<Rightarrow> bool" where
  "heap_inv m h bs fs \<longleftrightarrow> heap_core m h bs fs
     \<and> mh_pool_size (mm_heaps m h) - mh_available_size (mm_heaps m h) \<le> mh_max_used_size (mm_heaps m h)"

text \<open>The allocated blocks with their sizes.\<close>

definition live :: "mh_mem \<Rightarrow> u32 list \<Rightarrow> u32 list \<Rightarrow> u32 \<Rightarrow> nat option" where
  "live m bs fs a = (if a \<in> set (butlast bs) - set fs then Some (unat (MEMITEM_SIZE m a)) else None)"

lemma apart_append: "apart F (xs @ ys) \<longleftrightarrow> apart F xs \<and> apart F ys \<and>
    (xs = [] \<or> ys = [] \<or> last xs \<notin> F \<or> hd ys \<notin> F)"
  by (auto simp: apart_def successively_append_iff)

lemma apart_Cons: "apart F (x # xs) \<longleftrightarrow> apart F xs \<and> (xs = [] \<or> x \<notin> F \<or> hd xs \<notin> F)"
  by (cases xs) (auto simp: apart_def)

lemma apart_mono: "apart F xs \<Longrightarrow> G \<inter> set xs \<subseteq> F \<Longrightarrow> apart G xs"
  unfolding apart_def by (erule successively_mono) auto

lemma apart_Nil [simp]: "apart F []"
  by (simp add: apart_def)

lemma apart_cut: "apart F (xs @ a # ys) \<longleftrightarrow> apart F (xs @ [a]) \<and> apart F (a # ys)"
  by (auto simp: apart_append apart_Cons)

lemma apart_insert:
  assumes ap: "apart F (xs @ a # c # ys)" and k: "k \<notin> set (xs @ a # c # ys)" "a \<notin> G" "G \<subseteq> insert k F" "a \<in> F"
  shows "apart G (xs @ a # k # c # ys)"
proof -
  have 1: "apart F (xs @ [a])" "apart F (a # c # ys)" using ap by (simp_all add: apart_cut [of F xs a "c # ys"])
  then have 2: "c \<notin> F" "apart F (c # ys)" using k(4) by (simp_all add: apart_Cons)
  have 3: "apart G (xs @ [a])" using 1(1) by (rule apart_mono) (use k in auto)
  have 4: "apart G (c # ys)" using 2(2) by (rule apart_mono) (use k in auto)
  have "c \<notin> G" using 2 k by auto
  then show ?thesis
    using 3 4 k(2) by (subst apart_cut) (simp add: apart_Cons)
qed

lemma butlast_split:
  assumes "a \<in> set (butlast bs)"
  obtains xs c ys where "bs = xs @ a # c # ys"
proof -
  have "bs \<noteq> []" using assms by auto
  then have bs: "bs = butlast bs @ [last bs]" by simp
  obtain xs ys where "butlast bs = xs @ a # ys" using assms by (auto simp: in_set_conv_decomp)
  then have "bs = xs @ a # ys @ [last bs]" using bs by simp
  then show ?thesis by (cases ys) (auto intro: that)
qed

lemma block_between:
  assumes b: "blocks_ok m h (xs @ a # c # ys) F"
  shows "next_of m a = c" "prev_of m c = a" "unat a + 36 \<le> unat c" "unat c + 24 < 2 ^ 32"
    "MEMITEM_SIZE m a = c - a - 24" "unat (MEMITEM_SIZE m a) = unat c - unat a - 24"
    "4 dvd unat (MEMITEM_SIZE m a)" "free_header h \<notin> set (xs @ a # c # ys)"
    "\<And>n. unat a \<le> unat n \<Longrightarrow> unat n \<le> unat c \<Longrightarrow> n \<noteq> free_header h"
proof -
  note D = blocks_okD [OF b]
  show nx: "next_of m a = c" "prev_of m c = a" using ring_next [OF D(1)] by auto
  show g: "unat a + 36 \<le> unat c" using D(2) by (auto simp: sorted_wrt_append gap_def)
  have l: "y \<in> set (c # ys) \<Longrightarrow> unat y \<le> unat (last (c # ys))" for y
  proof -
    assume "y \<in> set (c # ys)"
    then obtain us vs where u: "c # ys = us @ y # vs" by (meson split_list)
    have "sorted_wrt gap (us @ y # vs)" using D(2) u by (simp add: sorted_wrt_append)
    then show ?thesis unfolding u by (cases vs rule: rev_cases) (auto simp: sorted_wrt_append gap_def)
  qed
  show c: "unat c + 24 < 2 ^ 32" using D(7) l [of c] by simp
  show sz: "MEMITEM_SIZE m a = c - a - 24" by (simp add: MEMITEM_SIZE_def nx)
  have "unat (c - a) = unat c - unat a" using g by (intro unat_sub_le) (simp add: word_le_nat_alt)
  moreover have "unat ((c - a) - 24) = unat (c - a) - unat (24 :: u32)"
    by (rule unat_sub_le) (use g calculation in \<open>simp add: word_le_nat_alt\<close>)
  ultimately show us: "unat (MEMITEM_SIZE m a) = unat c - unat a - 24" by (simp add: sz)
  have "4 dvd unat c" "4 dvd unat a" using D(4) by auto
  then show "4 dvd unat (MEMITEM_SIZE m a)" unfolding us by (auto intro!: dvd_diff_nat)
  have hd: "x \<in> set (xs @ a # c # ys) \<Longrightarrow> unat (hd (xs @ a # c # ys)) \<le> unat x" for x
    using D(2) by (cases xs) (auto intro: gap_le)
  have la: "x \<in> set (xs @ a # c # ys) \<Longrightarrow> unat x \<le> unat (last (xs @ a # c # ys))" for x
  proof -
    assume "x \<in> set (xs @ a # c # ys)"
    then consider "x \<in> set (c # ys)" | "x \<in> insert a (set xs)" by auto
    then show ?thesis
    proof cases
      case 2
      then have "unat x \<le> unat c" using D(2) by (auto simp: sorted_wrt_append gap_def)
      then show ?thesis using l [of c] by simp
    qed (use l [of x] in simp)
  qed
  show "free_header h \<notin> set (xs @ a # c # ys)"
    using D(8) hd [of "free_header h"] la [of "free_header h"] by linarith
  show "n \<noteq> free_header h" if "unat a \<le> unat n" "unat n \<le> unat c" for n
  proof -
    have "unat (hd (xs @ a # c # ys)) \<le> unat n" "unat n \<le> unat (last (xs @ a # c # ys))"
      using hd [of a] la [of c] that by auto
    then show ?thesis using D(8) by auto
  qed
qed

lemma set_butlast_subset: "set (butlast xs) \<subseteq> set xs"
  by (auto dest: in_set_butlastD)

lemma fs_in_blocks: "blocks_ok m h bs (set fs) \<Longrightarrow> f \<in> set fs \<Longrightarrow> f \<in> set (butlast bs)"
  using blocks_okD(3) by blast

section \<open>Accounting\<close>

lemma sum_sizes_cong:
  "(\<And>f. f \<in> set fs \<Longrightarrow> next_of m' f = next_of m f) \<Longrightarrow>
   sum_list (map (MEMITEM_SIZE m') fs) = sum_list (map (MEMITEM_SIZE m) fs)"
  by (intro arg_cong [where f = sum_list] map_cong refl MEMITEM_SIZE_fields) auto

text \<open>The blocks before the last one fill the pool.\<close>

lemma sum_blocks:
  assumes "chain (next_of m) pv bs" "sorted_wrt gap bs" "bs \<noteq> []" "unat (last bs) + 24 < 2 ^ 32"
  shows "(\<Sum>a\<leftarrow>butlast bs. unat (MEMITEM_SIZE m a) + 24) = unat (last bs) - unat (hd bs)"
    and "unat (hd bs) \<le> unat (last bs)"
proof -
  have "(\<Sum>a\<leftarrow>butlast bs. unat (MEMITEM_SIZE m a) + 24) = unat (last bs) - unat (hd bs)
      \<and> unat (hd bs) \<le> unat (last bs)"
    using assms
  proof (induction bs rule: induct_list012)
    case (3 x y zs)
    have g: "unat x + 36 \<le> unat y" using 3 by (simp add: gap_def)
    have nx: "next_of m x = y" using 3 by simp
    have "unat (y - x) = unat y - unat x" using g by (intro unat_sub_le) (simp add: word_le_nat_alt)
    moreover have "unat ((y - x) - 24) = unat (y - x) - unat (24 :: u32)"
      by (rule unat_sub_le) (use g calculation in \<open>simp add: word_le_nat_alt\<close>)
    ultimately have "unat (MEMITEM_SIZE m x) = unat y - unat x - 24" by (simp add: MEMITEM_SIZE_def nx)
    then show ?case using 3 g by auto
  qed auto
  then show "(\<Sum>a\<leftarrow>butlast bs. unat (MEMITEM_SIZE m a) + 24) = unat (last bs) - unat (hd bs)"
    "unat (hd bs) \<le> unat (last bs)" by auto
qed

lemma unat_sum_list:
  fixes f :: "'a \<Rightarrow> u32"
  shows "(\<Sum>x\<leftarrow>xs. unat (f x)) < 2 ^ 32 \<Longrightarrow> unat (sum_list (map f xs)) = (\<Sum>x\<leftarrow>xs. unat (f x))"
  by (induction xs) (auto simp: unat_add_no_wrap)

lemma free_sum:
  assumes b: "blocks_ok m h bs (set fs)" and f: "free_ok m h fs"
  shows "unat (sum_list (map (MEMITEM_SIZE m) fs)) = (\<Sum>a\<leftarrow>fs. unat (MEMITEM_SIZE m a))"
    and "(\<Sum>a\<leftarrow>fs. unat (MEMITEM_SIZE m a)) \<le> unat (last bs) - unat (hd bs)"
    and "unat (hd bs) \<le> unat (last bs)"
proof -
  note D = blocks_okD [OF b]
  have ne: "bs \<noteq> []" and d: "distinct bs" using D(1) by (auto simp: ring_def)
  have ch: "chain (next_of m) (prev_of m) bs"
    using D(1) by (auto simp: ring_def) (metis ne append_butlast_last_id chain_append append_Cons append_Nil append_assoc)
  note S = sum_blocks [OF ch D(2) ne D(7)]
  have df: "distinct fs" using f by (auto simp: free_ok_def ring_def)
  have "(\<Sum>a\<leftarrow>fs. unat (MEMITEM_SIZE m a)) = (\<Sum>a\<in>set fs. unat (MEMITEM_SIZE m a))"
    using df by (rule sum_list_distinct_conv_sum_set)
  also have "\<dots> \<le> (\<Sum>a\<in>set (butlast bs). unat (MEMITEM_SIZE m a) + 24)"
    by (rule order_trans [OF sum_mono2 [where B = "set (butlast bs)"]]) (use D(3) in \<open>auto intro!: sum_mono\<close>)
  also have "\<dots> = (\<Sum>a\<leftarrow>butlast bs. unat (MEMITEM_SIZE m a) + 24)"
    using d by (subst sum_list_distinct_conv_sum_set) (auto simp: distinct_butlast)
  finally show le: "(\<Sum>a\<leftarrow>fs. unat (MEMITEM_SIZE m a)) \<le> unat (last bs) - unat (hd bs)" using S(1) by simp
  show "unat (hd bs) \<le> unat (last bs)" by (rule S(2))
  have "unat (last bs) < 2 ^ 32" using unsigned_less [of "last bs"] by simp
  then show "unat (sum_list (map (MEMITEM_SIZE m) fs)) = (\<Sum>a\<leftarrow>fs. unat (MEMITEM_SIZE m a))"
    using le by (intro unat_sum_list) linarith
qed

text \<open>What the counters of the heap object mean.\<close>

lemma heap_counters:
  assumes i: "heap_core m h bs fs"
  shows "unat (mh_available_size (mm_heaps m h)) = (\<Sum>a\<leftarrow>fs. unat (MEMITEM_SIZE m a))"
    and "unat (mh_pool_size (mm_heaps m h)) = unat (last bs) + 24 - unat (hd bs)"
    and "unat (mh_available_size (mm_heaps m h)) \<le> unat (mh_pool_size (mm_heaps m h))"
proof -
  have b: "blocks_ok m h bs (set fs)" and f: "free_ok m h fs"
    and av: "mh_available_size (mm_heaps m h) = sum_list (map (MEMITEM_SIZE m) fs)"
    and po: "mh_pool_size (mm_heaps m h) = last bs + 24 - hd bs" using i by (auto simp: heap_core_def)
  note S = free_sum [OF b f]
  show 1: "unat (mh_available_size (mm_heaps m h)) = (\<Sum>a\<leftarrow>fs. unat (MEMITEM_SIZE m a))"
    using S(1) av by simp
  have "unat (last bs + 24) = unat (last bs) + 24"
    by (subst unat_add_no_wrap) (use blocks_okD(7) [OF b] in auto)
  moreover have "unat ((last bs + 24) - hd bs) = unat (last bs + 24) - unat (hd bs)"
    by (rule unat_sub_le) (use calculation S(3) in \<open>simp add: word_le_nat_alt\<close>)
  ultimately show 2: "unat (mh_pool_size (mm_heaps m h)) = unat (last bs) + 24 - unat (hd bs)" by (simp add: po)
  show "unat (mh_available_size (mm_heaps m h)) \<le> unat (mh_pool_size (mm_heaps m h))"
    using 1 2 S(2,3) by linarith
qed

section \<open>Searching the free list\<close>

lemma search_free_find:
  assumes "chain (next_free_of m) pv (ys @ [fl])" "fl \<notin> set ys" "z < n"
  shows "search_free m fl n (hd (ys @ [fl])) z =
    (case find (\<lambda>f. n \<le> MEMITEM_SIZE m f) ys of
       Some f \<Rightarrow> Some (f, MEMITEM_SIZE m f)
     | None \<Rightarrow> Some (fl, last (z # map (MEMITEM_SIZE m) ys)))
    \<and> (find (\<lambda>f. n \<le> MEMITEM_SIZE m f) ys = None \<longrightarrow> last (z # map (MEMITEM_SIZE m) ys) < n)"
  using assms
proof (induction ys arbitrary: z)
  case Nil
  then show ?case by (subst search_free.simps) simp
next
  case (Cons f ys)
  have ch: "chain (next_free_of m) pv (ys @ [fl])" "next_free_of m f = hd (ys @ [fl])"
    using Cons.prems(1) by (cases ys; simp)+
  show ?case
  proof (cases "n \<le> MEMITEM_SIZE m f")
    case True
    then have nl: "\<not> MEMITEM_SIZE m f < n" by simp
    have e: "search_free m fl n f (MEMITEM_SIZE m f) = Some (f, MEMITEM_SIZE m f)"
      by (subst search_free.simps) (simp add: nl)
    have "search_free m fl n f z = Some (f, MEMITEM_SIZE m f)"
      using Cons.prems by (subst search_free.simps) (auto simp: e nl)
    then show ?thesis using True by simp
  next
    case False
    then have "search_free m fl n f z = search_free m fl n (hd (ys @ [fl])) (MEMITEM_SIZE m f)"
      using Cons.prems ch(2) by (subst search_free.simps) (auto simp: Let_def)
    then show ?thesis
      using Cons.IH [OF ch(1), of "MEMITEM_SIZE m f"] Cons.prems False
      by (cases "find (\<lambda>f. n \<le> MEMITEM_SIZE m f) ys") (auto simp: not_le)
  qed
qed

section \<open>Allocation\<close>

definition first_fit :: "mh_mem \<Rightarrow> u32 \<Rightarrow> u32 list \<Rightarrow> u32 option" where
  "first_fit m n fs = find (\<lambda>f. n \<le> MEMITEM_SIZE m f) fs"

lemma alloc_search:
  assumes i: "heap_inv m h bs fs"
  shows "rt_memheap_alloc h n m =
    (if align_request n < mh_available_size (mm_heaps m h)
     then (case first_fit m (align_request n) fs of
             Some f \<Rightarrow> Some (alloc_block h (align_request n) f (MEMITEM_SIZE m f) m)
           | None \<Rightarrow> Some (0, m))
     else Some (0, m))"
proof -
  let ?fl = "free_header h" and ?n = "align_request n"
  have f: "free_ok m h fs" and h: "h \<noteq> 0" using i by (auto simp: heap_inv_def heap_core_def)
  have r: "ring (next_free_of m) (prev_free_of m) (?fl # fs)" and fl: "mh_free_list (mm_heaps m h) = ?fl"
    using f by (auto simp: free_ok_def)
  have ch: "chain (next_free_of m) (prev_free_of m) (fs @ [?fl])" "next_free_of m ?fl = hd (fs @ [?fl])" "?fl \<notin> set fs"
    using r by (auto simp: ring_def) (cases fs; simp)+
  have z: "0 < ?n" using align_request_props(1) [of n] by (simp add: word_less_nat_alt)
  show ?thesis
    using search_free_find [OF ch(1,3) z] h
    by (auto simp: rt_memheap_alloc_def Let_def fl ch(2) first_fit_def leD split: option.splits
        dest: find_Some_iff [THEN iffD1])
qed

text \<open>Other objects of the memory that an operation on heap \<open>h\<close> leaves alone.\<close>

definition same_rest :: "u32 \<Rightarrow> mh_mem \<Rightarrow> mh_mem \<Rightarrow> bool" where
  "same_rest h m m' \<longleftrightarrow> mm_bytes m' = mm_bytes m \<and> (\<forall>k. k \<noteq> h \<longrightarrow> mm_heaps m' k = mm_heaps m k)
     \<and> mh_start_addr (mm_heaps m' h) = mh_start_addr (mm_heaps m h)
     \<and> mh_pool_size (mm_heaps m' h) = mh_pool_size (mm_heaps m h)"

lemma same_rest_refl [simp]: "same_rest h m m"
  by (simp add: same_rest_def)

lemma same_rest_trans: "same_rest h m m' \<Longrightarrow> same_rest h m' m'' \<Longrightarrow> same_rest h m m''"
  by (auto simp: same_rest_def)

lemma heap_split:
  assumes i: "heap_inv m h bs (us @ a # vs)"
  obtains xs c ys where "bs = xs @ a # c # ys" "c \<notin> set (us @ a # vs)" "a \<notin> set us \<union> set vs"
    "xs = [] \<or> last xs \<notin> set (us @ a # vs)"
proof -
  have b: "blocks_ok m h bs (set (us @ a # vs))" using i by (simp add: heap_inv_def heap_core_def)
  have "a \<in> set (butlast bs)" using blocks_okD(3) [OF b] by auto
  then obtain xs c ys where bs: "bs = xs @ a # c # ys" by (rule butlast_split)
  have "apart (set (us @ a # vs)) bs" "distinct (us @ a # vs)" using i by (auto simp: heap_inv_def heap_core_def free_ok_def ring_def)
  then show ?thesis
    using bs by (intro that [of xs c ys]) (auto simp: apart_append apart_Cons)
qed

lemma alloc_whole:
  assumes i: "heap_inv m h (xs @ a # c # ys) (us @ a # vs)"
    and n: "\<not> MEMITEM_SIZE m a \<ge> n + 24 + 12"
  defines "m' \<equiv> snd (alloc_block h n a (MEMITEM_SIZE m a) m)"
  shows "heap_inv m' h (xs @ a # c # ys) (us @ vs)" and "same_rest h m m'" and "next_of m' = next_of m"
proof -
  let ?m1 = "take_available h (MEMITEM_SIZE m a) m"
  have m': "m' = set_magic a 0x1ea01ea1 (clear_free a (remove_free a ?m1))"
    using n by (simp add: m'_def alloc_block_def Let_def)
  have b: "blocks_ok m h (xs @ a # c # ys) (set (us @ a # vs))" and f: "free_ok m h (us @ a # vs)"
    and ap: "apart (set (us @ a # vs)) (xs @ a # c # ys)" using i by (auto simp: heap_inv_def heap_core_def)
  have d: "distinct (free_header h # us @ a # vs)" using f by (simp add: free_ok_def ring_def)
  have F: "set (us @ a # vs) - {a} = set (us @ vs)" using d by auto
  have b': "blocks_ok m' h (xs @ a # c # ys) (set (us @ vs))"
    unfolding F [symmetric]
    by (rule blocks_mark(1) [OF b]) (auto simp: m' field_simps_mh butlast_append)
  have "free_ok ?m1 h (us @ a # vs)" using f by (rule free_cong) (auto simp: field_simps_mh)
  then have "free_ok (remove_free a ?m1) h (us @ vs)" by (rule free_remove)
  then have f': "free_ok m' h (us @ vs)"
    by (rule free_cong) (use d in \<open>auto simp: m' field_simps_mh\<close>)
  have ap': "apart (set (us @ vs)) (xs @ a # c # ys)" using ap by (rule apart_mono) auto
  show nx: "next_of m' = next_of m" by (simp add: m' field_simps_mh)
  have sz: "sum_list (map (MEMITEM_SIZE m') (us @ vs)) = sum_list (map (MEMITEM_SIZE m) (us @ a # vs)) - MEMITEM_SIZE m a"
    by (subst sum_sizes_cong [where m = m]) (auto simp: nx)
  show "heap_inv m' h (xs @ a # c # ys) (us @ vs)"
    using i b' f' ap' sz by (simp add: heap_inv_def heap_core_def m' field_simps_mh)
  show "same_rest h m m'" by (simp add: same_rest_def m' field_simps_mh)
qed

lemma alloc_split:
  assumes i: "heap_inv m h (xs @ a # c # ys) (us @ a # vs)"
    and n: "MEMITEM_SIZE m a \<ge> n + 24 + 12" "n \<le> MEMITEM_SIZE m a" "12 \<le> unat n" "4 dvd unat n"
  defines "m' \<equiv> snd (alloc_block h n a (MEMITEM_SIZE m a) m)" and "k \<equiv> a + n + 24"
  shows "heap_inv m' h (xs @ a # k # c # ys) (k # us @ vs)" and "same_rest h m m'"
    and "next_of m' = (next_of m)(k := c, a := k)" and "k \<notin> set (xs @ a # c # ys)"
    and "unat k = unat a + unat n + 24"
proof -
  have b: "blocks_ok m h (xs @ a # c # ys) (set (us @ a # vs))" and f: "free_ok m h (us @ a # vs)"
    and ap: "apart (set (us @ a # vs)) (xs @ a # c # ys)" using i by (auto simp: heap_inv_def heap_core_def)
  note B = block_between [OF b]
  have fl: "mh_free_list (mm_heaps m h) = free_header h" using f by (simp add: free_ok_def)
  have n36: "unat n + 36 \<le> unat (MEMITEM_SIZE m a)"
  proof -
    have "unat (n + 36) = unat n + 36"
      by (subst unat_add_no_wrap) (use n(2) B(3,4,6) in \<open>auto simp: word_le_nat_alt\<close>)
    then show ?thesis using n(1) by (simp add: word_le_nat_alt add.assoc)
  qed
  have "unat (a + n) = unat a + unat n" by (subst unat_add_no_wrap) (use n36 B(3,4,6) in auto)
  then show k: "unat k = unat a + unat n + 24"
    unfolding k_def by (subst unat_add_no_wrap) (use n36 B(3,4,6) in auto)
  have gk: "gap a k" "gap k c" using k n36 n(3) B(3,6) by (auto simp: gap_def)
  have dk: "4 dvd unat k" using k n(4) blocks_okD(4) [OF b, of a] by (auto intro!: dvd_add)
  show kin: "k \<notin> set (xs @ a # c # ys)"
    using blocks_okD(2) [OF b] gk by (auto simp: sorted_wrt_append gap_def)
  have ak: "a \<noteq> k" "k \<noteq> c" "k \<noteq> free_header h"
    using gk B(9) [of k] by (auto simp: gap_def)
  let ?m1 = "insert_block a k (set_pool k h (set_magic k 0x1ea01ea0 m))"
  let ?m2 = "clear_free a (remove_free a ?m1)"
  let ?m3 = "insert_free h k ?m2"
  have m': "m' = set_magic a 0x1ea01ea1 (take_available h (n + 24) ?m3)"
    using n(1) by (simp add: m'_def alloc_block_def Let_def k_def add.assoc)
  have d: "distinct (free_header h # us @ a # vs)" using f by (simp add: free_ok_def ring_def)
  have usin: "set (us @ vs) \<subseteq> set (xs @ a # c # ys)"
    using blocks_okD(3) [OF b] set_butlast_subset [of "xs @ a # c # ys"] by auto
  have b1: "blocks_ok ?m1 h (xs @ a # k # c # ys) (insert k (set (us @ a # vs)))"
    by (rule blocks_insert [OF b gk dk]) (use ak in \<open>auto simp: field_simps_mh\<close>)
  have F: "insert k (set (us @ a # vs)) - {a} = set (k # us @ vs)" using d ak by auto
  have b': "blocks_ok m' h (xs @ a # k # c # ys) (set (k # us @ vs))"
    unfolding F [symmetric]
    by (rule blocks_mark(1) [OF b1]) (auto simp: m' field_simps_mh butlast_append)
  have "free_ok ?m1 h (us @ a # vs)" using f by (rule free_cong) (use ak in \<open>auto simp: field_simps_mh\<close>)
  then have "free_ok (remove_free a ?m1) h (us @ vs)" by (rule free_remove)
  then have "free_ok ?m2 h (us @ vs)" by (rule free_cong) (use d in \<open>auto simp: field_simps_mh\<close>)
  then have "free_ok ?m3 h (k # us @ vs)" by (rule free_insert) (use kin ak usin in auto)
  then have f': "free_ok m' h (k # us @ vs)" by (rule free_cong) (auto simp: m' field_simps_mh)
  have ap': "apart (set (k # us @ vs)) (xs @ a # k # c # ys)"
    using ap by (rule apart_insert) (use kin d ak in auto)
  show nx: "next_of m' = (next_of m)(k := c, a := k)"
    using ak B(1) by (simp add: m' field_simps_mh)
  have "sum_list (map (MEMITEM_SIZE m') (us @ vs)) = sum_list (map (MEMITEM_SIZE m) (us @ vs))"
    by (rule sum_sizes_cong) (use d kin usin in \<open>auto simp: nx\<close>)
  moreover have "MEMITEM_SIZE m' k = MEMITEM_SIZE m a - n - 24"
    using ak by (simp add: MEMITEM_SIZE_def nx B(1) k_def)
  ultimately have sz: "sum_list (map (MEMITEM_SIZE m') (k # us @ vs)) =
      sum_list (map (MEMITEM_SIZE m) (us @ a # vs)) - (n + 24)" by simp
  show "heap_inv m' h (xs @ a # k # c # ys) (k # us @ vs)"
    unfolding heap_inv_def heap_core_def
    using i b' f' ap' sz hd_middle [of xs a "k # c # ys"] hd_middle [of xs a "c # ys"]
    by (simp add: heap_inv_def heap_core_def m' field_simps_mh fl ak)
  show "same_rest h m m'" by (simp add: same_rest_def m' field_simps_mh)
qed

section \<open>Release\<close>

text \<open>
  During a release: the block \<open>q\<close> is marked free, it is in the free list when it has been merged
  into the block before it.
\<close>

definition releasing :: "mh_mem \<Rightarrow> u32 \<Rightarrow> u32 list \<Rightarrow> u32 \<Rightarrow> u32 list \<Rightarrow> u32 list \<Rightarrow> bool" where
  "releasing m h zs q rest fs \<longleftrightarrow>
     h \<noteq> 0 \<and> rest \<noteq> [] \<and> blocks_ok m h (zs @ q # rest) (insert q (set fs)) \<and> free_ok m h fs
     \<and> apart (insert q (set fs)) (zs @ [q]) \<and> apart (set fs) rest
     \<and> mh_start_addr (mm_heaps m h) = hd (zs @ [q])
     \<and> mh_pool_size (mm_heaps m h) = last rest + 24 - hd (zs @ [q])
     \<and> mh_available_size (mm_heaps m h) =
         sum_list (map (MEMITEM_SIZE m) fs) + (if q \<in> set fs then 0 else MEMITEM_SIZE m q)"

lemma prev_used:
  assumes b: "blocks_ok m h (xs @ a # c # ys) F" and a: "a \<in> F \<Longrightarrow> xs \<noteq> []"
  shows "RT_MEMHEAP_IS_USED m (prev_of m a) \<longleftrightarrow> xs = [] \<or> last xs \<notin> F"
proof (cases xs rule: rev_cases)
  case Nil
  note D = blocks_okD [OF b]
  have "prev_of m a = last (c # ys)"
    using ring_hd_prev [OF D(1)] Nil by simp
  moreover have "last (c # ys) \<notin> F"
  proof -
    have "distinct (butlast (a # c # ys) @ [last (c # ys)])"
      using D(1) Nil append_butlast_last_id [of "a # c # ys"] by (simp add: ring_def)
    then show ?thesis using D(3) Nil by auto
  qed
  moreover have "last (c # ys) \<in> set (xs @ a # c # ys)" using last_in_set [of "c # ys"] by simp
  ultimately show ?thesis using D(6) [of "last (c # ys)"] Nil by simp
next
  case (snoc us p)
  note D = blocks_okD [OF b]
  have "prev_of m a = p" using ring_next [of "next_of m" "prev_of m" us p a "c # ys"] D(1) snoc by simp
  then show ?thesis using D(6) [of p] snoc by (cases "p \<in> F") auto
qed

lemma merge_prev_releasing:
  assumes i: "heap_core m h (xs @ a # c # ys) fs" and a: "a \<notin> set fs"
  defines "m1 \<equiv> add_available h (MEMITEM_SIZE m a) (set_magic a 0x1ea01ea0 m)"
  obtains zs q m2 where "merge_prev h a m1 = (q, m2)" "releasing m2 h zs q (c # ys) fs"
    "RT_MEMHEAP_IS_USED m1 (prev_of m1 a) \<longleftrightarrow> q \<notin> set fs" "same_rest h m m2"
    "mh_max_used_size (mm_heaps m2 h) = mh_max_used_size (mm_heaps m h)"
    "mh_available_size (mm_heaps m2 h) = mh_available_size (mm_heaps m h) + MEMITEM_SIZE m a + (if q \<in> set fs then 24 else 0)"
    "\<forall>x. x \<noteq> a \<longrightarrow> x \<notin> set fs \<longrightarrow> next_of m2 x = next_of m x"
    "xs = zs \<and> q = a \<or> xs = zs @ [q] \<and> q \<in> set fs"
proof -
  have b: "blocks_ok m h (xs @ a # c # ys) (set fs)" and f: "free_ok m h fs"
    and ap: "apart (set fs) (xs @ a # c # ys)" using i by (auto simp: heap_core_def)
  note D = blocks_okD [OF b]
  have dist: "distinct (xs @ a # c # ys)" using D(1) by (simp add: ring_def)
  have b1: "blocks_ok m1 h (xs @ a # c # ys) (insert a (set fs))"
    by (rule blocks_mark(2) [OF b]) (auto simp: m1_def field_simps_mh butlast_append)
  have f1: "free_ok m1 h fs" using f by (rule free_cong) (auto simp: m1_def field_simps_mh)
  have sz1: "MEMITEM_SIZE m1 = MEMITEM_SIZE m" by (simp add: fun_eq_iff m1_def MEMITEM_SIZE_def field_simps_mh)
  have hp1: "mm_heaps m1 h = (mm_heaps m h)\<lparr>mh_available_size := mh_available_size (mm_heaps m h) + MEMITEM_SIZE m a\<rparr>"
    by (simp add: m1_def field_simps_mh)
  have apx: "apart (set fs) (xs @ [a])" "apart (set fs) (c # ys)"
    using ap by (simp_all add: apart_cut [of _ xs a "c # ys"] apart_Cons)
  have used: "RT_MEMHEAP_IS_USED m1 (prev_of m1 a) \<longleftrightarrow> xs = [] \<or> last xs \<notin> set fs"
  proof -
    have "xs \<noteq> [] \<Longrightarrow> last xs \<noteq> a" using dist by auto
    moreover have "RT_MEMHEAP_IS_USED m1 (prev_of m1 a) \<longleftrightarrow> RT_MEMHEAP_IS_USED m (prev_of m a)"
    proof -
      have "prev_of m a \<noteq> a"
      proof (cases xs rule: rev_cases)
        case Nil
        then have "prev_of m a = last (c # ys)" using ring_hd_prev [OF D(1)] by simp
        then show ?thesis using last_in_set [of "c # ys"] dist by auto
      next
        case (snoc us p)
        then show ?thesis using ring_next [of "next_of m" "prev_of m" us p a "c # ys"] D(1) dist by auto
      qed
      then show ?thesis by (simp add: RT_MEMHEAP_IS_USED_def m1_def field_simps_mh)
    qed
    ultimately show ?thesis using prev_used [OF b] a by simp
  qed
  show ?thesis
  proof (cases "xs = [] \<or> last xs \<notin> set fs")
    case True
    have "apart (insert a (set fs)) xs"
      using apx(1) dist by (auto simp: apart_append intro!: apart_mono [where F = "set fs"])
    moreover have "xs = [] \<or> last xs \<notin> insert a (set fs)" using True dist by auto
    ultimately have "apart (insert a (set fs)) (xs @ [a])" by (auto simp: apart_append apart_Cons)
    then have "releasing m1 h xs a (c # ys) fs"
      using i b1 f1 apx a hd_middle [of xs a "c # ys"]
      by (simp add: releasing_def heap_core_def hp1 sz1)
    then show ?thesis
      by (intro that [of a m1 xs])
        (use True used a in \<open>auto simp: merge_prev_def m1_def field_simps_mh same_rest_def\<close>)
  next
    case False
    then obtain us p where xs: "xs = us @ [p]" and p: "p \<in> set fs" by (cases xs rule: rev_cases) auto
    have pa: "prev_of m1 a = p" "next_of m1 a = c" "next_of m1 p = a"
      using ring_next [of "next_of m1" "prev_of m1" us p a "c # ys"]
        ring_next [of "next_of m1" "prev_of m1" xs a c ys] blocks_okD(1) [OF b1] xs by auto
    have ne: "a \<noteq> p" "c \<noteq> a" "c \<noteq> p" using dist xs by auto
    define m2 where "m2 = set_prev c p (set_next p c (add_available h 24 m1))"
    have mp: "merge_prev h a m1 = (p, m2)"
      using used False ne by (simp add: merge_prev_def Let_def m2_def field_simps_mh pa)
    have nx: "next_of m2 = (next_of m1)(p := next_of m1 a)" "prev_of m2 = (prev_of m1)(next_of m1 a := p)"
      by (simp_all add: m2_def field_simps_mh pa)
    have "blocks_ok m2 h (us @ p # c # ys) (insert a (set fs) - {a})"
      by (rule blocks_remove [OF b1 [unfolded xs, simplified] nx]) (simp_all add: m2_def field_simps_mh)
    moreover have "insert a (set fs) - {a} = insert p (set fs)" using a p by auto
    ultimately have b2: "blocks_ok m2 h (us @ p # c # ys) (insert p (set fs))" by simp
    have f2: "free_ok m2 h fs" using f1 by (rule free_cong) (auto simp: m2_def field_simps_mh)
    have ap2: "apart (insert p (set fs)) (us @ [p])"
      using apx(1) p xs by (simp add: apart_append apart_Cons insert_absorb)
    obtain vs ws where fs: "fs = vs @ p # ws" using p by (auto simp: in_set_conv_decomp)
    have pn: "p \<notin> set vs" "p \<notin> set ws" using f fs by (auto simp: free_ok_def ring_def)
    have "sum_list (map (MEMITEM_SIZE m2) (vs @ ws)) = sum_list (map (MEMITEM_SIZE m) (vs @ ws))"
      by (rule sum_sizes_cong) (use pn in \<open>auto simp: nx m1_def field_simps_mh\<close>)
    moreover have "MEMITEM_SIZE m2 p = MEMITEM_SIZE m p + MEMITEM_SIZE m a + 24"
    proof -
      have "next_of m a = c" "next_of m p = a" using pa by (simp_all add: m1_def field_simps_mh)
      then show ?thesis by (simp add: MEMITEM_SIZE_def nx pa)
    qed
    ultimately have sz: "sum_list (map (MEMITEM_SIZE m2) fs) = sum_list (map (MEMITEM_SIZE m) fs) + MEMITEM_SIZE m a + 24"
      by (simp add: fs)
    have hds: "hd (xs @ a # c # ys) = hd (us @ [p])" using xs hd_middle [of us p "a # c # ys"] by simp
    have "releasing m2 h us p (c # ys) fs"
      using i b2 f2 ap2 apx p sz hds
      by (simp add: releasing_def heap_core_def m2_def m1_def field_simps_mh)
    then show ?thesis
      by (intro that [of p m2 us])
        (use mp used False p xs pa in \<open>auto simp: m2_def m1_def field_simps_mh same_rest_def\<close>)
  qed
qed

lemma merge_next_releasing:
  assumes r: "releasing m h zs q (c # ys) fs"
  obtains rest fs' where "releasing (merge_next h q m) h zs q rest fs'" "hd rest \<notin> set fs'"
    "q \<in> set fs' \<longleftrightarrow> q \<in> set fs" "same_rest h m (merge_next h q m)"
    "mh_max_used_size (mm_heaps (merge_next h q m) h) = mh_max_used_size (mm_heaps m h)"
    "\<exists>k. k \<le> 24 \<and> mh_available_size (mm_heaps (merge_next h q m) h) = mh_available_size (mm_heaps m h) + k"
    "\<forall>x. x \<noteq> q \<longrightarrow> next_of (merge_next h q m) x = next_of m x"
    "c # ys = rest \<and> fs' = fs \<or> ys = rest \<and> set fs = insert c (set fs') \<and> c \<notin> set fs'"
proof -
  have b: "blocks_ok m h (zs @ q # c # ys) (insert q (set fs))" and f: "free_ok m h fs"
    using r by (auto simp: releasing_def)
  note D = blocks_okD [OF b]
  have dist: "distinct (zs @ q # c # ys)" using D(1) by (simp add: ring_def)
  have nq: "next_of m q = c" using ring_next [OF D(1)] by simp
  have used: "RT_MEMHEAP_IS_USED m c \<longleftrightarrow> c \<notin> set fs"
    using D(6) [of c] dist by (cases "c \<in> set fs") auto
  show ?thesis
  proof (cases "c \<in> set fs")
    case False
    then have "merge_next h q m = m" using used by (simp add: merge_next_def nq)
    then show ?thesis
      using r False by (intro that [of "c # ys" fs]) (auto simp: same_rest_def intro: exI [of _ 0])
  next
    case True
    have "c \<in> set (butlast (zs @ q # c # ys))" using D(3) True by auto
    then obtain d ws where ys: "ys = d # ws" using dist by (cases ys) (auto simp: butlast_append)
    obtain us vs where fs: "fs = us @ c # vs" using True by (auto simp: in_set_conv_decomp)
    have nc: "next_of m c = d"
      using ring_next [of "next_of m" "prev_of m" "zs @ [q]" c d ws] D(1) ys by simp
    have ne: "q \<noteq> c" "d \<noteq> q" "d \<noteq> c" using dist ys by auto
    have cn: "c \<notin> set us" "c \<notin> set vs" using f fs by (auto simp: free_ok_def ring_def)
    define m1 where "m1 = set_next q d (set_prev d q (add_available h 24 m))"
    have m': "merge_next h q m = remove_free c m1"
      using True used ne by (simp add: merge_next_def Let_def field_simps_mh nq nc m1_def)
    have nx: "next_of (remove_free c m1) = (next_of m)(q := next_of m c)"
      "prev_of (remove_free c m1) = (prev_of m)(next_of m c := q)"
      by (simp_all add: m1_def field_simps_mh nc)
    have "blocks_ok (remove_free c m1) h (zs @ q # d # ws) (insert q (set fs) - {c})"
      by (rule blocks_remove [OF b [unfolded ys] nx]) (simp_all add: m1_def field_simps_mh)
    moreover have F: "insert q (set fs) - {c} = insert q (set (us @ vs))" using fs cn ne by auto
    ultimately have b': "blocks_ok (remove_free c m1) h (zs @ q # d # ws) (insert q (set (us @ vs)))" by simp
    have "free_ok m1 h (us @ c # vs)" using f [unfolded fs] by (rule free_cong) (auto simp: m1_def field_simps_mh)
    then have f': "free_ok (remove_free c m1) h (us @ vs)" by (rule free_remove)
    have "apart (insert q (set fs)) (zs @ [q])" "apart (set fs) (c # d # ws)"
      using r ys by (auto simp: releasing_def)
    then have ap: "apart (insert q (set (us @ vs))) (zs @ [q])" "apart (set (us @ vs)) (d # ws)" "d \<notin> set fs"
      using True fs by (auto simp: apart_Cons elim!: apart_mono)
    have sz: "MEMITEM_SIZE (remove_free c m1) q = MEMITEM_SIZE m q + MEMITEM_SIZE m c + 24"
      by (simp add: MEMITEM_SIZE_def nx nq nc)
    have sum: "sum_list (map (MEMITEM_SIZE (remove_free c m1)) (us @ vs)) =
        sum_list (map (MEMITEM_SIZE m) (us @ vs)) + (if q \<in> set fs then MEMITEM_SIZE m c + 24 else 0)"
    proof (cases "q \<in> set fs")
      case False
      then show ?thesis using fs by (subst sum_sizes_cong [where m = m]) (auto simp: nx)
    next
      case q: True
      then have "q \<in> set (us @ vs)" using fs ne by auto
      then obtain as bs where ab: "us @ vs = as @ q # bs" by (meson split_list)
      have "distinct (us @ vs)" using f fs by (auto simp: free_ok_def ring_def)
      then have qn: "q \<notin> set as" "q \<notin> set bs" using ab by auto
      have "sum_list (map (MEMITEM_SIZE (remove_free c m1)) (as @ bs)) = sum_list (map (MEMITEM_SIZE m) (as @ bs))"
        by (rule sum_sizes_cong) (use qn in \<open>auto simp: nx\<close>)
      then show ?thesis using q sz unfolding ab by simp
    qed
    have "releasing (remove_free c m1) h zs q (d # ws) (us @ vs)"
      using r b' f' ap sz sum fs ys ne cn by (auto simp: releasing_def m1_def field_simps_mh)
    then show ?thesis
      by (intro that [of "d # ws" "us @ vs"])
        (use m' ap fs cn ne ys in \<open>auto simp: m1_def field_simps_mh same_rest_def intro!: exI [of _ 24]\<close>)
  qed
qed

lemma link_front_eq:
  assumes f: "free_ok m h fs" and a: "a \<notin> set (free_header h # fs)"
  shows "link_front h a m = insert_free h a m"
proof -
  have r: "ring (next_free_of m) (prev_free_of m) (free_header h # fs)"
    and fl: "mh_free_list (mm_heaps m h) = free_header h" using f by (auto simp: free_ok_def)
  let ?n = "next_free_of m (free_header h)"
  have n: "?n \<in> set (free_header h # fs)" using ring_next_in [OF r, of "free_header h"] by simp
  have p: "prev_free_of m ?n = free_header h"
  proof (cases fs)
    case Nil
    then show ?thesis using ring_last [of "next_free_of m" "prev_free_of m" "[]" "free_header h"] r by simp
  next
    case (Cons g gs)
    then show ?thesis using ring_next [of "next_free_of m" "prev_free_of m" "[]" "free_header h" g gs] r by simp
  qed
  have "a \<noteq> ?n" "a \<noteq> free_header h" using a n by auto
  then show ?thesis
    by (simp add: link_front_def insert_free_def Let_def fl field_simps_mh p)
      (simp add: set_next_free_def set_prev_free_def upd_item_def fun_eq_iff)
qed

lemma releasing_done:
  assumes r: "releasing m h zs q rest fs" and c: "hd rest \<notin> set fs" and l: "2 \<le> length (zs @ q # rest)"
  shows "q \<in> set fs \<Longrightarrow> heap_core m h (zs @ q # rest) fs"
    and "q \<notin> set fs \<Longrightarrow> heap_core (link_front h q m) h (zs @ q # rest) (q # fs)"
      "q \<notin> set fs \<Longrightarrow> link_front h q m = insert_free h q m"
proof -
  obtain d ws where rest: "rest = d # ws" using r by (cases rest) (auto simp: releasing_def)
  have b: "blocks_ok m h (zs @ q # d # ws) (insert q (set fs))" and f: "free_ok m h fs"
    using r rest by (auto simp: releasing_def)
  have dist: "distinct (zs @ q # d # ws)" using blocks_okD(1) [OF b] by (simp add: ring_def)
  have hds: "hd (zs @ q # d # ws) = hd (zs @ [q])" by (rule hd_middle)
  have "apart (insert q (set fs)) (zs @ [q])" "apart (insert q (set fs)) (d # ws)"
    using r rest dist by (auto simp: releasing_def elim: apart_mono)
  then have ap: "apart (insert q (set fs)) (zs @ q # d # ws)"
    using c dist rest by (subst apart_cut) (auto simp: apart_Cons)
  show "heap_core m h (zs @ q # rest) fs" if "q \<in> set fs"
    using r that ap hds b f l unfolding rest by (simp add: heap_core_def releasing_def insert_absorb)
  assume q: "q \<notin> set fs"
  have nh: "q \<noteq> free_header h" using block_between(8) [OF b] by auto
  show e: "link_front h q m = insert_free h q m" by (rule link_front_eq [OF f]) (use q nh in auto)
  have f': "free_ok (insert_free h q m) h (q # fs)" by (rule free_insert [OF f]) (use q nh in auto)
  have b': "blocks_ok (insert_free h q m) h (zs @ q # d # ws) (set (q # fs))"
    using b by (simp add: blocks_ok_def field_simps_mh)
  have "MEMITEM_SIZE (insert_free h q m) = MEMITEM_SIZE m"
    by (simp add: fun_eq_iff MEMITEM_SIZE_def field_simps_mh)
  then show "heap_core (link_front h q m) h (zs @ q # rest) (q # fs)"
    unfolding e using r q ap hds b' f' l unfolding rest
    by (simp add: heap_core_def releasing_def field_simps_mh add.commute)
qed

text \<open>A live block and the free blocks fit into the pool together.\<close>

lemma live_room:
  assumes i: "heap_core m h bs fs" and a: "a \<in> set (butlast bs)" "a \<notin> set fs"
  shows "unat (mh_available_size (mm_heaps m h)) + unat (MEMITEM_SIZE m a) + 48
    \<le> unat (mh_pool_size (mm_heaps m h))"
proof -
  have b: "blocks_ok m h bs (set fs)" and f: "free_ok m h fs" using i by (auto simp: heap_core_def)
  note D = blocks_okD [OF b]
  have ne: "bs \<noteq> []" and d: "distinct bs" using D(1) by (auto simp: ring_def)
  have ch: "chain (next_of m) (prev_of m) bs"
    using D(1) by (auto simp: ring_def) (metis ne append_butlast_last_id chain_append append_Cons append_Nil append_assoc)
  note S = sum_blocks [OF ch D(2) ne D(7)]
  have df: "distinct (a # fs)" using f a by (auto simp: free_ok_def ring_def)
  have "(\<Sum>x\<leftarrow>a # fs. unat (MEMITEM_SIZE m x) + 24) = (\<Sum>x\<in>set (a # fs). unat (MEMITEM_SIZE m x) + 24)"
    using df by (rule sum_list_distinct_conv_sum_set)
  also have "\<dots> \<le> (\<Sum>x\<in>set (butlast bs). unat (MEMITEM_SIZE m x) + 24)"
    by (rule sum_mono2) (use D(3) a in auto)
  also have "\<dots> = (\<Sum>x\<leftarrow>butlast bs. unat (MEMITEM_SIZE m x) + 24)"
    using d by (subst sum_list_distinct_conv_sum_set) (auto simp: distinct_butlast)
  finally have "(\<Sum>x\<leftarrow>fs. unat (MEMITEM_SIZE m x) + 24) + unat (MEMITEM_SIZE m a) + 24 \<le> unat (last bs) - unat (hd bs)"
    using S(1) by simp
  moreover have "(\<Sum>x\<leftarrow>fs. unat (MEMITEM_SIZE m x)) \<le> (\<Sum>x\<leftarrow>fs. unat (MEMITEM_SIZE m x) + 24)"
    by (rule sum_list_mono) simp
  ultimately show ?thesis using heap_counters [OF i] S(2) by linarith
qed

lemma magic_mask:
  "magic_of m c = (if P then 0x1ea01ea0 else 0x1ea01ea1) \<Longrightarrow> magic_of m c AND RT_MEMHEAP_MASK = RT_MEMHEAP_MAGIC"
  by (simp add: RT_MEMHEAP_MASK_def RT_MEMHEAP_MAGIC_def split: if_splits)

lemma max_used_mono:
  fixes p a a' mx :: u32
  assumes "p - a \<le> mx" "unat a \<le> unat a'" "unat a' \<le> unat p"
  shows "p - a' \<le> mx"
proof -
  have "p - a' \<le> p - a" using assms(2,3) by (simp add: word_le_nat_alt unat_sub_le)
  then show ?thesis using assms(1) by (rule order_trans)
qed

lemma free_correct:
  assumes i: "heap_inv m h bs fs" and a: "a \<in> set (butlast bs)" "a \<notin> set fs"
  obtains bs' fs' where "heap_inv (rt_memheap_free (a + 24) m) h bs' fs'"
    "live (rt_memheap_free (a + 24) m) bs' fs' = (live m bs fs)(a := None)"
    "same_rest h m (rt_memheap_free (a + 24) m)"
proof -
  obtain xs c ys where bs: "bs = xs @ a # c # ys" using a(1) by (rule butlast_split)
  have co: "heap_core m h (xs @ a # c # ys) fs"
    and mx: "mh_pool_size (mm_heaps m h) - mh_available_size (mm_heaps m h) \<le> mh_max_used_size (mm_heaps m h)"
    using i bs by (auto simp: heap_inv_def)
  have b: "blocks_ok m h (xs @ a # c # ys) (set fs)" and h: "h \<noteq> 0" using co by (auto simp: heap_core_def)
  note D = blocks_okD [OF b]
  have dist: "distinct (xs @ a # c # ys)" using D(1) by (simp add: ring_def)
  have nx: "next_of m a = c" by (rule block_between(1) [OF b])
  have "unat (a + 24) = unat a + 24"
    by (subst unat_add_no_wrap) (use block_between(3,4) [OF b] in auto)
  then have p0: "a + 24 \<noteq> 0" by (metis add_is_0 unat_0 zero_neq_numeral)
  define m1 where "m1 = add_available h (MEMITEM_SIZE m a) (set_magic a 0x1ea01ea0 m)"
  obtain zs q m2 where M: "merge_prev h a m1 = (q, m2)" "releasing m2 h zs q (c # ys) fs"
    "RT_MEMHEAP_IS_USED m1 (prev_of m1 a) \<longleftrightarrow> q \<notin> set fs" "same_rest h m m2"
    "mh_max_used_size (mm_heaps m2 h) = mh_max_used_size (mm_heaps m h)"
    "mh_available_size (mm_heaps m2 h) = mh_available_size (mm_heaps m h) + MEMITEM_SIZE m a + (if q \<in> set fs then 24 else 0)"
    "\<forall>x. x \<noteq> a \<longrightarrow> x \<notin> set fs \<longrightarrow> next_of m2 x = next_of m x"
    "xs = zs \<and> q = a \<or> xs = zs @ [q] \<and> q \<in> set fs"
    by (rule merge_prev_releasing [OF co a(2), folded m1_def])
  let ?m3 = "merge_next h q m2"
  obtain rest fs' where N: "releasing ?m3 h zs q rest fs'" "hd rest \<notin> set fs'"
    "q \<in> set fs' \<longleftrightarrow> q \<in> set fs" "same_rest h m2 ?m3"
    "mh_max_used_size (mm_heaps ?m3 h) = mh_max_used_size (mm_heaps m2 h)"
    "\<exists>k. k \<le> 24 \<and> mh_available_size (mm_heaps ?m3 h) = mh_available_size (mm_heaps m2 h) + k"
    "\<forall>x. x \<noteq> q \<longrightarrow> next_of ?m3 x = next_of m2 x"
    "c # ys = rest \<and> fs' = fs \<or> ys = rest \<and> set fs = insert c (set fs') \<and> c \<notin> set fs'"
    by (rule merge_next_releasing [OF M(2)])
  let ?m' = "rt_memheap_free (a + 24) m"
  have mag: "magic_of m a = 0x1ea01ea1" "pool_of m a = h" using D(5,6) [of a] a(2) by auto
  have msk: "magic_of m c AND RT_MEMHEAP_MASK = RT_MEMHEAP_MAGIC" by (rule magic_mask) (use D(6) [of c] in simp)
  have sz1: "MEMITEM_SIZE (set_magic a 0x1ea01ea0 m) a = MEMITEM_SIZE m a"
    by (simp add: MEMITEM_SIZE_def field_simps_mh)
  have m': "?m' = (if q \<in> set fs' then ?m3 else link_front h q ?m3)"
    using p0 mag msk nx h M(1,3) N(3) by (simp add: rt_memheap_free_def Let_def sz1 m1_def)
  let ?fs = "if q \<in> set fs' then fs' else q # fs'"
  have rne: "rest \<noteq> []" using N(1) by (simp add: releasing_def)
  have l: "2 \<le> length (zs @ q # rest)" using rne by (cases rest) auto
  note E = releasing_done [OF N(1,2) l]
  have co': "heap_core ?m' h (zs @ q # rest) ?fs" using E(1,2) m' by simp
  have nx': "next_of ?m' = next_of ?m3" and hp': "mm_heaps ?m' = mm_heaps ?m3" "mm_bytes ?m' = mm_bytes ?m3"
    using E(3) m' by (auto simp: field_simps_mh)
  have sr: "same_rest h m ?m'"
    using same_rest_trans [OF M(4) N(4)] hp' by (simp add: same_rest_def)
  obtain k where k: "k \<le> 24" "mh_available_size (mm_heaps ?m3 h) = mh_available_size (mm_heaps m2 h) + k" using N(6) by blast
  let ?d = "MEMITEM_SIZE m a + ((if q \<in> set fs then 24 else 0) + k)"
  have av: "mh_available_size (mm_heaps ?m' h) = mh_available_size (mm_heaps m h) + ?d"
    using k(2) M(6) hp' by simp
  have room: "unat (mh_available_size (mm_heaps m h)) + unat (MEMITEM_SIZE m a) + 48 < 2 ^ 32"
  proof -
    have "unat (mh_pool_size (mm_heaps m h)) < 2 ^ 32" using unsigned_less [of "mh_pool_size (mm_heaps m h)"] by simp
    then show ?thesis using live_room [OF co [folded bs] a] by linarith
  qed
  have k24: "unat k \<le> 24" using k(1) by (simp add: word_le_nat_alt)
  have "unat ((if q \<in> set fs then 24 else 0) + k) \<le> 48"
    using k24 by (auto simp: unat_add_no_wrap)
  then have "unat ?d \<le> unat (MEMITEM_SIZE m a) + 48"
    using room by (subst unat_add_no_wrap) auto
  then have "unat (mh_available_size (mm_heaps ?m' h)) = unat (mh_available_size (mm_heaps m h)) + unat ?d"
    unfolding av using room by (intro unat_add_no_wrap) linarith
  moreover have "mh_max_used_size (mm_heaps ?m' h) = mh_max_used_size (mm_heaps m h)"
    "mh_pool_size (mm_heaps ?m' h) = mh_pool_size (mm_heaps m h)"
    using M(5) N(5) hp' sr by (simp_all add: same_rest_def)
  ultimately have "mh_pool_size (mm_heaps ?m' h) - mh_available_size (mm_heaps ?m' h) \<le> mh_max_used_size (mm_heaps ?m' h)"
    using mx heap_counters(3) [OF co'] by (intro max_used_mono [OF mx [folded \<open>mh_max_used_size (mm_heaps ?m' h) = mh_max_used_size (mm_heaps m h)\<close>
      \<open>mh_pool_size (mm_heaps ?m' h) = mh_pool_size (mm_heaps m h)\<close>]]) auto
  then have inv: "heap_inv ?m' h (zs @ q # rest) ?fs" using co' by (simp add: heap_inv_def)
  have cb: "set (butlast (c # ys)) - set fs = set (butlast rest) - set fs'"
    using N(8)
  proof
    assume "ys = rest \<and> set fs = insert c (set fs') \<and> c \<notin> set fs'"
    then show ?thesis using rne dist by (auto dest: in_set_butlastD)
  qed auto
  have bl: "set (butlast (zs @ q # rest)) - set ?fs = set (butlast bs) - set fs - {a}"
  proof -
    have B: "set (butlast bs) = set xs \<union> {a} \<union> set (butlast (c # ys))"
      "set (butlast (zs @ q # rest)) = set zs \<union> {q} \<union> set (butlast rest)"
      using bs rne by (auto simp: butlast_append)
    have S: "set ?fs = insert q (set fs')" by auto
    have an: "a \<notin> set (butlast (c # ys))" "a \<notin> set xs" using dist by (auto dest: in_set_butlastD)
    have cx: "c \<notin> set xs" using dist by auto
    have fx: "x \<in> set xs \<Longrightarrow> x \<in> set fs \<longleftrightarrow> x \<in> set fs'" for x using N(8) cx by auto
    have qn: "q \<notin> set zs" "q \<notin> set (butlast rest)"
      using M(8) N(8) dist by (auto dest: in_set_butlastD)
    show ?thesis
      using M(8)
    proof
      assume "xs = zs \<and> q = a"
      then show ?thesis unfolding B S using cb fx qn an by auto
    next
      assume q: "xs = zs @ [q] \<and> q \<in> set fs"
      then have "\<And>x. x \<in> set zs \<Longrightarrow> x \<in> set fs \<longleftrightarrow> x \<in> set fs'" using fx by auto
      then show ?thesis unfolding B S using cb q qn an by auto
    qed
  qed
  have "live ?m' (zs @ q # rest) ?fs = (live m bs fs)(a := None)"
  proof
    fix x
    show "live ?m' (zs @ q # rest) ?fs x = ((live m bs fs)(a := None)) x"
    proof (cases "x \<in> set (butlast bs) - set fs - {a}")
      case True
      have "x \<noteq> q" using M(8) True by auto
      then have "next_of ?m' x = next_of m x" using nx' N(7) M(7) True by auto
      then show ?thesis using True bl by (simp add: live_def MEMITEM_SIZE_def)
    qed (use bl in \<open>auto simp: live_def\<close>)
  qed
  then show ?thesis using inv sr by (intro that) auto
qed

end
