(* ===== verification/Memheap_Realloc.thy ===== *)
theory Memheap_Realloc
  imports Memheap_Facts
begin

text \<open>
  What allocation and resizing do to the live blocks of a heap, on every path of the code.
\<close>

lemma alloc_correct:
  assumes i: "heap_inv m h bs fs"
  shows "case (if align_request n < mh_available_size (mm_heaps m h) then first_fit m (align_request n) fs else None) of
      None \<Rightarrow> rt_memheap_alloc h n m = Some (0, m)
    | Some a \<Rightarrow> \<exists>m' bs' fs' s. rt_memheap_alloc h n m = Some (a + 24, m') \<and> heap_inv m' h bs' fs'
        \<and> same_rest h m m' \<and> live m bs fs a = None \<and> live m' bs' fs' = (live m bs fs)(a \<mapsto> s)
        \<and> unat (align_request n) \<le> s \<and> s < unat (align_request n) + 36"
proof (cases "if align_request n < mh_available_size (mm_heaps m h) then first_fit m (align_request n) fs else None")
  case None
  then show ?thesis using alloc_search [OF i, of n] by (auto split: if_splits)
next
  case (Some a)
  let ?n = "align_request n"
  have ff: "?n < mh_available_size (mm_heaps m h)" "first_fit m ?n fs = Some a" using Some by (auto split: if_splits)
  have al: "rt_memheap_alloc h n m = Some (alloc_block h ?n a (MEMITEM_SIZE m a) m)"
    using alloc_search [OF i, of n] ff by simp
  have afs: "a \<in> set fs" and na: "?n \<le> MEMITEM_SIZE m a"
    using ff(2) by (auto simp: first_fit_def find_Some_iff)
  obtain us vs where fs: "fs = us @ a # vs" using afs by (meson split_list)
  obtain xs c ys where bs: "bs = xs @ a # c # ys"
    using heap_split [OF i [unfolded fs]] by metis
  have fstp: "fst (alloc_block h ?n a (MEMITEM_SIZE m a) m) = a + 24"
    by (simp add: alloc_block_def Let_def)
  have b: "blocks_ok m h (xs @ a # c # ys) (set fs)" and f: "free_ok m h fs"
    using i bs by (auto simp: heap_inv_def heap_core_def)
  have d: "distinct fs" "distinct bs" using f blocks_okD(1) [OF b] bs by (auto simp: free_ok_def ring_def)
  have la: "live m bs fs a = None" using afs by (simp add: live_def)
  note i' = i [unfolded bs fs]
  show ?thesis
  proof (cases "MEMITEM_SIZE m a \<ge> ?n + 24 + 12")
    case True
    note A = alloc_split [OF i' True na align_request_props]
    let ?k = "a + ?n + 24" and ?m = "snd (alloc_block h ?n a (MEMITEM_SIZE m a) m)"
    have sa: "unat (MEMITEM_SIZE ?m a) = unat ?n"
    proof -
      have "next_of ?m a = ?k" by (simp only: A(3) fun_upd_same)
      then have "MEMITEM_SIZE ?m a = ?n" by (simp only: MEMITEM_SIZE_def mh_consts) simp
      then show ?thesis by simp
    qed
    have "live ?m (xs @ a # ?k # c # ys) (?k # us @ vs) = (live m bs fs)(a \<mapsto> unat ?n)"
    proof
      fix x
      show "live ?m (xs @ a # ?k # c # ys) (?k # us @ vs) x = ((live m bs fs)(a \<mapsto> unat ?n)) x"
        using sa A(3,4) d fs bs
        by (auto simp: live_def butlast_append MEMITEM_SIZE_def dest: in_set_butlastD)
    qed
    then show ?thesis
      using al fstp A(1,2) la by (simp add: Some) (metis prod.collapse le_refl less_add_same_cancel1 zero_less_numeral)
  next
    case False
    note A = alloc_whole [OF i' False]
    let ?m = "snd (alloc_block h ?n a (MEMITEM_SIZE m a) m)"
    note B = block_between [OF b]
    have "live ?m bs (us @ vs) = (live m bs fs)(a \<mapsto> unat (MEMITEM_SIZE m a))"
    proof
      fix x
      show "live ?m bs (us @ vs) x = ((live m bs fs)(a \<mapsto> unat (MEMITEM_SIZE m a))) x"
        using A(3) d fs bs by (auto simp: live_def butlast_append MEMITEM_SIZE_def)
    qed
    moreover have "unat (MEMITEM_SIZE m a) < unat ?n + 36"
    proof -
      have "unat (?n + 36) = unat ?n + 36"
        by (subst unat_add_no_wrap) (use na B(3,4,6) in \<open>auto simp: word_le_nat_alt\<close>)
      then show ?thesis using False by (simp add: word_le_nat_alt add.assoc)
    qed
    ultimately show ?thesis
      using al fstp A(1,2) la na unfolding bs [symmetric]
      by (simp add: Some word_le_nat_alt) (metis prod.collapse)
  qed
qed

section \<open>Growing into the next block\<close>

lemma grow_correct:
  assumes i: "heap_inv m h (xs @ a # c # ys) fs" and a: "a \<notin> set fs" and c: "c \<in> set fs"
    and n: "4 dvd unat n" "unat (MEMITEM_SIZE m a) < unat n"
      "unat n + 12 < unat (MEMITEM_SIZE m c) + unat (MEMITEM_SIZE m a)"
  defines "m' \<equiv> realloc_grow h (a + 24) n (MEMITEM_SIZE m a) c m"
  obtains bs' fs' where "heap_inv m' h bs' fs'" "same_rest h m m'"
    "live m' bs' fs' = (live m (xs @ a # c # ys) fs)(a \<mapsto> unat n)"
proof -
  have co: "heap_core m h (xs @ a # c # ys) fs" using i by (simp add: heap_inv_def)
  have b: "blocks_ok m h (xs @ a # c # ys) (set fs)" and f: "free_ok m h fs"
    and ap: "apart (set fs) (xs @ a # c # ys)" using co by (auto simp: heap_core_def)
  note D = blocks_okD [OF b] and B = block_between [OF b]
  have dist: "distinct (xs @ a # c # ys)" using D(1) by (simp add: ring_def)
  have "c \<in> set (butlast (xs @ a # c # ys))" using D(3) c by auto
  then obtain d ws where ys: "ys = d # ws" using dist by (cases ys) (auto simp: butlast_append)
  have b2: "blocks_ok m h ((xs @ [a]) @ c # d # ws) (set fs)" using b ys by simp
  note C = block_between [OF b2]
  obtain us vs where fs: "fs = us @ c # vs" using c by (meson split_list)
  have fl: "mh_free_list (mm_heaps m h) = free_header h" using f by (simp add: free_ok_def)
  define k where "k = a + 24 + n"
  have "unat (a + 24) = unat a + 24" by (subst unat_add_no_wrap) (use B(3,4) in auto)
  then have k: "unat k = unat a + 24 + unat n"
    unfolding k_def by (subst unat_add_no_wrap) (use n(3) B(3,4,6) C(3,4,6) in auto)
  have gk: "gap a k" "gap k d" using k n B(3,6) C(3,6) by (auto simp: gap_def)
  have dk: "4 dvd unat k" using k n(1) D(4) [of a] by (auto intro!: dvd_add)
  have kc: "unat c < unat k" using k n B(3,6) by linarith
  have "k \<notin> set (xs @ a # d # ws)"
    using D(2) gk ys by (auto simp: sorted_wrt_append gap_def)
  then have kin: "k \<notin> set (xs @ a # c # ys)" using ys kc by auto
  have kh: "k \<noteq> free_header h" using C(9) [of k] kc gk by (simp add: gap_def)
  have ak: "a \<noteq> k" using kin by auto
  define m1 where "m1 = remove_next_ptr c (take_available h (n - MEMITEM_SIZE m a) m)"
  define m2 where "m2 = insert_block a k (set_pool k h (set_magic k 0x1ea01ea0 m1))"
  have m': "m' = insert_free h k m2"
    by (simp add: m'_def realloc_grow_def Let_def m1_def m2_def k_def)
  have nc: "next_of m c = d" "prev_of m c = a" using C(1) B(2) by auto
  have F1: "next_of m1 = (next_of m)(a := next_of m c)" "prev_of m1 = (prev_of m)(next_of m c := a)"
    "magic_of m1 = magic_of m" "pool_of m1 = pool_of m"
    using dist ys by (simp_all add: m1_def remove_next_ptr_split field_simps_mh nc)
  have "blocks_ok m1 h (xs @ a # d # ws) (set fs - {c})" using b ys F1 by (intro blocks_remove) auto
  then have "blocks_ok m2 h (xs @ a # k # d # ws) (insert k (set fs - {c}))"
    by (rule blocks_insert [OF _ gk dk]) (use ak in \<open>auto simp: m2_def field_simps_mh\<close>)
  moreover have dc: "c \<notin> set us" "c \<notin> set vs" "distinct (us @ vs)" using f fs by (auto simp: free_ok_def ring_def)
  ultimately have "blocks_ok m2 h (xs @ a # k # d # ws) (set (k # us @ vs))" using fs by (simp add: insert_absorb Un_commute)
  then have b': "blocks_ok m' h (xs @ a # k # d # ws) (set (k # us @ vs))"
    by (rule blocks_cong) (auto simp: m' field_simps_mh)
  have "free_ok (take_available h (n - MEMITEM_SIZE m a) m) h (us @ c # vs)"
    using f [unfolded fs] by (rule free_cong) (auto simp: field_simps_mh)
  from free_remove [OF this] have "free_ok m2 h (us @ vs)"
    by (rule free_cong) (use ak in \<open>auto simp: m2_def m1_def remove_next_ptr_split field_simps_mh\<close>)
  moreover have "set (us @ vs) \<subseteq> set (xs @ a # c # ys)"
    using D(3) fs set_butlast_subset [of "xs @ a # c # ys"] by auto
  ultimately have f': "free_ok m' h (k # us @ vs)"
    unfolding m' using kin kh by (intro free_insert) auto
  have nx: "next_of m' = (next_of m)(a := k, k := d)"
    using ak by (auto simp: fun_eq_iff m' m2_def F1 field_simps_mh nc)
  have "sum_list (map (MEMITEM_SIZE m') (us @ vs)) = sum_list (map (MEMITEM_SIZE m) (us @ vs))"
    by (rule sum_sizes_cong) (use a fs kin \<open>set (us @ vs) \<subseteq> _\<close> in \<open>auto simp: nx\<close>)
  moreover have "MEMITEM_SIZE m' k = MEMITEM_SIZE m c + MEMITEM_SIZE m a - n"
    by (simp add: MEMITEM_SIZE_def nx nc B(1) k_def)
  ultimately have sz: "sum_list (map (MEMITEM_SIZE m') (k # us @ vs)) =
      sum_list (map (MEMITEM_SIZE m) fs) - (n - MEMITEM_SIZE m a)" by (simp add: fs)
  have hp: "mm_heaps m' = mm_heaps (take_available h (n - MEMITEM_SIZE m a) m)"
    by (simp add: m' m2_def m1_def remove_next_ptr_split field_simps_mh)
  have ap0: "apart (set fs) (xs @ [a])" "apart (set fs) (c # d # ws)"
    using ap ys by (simp_all add: apart_cut [of _ xs a "c # d # ws"] apart_Cons)
  have "apart (set (k # us @ vs)) (xs @ [a])" using ap0(1) by (rule apart_mono) (use fs kin in auto)
  moreover have "apart (set (k # us @ vs)) (d # ws)"
    using ap0(2) fs kin ys by (auto simp: apart_Cons elim!: apart_mono)
  moreover have "d \<notin> set (k # us @ vs)" using ap0(2) c fs kin ys by (auto simp: apart_Cons)
  ultimately have ap': "apart (set (k # us @ vs)) (xs @ a # k # d # ws)"
    using a ak fs by (subst apart_cut) (auto simp: apart_Cons)
  have "heap_inv m' h (xs @ a # k # d # ws) (k # us @ vs)"
    unfolding heap_inv_def heap_core_def hp
    using i b' f' ap' sz ys hd_middle [of xs a "k # d # ws"] hd_middle [of xs a "c # d # ws"]
    by (simp add: heap_inv_def heap_core_def field_simps_mh)
  moreover have "same_rest h m m'"
    unfolding same_rest_def hp by (simp add: m' m2_def m1_def remove_next_ptr_split field_simps_mh)
  moreover have "live m' (xs @ a # k # d # ws) (k # us @ vs) = (live m (xs @ a # c # ys) fs)(a \<mapsto> unat n)"
  proof
    fix x
    have "MEMITEM_SIZE m' a = n" using ak by (simp add: MEMITEM_SIZE_def nx k_def)
    then show "live m' (xs @ a # k # d # ws) (k # us @ vs) x = ((live m (xs @ a # c # ys) fs)(a \<mapsto> unat n)) x"
      using a ak fs kin dist ys dc nx
      by (auto simp: live_def butlast_append MEMITEM_SIZE_def dest: in_set_butlastD)
  qed
  ultimately show ?thesis by (rule that)
qed

section \<open>Shrinking\<close>

text \<open>The first half of shrinking: the new free block is in the ring, and merged with its successor.\<close>

lemma shrink_ring:
  assumes co: "heap_core m h (xs @ a # c # ys) fs" and a: "a \<notin> set fs"
    and k: "gap a k" "gap k c" "4 dvd unat k"
  defines "m1 \<equiv> insert_block a k (set_pool k h (set_magic k 0x1ea01ea0 m))"
  defines "m2 \<equiv> (if \<not> RT_MEMHEAP_IS_USED m1 (next_of m1 k)
     then remove_free c (set_next k (next_of m c) (set_prev (next_of m c) k
       (upd_heap h (\<lambda>hp. hp\<lparr>mh_available_size := mh_available_size hp - MEMITEM_SIZE m c\<rparr>) m1)))
     else m1)"
  obtains rest fs' where "blocks_ok m2 h (xs @ a # k # rest) (insert k (set fs'))" "free_ok m2 h fs'"
    "apart (insert k (set fs')) (xs @ a # k # rest)" "k \<notin> set fs'" "k \<notin> set (xs @ a # c # ys)" "k \<noteq> free_header h"
    "same_rest h m m2" "mh_max_used_size (mm_heaps m2 h) = mh_max_used_size (mm_heaps m h)"
    "next_of m2 = (next_of m)(a := k, k := hd rest)" "rest \<noteq> []" "last rest = last (c # ys)"
    "mh_available_size (mm_heaps m2 h) = sum_list (map (MEMITEM_SIZE m2) fs')"
    "mh_available_size (mm_heaps m2 h) + MEMITEM_SIZE m2 k = mh_available_size (mm_heaps m h) + (c - k - 24) + (if c \<in> set fs then 24 else 0)"
    "set (butlast (a # k # rest)) - insert k (set fs') = set (butlast (a # c # ys)) - set fs"
    "\<forall>x \<in> set xs. x \<in> set fs' \<longleftrightarrow> x \<in> set fs"
proof -
  have b: "blocks_ok m h (xs @ a # c # ys) (set fs)" and f: "free_ok m h fs"
    and ap: "apart (set fs) (xs @ a # c # ys)" using co by (auto simp: heap_core_def)
  note D = blocks_okD [OF b] and B = block_between [OF b]
  have dist: "distinct (xs @ a # c # ys)" using D(1) by (simp add: ring_def)
  have kin: "k \<notin> set (xs @ a # c # ys)"
    using D(2) k by (auto simp: sorted_wrt_append gap_def)
  have kh: "k \<noteq> free_header h" using B(9) [of k] k by (simp add: gap_def)
  have kfs: "k \<notin> set fs" using kin D(3) set_butlast_subset [of "xs @ a # c # ys"] by auto
  have ak: "k \<noteq> a" "k \<noteq> c" using kin by auto
  have nx1: "next_of m1 = (next_of m)(a := k, k := c)"
    using ak by (auto simp: fun_eq_iff m1_def field_simps_mh B(1))
  have pv1: "prev_of m1 = (prev_of m)(k := a, c := k)" using ak by (simp add: m1_def field_simps_mh B(1))
  have b1: "blocks_ok m1 h (xs @ a # k # c # ys) (insert k (set fs))"
    by (rule blocks_insert [OF b k]) (use ak in \<open>auto simp: m1_def field_simps_mh\<close>)
  have f1: "free_ok m1 h fs" using f by (rule free_cong) (use ak in \<open>auto simp: m1_def field_simps_mh\<close>)
  have us: "RT_MEMHEAP_IS_USED m1 (next_of m1 k) \<longleftrightarrow> c \<notin> set fs"
    using blocks_okD(6) [OF b1, of c] ak nx1 by (cases "c \<in> set fs") auto
  have hp1: "mm_heaps m1 = mm_heaps m" "mm_bytes m1 = mm_bytes m" by (simp_all add: m1_def field_simps_mh)
  have av: "mh_available_size (mm_heaps m h) = sum_list (map (MEMITEM_SIZE m) fs)" using co by (simp add: heap_core_def)
  have apx: "apart (set fs) (xs @ [a])" "apart (set fs) (c # ys)"
    using ap by (simp_all add: apart_cut [of _ xs a "c # ys"] apart_Cons)
  show ?thesis
  proof (cases "c \<in> set fs")
    case False
    then have m2: "m2 = m1" using us by (simp add: m2_def)
    have "sum_list (map (MEMITEM_SIZE m1) fs) = sum_list (map (MEMITEM_SIZE m) fs)"
      by (rule sum_sizes_cong) (use a kfs in \<open>auto simp: nx1\<close>)
    moreover have "apart (insert k (set fs)) (xs @ [a])" "apart (insert k (set fs)) (c # ys)"
      using apx kin by (auto elim!: apart_mono)
    then have "apart (insert k (set fs)) (xs @ a # k # c # ys)"
      using False a ak by (subst apart_cut) (auto simp: apart_Cons)
    moreover have "MEMITEM_SIZE m1 k = c - k - 24" using ak by (simp add: MEMITEM_SIZE_def nx1)
    ultimately show ?thesis
      using b1 f1 kfs kin kh ak nx1 hp1 av False
      by (intro that [of "c # ys" fs]) (auto simp: m2 same_rest_def dest: in_set_butlastD)
  next
    case True
    have "c \<in> set (butlast (xs @ a # c # ys))" using D(3) True by auto
    then obtain d ws where ys: "ys = d # ws" using dist by (cases ys) (auto simp: butlast_append)
    obtain us vs where fs: "fs = us @ c # vs" using True by (meson split_list)
    have nc: "next_of m c = d" using ring_next [of "next_of m" "prev_of m" "xs @ [a]" c d ws] D(1) ys by simp
    have ne: "d \<noteq> k" "d \<noteq> c" "d \<noteq> a" using kin dist ys by auto
    define m15 where "m15 = set_next k d (set_prev d k
       (upd_heap h (\<lambda>hp. hp\<lparr>mh_available_size := mh_available_size hp - MEMITEM_SIZE m c\<rparr>) m1))"
    have m2: "m2 = remove_free c m15" using us True by (simp add: m2_def m15_def nc)
    have nx2: "next_of m2 = (next_of m1)(k := next_of m1 c)" "prev_of m2 = (prev_of m1)(next_of m1 c := k)"
      using ak dist by (auto simp: m2 m15_def field_simps_mh nx1 nc)
    have "blocks_ok m1 h ((xs @ [a]) @ k # c # d # ws) (insert k (set fs))" using b1 ys by simp
    from blocks_remove [OF this nx2] have "blocks_ok m2 h ((xs @ [a]) @ k # d # ws) (insert k (set fs) - {c})"
      by (simp add: m2 m15_def field_simps_mh)
    moreover have cn: "c \<notin> set us" "c \<notin> set vs" using f fs by (auto simp: free_ok_def ring_def)
    moreover have "insert k (set fs) - {c} = insert k (set (us @ vs))" using fs cn ak by auto
    ultimately have b2: "blocks_ok m2 h (xs @ a # k # d # ws) (insert k (set (us @ vs)))" by simp
    have "free_ok m15 h (us @ c # vs)" using f1 [unfolded fs] by (rule free_cong) (auto simp: m15_def field_simps_mh)
    then have f2: "free_ok m2 h (us @ vs)" unfolding m2 by (rule free_remove)
    have nx: "next_of m2 = (next_of m)(a := k, k := d)"
      using ak dist by (auto simp: fun_eq_iff nx2 nx1 nc)
    have sum: "sum_list (map (MEMITEM_SIZE m2) (us @ vs)) = sum_list (map (MEMITEM_SIZE m) (us @ vs))"
      by (rule sum_sizes_cong) (use a kfs fs in \<open>auto simp: nx\<close>)
    have hp2: "mh_available_size (mm_heaps m2 h) = mh_available_size (mm_heaps m h) - MEMITEM_SIZE m c"
      by (simp add: m2 m15_def field_simps_mh hp1)
    have ap2: "apart (insert k (set (us @ vs))) (xs @ [a])" using apx(1) by (rule apart_mono) (use fs kin in auto)
    have "apart (set fs) (d # ws)" and dn: "d \<notin> set fs" using apx(2) ys True by (auto simp: apart_Cons)
    then have "apart (insert k (set (us @ vs))) (d # ws)" using kin fs ys by (auto elim!: apart_mono)
    then have ap3: "apart (insert k (set (us @ vs))) (xs @ a # k # d # ws)"
      using ap2 a ak fs dn ne by (subst apart_cut) (auto simp: apart_Cons)
    have "MEMITEM_SIZE m2 k = d - k - 24" "MEMITEM_SIZE m c = d - c - 24"
      by (simp_all add: MEMITEM_SIZE_def nx nc)
    then have acc: "mh_available_size (mm_heaps m2 h) + MEMITEM_SIZE m2 k = mh_available_size (mm_heaps m h) + (c - k - 24) + 24"
      by (simp add: hp2)
    have sr: "same_rest h m m2" "mh_max_used_size (mm_heaps m2 h) = mh_max_used_size (mm_heaps m h)"
      by (simp_all add: m2 m15_def field_simps_mh hp1 same_rest_def)
    have st: "set (butlast (a # k # d # ws)) - insert k (set (us @ vs)) = set (butlast (a # c # ys)) - set fs"
      using kin ys fs cn a ak dist by (auto dest: in_set_butlastD)
    show ?thesis
    proof (rule that [of "d # ws" "us @ vs"])
      show "blocks_ok m2 h (xs @ a # k # d # ws) (insert k (set (us @ vs)))" by (rule b2)
      show "free_ok m2 h (us @ vs)" by (rule f2)
      show "apart (insert k (set (us @ vs))) (xs @ a # k # d # ws)" by (rule ap3)
      show "mh_available_size (mm_heaps m2 h) = sum_list (map (MEMITEM_SIZE m2) (us @ vs))"
        using hp2 sum av fs by simp
      show "\<forall>x \<in> set xs. x \<in> set (us @ vs) \<longleftrightarrow> x \<in> set fs" using fs dist by auto
    qed (use kfs kin kh fs sr nx ys acc True st in auto)
  qed
qed

lemma shrink_correct:
  assumes i: "heap_inv m h (xs @ a # c # ys) fs" and a: "a \<notin> set fs"
    and n: "12 \<le> unat n" "4 dvd unat n" "unat n + 36 < unat (MEMITEM_SIZE m a)"
  defines "m' \<equiv> realloc_shrink h (a + 24) n m"
  obtains bs' fs' where "heap_inv m' h bs' fs'" "same_rest h m m'"
    "live m' bs' fs' = (live m (xs @ a # c # ys) fs)(a \<mapsto> unat n)"
proof -
  have co: "heap_core m h (xs @ a # c # ys) fs" using i by (simp add: heap_inv_def)
  have b: "blocks_ok m h (xs @ a # c # ys) (set fs)" and f: "free_ok m h fs" using co by (auto simp: heap_core_def)
  note D = blocks_okD [OF b] and B = block_between [OF b]
  have dist: "distinct (xs @ a # c # ys)" using D(1) by (simp add: ring_def)
  define k where "k = a + n + 24"
  have "unat (a + n) = unat a + unat n" by (subst unat_add_no_wrap) (use n B(3,4,6) in auto)
  then have k: "unat k = unat a + unat n + 24"
    unfolding k_def by (subst unat_add_no_wrap) (use n B(3,4,6) in auto)
  have gk: "gap a k" "gap k c" using k n B(3,6) by (auto simp: gap_def)
  have dk: "4 dvd unat k" using k n(2) D(4) [of a] by (auto intro!: dvd_add)
  define m1 where "m1 = insert_block a k (set_pool k h (set_magic k 0x1ea01ea0 m))"
  define m2 where "m2 = (if \<not> RT_MEMHEAP_IS_USED m1 (next_of m1 k)
     then remove_free c (set_next k (next_of m c) (set_prev (next_of m c) k
       (upd_heap h (\<lambda>hp. hp\<lparr>mh_available_size := mh_available_size hp - MEMITEM_SIZE m c\<rparr>) m1)))
     else m1)"
  obtain rest fs' where S: "blocks_ok m2 h (xs @ a # k # rest) (insert k (set fs'))" "free_ok m2 h fs'"
    "apart (insert k (set fs')) (xs @ a # k # rest)" "k \<notin> set fs'" "k \<notin> set (xs @ a # c # ys)" "k \<noteq> free_header h"
    "same_rest h m m2" "mh_max_used_size (mm_heaps m2 h) = mh_max_used_size (mm_heaps m h)"
    "next_of m2 = (next_of m)(a := k, k := hd rest)" "rest \<noteq> []" "last rest = last (c # ys)"
    "mh_available_size (mm_heaps m2 h) = sum_list (map (MEMITEM_SIZE m2) fs')"
    "mh_available_size (mm_heaps m2 h) + MEMITEM_SIZE m2 k = mh_available_size (mm_heaps m h) + (c - k - 24) + (if c \<in> set fs then 24 else 0)"
    "set (butlast (a # k # rest)) - insert k (set fs') = set (butlast (a # c # ys)) - set fs"
    "\<forall>x \<in> set xs. x \<in> set fs' \<longleftrightarrow> x \<in> set fs"
    by (rule shrink_ring [OF co a gk dk, folded m1_def, folded m2_def])
  have ak: "k \<noteq> a" "k \<noteq> c" using S(5) by auto
  have nxk: "next_of m1 k = c" "next_of m1 c = next_of m c"
    using ak dist by (auto simp: m1_def field_simps_mh B(1))
  have szc: "MEMITEM_SIZE m1 c = MEMITEM_SIZE m c" by (simp add: MEMITEM_SIZE_def nxk)
  have cd: "next_of m c \<noteq> k"
    using ring_next_in [OF D(1), of c] S(5) by auto
  have m': "m' = add_available h (MEMITEM_SIZE (insert_free h k m2) k) (insert_free h k m2)"
  proof -
    have "realloc_shrink h (a + 24) n m = (let m3 = insert_free h k m2 in add_available h (MEMITEM_SIZE m3 k) m3)"
      using cd ak by (simp add: realloc_shrink_def Let_def k_def [symmetric] m1_def [symmetric] nxk szc field_simps_mh m2_def)
    then show ?thesis by (simp add: m'_def Let_def)
  qed
  have szk: "MEMITEM_SIZE (insert_free h k m2) k = MEMITEM_SIZE m2 k" by (simp add: MEMITEM_SIZE_def field_simps_mh)
  have nx: "next_of m' = (next_of m)(a := k, k := hd rest)" by (simp add: m' field_simps_mh S(9))
  have b': "blocks_ok m' h (xs @ a # k # rest) (set (k # fs'))"
    using S(1) by (auto simp: m' intro: blocks_cong simp: field_simps_mh)
  have "k \<notin> set (free_header h # fs')" using S(4,6) by auto
  then have "free_ok (insert_free h k m2) h (k # fs')" by (rule free_insert [OF S(2)])
  then have f': "free_ok m' h (k # fs')" by (rule free_cong) (auto simp: m' field_simps_mh)
  have ap': "apart (set (k # fs')) (xs @ a # k # rest)" using S(3) by simp
  have hp: "mm_heaps m' h = (mm_heaps m2 h)\<lparr>mh_available_size := mh_available_size (mm_heaps m2 h) + MEMITEM_SIZE m2 k\<rparr>"
    by (simp add: m' field_simps_mh szk)
  have "MEMITEM_SIZE m' = MEMITEM_SIZE m2" by (simp add: fun_eq_iff MEMITEM_SIZE_def nx S(9))
  then have av: "mh_available_size (mm_heaps m' h) = sum_list (map (MEMITEM_SIZE m') (k # fs'))"
    by (simp add: hp S(12) add.commute)
  have hd_eq: "hd (xs @ a # k # rest) = hd (xs @ a # c # ys)" by (cases xs) auto
  have sr: "same_rest h m m'"
    using S(7) by (auto simp: same_rest_def m' field_simps_mh)
  have co': "heap_core m' h (xs @ a # k # rest) (k # fs')"
    using co b' f' ap' av hd_eq sr S(10,11) by (simp add: heap_core_def same_rest_def)
  have le: "unat (mh_available_size (mm_heaps m h)) \<le> unat (mh_available_size (mm_heaps m' h))"
  proof -
    let ?d = "(c - k - 24) + (if c \<in> set fs then 24 else 0)"
    have "unat (c - k) = unat c - unat k" using gk by (intro unat_sub_le) (simp add: gap_def word_le_nat_alt)
    moreover have "unat ((c - k) - 24) = unat (c - k) - unat (24 :: u32)"
      by (rule unat_sub_le) (use gk calculation in \<open>simp add: gap_def word_le_nat_alt\<close>)
    ultimately have ck: "unat (c - k - 24) = unat c - unat k - 24" by simp
    have "unat (c - k - 24) + 24 < 2 ^ 32" using ck B(4) by linarith
    then have "unat ?d \<le> unat (c - k - 24) + 24" by (auto simp: unat_add_no_wrap)
    then have d: "unat ?d \<le> unat (MEMITEM_SIZE m a) + 24" using ck B(6) k by linarith
    have "unat (mh_pool_size (mm_heaps m h)) < 2 ^ 32" using unsigned_less [of "mh_pool_size (mm_heaps m h)"] by simp
    moreover have "unat (mh_available_size (mm_heaps m h)) + unat (MEMITEM_SIZE m a) + 48 \<le> unat (mh_pool_size (mm_heaps m h))"
      by (rule live_room [OF co]) (use a in \<open>auto simp: butlast_append\<close>)
    ultimately have "unat (mh_available_size (mm_heaps m h) + ?d) = unat (mh_available_size (mm_heaps m h)) + unat ?d"
      using d by (intro unat_add_no_wrap) linarith
    then show ?thesis using S(13) hp by (simp add: add.assoc)
  qed
  have "mh_pool_size (mm_heaps m' h) - mh_available_size (mm_heaps m' h) \<le> mh_max_used_size (mm_heaps m' h)"
  proof -
    have "mh_pool_size (mm_heaps m' h) = mh_pool_size (mm_heaps m h)" "mh_max_used_size (mm_heaps m' h) = mh_max_used_size (mm_heaps m h)"
      using sr hp S(8) by (auto simp: same_rest_def)
    then show ?thesis using i le heap_counters(3) [OF co'] by (auto simp: heap_inv_def intro: max_used_mono)
  qed
  then have "heap_inv m' h (xs @ a # k # rest) (k # fs')" using co' by (simp add: heap_inv_def)
  moreover have "live m' (xs @ a # k # rest) (k # fs') = (live m (xs @ a # c # ys) fs)(a \<mapsto> unat n)"
  proof
    fix x
    have "next_of m' a = k" using ak by (simp add: nx)
    then have sa: "MEMITEM_SIZE m' a = n" by (simp add: MEMITEM_SIZE_def k_def)
    have dom: "set (butlast (xs @ a # k # rest)) - set (k # fs') = set (butlast (xs @ a # c # ys)) - set fs"
    proof -
      have "set (butlast (xs @ a # k # rest)) = set xs \<union> set (butlast (a # k # rest))"
        "set (butlast (xs @ a # c # ys)) = set xs \<union> set (butlast (a # c # ys))" by (auto simp: butlast_append)
      moreover have "set xs - insert k (set fs') = set xs - set fs" using S(5,15) by auto
      ultimately show ?thesis using S(14) by (simp only: Un_Diff list.simps)
    qed
    have mem: "a \<in> set (butlast (xs @ a # c # ys)) - set fs" using a by (auto simp: butlast_append)
    show "live m' (xs @ a # k # rest) (k # fs') x = ((live m (xs @ a # c # ys) fs)(a \<mapsto> unat n)) x"
    proof (cases "x = a")
      case True
      then show ?thesis unfolding live_def dom using mem sa by simp
    next
      case False
      have "x \<in> set (butlast (xs @ a # c # ys)) \<Longrightarrow> next_of m' x = next_of m x"
        using S(5) False set_butlast_subset [of "xs @ a # c # ys"] by (auto simp: nx)
      then show ?thesis unfolding live_def dom using False by (auto simp: MEMITEM_SIZE_def)
    qed
  qed
  ultimately show ?thesis using sr by (intro that) auto
qed

section \<open>Live blocks do not overlap\<close>

lemma block_end:
  assumes b: "blocks_ok m h bs F" and a: "a \<in> set (butlast bs)" and x: "x \<in> set bs" "unat a < unat x"
  shows "unat a + 24 + unat (MEMITEM_SIZE m a) \<le> unat x"
proof -
  obtain xs c ys where bs: "bs = xs @ a # c # ys" using a by (rule butlast_split)
  have s: "sorted_wrt gap (xs @ a # c # ys)" using blocks_okD(2) [OF b] bs by simp
  have "x \<in> set (c # ys)" using x s bs by (auto simp: sorted_wrt_append gap_def)
  then have "unat c \<le> unat x" using s by (auto simp: sorted_wrt_append gap_def)
  then show ?thesis using block_between(3,6) [OF b [unfolded bs]] by simp
qed

lemma live_Some: "live m bs fs a = Some s \<longleftrightarrow> a \<in> set (butlast bs) \<and> a \<notin> set fs \<and> s = unat (MEMITEM_SIZE m a)"
  by (auto simp: live_def)

lemma live_bounds:
  assumes i: "heap_inv m h bs fs" and l: "live m bs fs a = Some s"
  shows "12 \<le> s" "4 dvd s" "4 dvd unat (a + 24)" "unat (a + 24) = unat a + 24"
    "unat (mh_start_addr (mm_heaps m h)) \<le> unat a"
    "unat a + 24 + s + 24 \<le> unat (mh_start_addr (mm_heaps m h)) + unat (mh_pool_size (mm_heaps m h))"
    "unat (mh_start_addr (mm_heaps m h)) + unat (mh_pool_size (mm_heaps m h)) < 2 ^ 32"
proof -
  have co: "heap_core m h bs fs" and b: "blocks_ok m h bs (set fs)" using i by (auto simp: heap_inv_def heap_core_def)
  have a: "a \<in> set (butlast bs)" and s: "s = unat (MEMITEM_SIZE m a)" using l by (auto simp: live_Some)
  obtain xs c ys where bs: "bs = xs @ a # c # ys" using a by (rule butlast_split)
  note B = block_between [OF b [unfolded bs]]
  have D: "sorted_wrt gap (xs @ a # c # ys)" using blocks_okD(2) [OF b] bs by simp
  show "12 \<le> s" using B(3,6) s by simp
  show "4 dvd s" using B(7) s by simp
  show u: "unat (a + 24) = unat a + 24" by (subst unat_add_no_wrap) (use B(3,4) in auto)
  have "4 dvd unat a" using blocks_okD(4) [OF b, of a] bs by simp
  then show "4 dvd unat (a + 24)" unfolding u by (auto intro!: dvd_add)
  have st: "mh_start_addr (mm_heaps m h) = hd bs" using co by (simp add: heap_core_def)
  have hd: "unat (hd bs) \<le> unat a" using D bs by (cases xs) (auto simp: gap_def)
  then show "unat (mh_start_addr (mm_heaps m h)) \<le> unat a" by (simp add: st)
  have la: "last bs \<in> set bs" using bs by simp
  have "unat a < unat (last bs)"
    using D bs by (cases ys rule: rev_cases) (auto simp: sorted_wrt_append gap_def)
  then have e: "unat a + 24 + s \<le> unat (last bs)" using block_end [OF b a la] s by simp
  then show "unat a + 24 + s + 24 \<le> unat (mh_start_addr (mm_heaps m h)) + unat (mh_pool_size (mm_heaps m h))"
    using heap_counters(2) [OF co] hd st by simp
  show "unat (mh_start_addr (mm_heaps m h)) + unat (mh_pool_size (mm_heaps m h)) < 2 ^ 32"
    using heap_counters(2) [OF co] hd st blocks_okD(7) [OF b] e by simp
qed

lemma live_disjoint:
  assumes i: "heap_inv m h bs fs" and l: "live m bs fs a = Some s" "live m bs fs b = Some t" and ne: "a \<noteq> b"
  shows "unat a + 24 + s \<le> unat b \<or> unat b + 24 + t \<le> unat a"
proof -
  have b: "blocks_ok m h bs (set fs)" using i by (auto simp: heap_inv_def heap_core_def)
  have "unat a \<noteq> unat b" using ne by (simp add: word_unat_eq_iff)
  then show ?thesis
    using l block_end [OF b, of a b] block_end [OF b, of b a]
    by (auto simp: live_Some linorder_neq_iff dest: in_set_butlastD)
qed

section \<open>Copying between blocks\<close>

definition copied :: "(u32 \<Rightarrow> u8) \<Rightarrow> u32 \<Rightarrow> u32 \<Rightarrow> nat \<Rightarrow> (u32 \<Rightarrow> u8)" where
  "copied b d s n = (\<lambda>x. if unat (x - d) < n then b (s + (x - d)) else b x)"

lemma unat_minus_1: "x \<noteq> 0 \<Longrightarrow> unat (x - 1 :: u32) = unat x - 1"
  by (simp add: unat_sub_le word_le_nat_alt unat_gt_0 Suc_le_eq)

lemma memcpy_up_copied:
  "(\<And>x. unat (x - d) < n \<Longrightarrow> \<not> unat (x - s) < n) \<Longrightarrow> n < 2 ^ 32 \<Longrightarrow> memcpy_up n d s b = copied b d s n"
proof (induction n d s b rule: memcpy_up.induct)
  case (1 d s b)
  then show ?case by (simp add: copied_def)
next
  case (2 n d s b)
  have m1: "unat (x - (d + 1)) = unat (x - d) - 1" if "x \<noteq> d" for x
    using unat_minus_1 [of "x - d"] that by (simp add: diff_diff_eq2 diff_diff_add)
  have m2: "unat (x - (s + 1)) = unat (x - s) - 1" if "x \<noteq> s" for x
    using unat_minus_1 [of "x - s"] that by (simp add: diff_diff_eq2 diff_diff_add)
  have top: "unat (d - (d + 1)) = 2 ^ 32 - 1" "unat (s - (s + 1)) = 2 ^ 32 - 1" by (simp_all add: unsigned_minus_1_eq_mask mask_eq_exp_minus_1)
  have "memcpy_up n (d + 1) (s + 1) (b(d := b s)) = copied (b(d := b s)) (d + 1) (s + 1) n"
  proof (rule "2.IH")
    fix x assume x: "unat (x - (d + 1)) < n"
    have "x \<noteq> d" using x top "2.prems"(2) by auto
    then have "unat (x - d) < Suc n" using x m1 by simp
    then have "\<not> unat (x - s) < Suc n" by (rule "2.prems"(1))
    then show "\<not> unat (x - (s + 1)) < n" using m2 [of x] by (cases "x = s") auto
  qed (use "2.prems" in simp)
  also have "\<dots> = copied b d s (Suc n)"
  proof
    fix x
    show "copied (b(d := b s)) (d + 1) (s + 1) n x = copied b d s (Suc n) x"
    proof (cases "x = d")
      case True
      then show ?thesis using top "2.prems"(2) by (simp add: copied_def)
    next
      case False
      have "s + (x - d) \<noteq> d" if "unat (x - d) < Suc n"
      proof
        assume e: "s + (x - d) = d"
        then have "unat (d - s) < Suc n" using that by (metis add_diff_cancel_left')
        then show False using "2.prems"(1) [of d] by simp
      qed
      moreover have "(unat (x - d) - Suc 0 < n) = (unat (x - d) < Suc n)"
        using False by (metis Suc_pred less_Suc_eq_0_disj not_less_eq unat_gt_0 right_minus_eq)
      ultimately show ?thesis using False m1 by (auto simp: copied_def)
    qed
  qed
  finally show ?case by simp
qed

lemma memcpy_down_copied:
  "(\<And>x. unat (x - d) < n \<Longrightarrow> \<not> unat (x - s) < n) \<Longrightarrow> n < 2 ^ 32 \<Longrightarrow> memcpy_down n d s b = copied b d s n"
proof (induction n d s b rule: memcpy_down.induct)
  case (1 d s b)
  then show ?case by (simp add: copied_def)
next
  case (2 n d s b)
  let ?n = "of_nat n :: u32"
  have un: "unat ?n = n" using "2.prems"(2) by (simp add: unsigned_of_nat take_bit_nat_eq_self)
  have "memcpy_down n d s (b(d + ?n := b (s + ?n))) = copied (b(d + ?n := b (s + ?n))) d s n"
  proof (rule "2.IH")
    show "\<not> unat (x - s) < n" if "unat (x - d) < n" for x
      using "2.prems"(1) [of x] that by simp
  qed (use "2.prems" in simp)
  also have "\<dots> = copied b d s (Suc n)"
  proof
    fix x
    have eq: "unat (x - d) = n \<longleftrightarrow> x = d + ?n"
      using un by (metis add_diff_cancel_left' diff_add_cancel add.commute word_unat_eq_iff)
    have "s + (x - d) \<noteq> d + ?n" if "unat (x - d) < n"
    proof
      assume e: "s + (x - d) = d + ?n"
      then have "unat (d + ?n - s) = unat (x - d)" by (metis add_diff_cancel_left')
      then show False using "2.prems"(1) [of "d + ?n"] un that by simp
    qed
    then show "copied (b(d + ?n := b (s + ?n))) d s n x = copied b d s (Suc n) x"
      using eq un by (auto simp: copied_def less_Suc_eq)
  qed
  finally show ?case by simp
qed

lemma rt_memcpy_copied:
  assumes "\<And>x. unat (x - d) < unat n \<Longrightarrow> \<not> unat (x - s) < unat n"
  shows "rt_memcpy d s n m = m\<lparr>mm_bytes := copied (mm_bytes m) d s (unat n)\<rparr>"
proof -
  have "unat n < 2 ^ 32" using unsigned_less [of n] by simp
  then show ?thesis using memcpy_up_copied [OF assms] memcpy_down_copied [OF assms] by (simp add: rt_memcpy_def)
qed

lemma bytes_fields [field_simps_mh]:
  "magic_of (m\<lparr>mm_bytes := f\<rparr>) = magic_of m" "pool_of (m\<lparr>mm_bytes := f\<rparr>) = pool_of m"
  "next_of (m\<lparr>mm_bytes := f\<rparr>) = next_of m" "prev_of (m\<lparr>mm_bytes := f\<rparr>) = prev_of m"
  "next_free_of (m\<lparr>mm_bytes := f\<rparr>) = next_free_of m" "prev_free_of (m\<lparr>mm_bytes := f\<rparr>) = prev_free_of m"
  by (simp_all add: fun_eq_iff magic_of_def pool_of_def next_of_def prev_of_def next_free_of_def prev_free_of_def)

lemma heap_inv_bytes: "heap_inv (m\<lparr>mm_bytes := f\<rparr>) h bs fs \<longleftrightarrow> heap_inv m h bs fs"
  and live_bytes: "live (m\<lparr>mm_bytes := f\<rparr>) bs fs = live m bs fs"
proof -
  have sz: "MEMITEM_SIZE (m\<lparr>mm_bytes := f\<rparr>) = MEMITEM_SIZE m"
    by (simp add: fun_eq_iff MEMITEM_SIZE_def field_simps_mh)
  show "heap_inv (m\<lparr>mm_bytes := f\<rparr>) h bs fs \<longleftrightarrow> heap_inv m h bs fs"
    "live (m\<lparr>mm_bytes := f\<rparr>) bs fs = live m bs fs"
    by (simp_all add: heap_inv_def heap_core_def blocks_ok_def free_ok_def sz live_def [abs_def] field_simps_mh cong: if_cong)
qed

section \<open>Resizing a block\<close>

text \<open>
  The result of resizing the live block \<open>a\<close> of size \<open>s\<close>: either nothing has happened, or there is a
  block \<open>b\<close> with the old contents, and no byte outside of it has changed.
\<close>

definition resized :: "mh_mem \<Rightarrow> u32 \<Rightarrow> u32 list \<Rightarrow> u32 list \<Rightarrow> u32 \<Rightarrow> nat \<Rightarrow> nat \<Rightarrow> u32 \<times> mh_mem \<Rightarrow> bool" where
  "resized m h bs fs a s n r \<longleftrightarrow> r = (0, m) \<or>
     (\<exists>b m' bs' fs' t. r = (b + 24, m') \<and> heap_inv m' h bs' fs' \<and> n \<le> t \<and> (b = a \<or> live m bs fs b = None)
        \<and> live m' bs' fs' = (live m bs fs)(a := None, b \<mapsto> t) \<and> (\<forall>k. k \<noteq> h \<longrightarrow> mm_heaps m' k = mm_heaps m k)
        \<and> mh_start_addr (mm_heaps m' h) = mh_start_addr (mm_heaps m h)
        \<and> mh_pool_size (mm_heaps m' h) = mh_pool_size (mm_heaps m h)
        \<and> (\<forall>i. unat i < min s n \<longrightarrow> mm_bytes m' (b + 24 + i) = mm_bytes m (a + 24 + i))
        \<and> (\<forall>x. t \<le> unat (x - (b + 24)) \<longrightarrow> mm_bytes m' x = mm_bytes m x))"

lemma resized_same:
  assumes "heap_inv m' h bs' fs'" "same_rest h m m'" "live m' bs' fs' = (live m bs fs)(a \<mapsto> t)" "n \<le> t"
  shows "resized m h bs fs a s n (a + 24, m')"
  unfolding resized_def by (rule disjI2, rule exI [of _ a]) (use assms in \<open>auto simp: same_rest_def\<close>)

lemma resized_moved:
  assumes "heap_inv m' h bs' fs'" "same_rest h (m\<lparr>mm_bytes := mm_bytes m'\<rparr>) m'" "n \<le> t" "s \<le> t" "live m bs fs b = None"
    "live m' bs' fs' = (live m bs fs)(a := None, b \<mapsto> t)" "mm_bytes m' = copied (mm_bytes m) (b + 24) (a + 24) s"
  shows "resized m h bs fs a s n (b + 24, m')"
  unfolding resized_def
  by (rule disjI2, rule exI [of _ b], rule exI [of _ m'], rule exI [of _ bs'], rule exI [of _ fs'], rule exI [of _ t])
    (use assms in \<open>auto simp: same_rest_def copied_def\<close>)

lemma realloc_correct:
  assumes i: "heap_inv m h bs fs" and l: "live m bs fs a = Some s" and n: "n \<noteq> 0" "unat n \<le> 2 ^ 32 - 16"
  obtains r where "rt_memheap_realloc h (a + 24) n m = Some r" "resized m h bs fs a s (unat (align_request n)) r"
proof -
  let ?n = "align_request n"
  have h: "h \<noteq> 0" and b0: "blocks_ok m h bs (set fs)" using i by (auto simp: heap_inv_def heap_core_def)
  have a: "a \<in> set (butlast bs)" "a \<notin> set fs" and s: "s = unat (MEMITEM_SIZE m a)" using l by (auto simp: live_Some)
  obtain xs c ys where bs: "bs = xs @ a # c # ys" using a(1) by (rule butlast_split)
  note b = b0 [unfolded bs] and i' = i [unfolded bs]
  note B = block_between [OF b] and L = live_bounds [OF i l] and A = align_request_props [of n]
  have p0: "a + 24 \<noteq> 0" using L(4) by (metis add_is_0 unat_0 zero_neq_numeral)
  have c0: "\<not> c < a" "\<not> c \<le> 0" using B(3) by (auto simp: word_less_nat_alt word_le_nat_alt)
  have us: "RT_MEMHEAP_IS_USED m c \<longleftrightarrow> c \<notin> set fs" using blocks_okD(6) [OF b, of c] by (cases "c \<in> set fs") auto
  have re: "rt_memheap_realloc h (a + 24) n m =
      (if MEMITEM_SIZE m a < ?n
       then if c \<in> set fs \<and> ?n + 12 < MEMITEM_SIZE m c + MEMITEM_SIZE m a
         then Some (a + 24, realloc_grow h (a + 24) ?n (MEMITEM_SIZE m a) c m)
         else do { (p, m') \<leftarrow> rt_memheap_alloc h ?n m;
            Some (if p \<noteq> 0 then (p, rt_memheap_free (a + 24) (rt_memcpy p (a + 24) (MEMITEM_SIZE m a) m')) else (p, m')) }
       else if MEMITEM_SIZE m a \<le> ?n + 24 + 12 then Some (a + 24, m)
       else Some (a + 24, realloc_shrink h (a + 24) ?n m))"
    using h n(1) p0 us B(1) by (simp add: rt_memheap_realloc_def Let_def c0 del: word_le_0_iff)
  have nn: "unat ?n \<le> 2 ^ 32 - 16"   proof -
    have "(unat n + 3) div 4 \<le> 1073741820" using n(2) by simp
    then show ?thesis using align_request_ge [of n] n(2) by (simp add: max_def)
  qed
  consider (grow) "MEMITEM_SIZE m a < ?n" "c \<in> set fs" "?n + 12 < MEMITEM_SIZE m c + MEMITEM_SIZE m a"
    | (move) "MEMITEM_SIZE m a < ?n" "\<not> (c \<in> set fs \<and> ?n + 12 < MEMITEM_SIZE m c + MEMITEM_SIZE m a)"
    | (keep) "\<not> MEMITEM_SIZE m a < ?n" "MEMITEM_SIZE m a \<le> ?n + 24 + 12"
    | (shrink) "\<not> MEMITEM_SIZE m a < ?n" "\<not> MEMITEM_SIZE m a \<le> ?n + 24 + 12"
    by blast
  then show ?thesis
  proof cases
    case grow
    have "unat (?n + 12) = unat ?n + 12" by (subst unat_add_no_wrap) (use nn in auto)
    moreover have "unat (MEMITEM_SIZE m c + MEMITEM_SIZE m a) \<le> unat (MEMITEM_SIZE m c) + unat (MEMITEM_SIZE m a)"
      by (simp add: unat_word_ariths)
    ultimately have g: "unat (MEMITEM_SIZE m a) < unat ?n" "unat ?n + 12 < unat (MEMITEM_SIZE m c) + unat (MEMITEM_SIZE m a)"
      using grow by (auto simp: word_less_nat_alt)
    obtain bs' fs' where "heap_inv (realloc_grow h (a + 24) ?n (MEMITEM_SIZE m a) c m) h bs' fs'"
      "same_rest h m (realloc_grow h (a + 24) ?n (MEMITEM_SIZE m a) c m)"
      "live (realloc_grow h (a + 24) ?n (MEMITEM_SIZE m a) c m) bs' fs' = (live m (xs @ a # c # ys) fs)(a \<mapsto> unat ?n)"
      by (rule grow_correct [OF i' a(2) grow(2) A(2) g])
    then have "resized m h bs fs a s (unat ?n) (a + 24, realloc_grow h (a + 24) ?n (MEMITEM_SIZE m a) c m)"
      unfolding bs by (rule resized_same) simp
    then show ?thesis using re grow by (intro that) auto
  next
    case keep
    have "(live m bs fs)(a \<mapsto> s) = live m bs fs" using l by auto
    then have "resized m h bs fs a s (unat ?n) (a + 24, m)"
      using i keep s by (intro resized_same [where t = s]) (auto simp: word_less_nat_alt)
    then show ?thesis using re keep by (intro that) auto
  next
    case shrink
    have "unat (?n + 36) = unat ?n + 36"
      by (subst unat_add_no_wrap) (use shrink(1) B(3,4,6) in \<open>auto simp: word_less_nat_alt\<close>)
    then have g: "unat ?n + 36 < unat (MEMITEM_SIZE m a)" using shrink(2) by (simp add: word_le_nat_alt add.assoc)
    obtain bs' fs' where "heap_inv (realloc_shrink h (a + 24) ?n m) h bs' fs'"
      "same_rest h m (realloc_shrink h (a + 24) ?n m)"
      "live (realloc_shrink h (a + 24) ?n m) bs' fs' = (live m (xs @ a # c # ys) fs)(a \<mapsto> unat ?n)"
      by (rule shrink_correct [OF i' a(2) A g])
    then have "resized m h bs fs a s (unat ?n) (a + 24, realloc_shrink h (a + 24) ?n m)"
      unfolding bs by (rule resized_same) simp
    then show ?thesis using re shrink by (intro that) auto
  next
    case move
    show ?thesis
    proof (cases "if align_request ?n < mh_available_size (mm_heaps m h) then first_fit m (align_request ?n) fs else None")
      case None
      then have "rt_memheap_alloc h ?n m = Some (0, m)" using alloc_correct [OF i, of ?n] by simp
      then show ?thesis using re move by (intro that [of "(0, m)"]) (auto simp: resized_def)
    next
      case (Some b)
      obtain m' bs' fs' t where M: "rt_memheap_alloc h ?n m = Some (b + 24, m')" "heap_inv m' h bs' fs'"
        "same_rest h m m'" "live m bs fs b = None" "live m' bs' fs' = (live m bs fs)(b \<mapsto> t)"
        "unat (align_request ?n) \<le> t"
        using alloc_correct [OF i, of ?n] by (auto simp: Some)
      have nt: "unat ?n \<le> t"
        using M(6) align_request_ge [of ?n] nn A by (auto simp: max_def split: if_splits)
      have ab: "a \<noteq> b" using M(4) l by auto
      have lb: "live m' bs' fs' b = Some t" and la: "live m' bs' fs' a = Some s" using M(5) l ab by auto
      note Lb = live_bounds [OF M(2) lb]
      have b0: "b + 24 \<noteq> 0" using Lb(4) by (metis add_is_0 unat_0 zero_neq_numeral)
      have st: "s < t" using move(1) s nt by (simp add: word_less_nat_alt)
      have dj: "unat a + 24 + s \<le> unat b \<or> unat b + 24 + t \<le> unat a" by (rule live_disjoint [OF M(2) la lb ab])
      have cp: "rt_memcpy (b + 24) (a + 24) (MEMITEM_SIZE m a) m' = m'\<lparr>mm_bytes := copied (mm_bytes m') (b + 24) (a + 24) s\<rparr>"
        unfolding s
      proof (rule rt_memcpy_copied)
        fix x :: u32 assume x: "unat (x - (b + 24)) < unat (MEMITEM_SIZE m a)"
        have "x = (b + 24) + (x - (b + 24))" by simp
        then have xb: "unat x = unat (b + 24) + unat (x - (b + 24))"
          using unat_add_no_wrap [of "b + 24" "x - (b + 24)"] x Lb(4,6,7) st s by simp
        show "\<not> unat (x - (a + 24)) < unat (MEMITEM_SIZE m a)"
        proof
          assume y: "unat (x - (a + 24)) < unat (MEMITEM_SIZE m a)"
          have "x = (a + 24) + (x - (a + 24))" by simp
          then have "unat x = unat (a + 24) + unat (x - (a + 24))"
            using unat_add_no_wrap [of "a + 24" "x - (a + 24)"] y L(4,6,7) s by simp
          then show False using xb x y dj L(4) Lb(4) s st by linarith
        qed
      qed
      let ?m1 = "m'\<lparr>mm_bytes := copied (mm_bytes m') (b + 24) (a + 24) s\<rparr>"
      have i1: "heap_inv ?m1 h bs' fs'" "live ?m1 bs' fs' = (live m bs fs)(b \<mapsto> t)" "live ?m1 bs' fs' a = Some s"
        using M(2,5) la by (simp_all add: heap_inv_bytes live_bytes)
      have a1: "a \<in> set (butlast bs')" "a \<notin> set fs'" using i1(3) by (auto simp: live_Some)
      define m3 where "m3 = rt_memheap_free (a + 24) ?m1"
      obtain bs'' fs'' where F: "heap_inv m3 h bs'' fs''" "live m3 bs'' fs'' = (live ?m1 bs' fs')(a := None)"
        "same_rest h ?m1 m3"
        by (rule free_correct [OF i1(1) a1, folded m3_def])
      have "resized m h bs fs a s (unat ?n) (b + 24, m3)"
      proof (rule resized_moved)
        show "live m3 bs'' fs'' = (live m bs fs)(a := None, b \<mapsto> t)" using F(2) i1(2) ab by auto
        show "mm_bytes m3 = copied (mm_bytes m) (b + 24) (a + 24) s" using F(3) M(3) by (simp add: same_rest_def)
        show "same_rest h (m\<lparr>mm_bytes := mm_bytes m3\<rparr>) m3" using F(3) M(3) by (simp add: same_rest_def)
      qed (use F nt st M(4) in auto)
      then show ?thesis using re move M(1) b0 cp unfolding m3_def by (intro that) auto
    qed
  qed
qed

end
