(* ===== verification/Memheap_Props.thy ===== *)
theory Memheap_Props
  imports Memheap_Realloc
begin

text \<open>
  The heap as its clients see it: after initialisation, any sequence of calls returns, hands out
  regions that do not overlap, keeps their contents, and loses no memory.
\<close>

section \<open>Initialisation\<close>

text \<open>
  A pool that initialisation can use: aligned, with room for one block, and apart from the heap
  object, whose 52 bytes (six words, the free header, one word) lie anywhere else.
\<close>

definition pool_ok :: "u32 \<Rightarrow> u32 \<Rightarrow> u32 \<Rightarrow> bool" where
  "pool_ok h start n \<longleftrightarrow> h \<noteq> 0 \<and> 4 dvd unat start \<and> 60 \<le> unat n \<and> unat start + unat n < 2 ^ 32
     \<and> unat h + 52 \<le> 2 ^ 32 \<and> (unat h + 52 \<le> unat start \<or> unat start + unat n \<le> unat h)"

lemma pool_free_header:
  "pool_ok h start n \<Longrightarrow> unat (free_header h) < unat start \<or> unat start + unat n < unat (free_header h)"
  unfolding free_header_def pool_ok_def by (subst (1 2) unat_add_no_wrap) auto

lemma init_correct:
  assumes p: "pool_ok h start n"
  obtains m' t where "rt_memheap_init h start n m = (0, m')" "heap_inv m' h [start, t] [start]"
    "live m' [start, t] [start] = Map.empty" "t = start + (n AND - 4) - 24"
    "mh_start_addr (mm_heaps m' h) = start" "unat (mh_pool_size (mm_heaps m' h)) = 4 * (unat n div 4)"
    "mm_bytes m' = mm_bytes m"
proof -
  define pl where "pl = n AND - 4"
  define t where "t = start + pl - 24"
  have h: "h \<noteq> 0" using p by (simp add: pool_ok_def)
  have pl: "unat pl = 4 * (unat n div 4)" unfolding pl_def by (rule unat_and_not_3)
  then have pb: "60 \<le> unat pl" "unat pl \<le> unat n" using p by (auto simp: pool_ok_def)
  have ub: "unat start + unat pl < 2 ^ 32" using pb p by (auto simp: pool_ok_def)
  have av: "unat (pl - 48) = unat pl - 48" using pb by (subst unat_sub_le) (auto simp: word_le_nat_alt)
  have "unat (start + (pl - 48)) = unat start + (unat pl - 48)"
    by (subst unat_add_no_wrap) (use av pb p in \<open>auto simp: pool_ok_def\<close>)
  then have t: "unat t = unat start + unat pl - 24"
  proof -
    have "unat ((start + (pl - 48)) + 24) = unat (start + (pl - 48)) + unat (24 :: u32)"
      by (rule unat_add_no_wrap) (use \<open>unat (start + (pl - 48)) = _\<close> pb(1) ub in simp)
    moreover have "(start + (pl - 48)) + 24 = t" by (simp add: t_def)
    ultimately show ?thesis using \<open>unat (start + (pl - 48)) = _\<close> pb by simp
  qed
  have ne: "start \<noteq> t" "free_header h \<noteq> start" "free_header h \<noteq> t"
    using t pb p pool_free_header [OF p] by (auto simp: pool_ok_def)
  define m' where "m' = snd (rt_memheap_init h start n m)"
  have F: "next_of m' = (next_of m)(free_header h := 0, start := t, t := start)"
    "prev_of m' = (prev_of m)(free_header h := 0, start := t, t := start)"
    "next_free_of m' = (next_free_of m)(free_header h := start, start := free_header h, t := 0)"
    "prev_free_of m' = (prev_free_of m)(free_header h := start, start := free_header h, t := 0)"
    "magic_of m' = (magic_of m)(free_header h := 0x1ea01ea0, start := 0x1ea01ea0, t := 0x1ea01ea1)"
    "pool_of m' = (pool_of m)(free_header h := h, start := h, t := h)"
    using h ne by (auto simp: fun_eq_iff m'_def rt_memheap_init_def Let_def field_simps_mh RT_ALIGN_DOWN_def
        pl_def [symmetric] t_def [symmetric])
  have H: "mm_heaps m' h = (mm_heaps m h)\<lparr>mh_start_addr := start, mh_pool_size := pl, mh_available_size := pl - 48,
      mh_max_used_size := 48, mh_free_list := free_header h, mh_block_list := start, mh_locked := 0\<rparr>"
    "mm_bytes m' = mm_bytes m"
    using h by (simp_all add: m'_def rt_memheap_init_def Let_def field_simps_mh RT_ALIGN_DOWN_def pl_def RT_FALSE_def)
  have r: "rt_memheap_init h start n m = (0, m')"
    using h by (simp add: m'_def rt_memheap_init_def Let_def RT_EOK_def)
  have sz: "MEMITEM_SIZE m' start = pl - 48" using ne by (simp add: MEMITEM_SIZE_def F t_def)
  have dt: "4 dvd unat t" using t pl p pb by (auto simp: pool_ok_def intro!: dvd_diff_nat dvd_add)
  have "blocks_ok m' h [start, t] {start}"
    by (rule blocks_okI) (use ne t p pb dt pool_free_header [OF p] in \<open>auto simp: F ring_def gap_def pool_ok_def\<close>)
  moreover have "free_ok m' h [start]" using ne by (auto simp: free_ok_def F H ring_def)
  moreover have "apart {start} [start, t]" using ne by (simp add: apart_Cons)
  moreover have "pl = t + 24 - start" by (simp add: t_def)
  ultimately have i: "heap_inv m' h [start, t] [start]"
    using h by (simp add: heap_inv_def heap_core_def H sz)
  show ?thesis
    by (rule that [OF r i]) (auto simp: live_def H t_def pl_def unat_and_not_3)
qed

section \<open>A client\<close>

text \<open>
  A client holds pointers in numbered variables, with the size it asked for; it allocates into an
  empty variable, resizes, releases and writes bytes of what it holds.
\<close>

datatype heap_op = Get nat u32 | Resize nat u32 | Release nat | Store nat u32 u8

type_synonym heap_vars = "nat \<Rightarrow> (u32 \<times> u32) option"

fun op_var :: "heap_op \<Rightarrow> nat" where
  "op_var (Get k n) = k"
| "op_var (Resize k n) = k"
| "op_var (Release k) = k"
| "op_var (Store k i v) = k"

fun client_step :: "u32 \<Rightarrow> heap_op \<Rightarrow> heap_vars \<times> mh_mem \<Rightarrow> (heap_vars \<times> mh_mem) option" where
  "client_step h (Get k n) (e, m) =
     (case e k of Some _ \<Rightarrow> Some (e, m)
      | None \<Rightarrow> do { (p, m') \<leftarrow> rt_memheap_alloc h n m; Some (if p = 0 then e else e(k \<mapsto> (p, n)), m') })"
| "client_step h (Resize k n) (e, m) =
     (case e k of None \<Rightarrow> Some (e, m)
      | Some (p, _) \<Rightarrow> do { (q, m') \<leftarrow> rt_memheap_realloc h p n m;
          Some (if n = 0 then e(k := None) else if q = 0 then e else e(k \<mapsto> (q, n)), m') })"
| "client_step h (Release k) (e, m) =
     (case e k of None \<Rightarrow> Some (e, m) | Some (p, _) \<Rightarrow> Some (e(k := None), rt_memheap_free p m))"
| "client_step h (Store k i v) (e, m) =
     (case e k of None \<Rightarrow> Some (e, m)
      | Some (p, n) \<Rightarrow> Some (e, if i < n then m\<lparr>mm_bytes := (mm_bytes m)(p + i := v)\<rparr> else m))"

fun client_run :: "u32 \<Rightarrow> heap_op list \<Rightarrow> heap_vars \<times> mh_mem \<Rightarrow> (heap_vars \<times> mh_mem) option" where
  "client_run h [] s = Some s"
| "client_run h (x # xs) s = do { s' \<leftarrow> client_step h x s; client_run h xs s' }"

text \<open>
  Requests for which the code's 32-bit computations do not wrap around: rounding up to a multiple of
  4, and for resizing the sum of the rounded size and 12.  The code has no check for the others.
\<close>

fun op_ok :: "heap_op \<Rightarrow> bool" where
  "op_ok (Get k n) = (unat n \<le> 2 ^ 32 - 4)"
| "op_ok (Resize k n) = (unat n \<le> 2 ^ 32 - 16)"
| "op_ok _ = True"

text \<open>The variables hold exactly the live blocks, each block in one variable.\<close>

definition held :: "heap_vars \<Rightarrow> (u32 \<Rightarrow> nat option) \<Rightarrow> bool" where
  "held e L \<longleftrightarrow> (\<forall>k p n. e k = Some (p, n) \<longrightarrow> (\<exists>t. L (p - 24) = Some t \<and> unat n \<le> t))
     \<and> (\<forall>k l p n n'. e k = Some (p, n) \<longrightarrow> e l = Some (p, n') \<longrightarrow> k = l)
     \<and> (\<forall>a t. L a = Some t \<longrightarrow> (\<exists>k n. e k = Some (a + 24, n)))"

definition client_inv :: "u32 \<Rightarrow> u32 \<Rightarrow> nat \<Rightarrow> heap_vars \<times> mh_mem \<Rightarrow> bool" where
  "client_inv h start pool s \<longleftrightarrow> (\<exists>bs fs. heap_inv (snd s) h bs fs
     \<and> mh_start_addr (mm_heaps (snd s) h) = start \<and> unat (mh_pool_size (mm_heaps (snd s) h)) = pool
     \<and> held (fst s) (live (snd s) bs fs))"

lemma client_invI:
  "heap_inv m h bs fs \<Longrightarrow> mh_start_addr (mm_heaps m h) = start \<Longrightarrow> unat (mh_pool_size (mm_heaps m h)) = pool \<Longrightarrow>
   held e (live m bs fs) \<Longrightarrow> client_inv h start pool (e, m)"
  by (auto simp: client_inv_def)

lemma client_invE:
  assumes "client_inv h start pool (e, m)"
  obtains bs fs where "heap_inv m h bs fs" "mh_start_addr (mm_heaps m h) = start" "unat (mh_pool_size (mm_heaps m h)) = pool"
    "held e (live m bs fs)"
  using assms by (auto simp: client_inv_def)

lemma held_block: "held e L \<Longrightarrow> e k = Some (p, n) \<Longrightarrow> \<exists>t. L (p - 24) = Some t \<and> unat n \<le> t"
  unfolding held_def by blast

lemma held_inj: "held e L \<Longrightarrow> e k = Some (p, n) \<Longrightarrow> e l = Some (p, n') \<Longrightarrow> k = l"
  unfolding held_def by blast

lemma held_new:
  assumes "held e L" "e k = None" "L a = None" "unat n \<le> t"
  shows "held (e(k \<mapsto> (a + 24, n))) (L(a \<mapsto> t))"
  unfolding held_def
proof (intro conjI allI impI)
  fix l p n' assume "(e(k \<mapsto> (a + 24, n))) l = Some (p, n')"
  then show "\<exists>t'. (L(a \<mapsto> t)) (p - 24) = Some t' \<and> unat n' \<le> t'"
    using assms held_block [OF assms(1), of l p n'] by (auto split: if_splits)
next
  fix l l' p n1 n2 assume "(e(k \<mapsto> (a + 24, n))) l = Some (p, n1)" "(e(k \<mapsto> (a + 24, n))) l' = Some (p, n2)"
  then show "l = l'"
    using assms(2,3) held_block [OF assms(1), of l p n1] held_block [OF assms(1), of l' p n2]
      held_inj [OF assms(1), of l p n1 l' n2] by (auto split: if_splits)
next
  fix x t' assume "(L(a \<mapsto> t)) x = Some t'"
  then show "\<exists>l n'. (e(k \<mapsto> (a + 24, n))) l = Some (x + 24, n')"
    using assms(1,2) unfolding held_def by (cases "x = a") (auto, metis option.distinct(1))
qed

lemma held_drop:
  assumes "held e L" "e k = Some (p, n)"
  shows "held (e(k := None)) (L(p - 24 := None))"
  unfolding held_def
proof (intro conjI allI impI)
  fix l q n' assume "(e(k := None)) l = Some (q, n')"
  then show "\<exists>t'. (L(p - 24 := None)) (q - 24) = Some t' \<and> unat n' \<le> t'"
    using held_block [OF assms(1), of l q n'] held_inj [OF assms, of l n'] by (auto split: if_splits)
next
  fix l l' q n1 n2 assume "(e(k := None)) l = Some (q, n1)" "(e(k := None)) l' = Some (q, n2)"
  then show "l = l'" using held_inj [OF assms(1), of l q n1 l' n2] by (auto split: if_splits)
next
  fix x t' assume x: "(L(p - 24 := None)) x = Some t'"
  then obtain l n' where l: "e l = Some (x + 24, n')" using assms(1) unfolding held_def by (auto split: if_splits)
  have "l \<noteq> k" using l x assms(2) by auto
  then show "\<exists>l n'. (e(k := None)) l = Some (x + 24, n')" using l by (intro exI [of _ l]) auto
qed

lemma held_move:
  assumes "held e L" "e k = Some (p, n)" "b = p - 24 \<or> L b = None" "unat n' \<le> t"
  shows "held (e(k \<mapsto> (b + 24, n'))) (L(p - 24 := None, b \<mapsto> t))"
  using held_new [OF held_drop [OF assms(1,2)], of k b n' t] assms(3,4) by auto

text \<open>What the client has stored in a variable.\<close>

definition content :: "heap_vars \<times> mh_mem \<Rightarrow> nat \<Rightarrow> u8 list option" where
  "content s k = map_option (\<lambda>(p, n). map (\<lambda>i. mm_bytes (snd s) (p + of_nat i)) [0..<unat n]) (fst s k)"

text \<open>A step that changes the live block of one variable only.\<close>

lemma client_frame:
  assumes i: "heap_inv m h bs fs" and hl: "held e (live m bs fs)"
    and d: "e l = Some (q, n')" "p \<noteq> q" and x: "live m bs fs (p - 24) = Some t" "unat (x - p) < t"
  shows "unat n' \<le> unat (x - q)"
proof -
  obtain t' where t': "live m bs fs (q - 24) = Some t'" "unat n' \<le> t'" using held_block [OF hl d(1)] by blast
  have ne: "p - 24 \<noteq> q - 24" using d(2) by simp
  note L = live_bounds [OF i x(1)] and L' = live_bounds [OF i t'(1)]
  have dj: "unat (p - 24) + 24 + t \<le> unat (q - 24) \<or> unat (q - 24) + 24 + t' \<le> unat (p - 24)"
    by (rule live_disjoint [OF i x(1) t'(1) ne])
  have "x = p + (x - p)" by simp
  then have xp: "unat x = unat p + unat (x - p)" using unat_add_no_wrap [of p "x - p"] x(2) L(4,6,7) by simp
  show ?thesis
  proof (rule ccontr)
    assume n: "\<not> unat n' \<le> unat (x - q)"
    have "x = q + (x - q)" by simp
    then have "unat x = unat q + unat (x - q)" using unat_add_no_wrap [of q "x - q"] n t'(2) L'(4,6,7) by simp
    then show False using xp dj n t'(2) x(2) L(4) L'(4) by simp
  qed
qed

lemma unat_of_nat_less: "i < unat (n :: u32) \<Longrightarrow> unat (of_nat i :: u32) = i"
proof -
  assume "i < unat n"
  moreover have "unat n < 2 ^ 32" using unsigned_less [of n] by simp
  ultimately have "i < 2 ^ 32" by linarith
  then show ?thesis by (simp add: unsigned_of_nat take_bit_nat_eq_self)
qed

lemma content_other:
  assumes "e' l = e l" and "\<forall>q n x. e l = Some (q, n) \<longrightarrow> unat (x - q) < unat n \<longrightarrow> mm_bytes m' x = mm_bytes m x"
  shows "content (e', m') l = content (e, m) l"
  using assms by (auto simp: content_def unat_of_nat_less intro!: option.map_cong map_cong)

text \<open>What an operation does to the bytes in its variable, whatever the heap looks like.\<close>

fun op_effect :: "heap_op \<Rightarrow> u8 list option \<Rightarrow> u8 list option \<Rightarrow> bool" where
  "op_effect (Get k n) c c' \<longleftrightarrow> c' = c \<or> c = None \<and> (\<exists>ys. c' = Some ys \<and> length ys = unat n)"
| "op_effect (Resize k n) None c' \<longleftrightarrow> c' = None"
| "op_effect (Resize k n) (Some xs) c' \<longleftrightarrow>
     (if n = 0 then c' = None
      else c' = Some xs \<or> (\<exists>ys. c' = Some ys \<and> length ys = unat n
        \<and> take (min (length xs) (length ys)) ys = take (min (length xs) (length ys)) xs))"
| "op_effect (Release k) c c' \<longleftrightarrow> c' = None"
| "op_effect (Store k i v) c c' \<longleftrightarrow> c' = map_option (\<lambda>xs. xs[unat i := v]) c"

definition step_ok :: "u32 \<Rightarrow> u32 \<Rightarrow> nat \<Rightarrow> heap_op \<Rightarrow> heap_vars \<times> mh_mem \<Rightarrow> bool" where
  "step_ok h start pool x s \<longleftrightarrow> (\<exists>s'. client_step h x s = Some s' \<and> client_inv h start pool s'
     \<and> (\<forall>l. l \<noteq> op_var x \<longrightarrow> content s' l = content s l) \<and> op_effect x (content s (op_var x)) (content s' (op_var x)))"

lemma step_okI:
  "client_step h x s = Some s' \<Longrightarrow> client_inv h start pool s' \<Longrightarrow> (\<And>l. l \<noteq> op_var x \<Longrightarrow> content s' l = content s l) \<Longrightarrow>
   op_effect x (content s (op_var x)) (content s' (op_var x)) \<Longrightarrow> step_ok h start pool x s"
  by (auto simp: step_ok_def)

lemma step_ok_same:
  "client_step h x s = Some s \<Longrightarrow> client_inv h start pool s \<Longrightarrow> op_effect x (content s (op_var x)) (content s (op_var x)) \<Longrightarrow>
   step_ok h start pool x s"
  by (auto simp: step_ok_def)

lemma content_None: "fst s k = None \<Longrightarrow> content s k = None"
  by (simp add: content_def)

lemma content_Some: "fst s k = Some (p, n) \<Longrightarrow> \<exists>xs. content s k = Some xs \<and> length xs = unat n"
  by (simp add: content_def)

lemma align_request_mono: "unat n \<le> 2 ^ 32 - 4 \<Longrightarrow> unat n \<le> unat (align_request n)"
  by (simp add: align_request_ge max_def) arith

lemma get_step:
  assumes c: "client_inv h start pool (e, m)" and n: "unat n \<le> 2 ^ 32 - 4"
  shows "step_ok h start pool (Get k n) (e, m)"
proof (cases "e k")
  case (Some pn)
  then show ?thesis using c by (intro step_ok_same) auto
next
  case None
  obtain bs fs where i: "heap_inv m h bs fs" "mh_start_addr (mm_heaps m h) = start" "unat (mh_pool_size (mm_heaps m h)) = pool"
    and hl: "held e (live m bs fs)" using c by (rule client_invE)
  show ?thesis
  proof (cases "if align_request n < mh_available_size (mm_heaps m h) then first_fit m (align_request n) fs else None")
    case n: None
    then have "client_step h (Get k n) (e, m) = Some (e, m)" using None alloc_correct [OF i(1), of n] by simp
    then show ?thesis using c by (rule step_ok_same) (simp add: content_None None)
  next
    case (Some a)
    obtain m' bs' fs' t where A: "rt_memheap_alloc h n m = Some (a + 24, m')" "heap_inv m' h bs' fs'" "same_rest h m m'"
      "live m bs fs a = None" "live m' bs' fs' = (live m bs fs)(a \<mapsto> t)" "unat (align_request n) \<le> t"
      using alloc_correct [OF i(1), of n] by (auto simp: Some)
    have "live m' bs' fs' a = Some t" using A(5) by simp
    then have p0: "a + 24 \<noteq> 0" using live_bounds(4) [OF A(2)] by (metis add_is_0 unat_0 zero_neq_numeral)
    have hl': "held (e(k \<mapsto> (a + 24, n))) (live m' bs' fs')"
      unfolding A(5) by (rule held_new [OF hl None A(4)]) (use A(6) align_request_mono [OF n] in simp)
    show ?thesis
    proof (rule step_okI)
      show "client_step h (Get k n) (e, m) = Some (e(k \<mapsto> (a + 24, n)), m')" using None A(1) p0 by simp
      show "client_inv h start pool (e(k \<mapsto> (a + 24, n)), m')"
        by (rule client_invI [OF A(2) _ _ hl']) (use A(3) i in \<open>auto simp: same_rest_def\<close>)
      show "content (e(k \<mapsto> (a + 24, n)), m') l = content (e, m) l" if "l \<noteq> op_var (Get k n)" for l
        by (rule content_other) (use that A(3) in \<open>auto simp: same_rest_def\<close>)
      show "op_effect (Get k n) (content (e, m) (op_var (Get k n))) (content (e(k \<mapsto> (a + 24, n)), m') (op_var (Get k n)))"
        using None by (simp add: content_def)
    qed
  qed
qed

lemma release_step:
  assumes c: "client_inv h start pool (e, m)"
  shows "step_ok h start pool (Release k) (e, m)"
proof (cases "e k")
  case None
  then show ?thesis using c by (intro step_ok_same) (auto simp: content_None)
next
  case (Some pn)
  obtain p n where pn: "e k = Some (p, n)" using Some by (cases pn) auto
  obtain bs fs where i: "heap_inv m h bs fs" "mh_start_addr (mm_heaps m h) = start" "unat (mh_pool_size (mm_heaps m h)) = pool"
    and hl: "held e (live m bs fs)" using c by (rule client_invE)
  have a: "p - 24 \<in> set (butlast bs)" "p - 24 \<notin> set fs" using held_block [OF hl pn] by (auto simp: live_Some)
  obtain bs' fs' where F: "heap_inv (rt_memheap_free p m) h bs' fs'"
    "live (rt_memheap_free p m) bs' fs' = (live m bs fs)(p - 24 := None)" "same_rest h m (rt_memheap_free p m)"
    using free_correct [OF i(1) a] by auto
  have hl': "held (e(k := None)) (live (rt_memheap_free p m) bs' fs')" unfolding F(2) by (rule held_drop [OF hl pn])
  show ?thesis
  proof (rule step_okI)
    show "client_step h (Release k) (e, m) = Some (e(k := None), rt_memheap_free p m)" using pn by simp
    show "client_inv h start pool (e(k := None), rt_memheap_free p m)"
      by (rule client_invI [OF F(1) _ _ hl']) (use F(3) i in \<open>auto simp: same_rest_def\<close>)
    show "content (e(k := None), rt_memheap_free p m) l = content (e, m) l" if "l \<noteq> op_var (Release k)" for l
      by (rule content_other) (use that F(3) in \<open>auto simp: same_rest_def\<close>)
  qed (simp add: content_def)
qed

lemma store_step:
  assumes c: "client_inv h start pool (e, m)"
  shows "step_ok h start pool (Store k j v) (e, m)"
proof (cases "e k")
  case None
  then show ?thesis using c by (intro step_ok_same) (auto simp: content_None)
next
  case (Some pn)
  obtain p n where pn: "e k = Some (p, n)" using Some by (cases pn) auto
  obtain bs fs where i: "heap_inv m h bs fs" "mh_start_addr (mm_heaps m h) = start" "unat (mh_pool_size (mm_heaps m h)) = pool"
    and hl: "held e (live m bs fs)" using c by (rule client_invE)
  obtain t where t: "live m bs fs (p - 24) = Some t" "unat n \<le> t" using held_block [OF hl pn] by blast
  show ?thesis
  proof (cases "j < n")
    case False
    then have "client_step h (Store k j v) (e, m) = Some (e, m)" using pn by simp
    then show ?thesis using c
      by (rule step_ok_same) (use False pn in \<open>simp add: content_def list_update_beyond word_less_nat_alt\<close>)
  next
    case True
    let ?m = "m\<lparr>mm_bytes := (mm_bytes m)(p + j := v)\<rparr>"
    show ?thesis
    proof (rule step_okI)
      show "client_step h (Store k j v) (e, m) = Some (e, ?m)" using pn True by simp
      show "client_inv h start pool (e, ?m)"
        by (rule client_invI [of _ _ bs fs]) (use i hl in \<open>simp_all add: heap_inv_bytes live_bytes\<close>)
      show "content (e, ?m) l = content (e, m) l" if "l \<noteq> op_var (Store k j v)" for l
      proof (rule content_other, rule refl, intro allI impI)
        fix q n' x assume q: "e l = Some (q, n')" "unat (x - q) < unat n'"
        have "p \<noteq> q" using held_inj [OF hl pn] q(1) that by auto
        have "x \<noteq> p + j"
        proof
          assume x: "x = p + j"
          have "unat n' \<le> unat (x - q)"
            by (rule client_frame [OF i(1) hl q(1) \<open>p \<noteq> q\<close> t(1)])
              (use x True t(2) in \<open>simp add: word_less_nat_alt\<close>)
          then show False using q(2) by simp
        qed
        then show "mm_bytes ?m x = mm_bytes m x" by simp
      qed
      have "(p + of_nat i = p + j) = (i = unat j)" if "i < unat n" for i
        using unat_of_nat_less [OF that] by auto
      then show "op_effect (Store k j v) (content (e, m) (op_var (Store k j v))) (content (e, ?m) (op_var (Store k j v)))"
        using pn True by (auto simp: content_def list_eq_iff_nth_eq nth_list_update word_less_nat_alt)
    qed
  qed
qed

lemma resize_step:
  assumes c: "client_inv h start pool (e, m)" and n: "unat n \<le> 2 ^ 32 - 16"
  shows "step_ok h start pool (Resize k n) (e, m)"
proof (cases "e k")
  case None
  then show ?thesis using c by (intro step_ok_same) (auto simp: content_None)
next
  case (Some pn)
  obtain p n0 where pn: "e k = Some (p, n0)" using Some by (cases pn) auto
  obtain bs fs where i: "heap_inv m h bs fs" "mh_start_addr (mm_heaps m h) = start" "unat (mh_pool_size (mm_heaps m h)) = pool"
    and hl: "held e (live m bs fs)" using c by (rule client_invE)
  obtain s where s: "live m bs fs (p - 24) = Some s" "unat n0 \<le> s" using held_block [OF hl pn] by blast
  obtain xs where xs: "content (e, m) k = Some xs" "length xs = unat n0" using content_Some [of "(e, m)" k p n0] pn by auto
  have h: "h \<noteq> 0" using i(1) by (simp add: heap_inv_def heap_core_def)
  show ?thesis
  proof (cases "n = 0")
    case True
    have r: "step_ok h start pool (Release k) (e, m)" by (rule release_step [OF c])
    moreover have "client_step h (Resize k n) (e, m) = client_step h (Release k) (e, m)"
      using True pn h by (simp add: rt_memheap_realloc_def)
    ultimately show ?thesis using True xs by (simp add: step_ok_def)
  next
    case n0: False
    obtain r where r: "rt_memheap_realloc h p n m = Some r" "resized m h bs fs (p - 24) s (unat (align_request n)) r"
      using realloc_correct [OF i(1) s(1) n0 n] by auto
    from r(2) show ?thesis
      unfolding resized_def
    proof
      assume "r = (0, m)"
      then have "client_step h (Resize k n) (e, m) = Some (e, m)" using r(1) pn n0 by simp
      then show ?thesis using c by (rule step_ok_same) (use n0 xs in simp)
    next
      assume "\<exists>b m' bs' fs' t. r = (b + 24, m') \<and> heap_inv m' h bs' fs' \<and> unat (align_request n) \<le> t
        \<and> (b = p - 24 \<or> live m bs fs b = None) \<and> live m' bs' fs' = (live m bs fs)(p - 24 := None, b \<mapsto> t)
        \<and> (\<forall>k. k \<noteq> h \<longrightarrow> mm_heaps m' k = mm_heaps m k) \<and> mh_start_addr (mm_heaps m' h) = mh_start_addr (mm_heaps m h)
        \<and> mh_pool_size (mm_heaps m' h) = mh_pool_size (mm_heaps m h)
        \<and> (\<forall>i. unat i < min s (unat (align_request n)) \<longrightarrow> mm_bytes m' (b + 24 + i) = mm_bytes m (p - 24 + 24 + i))
        \<and> (\<forall>x. t \<le> unat (x - (b + 24)) \<longrightarrow> mm_bytes m' x = mm_bytes m x)"
      then obtain b m' bs' fs' t where R: "r = (b + 24, m')" "heap_inv m' h bs' fs'" "unat (align_request n) \<le> t"
        "b = p - 24 \<or> live m bs fs b = None" "live m' bs' fs' = (live m bs fs)(p - 24 := None, b \<mapsto> t)"
        "mh_start_addr (mm_heaps m' h) = mh_start_addr (mm_heaps m h)"
        "mh_pool_size (mm_heaps m' h) = mh_pool_size (mm_heaps m h)"
        "\<forall>i. unat i < min s (unat (align_request n)) \<longrightarrow> mm_bytes m' (b + 24 + i) = mm_bytes m (p + i)"
        "\<forall>x. t \<le> unat (x - (b + 24)) \<longrightarrow> mm_bytes m' x = mm_bytes m x"
        by (simp only: diff_add_cancel) blast
      have lb: "live m' bs' fs' b = Some t" using R(5) by simp
      have p0: "b + 24 \<noteq> 0" using live_bounds(4) [OF R(2) lb] by (metis add_is_0 unat_0 zero_neq_numeral)
      have nt: "unat n \<le> unat (align_request n)" by (rule align_request_mono) (use n in simp)
      have hl': "held (e(k \<mapsto> (b + 24, n))) (live m' bs' fs')"
        unfolding R(5) by (rule held_move [OF hl pn R(4)]) (use nt R(3) in simp)
      let ?s' = "(e(k \<mapsto> (b + 24, n)), m')"
      show ?thesis
      proof (rule step_okI)
        show "client_step h (Resize k n) (e, m) = Some ?s'" using pn r(1) R(1) p0 n0 by simp
        show "client_inv h start pool ?s'" by (rule client_invI [OF R(2) _ _ hl']) (use R i in auto)
        show "content ?s' l = content (e, m) l" if l: "l \<noteq> op_var (Resize k n)" for l
        proof (rule content_other)
          show "(e(k \<mapsto> (b + 24, n))) l = e l" using l by simp
          show "\<forall>q n' x. e l = Some (q, n') \<longrightarrow> unat (x - q) < unat n' \<longrightarrow> mm_bytes m' x = mm_bytes m x"
          proof (intro allI impI)
            fix q n' x assume q: "e l = Some (q, n')" "unat (x - q) < unat n'"
            have el: "(e(k \<mapsto> (b + 24, n))) l = Some (q, n')" using q(1) l by simp
            have ne: "b + 24 \<noteq> q"
              using held_inj [OF hl' _ el, of k n] l by auto
            have "t \<le> unat (x - (b + 24))"
              using client_frame [OF R(2) hl' el ne] lb q(2) by (metis add_diff_cancel_right' not_le)
            then show "mm_bytes m' x = mm_bytes m x" using R(9) by simp
          qed
        qed
        let ?ys = "map (\<lambda>i. mm_bytes m' (b + 24 + of_nat i)) [0..<unat n]"
        have "mm_bytes m' (b + 24 + of_nat j) = mm_bytes m (p + of_nat j)" if "j < unat n0" "j < unat n" for j
          using R(8) [rule_format, of "of_nat j"] unat_of_nat_less [OF that(2)] that s(2) nt by simp
        then have "take (min (unat n0) (unat n)) ?ys = take (min (unat n0) (unat n)) xs"
          using xs pn by (auto simp: content_def list_eq_iff_nth_eq)
        moreover have "content ?s' k = Some ?ys" by (simp add: content_def)
        ultimately show "op_effect (Resize k n) (content (e, m) (op_var (Resize k n))) (content ?s' (op_var (Resize k n)))"
          using xs n0 by auto
      qed
    qed
  qed
qed

lemma client_step_ok: "client_inv h start pool s \<Longrightarrow> op_ok x \<Longrightarrow> step_ok h start pool x s"
  by (cases s; cases x) (auto intro: get_step resize_step release_step store_step)

text \<open>The abstract run: the variables hold byte arrays, an operation changes its own variable.\<close>

fun abs_run :: "heap_op list \<Rightarrow> (nat \<Rightarrow> u8 list option) \<Rightarrow> (nat \<Rightarrow> u8 list option) \<Rightarrow> bool" where
  "abs_run [] c c' \<longleftrightarrow> c' = c"
| "abs_run (x # xs) c c' \<longleftrightarrow> (\<exists>d. op_effect x (c (op_var x)) d \<and> abs_run xs (c(op_var x := d)) c')"

lemma client_run_ok:
  "client_inv h start pool s \<Longrightarrow> list_all op_ok xs \<Longrightarrow>
   \<exists>s'. client_run h xs s = Some s' \<and> client_inv h start pool s' \<and> abs_run xs (content s) (content s')"
proof (induction xs arbitrary: s)
  case (Cons x xs)
  obtain s1 where s1: "client_step h x s = Some s1" "client_inv h start pool s1"
    "\<forall>l. l \<noteq> op_var x \<longrightarrow> content s1 l = content s l" "op_effect x (content s (op_var x)) (content s1 (op_var x))"
    using client_step_ok [OF Cons.prems(1), of x] Cons.prems(2) unfolding step_ok_def list.pred_inject by blast
  obtain s' where s': "client_run h xs s1 = Some s'" "client_inv h start pool s'" "abs_run xs (content s1) (content s')"
    using Cons.IH [OF s1(2)] Cons.prems(2) by auto
  have "content s1 = (content s)(op_var x := content s1 (op_var x))" using s1(3) by auto
  then show ?case using s1 s' by auto
qed auto

section \<open>Properties\<close>

lemma init_client:
  assumes "pool_ok h start n"
  obtains m' where "rt_memheap_init h start n m = (0, m')" "client_inv h start (4 * (unat n div 4)) (Map.empty, m')"
proof -
  obtain m' t where I: "rt_memheap_init h start n m = (0, m')" "heap_inv m' h [start, t] [start]"
    "live m' [start, t] [start] = Map.empty" "mh_start_addr (mm_heaps m' h) = start"
    "unat (mh_pool_size (mm_heaps m' h)) = 4 * (unat n div 4)"
    by (rule init_correct [OF assms])
  show ?thesis by (rule that [OF I(1) client_invI [OF I(2,4,5)]]) (simp add: held_def I(3))
qed

text \<open>The bytes of a variable are a region; all regions lie in the pool, aligned and apart.\<close>

definition regions_apart :: "u32 \<Rightarrow> nat \<Rightarrow> heap_vars \<Rightarrow> bool" where
  "regions_apart start pool e \<longleftrightarrow>
     (\<forall>k p n. e k = Some (p, n) \<longrightarrow> 4 dvd unat p \<and> unat start + 24 \<le> unat p \<and> unat p + unat n + 24 \<le> unat start + pool)
     \<and> (\<forall>k l p n q n'. e k = Some (p, n) \<longrightarrow> e l = Some (q, n') \<longrightarrow> k \<noteq> l \<longrightarrow>
          unat p + unat n + 24 \<le> unat q \<or> unat q + unat n' + 24 \<le> unat p)"

lemma client_regions:
  assumes "client_inv h start pool (e, m)"
  shows "regions_apart start pool e"
proof -
  obtain bs fs where i: "heap_inv m h bs fs" "mh_start_addr (mm_heaps m h) = start" "unat (mh_pool_size (mm_heaps m h)) = pool"
    and hl: "held e (live m bs fs)" using assms by (rule client_invE)
  have 1: "4 dvd unat p \<and> unat start + 24 \<le> unat p \<and> unat p + unat n + 24 \<le> unat start + pool \<and> unat p = unat (p - 24) + 24"
    if k: "e k = Some (p, n)" for k p n
  proof -
    obtain t where t: "live m bs fs (p - 24) = Some t" "unat n \<le> t" using held_block [OF hl k] by blast
    show ?thesis using live_bounds [OF i(1) t(1)] t(2) i by simp
  qed
  have 2: "unat p + unat n + 24 \<le> unat q \<or> unat q + unat n' + 24 \<le> unat p"
    if k: "e k = Some (p, n)" "e l = Some (q, n')" "k \<noteq> l" for k l p n q n'
  proof -
    obtain t t' where t: "live m bs fs (p - 24) = Some t" "unat n \<le> t" "live m bs fs (q - 24) = Some t'" "unat n' \<le> t'"
      using held_block [OF hl k(1)] held_block [OF hl k(2)] by blast
    have "p - 24 \<noteq> q - 24" using held_inj [OF hl k(1), of l n'] k by auto
    then show ?thesis using live_disjoint [OF i(1) t(1,3)] 1 [OF k(1)] 1 [OF k(2)] t by linarith
  qed
  show ?thesis unfolding regions_apart_def using 1 2 by blast
qed

text \<open>
  The typed memory is sound for such a heap: the headers of its blocks are storage of their own, inside the
  pool, apart from each other and from every region.
\<close>

definition headers_apart :: "u32 \<Rightarrow> nat \<Rightarrow> mh_mem \<Rightarrow> heap_vars \<Rightarrow> bool" where
  "headers_apart start pool m e \<longleftrightarrow> (\<exists>bs. ring (next_of m) (prev_of m) bs \<and> hd bs = start
     \<and> (\<forall>a \<in> set bs. unat start \<le> unat a \<and> unat a + 24 \<le> unat start + pool)
     \<and> (\<forall>a \<in> set bs. \<forall>b \<in> set bs. a \<noteq> b \<longrightarrow> unat a + 24 \<le> unat b \<or> unat b + 24 \<le> unat a)
     \<and> (\<forall>a \<in> set bs. \<forall>k p n. e k = Some (p, n) \<longrightarrow> unat a + 24 \<le> unat p \<or> unat p + unat n \<le> unat a))"

lemma sorted_wrt_pair: "sorted_wrt P xs \<Longrightarrow> a \<in> set xs \<Longrightarrow> c \<in> set xs \<Longrightarrow> a \<noteq> c \<Longrightarrow> P a c \<or> P c a"
  by (induction xs) auto

lemma client_headers:
  assumes "client_inv h start pool (e, m)"
  shows "headers_apart start pool m e"
proof -
  obtain bs fs where i: "heap_inv m h bs fs" "mh_start_addr (mm_heaps m h) = start" "unat (mh_pool_size (mm_heaps m h)) = pool"
    and hl: "held e (live m bs fs)" using assms by (rule client_invE)
  have b: "blocks_ok m h bs (set fs)" and co: "heap_core m h bs fs" using i(1) by (auto simp: heap_inv_def heap_core_def)
  note D = blocks_okD [OF b]
  have bs: "bs \<noteq> []" "hd bs = start" and pl: "mh_pool_size (mm_heaps m h) = last bs + 24 - start"
    using co i(2) by (auto simp: heap_core_def)
  have le: "unat start \<le> unat a \<and> unat a \<le> unat (last bs)" if "a \<in> set bs" for a
  proof -
    obtain us vs where u: "bs = us @ a # vs" using \<open>a \<in> set bs\<close> by (meson split_list)
    show ?thesis
      using D(2) bs(2) unfolding u by (cases us; cases vs rule: rev_cases) (auto simp: sorted_wrt_append gap_def)
  qed
  have "unat (last bs + 24) = unat (last bs) + 24" using D(7) by (subst unat_add_no_wrap) simp_all
  then have pool: "unat start + pool = unat (last bs) + 24"
    using le [of "last bs"] bs(1) i(3) pl by (simp add: unat_sub_le word_le_nat_alt)
  have far: "unat a + 24 \<le> unat c \<or> unat c + 24 \<le> unat a" if "a \<in> set bs" "c \<in> set bs" "a \<noteq> c" for a c
    using sorted_wrt_pair [OF D(2) that] by (auto simp: gap_def)
  have off: "unat a + 24 \<le> unat p \<or> unat p + unat n \<le> unat a" if a: "a \<in> set bs" and k: "e k = Some (p, n)" for a k p n
  proof -
    obtain t where t: "live m bs fs (p - 24) = Some t" "unat n \<le> t" using held_block [OF hl k] by blast
    have p: "unat p = unat (p - 24) + 24" "p - 24 \<in> set (butlast bs)"
      using live_bounds(4) [OF i(1) t(1)] t(1) by (auto simp: live_Some)
    show ?thesis
      using block_end [OF b, of "p - 24" a] block_end [OF b, of a "p - 24"] far [OF a] a p t
      by (cases "a = p - 24") (auto simp: live_Some word_unat_eq_iff linorder_neq_iff dest: in_set_butlastD)
  qed
  show ?thesis
    unfolding headers_apart_def using D(1) bs(2) le pool far off by (intro exI [of _ bs]) auto
qed

text \<open>When nothing is allocated, the whole pool is one free block.\<close>

lemma heap_all_free:
  assumes i: "heap_inv m h bs fs" and l: "live m bs fs = Map.empty"
  shows "unat (mh_available_size (mm_heaps m h)) = unat (mh_pool_size (mm_heaps m h)) - 48"
proof -
  have b: "blocks_ok m h bs (set fs)" and f: "free_ok m h fs" and ap: "apart (set fs) bs" and l2: "2 \<le> length bs"
    and co: "heap_core m h bs fs" using i by (auto simp: heap_inv_def heap_core_def)
  have all: "set (butlast bs) \<subseteq> set fs"
  proof
    fix a assume "a \<in> set (butlast bs)"
    then show "a \<in> set fs" using fun_cong [OF l, of a] by (auto simp: live_def split: if_splits)
  qed
  obtain x y zs where bs: "bs = x # y # zs" using l2 by (cases bs rule: remdups_adj.cases) auto
  have "x \<in> set fs" using all bs by auto
  then have "y \<notin> set fs" using ap bs by (simp add: apart_Cons)
  then have zs: "zs = []" using all bs by (cases zs) auto
  have "set fs = {x}" using all blocks_okD(3) [OF b] bs zs by auto
  moreover have "distinct fs" using f by (simp add: free_ok_def ring_def)
  ultimately have fs: "fs = [x]" by (metis distinct.simps(2) list.set_intros(1) neq_Nil_conv set_ConsD set_empty singletonD insert_not_empty list.set_intros(2) subset_singletonD)
  show ?thesis
    using heap_counters(1,2) [OF co] block_between(3,6) [of m h "[]" x y "[]"] b bs zs fs by simp
qed

text \<open>C11: The heap refines variables that hold byte arrays.  After the initialisation of an aligned pool of at least 60 bytes
  apart from the heap object, every sequence of allocations, resizings, releases and writes returns, if each
  allocation asks for at most $2^{32} - 4$ bytes and each resizing for at most $2^{32} - 16$, the sizes for
  which the code's sums do not wrap around; an allocation either gives an array of the requested size or
  changes nothing, a resizing keeps the common prefix of the contents or changes nothing, and no operation
  touches the contents of another variable.\<close>

theorem memheap_refines_byte_arrays:
  assumes "pool_ok h start n" and "list_all op_ok ops" and "rt_memheap_init h start n m = (r, m0)"
  shows "\<exists>e m'. client_run h ops (Map.empty, m0) = Some (e, m') \<and> abs_run ops Map.empty (content (e, m'))"
proof -
  have "client_inv h start (4 * (unat n div 4)) (Map.empty, m0)"
    by (rule init_client [OF assms(1), of m]) (use assms(3) in simp)
  moreover have "content (Map.empty, m0) = Map.empty" by (simp add: content_def fun_eq_iff)
  ultimately show ?thesis using client_run_ok [OF _ assms(2)] by (metis surj_pair)
qed

text \<open>C12: After any sequence of calls in which each allocation asks for at most $2^{32} - 4$ bytes and each
  resizing for at most $2^{32} - 16$, the regions that the heap has handed out are aligned to 4 bytes, lie
  inside the pool, and are at least one block header apart from each other; the headers of the blocks, which
  the model keeps in a store of their own, lie in the pool apart from each other and from all regions; and
  when everything has been released, the available size is again what it was after the initialisation: no
  memory is lost, all blocks have been merged.\<close>

theorem memheap_regions_apart:
  assumes "pool_ok h start n" and "list_all op_ok ops" and "rt_memheap_init h start n m = (r, m0)"
  shows "\<exists>e m'. client_run h ops (Map.empty, m0) = Some (e, m') \<and> regions_apart start (4 * (unat n div 4)) e
    \<and> headers_apart start (4 * (unat n div 4)) m' e
    \<and> (e = Map.empty \<longrightarrow> mh_available_size (mm_heaps m' h) = mh_available_size (mm_heaps m0 h))"
proof -
  have c0: "client_inv h start (4 * (unat n div 4)) (Map.empty, m0)"
    by (rule init_client [OF assms(1), of m]) (use assms(3) in simp)
  obtain e m' where r: "client_run h ops (Map.empty, m0) = Some (e, m')" and c: "client_inv h start (4 * (unat n div 4)) (e, m')"
    using client_run_ok [OF c0 assms(2)] by (metis surj_pair)
  have av: "unat (mh_available_size (mm_heaps m1 h)) = 4 * (unat n div 4) - 48"
    if "client_inv h start (4 * (unat n div 4)) (Map.empty, m1)" for m1
  proof -
    from that obtain bs fs where i: "heap_inv m1 h bs fs" "mh_start_addr (mm_heaps m1 h) = start"
      "unat (mh_pool_size (mm_heaps m1 h)) = 4 * (unat n div 4)" "held Map.empty (live m1 bs fs)"
      by (rule client_invE)
    have "live m1 bs fs = Map.empty" using i(4) by (auto simp: held_def fun_eq_iff)
    then show ?thesis using heap_all_free [OF i(1)] i(3) by simp
  qed
  show ?thesis using r client_regions [OF c] client_headers [OF c] av [OF c0] av [of m'] c by (auto simp: word_unat_eq_iff)
qed

text \<open>The heap of the board: 100 KiB at 0x400E7000, the heap object below it.\<close>

definition board_heap :: u32 where "board_heap = 0x40010000"

definition zero_mem :: mh_mem where
  "zero_mem = \<lparr>mm_items = (\<lambda>_. \<lparr>mi_magic = 0, mi_pool_ptr = 0, mi_next = 0, mi_prev = 0, mi_next_free = 0, mi_prev_free = 0\<rparr>),
     mm_heaps = (\<lambda>_. \<lparr>mh_start_addr = 0, mh_pool_size = 0, mh_available_size = 0, mh_max_used_size = 0,
       mh_block_list = 0, mh_free_list = 0, mh_locked = 0\<rparr>), mm_bytes = (\<lambda>_. 0)\<rparr>"

definition board_ops :: "heap_op list" where
  "board_ops = [Get 0 100, Get 1 21, Store 0 3 7, Resize 0 300, Release 1, Resize 0 50, Get 2 8, Release 0, Release 2]"

lemma board_pool: "pool_ok board_heap 0x400E7000 0x19000" "list_all op_ok board_ops"
  by (simp_all add: pool_ok_def board_heap_def free_header_def board_ops_def)

lemma memheap_refines_byte_arrays_witness:
  "pool_ok board_heap 0x400E7000 0x19000 \<and> list_all op_ok board_ops \<and>
   (\<exists>e m'. client_run board_heap board_ops (Map.empty, snd (rt_memheap_init board_heap 0x400E7000 0x19000 zero_mem)) = Some (e, m')
     \<and> abs_run board_ops Map.empty (content (e, m')))"
  using board_pool memheap_refines_byte_arrays [OF board_pool, of zero_mem "fst (rt_memheap_init board_heap 0x400E7000 0x19000 zero_mem)"
      "snd (rt_memheap_init board_heap 0x400E7000 0x19000 zero_mem)"] by simp

lemma memheap_regions_apart_witness:
  "pool_ok board_heap 0x400E7000 0x19000 \<and> list_all op_ok board_ops \<and>
   (\<exists>e m'. client_run board_heap board_ops (Map.empty, snd (rt_memheap_init board_heap 0x400E7000 0x19000 zero_mem)) = Some (e, m')
     \<and> regions_apart 0x400E7000 (4 * (unat (0x19000 :: u32) div 4)) e
     \<and> headers_apart 0x400E7000 (4 * (unat (0x19000 :: u32) div 4)) m' e
     \<and> (e = Map.empty \<longrightarrow> mh_available_size (mm_heaps m' board_heap) =
          mh_available_size (mm_heaps (snd (rt_memheap_init board_heap 0x400E7000 0x19000 zero_mem)) board_heap)))"
  using board_pool memheap_regions_apart [OF board_pool, of zero_mem "fst (rt_memheap_init board_heap 0x400E7000 0x19000 zero_mem)"
      "snd (rt_memheap_init board_heap 0x400E7000 0x19000 zero_mem)"] by simp

text \<open>On a heap that keeps its invariant, an allocation returns the first block of the free list
  that is large enough for the aligned request, provided the request is also smaller than the count
  of available bytes; the block becomes live with at least that size and less than 36 bytes more.
  In every other case it returns a null pointer and changes nothing.\<close>

theorem memheap_alloc_first_fit:
  assumes "heap_inv m h bs fs"
  shows "case (if align_request n < mh_available_size (mm_heaps m h) then first_fit m (align_request n) fs else None) of
      None \<Rightarrow> rt_memheap_alloc h n m = Some (0, m)
    | Some a \<Rightarrow> \<exists>m' bs' fs' s. rt_memheap_alloc h n m = Some (a + 24, m') \<and> heap_inv m' h bs' fs'
        \<and> same_rest h m m' \<and> live m bs fs a = None \<and> live m' bs' fs' = (live m bs fs)(a \<mapsto> s)
        \<and> unat (align_request n) \<le> s \<and> s < unat (align_request n) + 36"
  using assms by (rule alloc_correct)

lemma memheap_alloc_first_fit_witness:
  "\<exists>bs fs. heap_inv (snd (rt_memheap_init board_heap 0x400E7000 0x19000 zero_mem)) board_heap bs fs \<and>
     (case (if align_request 100 < mh_available_size (mm_heaps (snd (rt_memheap_init board_heap 0x400E7000 0x19000 zero_mem)) board_heap)
            then first_fit (snd (rt_memheap_init board_heap 0x400E7000 0x19000 zero_mem)) (align_request 100) fs else None) of
        None \<Rightarrow> rt_memheap_alloc board_heap 100 (snd (rt_memheap_init board_heap 0x400E7000 0x19000 zero_mem)) =
          Some (0, snd (rt_memheap_init board_heap 0x400E7000 0x19000 zero_mem))
      | Some a \<Rightarrow> \<exists>m'. rt_memheap_alloc board_heap 100 (snd (rt_memheap_init board_heap 0x400E7000 0x19000 zero_mem)) = Some (a + 24, m'))"
proof -
  obtain m' t where I: "rt_memheap_init board_heap 0x400E7000 0x19000 zero_mem = (0, m')"
    "heap_inv m' board_heap [0x400E7000, t] [0x400E7000]"
    by (rule init_correct [OF board_pool(1)])
  define bs fs where "bs = [0x400E7000, t]" and "fs = [0x400E7000 :: u32]"
  note I = I [folded bs_def fs_def]
  have "case (if align_request 100 < mh_available_size (mm_heaps m' board_heap) then first_fit m' (align_request 100) fs else None) of
      None \<Rightarrow> rt_memheap_alloc board_heap 100 m' = Some (0, m')
    | Some a \<Rightarrow> \<exists>m''. rt_memheap_alloc board_heap 100 m' = Some (a + 24, m'')"
    using memheap_alloc_first_fit [OF I(2), of 100]
    by (cases "if align_request 100 < mh_available_size (mm_heaps m' board_heap) then first_fit m' (align_request 100) fs else None") auto
  moreover have "snd (rt_memheap_init board_heap 0x400E7000 0x19000 zero_mem) = m'" using I(1) by simp
  ultimately show ?thesis using I(2) by (simp only:) blast
qed

text \<open>C28: Requests near the top of the address range wrap.  Asking for more than 0xFFFFFFFC bytes
  allocates a block for 12 bytes; and growing a block to 0xFFFFFFFC bytes reports success although
  the pool has 100 KiB: the sum with the minimal block size wraps, the code takes the next free
  block for large enough and leaves a block header inside the header of the grown block.\<close>

theorem memheap_huge_requests_wrap:
  "(\<forall>n. 0xFFFFFFFC < n \<longrightarrow> rt_memheap_alloc h n m = rt_memheap_alloc h 12 m)
   \<and> (case rt_memheap_alloc board_heap 16 (snd (rt_memheap_init board_heap 0x400E7000 0x19000 zero_mem)) of
        Some (p, m1) \<Rightarrow> (case rt_memheap_realloc board_heap p 0xFFFFFFFC m1 of
          Some (q, m2) \<Rightarrow> q = p \<and> MEMITEM_SIZE m2 (p - 24) = 0xFFFFFFFC \<and> next_of m2 (p - 24) = p - 4
        | None \<Rightarrow> False)
      | None \<Rightarrow> False)"
proof (rule conjI)
  show "\<forall>n. 0xFFFFFFFC < n \<longrightarrow> rt_memheap_alloc h n m = rt_memheap_alloc h 12 m"
  proof (intro allI impI)
    fix n :: u32 assume n: "0xFFFFFFFC < n"
    have "unat n < 2 ^ 32" using unsigned_less [of n] by simp
    then have "unat n = 4294967293 \<or> unat n = 4294967294 \<or> unat n = 4294967295" using n by (simp add: word_less_nat_alt) arith
    then have "n = 0xFFFFFFFD \<or> n = 0xFFFFFFFE \<or> n = 0xFFFFFFFF" by (simp add: word_unat_eq_iff)
    then have "align_request n = align_request 12"
      by (auto simp: align_request_def RT_ALIGN_def Let_def)
    then show "rt_memheap_alloc h n m = rt_memheap_alloc h 12 m" by (simp add: rt_memheap_alloc_def)
  qed
next
  let ?h = board_heap and ?s = "0x400E7000 :: u32" and ?k = "0x400E7028 :: u32"
  obtain m0 t where I: "rt_memheap_init ?h ?s 0x19000 zero_mem = (0, m0)" "heap_inv m0 ?h [?s, t] [?s]"
    "t = ?s + (0x19000 AND - 4) - 24"
    by (rule init_correct [OF board_pool(1)])
  have t: "t = 0x400FFFE8" using I(3) by simp
  have b0: "blocks_ok m0 ?h ([] @ ?s # t # []) (set [?s])" using I(2) by (simp add: heap_inv_def heap_core_def)
  have sz: "MEMITEM_SIZE m0 ?s = 0x18FD0" using block_between(5) [OF b0] t by simp
  have av: "mh_available_size (mm_heaps m0 ?h) = 0x18FD0" using I(2) sz by (simp add: heap_inv_def heap_core_def)
  have a16: "align_request 16 = 16" by (simp add: align_request_def RT_ALIGN_def Let_def)
  define m1 where "m1 = snd (alloc_block ?h 16 ?s (MEMITEM_SIZE m0 ?s) m0)"
  have al: "rt_memheap_alloc ?h 16 m0 = Some (?s + 24, m1)"
    using alloc_search [OF I(2), of 16] av sz a16
    by (simp add: first_fit_def m1_def) (simp add: alloc_block_def Let_def)
  have A: "heap_inv m1 ?h [?s, ?k, t] [?k]" "next_of m1 = (next_of m0)(?k := t, ?s := ?k)"
    using alloc_split(1,3) [of m0 ?h "[]" ?s t "[]" "[]" "[]" 16] I(2) sz by (simp_all add: m1_def dvd_def)
  have h0: "?h \<noteq> 0" by (simp add: board_heap_def)
  have b1: "blocks_ok m1 ?h ([?s] @ ?k # t # []) (set [?k])" "free_ok m1 ?h [?k]"
    using A(1) by (simp_all add: heap_inv_def heap_core_def)
  have us: "\<not> RT_MEMHEAP_IS_USED m1 ?k" using blocks_okD(6) [OF b1(1), of ?k] by simp
  have pv: "prev_of m1 ?k = ?s" "prev_of m1 t = ?k"
    using ring_next [of "next_of m1" "prev_of m1" "[]" ?s ?k "[t]"] block_between(2) [OF b1(1)] blocks_okD(1) [OF b1(1)] by auto
  have s1: "MEMITEM_SIZE m1 ?s = 16" "MEMITEM_SIZE m1 ?k = 0x18FA8" "next_of m1 ?s = ?k" "next_of m1 ?k = t"
    using t by (simp_all add: MEMITEM_SIZE_def A(2))
  have al4: "align_request 0xFFFFFFFC = 0xFFFFFFFC" by (simp add: align_request_def RT_ALIGN_def Let_def)
  define m2 where "m2 = realloc_grow ?h (?s + 24) 0xFFFFFFFC 16 ?k m1"
  have re: "rt_memheap_realloc ?h (?s + 24) 0xFFFFFFFC m1 = Some (?s + 24, m2)"
    using h0 us s1 al4 by (simp add: rt_memheap_realloc_def Let_def m2_def)
  have "next_of m2 ?s = ?s + 20"
    using pv s1 t by (simp add: m2_def realloc_grow_def Let_def remove_next_ptr_split field_simps_mh)
  then have "MEMITEM_SIZE m2 ?s = 0xFFFFFFFC" "next_of m2 ?s = ?s + 20" by (simp_all add: MEMITEM_SIZE_def)
  then show "case rt_memheap_alloc ?h 16 (snd (rt_memheap_init ?h ?s 0x19000 zero_mem)) of
        Some (p, m1) \<Rightarrow> (case rt_memheap_realloc ?h p 0xFFFFFFFC m1 of
          Some (q, m2) \<Rightarrow> q = p \<and> MEMITEM_SIZE m2 (p - 24) = 0xFFFFFFFC \<and> next_of m2 (p - 24) = p - 4
        | None \<Rightarrow> False)
      | None \<Rightarrow> False"
    using I(1) al re by simp
qed

lemma memheap_huge_requests_wrap_witness:
  "(0xFFFFFFFC :: u32) < 0xFFFFFFFE \<and>
   rt_memheap_alloc board_heap 0xFFFFFFFE zero_mem = rt_memheap_alloc board_heap 12 zero_mem"
  using memheap_huge_requests_wrap [of board_heap zero_mem] by simp

end
