(* ===== verification/Mmio.thy ===== *)
theory Mmio
  imports HG_Prelude
begin

text \<open>
  Memory-mapped registers.  The macros \<^verbatim>\<open>read32\<close>, \<^verbatim>\<open>write32\<close>, \<^verbatim>\<open>read8\<close> and \<^verbatim>\<open>write8\<close> of
  \<^verbatim>\<open>application/board.h\<close> access devices this development has no source for, so they are fields of a
  record over a device state \<open>'h\<close>; a read may change the state (a FIFO gives up a byte).

  \<open>masked_regs\<close> is the documented behaviour of control registers: they hold what was written last.
\<close>

record 'h mmio =
  read32 :: "u32 \<Rightarrow> 'h \<Rightarrow> u32 \<times> 'h"
  write32 :: "u32 \<Rightarrow> u32 \<Rightarrow> 'h \<Rightarrow> 'h"
  read8 :: "u32 \<Rightarrow> 'h \<Rightarrow> u8 \<times> 'h"
  write8 :: "u32 \<Rightarrow> u8 \<Rightarrow> 'h \<Rightarrow> 'h"

text \<open>The pattern of almost every register access: read, change some bits, write back.\<close>

definition update32 :: "'h mmio \<Rightarrow> u32 \<Rightarrow> (u32 \<Rightarrow> u32) \<Rightarrow> 'h \<Rightarrow> 'h" where
  "update32 io addr f h = (case read32 io addr h of (val, h) \<Rightarrow> write32 io addr (f val) h)"

text \<open>A loop \<^verbatim>\<open>while (cond(read32(addr)));\<close> that ends when the register has the wanted bits.\<close>

partial_function (option) poll32 :: "'h mmio \<Rightarrow> u32 \<Rightarrow> (u32 \<Rightarrow> bool) \<Rightarrow> 'h \<Rightarrow> 'h option" where
  "poll32 io addr waiting h =
     (case read32 io addr h of (val, h) \<Rightarrow> if waiting val then poll32 io addr waiting h else Some h)"

text \<open>
  Registers in which only some bits exist: of the register at \<open>a\<close> those of \<open>M a\<close>.  The others read as
  zero and ignore writes.
\<close>

definition masked_regs :: "'h mmio \<Rightarrow> ('h \<Rightarrow> u32 \<Rightarrow> u32) \<Rightarrow> (u32 \<Rightarrow> u32) \<Rightarrow> u32 set \<Rightarrow> bool" where
  "masked_regs io reg M A \<longleftrightarrow>
     (\<forall>a h v. a \<in> A \<longrightarrow> read32 io a h = (reg h a, h) \<and> reg h a AND M a = reg h a \<and>
        (\<forall>b. b \<in> A \<longrightarrow> reg (write32 io a v h) b = (if b = a then v AND M a else reg h b)))"

lemma masked_read: "masked_regs io reg M A \<Longrightarrow> a \<in> A \<Longrightarrow> read32 io a h = (reg h a, h)"
  by (simp add: masked_regs_def)

lemma masked_bits: "masked_regs io reg M A \<Longrightarrow> a \<in> A \<Longrightarrow> reg h a AND M a = reg h a"
  by (simp add: masked_regs_def)

lemma masked_update:
  "masked_regs io reg M A \<Longrightarrow> a \<in> A \<Longrightarrow> b \<in> A \<Longrightarrow>
   reg (update32 io a f h) b = (if b = a then f (reg h a) AND M a else reg h b)"
  by (simp add: update32_def masked_regs_def)

text \<open>Registers without any behaviour, for concrete runs.\<close>

definition ram_io :: "(u32 \<Rightarrow> u32) mmio" where
  "ram_io = \<lparr>read32 = (\<lambda>a h. (h a, h)), write32 = (\<lambda>a v h. h(a := v)),
     read8 = (\<lambda>a h. (ucast (h a), h)), write8 = (\<lambda>a v h. h(a := ucast v))\<rparr>"

definition masked_io :: "(u32 \<Rightarrow> u32) \<Rightarrow> (u32 \<Rightarrow> u32) mmio" where
  "masked_io M = ram_io\<lparr>read32 := (\<lambda>a h. (h a AND M a, h))\<rparr>"

lemma masked_ram [simp]: "masked_regs (masked_io M) (\<lambda>h a. h a AND M a) M A"
  by (simp add: masked_regs_def masked_io_def ram_io_def)

end
