(* ===== verification/Iomux.thy ===== *)
theory Iomux
  imports Mmio
begin

text \<open>
  The pin multiplexer of \<^verbatim>\<open>boards/drv_iomux.c\<close>.  The enumerations are words, as the compiler
  represents them: the comparisons with their first member never fail.
\<close>

section \<open>Pins\<close>

definition PIO_NUM_IO_BITS :: nat where "PIO_NUM_IO_BITS = 5"

definition IO_PORTB :: u32 where "IO_PORTB = 0"
definition IO_PORTC :: u32 where "IO_PORTC = 1"
definition IO_PORTD :: u32 where "IO_PORTD = 2"
definition IO_PORTE :: u32 where "IO_PORTE = 3"
definition IO_PORTF :: u32 where "IO_PORTF = 4"
definition IO_PORTG :: u32 where "IO_PORTG = 5"
definition PIN_31 :: u32 where "PIN_31 = 31"
definition IO_DISABLED :: u32 where "IO_DISABLED = 15"
definition IO_PULL_NONE :: u32 where "IO_PULL_NONE = 0"
definition IO_PULL_UP :: u32 where "IO_PULL_UP = 1"
definition IO_PULL_DOWN :: u32 where "IO_PULL_DOWN = 2"
definition IO_PULL_RESERVE :: u32 where "IO_PULL_RESERVE = 3"
definition REG_GPIO_CFG0 :: u32 where "REG_GPIO_CFG0 = 0x00"
definition REG_GPIO_PUL0 :: u32 where "REG_GPIO_PUL0 = 0x24"

lemmas iomux_consts = PIO_NUM_IO_BITS_def IO_PORTB_def IO_PORTC_def IO_PORTD_def IO_PORTE_def
  IO_PORTF_def IO_PORTG_def PIN_31_def IO_DISABLED_def IO_PULL_NONE_def IO_PULL_UP_def
  IO_PULL_DOWN_def IO_PULL_RESERVE_def REG_GPIO_CFG0_def REG_GPIO_PUL0_def

record iomux_cfg =
  io_port :: u32
  io_pin :: u32
  io_mux :: u32
  io_pull :: u32

definition IO_PIN :: "u32 \<Rightarrow> u32 \<Rightarrow> u32" where
  "IO_PIN x y = push_bit PIO_NUM_IO_BITS x OR y"

definition port_base :: "u32 \<Rightarrow> u32" where
  "port_base pin =
     (let port = drop_bit PIO_NUM_IO_BITS pin in
      if port = IO_PORTB then 0x02000030
      else if port = IO_PORTC then 0x02000060
      else if port = IO_PORTD then 0x02000090
      else if port = IO_PORTE then 0x020000C0
      else if port = IO_PORTF then 0x020000F0
      else if port = IO_PORTG then 0x02000120
      else 0)"

definition pin_num :: "u32 \<Rightarrow> u32" where
  "pin_num pin = pin AND (push_bit PIO_NUM_IO_BITS 1 - 1)"

section \<open>Selecting a function\<close>

definition mux_shift :: "u32 \<Rightarrow> nat" where
  "mux_shift n = unat (push_bit 2 (n AND 7))"

definition pull_shift :: "u32 \<Rightarrow> nat" where
  "pull_shift n = unat (push_bit 1 (n AND 0xF))"

definition pull_bits :: "u32 \<Rightarrow> u32 option" where
  "pull_bits pull =
     (if pull = IO_PULL_NONE then Some 0
      else if pull = IO_PULL_UP then Some 1
      else if pull = IO_PULL_DOWN then Some 2
      else None)"

definition iomux_set_sel :: "'h mmio \<Rightarrow> iomux_cfg \<Rightarrow> 'h \<Rightarrow> int \<times> 'h" where
  "iomux_set_sel io iocfg h =
     (if io_port iocfg > IO_PORTG then (-1, h)
      else if io_pin iocfg > PIN_31 then (-1, h)
      else if io_mux iocfg > IO_DISABLED then (-1, h)
      else if io_pull iocfg > IO_PULL_RESERVE then (-1, h)
      else
        let port_addr = port_base (IO_PIN (io_port iocfg) (io_pin iocfg));
            n = pin_num (IO_PIN (io_port iocfg) (io_pin iocfg));
            h = update32 io (port_addr + REG_GPIO_CFG0 + push_bit 2 (drop_bit 3 n))
                  (\<lambda>val. (val AND NOT (push_bit (mux_shift n) 0xF))
                           OR push_bit (mux_shift n) (io_mux iocfg AND 0xF)) h
        in case pull_bits (io_pull iocfg) of
             None \<Rightarrow> (0, h)
           | Some v \<Rightarrow>
               (0, update32 io (port_addr + REG_GPIO_PUL0 + push_bit 2 (drop_bit 4 n))
                     (\<lambda>val. (val AND NOT (push_bit (pull_shift n) v)) OR push_bit (pull_shift n) v) h))"

end
