(* ===== verification/Clk.thy ===== *)
theory Clk
  imports Mmio
begin

text \<open>
  The clock tree of \<^verbatim>\<open>boards/drv_clk.c\<close>: the set-up of the PLLs and dividers, and the functions that
  compute the frequencies back from the registers.  \<^verbatim>\<open>sdelay\<close> only burns time and is left out.
  Arithmetic is that of \<^verbatim>\<open>unsigned int\<close>.
\<close>

section \<open>Registers\<close>

definition CCU_BASE_ADDR :: u32 where "CCU_BASE_ADDR = 0x02001000"
definition REG_CCU_PLL_CPU_CTRL :: u32 where "REG_CCU_PLL_CPU_CTRL = 0x000"
definition REG_CCU_PLL_PERI_CTRL :: u32 where "REG_CCU_PLL_PERI_CTRL = 0x020"
definition REG_CCU_CPU_AXI_CFG :: u32 where "REG_CCU_CPU_AXI_CFG = 0x500"
definition REG_CCU_PSI_CLK :: u32 where "REG_CCU_PSI_CLK = 0x510"
definition REG_CCU_APB0_CLK :: u32 where "REG_CCU_APB0_CLK = 0x520"
definition REG_CCU_APB1_CLK :: u32 where "REG_CCU_APB1_CLK = 0x524"

lemmas ccu_consts = CCU_BASE_ADDR_def REG_CCU_PLL_CPU_CTRL_def REG_CCU_PLL_PERI_CTRL_def
  REG_CCU_CPU_AXI_CFG_def REG_CCU_PSI_CLK_def REG_CCU_APB0_CLK_def REG_CCU_APB1_CLK_def

definition bit_of :: "nat \<Rightarrow> u32" where
  "bit_of n = push_bit n 1"

definition clear_bits :: "u32 \<Rightarrow> u32 \<Rightarrow> u32" where
  "clear_bits m val = val AND NOT m"

definition set_bits :: "u32 \<Rightarrow> u32 \<Rightarrow> u32" where
  "set_bits m val = val OR m"

section \<open>Reading the clocks\<close>

text \<open>
  A shift by 32 or more has no defined result in C: \<^term>\<open>None\<close>.  \<^verbatim>\<open>drv_clk_get_pll_cpu\<close> shifts by
  the field of the divider without moving it down first.
\<close>

definition shift_one :: "u32 \<Rightarrow> u32 option" where
  "shift_one n = (if n < 32 then Some (push_bit (unat n) 1) else None)"

definition drv_clk_get_pll_cpu :: "'h mmio \<Rightarrow> 'h \<Rightarrow> (u32 \<times> 'h) option" where
  "drv_clk_get_pll_cpu io h =
     (case read32 io (CCU_BASE_ADDR + REG_CCU_CPU_AXI_CFG) h of (val, h) \<Rightarrow> do {
        p \<leftarrow> shift_one (val AND push_bit 16 3);
        (case read32 io (CCU_BASE_ADDR + REG_CCU_PLL_CPU_CTRL) h of (val, h) \<Rightarrow>
           let n = (drop_bit 8 val AND 0xFF) + 1 in Some ((24000000 * n) div p, h))
      })"

definition peri_n :: "u32 \<Rightarrow> u32" where "peri_n val = (drop_bit 8 val AND 0xFF) + 1"
definition peri_m :: "u32 \<Rightarrow> u32" where "peri_m val = (val AND 1) + 1"
definition peri_p0 :: "u32 \<Rightarrow> u32" where "peri_p0 val = (drop_bit 16 val AND 7) + 1"
definition peri_p1 :: "u32 \<Rightarrow> u32" where "peri_p1 val = (drop_bit 20 val AND 7) + 1"

definition drv_clk_get_pll_peri_1x :: "'h mmio \<Rightarrow> 'h \<Rightarrow> u32 \<times> 'h" where
  "drv_clk_get_pll_peri_1x io h =
     (case read32 io (CCU_BASE_ADDR + REG_CCU_PLL_PERI_CTRL) h of (val, h) \<Rightarrow>
        ((24000000 * peri_n val) div (peri_m val * peri_p0 val * 2), h))"

definition drv_clk_get_pll_peri_2x :: "'h mmio \<Rightarrow> 'h \<Rightarrow> u32 \<times> 'h" where
  "drv_clk_get_pll_peri_2x io h =
     (case read32 io (CCU_BASE_ADDR + REG_CCU_PLL_PERI_CTRL) h of (val, h) \<Rightarrow>
        ((24000000 * peri_n val) div (peri_m val * peri_p0 val), h))"

definition drv_clk_get_pll_peri_800M :: "'h mmio \<Rightarrow> 'h \<Rightarrow> u32 \<times> 'h" where
  "drv_clk_get_pll_peri_800M io h =
     (case read32 io (CCU_BASE_ADDR + REG_CCU_PLL_PERI_CTRL) h of (val, h) \<Rightarrow>
        ((24000000 * peri_n val) div (peri_m val * peri_p1 val), h))"

text \<open>The bus clocks: a source, a divider \<open>m\<close> and a power of two.\<close>

definition bus_clk :: "('h \<Rightarrow> u32 \<times> 'h) \<Rightarrow> ('h \<Rightarrow> u32 \<times> 'h) \<Rightarrow> u32 \<Rightarrow> u32 \<Rightarrow> 'h \<Rightarrow> u32 \<times> 'h" where
  "bus_clk clk2 clk3 mmask val h =
     (let sel = drop_bit 24 val AND 3;
          (sclk, h) = (if sel = 0 then (24000000, h) else if sel = 1 then (32000, h)
                       else if sel = 2 then clk2 h else clk3 h);
          m = (val AND mmask) + 1;
          n = push_bit (unat (drop_bit 8 val AND 3)) 1
      in (sclk div m div n, h))"

definition drv_clk_get_ahbs_clk :: "'h mmio \<Rightarrow> 'h \<Rightarrow> u32 \<times> 'h" where
  "drv_clk_get_ahbs_clk io h =
     (case read32 io (CCU_BASE_ADDR + REG_CCU_PSI_CLK) h of (val, h) \<Rightarrow>
        bus_clk (\<lambda>h. (16000000, h)) (drv_clk_get_pll_peri_1x io) 3 val h)"

definition drv_clk_get_apb0_clk :: "'h mmio \<Rightarrow> 'h \<Rightarrow> u32 \<times> 'h" where
  "drv_clk_get_apb0_clk io h =
     (case read32 io (CCU_BASE_ADDR + REG_CCU_APB0_CLK) h of (val, h) \<Rightarrow>
        bus_clk (drv_clk_get_ahbs_clk io) (drv_clk_get_pll_peri_1x io) 0x1F val h)"

definition drv_clk_get_apb1_clk :: "'h mmio \<Rightarrow> 'h \<Rightarrow> u32 \<times> 'h" where
  "drv_clk_get_apb1_clk io h =
     (case read32 io (CCU_BASE_ADDR + REG_CCU_APB1_CLK) h of (val, h) \<Rightarrow>
        bus_clk (drv_clk_get_ahbs_clk io) (drv_clk_get_pll_peri_1x io) 0x1F val h)"

section \<open>Setting the clocks up\<close>

definition init_pll_cpu :: "'h mmio \<Rightarrow> u32 \<Rightarrow> 'h \<Rightarrow> 'h option" where
  "init_pll_cpu io freq h =
     (let ctrl = CCU_BASE_ADDR + REG_CCU_PLL_CPU_CTRL;
          cfg = CCU_BASE_ADDR + REG_CCU_CPU_AXI_CFG;
          h = write32 io cfg (push_bit 24 4 OR bit_of 0) h;
          h = update32 io ctrl (clear_bits (bit_of 27)) h;
          h = update32 io ctrl (set_bits (bit_of 30)) h;
          h = update32 io ctrl (\<lambda>val. clear_bits (push_bit 8 0xFF) val
                 OR push_bit 8 (freq div 24000000 - 1)) h;
          h = update32 io ctrl (clear_bits (bit_of 29)) h;
          h = update32 io ctrl (set_bits (bit_of 29)) h
      in do {
        h \<leftarrow> poll32 io ctrl (\<lambda>val. val AND bit_of 28 = 0) h;
        let h = update32 io ctrl (set_bits (bit_of 27)) h;
        let h = update32 io ctrl (clear_bits (bit_of 29)) h;
        Some (update32 io cfg (\<lambda>val. clear_bits (push_bit 24 7 OR push_bit 16 3 OR push_bit 8 3 OR 0xF) val
                 OR (push_bit 24 3 OR push_bit 16 0 OR push_bit 8 1 OR 1)) h)
      })"

definition init_pll_peri :: "'h mmio \<Rightarrow> 'h \<Rightarrow> 'h option" where
  "init_pll_peri io h =
     (let ctrl = CCU_BASE_ADDR + REG_CCU_PLL_PERI_CTRL in
      case read32 io ctrl h of (val, h) \<Rightarrow>
        if val AND bit_of 31 \<noteq> 0 then Some h
        else
          let h = write32 io ctrl (push_bit 8 0x63) h;
              h = update32 io ctrl (set_bits (bit_of 29)) h;
              h = update32 io ctrl (set_bits (bit_of 31)) h
          in do {
            h \<leftarrow> poll32 io ctrl (\<lambda>val. val AND bit_of 28 = 0) h;
            Some (update32 io ctrl (clear_bits (bit_of 29)) h)
          })"

text \<open>The divider of a bus clock; a division by zero has no defined result.\<close>

definition init_bus_clk :: "'h mmio \<Rightarrow> u32 \<Rightarrow> u32 \<Rightarrow> u32 \<Rightarrow> 'h \<Rightarrow> 'h option" where
  "init_bus_clk io addr mmax freq h =
     (case read32 io addr h of (val, h) \<Rightarrow>
        let val = clear_bits (push_bit 24 3 OR push_bit 8 3 OR 3) val;
            val = val OR push_bit 24 3;
            val = val OR push_bit 8 0
        in if freq = 0 then None
           else case drv_clk_get_pll_peri_1x io h of (sclk, h) \<Rightarrow>
             let m = sclk div freq;
                 m = (if m - 1 > mmax then mmax else m)
             in Some (write32 io addr (val OR (m - 1)) h))"

definition init_ahb_clk :: "'h mmio \<Rightarrow> u32 \<Rightarrow> 'h \<Rightarrow> 'h option" where
  "init_ahb_clk io freq h = init_bus_clk io (CCU_BASE_ADDR + REG_CCU_PSI_CLK) 3 freq h"

definition init_apb0_clk :: "'h mmio \<Rightarrow> u32 \<Rightarrow> 'h \<Rightarrow> 'h option" where
  "init_apb0_clk io freq h = init_bus_clk io (CCU_BASE_ADDR + REG_CCU_APB0_CLK) 0xFE freq h"

definition init_apb1_clk :: "'h mmio \<Rightarrow> u32 \<Rightarrow> 'h \<Rightarrow> 'h option" where
  "init_apb1_clk io freq h = init_bus_clk io (CCU_BASE_ADDR + REG_CCU_APB1_CLK) 0xFE freq h"

definition drv_clk_init :: "'h mmio \<Rightarrow> 'h \<Rightarrow> 'h option" where
  "drv_clk_init io h = do {
     h \<leftarrow> init_pll_cpu io 1200000000 h;
     h \<leftarrow> init_pll_peri io h;
     h \<leftarrow> init_ahb_clk io 200000000 h;
     h \<leftarrow> init_apb0_clk io 200000000 h;
     init_apb1_clk io 24000000 h
   }"

end
