(* ===== verification/Clk_Facts.thy ===== *)
theory Clk_Facts
  imports Clk
begin

text \<open>
  What the clock set-up leaves behind, for the two states the boot loader may find the peripheral
  PLL in.
\<close>

section \<open>The clock control unit\<close>




section \<open>Bit fields\<close>





section \<open>Registers of the unit\<close>

abbreviation "R_CPU \<equiv> CCU_BASE_ADDR + REG_CCU_PLL_CPU_CTRL"
abbreviation "R_PERI \<equiv> CCU_BASE_ADDR + REG_CCU_PLL_PERI_CTRL"
abbreviation "R_AXI \<equiv> CCU_BASE_ADDR + REG_CCU_CPU_AXI_CFG"
abbreviation "R_PSI \<equiv> CCU_BASE_ADDR + REG_CCU_PSI_CLK"
abbreviation "R_APB0 \<equiv> CCU_BASE_ADDR + REG_CCU_APB0_CLK"
abbreviation "R_APB1 \<equiv> CCU_BASE_ADDR + REG_CCU_APB1_CLK"








section \<open>What the getters report\<close>








section \<open>What the set-up writes\<close>

lemma reg_distinct [simp]:
  "REG_CCU_PLL_CPU_CTRL \<noteq> REG_CCU_PLL_PERI_CTRL" "REG_CCU_PLL_CPU_CTRL \<noteq> REG_CCU_CPU_AXI_CFG" "REG_CCU_PLL_CPU_CTRL \<noteq> REG_CCU_PSI_CLK" "REG_CCU_PLL_CPU_CTRL \<noteq> REG_CCU_APB0_CLK" "REG_CCU_PLL_CPU_CTRL \<noteq> REG_CCU_APB1_CLK"
  "REG_CCU_PLL_PERI_CTRL \<noteq> REG_CCU_PLL_CPU_CTRL" "REG_CCU_PLL_PERI_CTRL \<noteq> REG_CCU_CPU_AXI_CFG" "REG_CCU_PLL_PERI_CTRL \<noteq> REG_CCU_PSI_CLK" "REG_CCU_PLL_PERI_CTRL \<noteq> REG_CCU_APB0_CLK" "REG_CCU_PLL_PERI_CTRL \<noteq> REG_CCU_APB1_CLK"
  "REG_CCU_CPU_AXI_CFG \<noteq> REG_CCU_PLL_CPU_CTRL" "REG_CCU_CPU_AXI_CFG \<noteq> REG_CCU_PLL_PERI_CTRL" "REG_CCU_CPU_AXI_CFG \<noteq> REG_CCU_PSI_CLK" "REG_CCU_CPU_AXI_CFG \<noteq> REG_CCU_APB0_CLK" "REG_CCU_CPU_AXI_CFG \<noteq> REG_CCU_APB1_CLK"
  "REG_CCU_PSI_CLK \<noteq> REG_CCU_PLL_CPU_CTRL" "REG_CCU_PSI_CLK \<noteq> REG_CCU_PLL_PERI_CTRL" "REG_CCU_PSI_CLK \<noteq> REG_CCU_CPU_AXI_CFG" "REG_CCU_PSI_CLK \<noteq> REG_CCU_APB0_CLK" "REG_CCU_PSI_CLK \<noteq> REG_CCU_APB1_CLK"
  "REG_CCU_APB0_CLK \<noteq> REG_CCU_PLL_CPU_CTRL" "REG_CCU_APB0_CLK \<noteq> REG_CCU_PLL_PERI_CTRL" "REG_CCU_APB0_CLK \<noteq> REG_CCU_CPU_AXI_CFG" "REG_CCU_APB0_CLK \<noteq> REG_CCU_PSI_CLK" "REG_CCU_APB0_CLK \<noteq> REG_CCU_APB1_CLK"
  "REG_CCU_APB1_CLK \<noteq> REG_CCU_PLL_CPU_CTRL" "REG_CCU_APB1_CLK \<noteq> REG_CCU_PLL_PERI_CTRL" "REG_CCU_APB1_CLK \<noteq> REG_CCU_CPU_AXI_CFG" "REG_CCU_APB1_CLK \<noteq> REG_CCU_PSI_CLK" "REG_CCU_APB1_CLK \<noteq> REG_CCU_APB0_CLK"
  by (simp_all add: ccu_consts)













end
