(* ===== verification/Gic.thy ===== *)
theory Gic
  imports Mmio
begin

text \<open>
  The interrupt controller of \<^verbatim>\<open>libcpu/gic.c\<close>, the table of handlers of \<^verbatim>\<open>libcpu/interrupt.c\<close> and the
  dispatcher \<^verbatim>\<open>trap_irq\<close> of \<^verbatim>\<open>libcpu/trap.c\<close>.  Interrupt numbers are 32-bit words: the code mixes
  \<^verbatim>\<open>int\<close> and \<^verbatim>\<open>unsigned int\<close>, which only differ in the comparison of \<^verbatim>\<open>interrupt_install\<close>.

  An access outside \<^verbatim>\<open>_gic_table\<close> or \<^verbatim>\<open>isr_table\<close> is \<^term>\<open>None\<close>.
\<close>

section \<open>State and registers\<close>

definition MAX_HANDLERS :: nat where "MAX_HANDLERS = 223"
definition GIC_ACK_INTID_MASK :: u32 where "GIC_ACK_INTID_MASK = 0x3FF"
definition GIC_IRQ_START :: u32 where "GIC_IRQ_START = 0"
definition ARM_GIC_NR_IRQS :: u32 where "ARM_GIC_NR_IRQS = of_nat MAX_HANDLERS"
definition ARM_GIC_MAX_NR :: nat where "ARM_GIC_MAX_NR = 1"

record arm_gic =
  gic_offset :: u32
  dist_hw_base :: u32
  cpu_hw_base :: u32

record gic_state =
  gic_table :: "arm_gic list"
  gic_max_irq :: u32

definition gic_init_state :: gic_state where
  "gic_init_state = \<lparr>gic_table = replicate ARM_GIC_MAX_NR \<lparr>gic_offset = 0, dist_hw_base = 0, cpu_hw_base = 0\<rparr>,
     gic_max_irq = 0\<rparr>"

definition gic_at :: "gic_state \<Rightarrow> nat \<Rightarrow> arm_gic option" where
  "gic_at G index = (if index < length (gic_table G) then Some (gic_table G ! index) else None)"

definition GIC_CPU_CTRL :: "u32 \<Rightarrow> u32" where "GIC_CPU_CTRL hw = hw + 0x00"
definition GIC_CPU_PRIMASK :: "u32 \<Rightarrow> u32" where "GIC_CPU_PRIMASK hw = hw + 0x04"
definition GIC_CPU_BINPOINT :: "u32 \<Rightarrow> u32" where "GIC_CPU_BINPOINT hw = hw + 0x08"
definition GIC_CPU_INTACK :: "u32 \<Rightarrow> u32" where "GIC_CPU_INTACK hw = hw + 0x0C"
definition GIC_CPU_EOI :: "u32 \<Rightarrow> u32" where "GIC_CPU_EOI hw = hw + 0x10"
definition GIC_CPU_HIGHPRI :: "u32 \<Rightarrow> u32" where "GIC_CPU_HIGHPRI hw = hw + 0x18"
definition GIC_CPU_IIDR :: "u32 \<Rightarrow> u32" where "GIC_CPU_IIDR hw = hw + 0xFC"

definition GIC_DIST_CTRL :: "u32 \<Rightarrow> u32" where "GIC_DIST_CTRL hw = hw + 0x000"
definition GIC_DIST_TYPE :: "u32 \<Rightarrow> u32" where "GIC_DIST_TYPE hw = hw + 0x004"
definition GIC_DIST_IGROUP :: "u32 \<Rightarrow> u32 \<Rightarrow> u32" where "GIC_DIST_IGROUP hw n = hw + 0x080 + (n div 32) * 4"
definition GIC_DIST_ENABLE_SET :: "u32 \<Rightarrow> u32 \<Rightarrow> u32" where "GIC_DIST_ENABLE_SET hw n = hw + 0x100 + (n div 32) * 4"
definition GIC_DIST_ENABLE_CLEAR :: "u32 \<Rightarrow> u32 \<Rightarrow> u32" where "GIC_DIST_ENABLE_CLEAR hw n = hw + 0x180 + (n div 32) * 4"
definition GIC_DIST_PENDING_SET :: "u32 \<Rightarrow> u32 \<Rightarrow> u32" where "GIC_DIST_PENDING_SET hw n = hw + 0x200 + (n div 32) * 4"
definition GIC_DIST_PENDING_CLEAR :: "u32 \<Rightarrow> u32 \<Rightarrow> u32" where "GIC_DIST_PENDING_CLEAR hw n = hw + 0x280 + (n div 32) * 4"
definition GIC_DIST_ACTIVE_SET :: "u32 \<Rightarrow> u32 \<Rightarrow> u32" where "GIC_DIST_ACTIVE_SET hw n = hw + 0x300 + (n div 32) * 4"
definition GIC_DIST_ACTIVE_CLEAR :: "u32 \<Rightarrow> u32 \<Rightarrow> u32" where "GIC_DIST_ACTIVE_CLEAR hw n = hw + 0x380 + (n div 32) * 4"
definition GIC_DIST_PRI :: "u32 \<Rightarrow> u32 \<Rightarrow> u32" where "GIC_DIST_PRI hw n = hw + 0x400 + (n div 4) * 4"
definition GIC_DIST_TARGET :: "u32 \<Rightarrow> u32 \<Rightarrow> u32" where "GIC_DIST_TARGET hw n = hw + 0x800 + (n div 4) * 4"
definition GIC_DIST_CONFIG :: "u32 \<Rightarrow> u32 \<Rightarrow> u32" where "GIC_DIST_CONFIG hw n = hw + 0xC00 + (n div 16) * 4"
definition GIC_DIST_SOFTINT :: "u32 \<Rightarrow> u32" where "GIC_DIST_SOFTINT hw = hw + 0xF00"
definition GIC_DIST_CPENDSGI :: "u32 \<Rightarrow> u32 \<Rightarrow> u32" where "GIC_DIST_CPENDSGI hw n = hw + 0xF10 + (n div 4) * 4"
definition GIC_DIST_SPENDSGI :: "u32 \<Rightarrow> u32 \<Rightarrow> u32" where "GIC_DIST_SPENDSGI hw n = hw + 0xF20 + (n div 4) * 4"

lemmas gic_regs = GIC_CPU_CTRL_def GIC_CPU_PRIMASK_def GIC_CPU_BINPOINT_def GIC_CPU_INTACK_def
  GIC_CPU_EOI_def GIC_CPU_HIGHPRI_def GIC_CPU_IIDR_def GIC_DIST_CTRL_def GIC_DIST_TYPE_def
  GIC_DIST_IGROUP_def GIC_DIST_ENABLE_SET_def GIC_DIST_ENABLE_CLEAR_def GIC_DIST_PENDING_SET_def
  GIC_DIST_PENDING_CLEAR_def GIC_DIST_ACTIVE_SET_def GIC_DIST_ACTIVE_CLEAR_def GIC_DIST_PRI_def
  GIC_DIST_TARGET_def GIC_DIST_CONFIG_def GIC_DIST_SOFTINT_def GIC_DIST_CPENDSGI_def GIC_DIST_SPENDSGI_def

definition irq_bit :: "u32 \<Rightarrow> u32" where
  "irq_bit irq = push_bit (unat (irq mod 32)) 1"

definition byte_shift :: "u32 \<Rightarrow> nat" where
  "byte_shift irq = unat ((irq mod 4) * 8)"

section \<open>The controller\<close>

definition arm_gic_get_active_irq :: "'h mmio \<Rightarrow> gic_state \<Rightarrow> nat \<Rightarrow> 'h \<Rightarrow> (u32 \<times> 'h) option" where
  "arm_gic_get_active_irq io G index h = do {
     g \<leftarrow> gic_at G index;
     (case read32 io (GIC_CPU_INTACK (cpu_hw_base g)) h of (irq, h) \<Rightarrow> Some (irq + gic_offset g, h))
   }"

definition arm_gic_ack :: "'h mmio \<Rightarrow> gic_state \<Rightarrow> nat \<Rightarrow> u32 \<Rightarrow> 'h \<Rightarrow> 'h option" where
  "arm_gic_ack io G index irq h = do {
     g \<leftarrow> gic_at G index;
     let mask = irq_bit irq;
     let irq = irq - gic_offset g;
     let h = write32 io (GIC_DIST_PENDING_CLEAR (dist_hw_base g) irq) mask h;
     Some (write32 io (GIC_CPU_EOI (cpu_hw_base g)) irq h)
   }"

definition arm_gic_mask :: "'h mmio \<Rightarrow> gic_state \<Rightarrow> nat \<Rightarrow> u32 \<Rightarrow> 'h \<Rightarrow> 'h option" where
  "arm_gic_mask io G index irq h = do {
     g \<leftarrow> gic_at G index;
     Some (write32 io (GIC_DIST_ENABLE_CLEAR (dist_hw_base g) (irq - gic_offset g)) (irq_bit irq) h)
   }"

definition arm_gic_umask :: "'h mmio \<Rightarrow> gic_state \<Rightarrow> nat \<Rightarrow> u32 \<Rightarrow> 'h \<Rightarrow> 'h option" where
  "arm_gic_umask io G index irq h = do {
     g \<leftarrow> gic_at G index;
     Some (write32 io (GIC_DIST_ENABLE_SET (dist_hw_base g) (irq - gic_offset g)) (irq_bit irq) h)
   }"

definition arm_gic_get_pending_irq :: "'h mmio \<Rightarrow> gic_state \<Rightarrow> nat \<Rightarrow> u32 \<Rightarrow> 'h \<Rightarrow> (u32 \<times> 'h) option" where
  "arm_gic_get_pending_irq io G index irq h = do {
     g \<leftarrow> gic_at G index;
     let irq = irq - gic_offset g;
     Some (if irq \<ge> 16
       then (case read32 io (GIC_DIST_PENDING_SET (dist_hw_base g) irq) h of (val, h) \<Rightarrow>
         (drop_bit (unat (irq mod 32)) val AND 1, h))
       else (case read32 io (GIC_DIST_SPENDSGI (dist_hw_base g) irq) h of (val, h) \<Rightarrow>
         (if drop_bit (byte_shift irq) val AND 0xFF \<noteq> 0 then 1 else 0, h)))
   }"

definition arm_gic_set_pending_irq :: "'h mmio \<Rightarrow> gic_state \<Rightarrow> nat \<Rightarrow> u32 \<Rightarrow> 'h \<Rightarrow> 'h option" where
  "arm_gic_set_pending_irq io G index irq h = do {
     g \<leftarrow> gic_at G index;
     let irq = irq - gic_offset g;
     Some (if irq \<ge> 16
       then write32 io (GIC_DIST_PENDING_SET (dist_hw_base g) irq) (irq_bit irq) h
       else write32 io (GIC_DIST_SOFTINT (dist_hw_base g)) (irq OR 0x02000000) h)
   }"

definition arm_gic_clear_pending_irq :: "'h mmio \<Rightarrow> gic_state \<Rightarrow> nat \<Rightarrow> u32 \<Rightarrow> 'h \<Rightarrow> 'h option" where
  "arm_gic_clear_pending_irq io G index irq h = do {
     g \<leftarrow> gic_at G index;
     let irq = irq - gic_offset g;
     Some (if irq \<ge> 16
       then write32 io (GIC_DIST_PENDING_CLEAR (dist_hw_base g) irq) (irq_bit irq) h
       else write32 io (GIC_DIST_CPENDSGI (dist_hw_base g) irq) (push_bit (byte_shift irq) 1) h)
   }"

definition arm_gic_set_configuration :: "'h mmio \<Rightarrow> gic_state \<Rightarrow> nat \<Rightarrow> u32 \<Rightarrow> u32 \<Rightarrow> 'h \<Rightarrow> 'h option" where
  "arm_gic_set_configuration io G index irq config h = do {
     g \<leftarrow> gic_at G index;
     let irq = irq - gic_offset g;
     (case read32 io (GIC_DIST_CONFIG (dist_hw_base g) irq) h of (icfgr, h) \<Rightarrow>
        let shift = unat (push_bit 1 (irq mod 16));
            icfgr = icfgr AND NOT (push_bit shift 3);
            icfgr = icfgr OR push_bit shift config
        in Some (write32 io (GIC_DIST_CONFIG (dist_hw_base g) irq) icfgr h))
   }"

text \<open>The shift goes the wrong way, and the field is not masked.\<close>

definition arm_gic_get_configuration :: "'h mmio \<Rightarrow> gic_state \<Rightarrow> nat \<Rightarrow> u32 \<Rightarrow> 'h \<Rightarrow> (u32 \<times> 'h) option" where
  "arm_gic_get_configuration io G index irq h = do {
     g \<leftarrow> gic_at G index;
     let irq = irq - gic_offset g;
     (case read32 io (GIC_DIST_CONFIG (dist_hw_base g) irq) h of (icfgr, h) \<Rightarrow>
        Some (drop_bit (unat (drop_bit 1 (irq mod 16))) icfgr, h))
   }"

definition arm_gic_clear_active :: "'h mmio \<Rightarrow> gic_state \<Rightarrow> nat \<Rightarrow> u32 \<Rightarrow> 'h \<Rightarrow> 'h option" where
  "arm_gic_clear_active io G index irq h = do {
     g \<leftarrow> gic_at G index;
     Some (write32 io (GIC_DIST_ACTIVE_CLEAR (dist_hw_base g) (irq - gic_offset g)) (irq_bit irq) h)
   }"

definition arm_gic_set_cpu :: "'h mmio \<Rightarrow> gic_state \<Rightarrow> nat \<Rightarrow> u32 \<Rightarrow> u32 \<Rightarrow> 'h \<Rightarrow> 'h option" where
  "arm_gic_set_cpu io G index irq cpumask h = do {
     g \<leftarrow> gic_at G index;
     let irq = irq - gic_offset g;
     Some (update32 io (GIC_DIST_TARGET (dist_hw_base g) irq)
       (\<lambda>old. (old AND NOT (push_bit (byte_shift irq) 0xFF)) OR push_bit (byte_shift irq) cpumask) h)
   }"

definition arm_gic_get_target_cpu :: "'h mmio \<Rightarrow> gic_state \<Rightarrow> nat \<Rightarrow> u32 \<Rightarrow> 'h \<Rightarrow> (u32 \<times> 'h) option" where
  "arm_gic_get_target_cpu io G index irq h = do {
     g \<leftarrow> gic_at G index;
     let irq = irq - gic_offset g;
     (case read32 io (GIC_DIST_TARGET (dist_hw_base g) irq) h of (val, h) \<Rightarrow>
        Some (drop_bit (byte_shift irq) val AND 0xFF, h))
   }"

definition arm_gic_set_priority :: "'h mmio \<Rightarrow> gic_state \<Rightarrow> nat \<Rightarrow> u32 \<Rightarrow> u32 \<Rightarrow> 'h \<Rightarrow> 'h option" where
  "arm_gic_set_priority io G index irq priority h = do {
     g \<leftarrow> gic_at G index;
     let irq = irq - gic_offset g;
     Some (update32 io (GIC_DIST_PRI (dist_hw_base g) irq)
       (\<lambda>mask. (mask AND NOT (push_bit (byte_shift irq) 0xFF))
          OR push_bit (byte_shift irq) (priority AND 0xFF)) h)
   }"

definition arm_gic_get_priority :: "'h mmio \<Rightarrow> gic_state \<Rightarrow> nat \<Rightarrow> u32 \<Rightarrow> 'h \<Rightarrow> (u32 \<times> 'h) option" where
  "arm_gic_get_priority io G index irq h = do {
     g \<leftarrow> gic_at G index;
     let irq = irq - gic_offset g;
     (case read32 io (GIC_DIST_PRI (dist_hw_base g) irq) h of (val, h) \<Rightarrow>
        Some (drop_bit (byte_shift irq) val AND 0xFF, h))
   }"

definition arm_gic_set_interface_prior_mask :: "'h mmio \<Rightarrow> gic_state \<Rightarrow> nat \<Rightarrow> u32 \<Rightarrow> 'h \<Rightarrow> 'h option" where
  "arm_gic_set_interface_prior_mask io G index priority h = do {
     g \<leftarrow> gic_at G index;
     Some (write32 io (GIC_CPU_PRIMASK (cpu_hw_base g)) (priority AND 0xFF) h)
   }"

definition arm_gic_get_interface_prior_mask :: "'h mmio \<Rightarrow> gic_state \<Rightarrow> nat \<Rightarrow> 'h \<Rightarrow> (u32 \<times> 'h) option" where
  "arm_gic_get_interface_prior_mask io G index h = do {
     g \<leftarrow> gic_at G index;
     Some (read32 io (GIC_CPU_PRIMASK (cpu_hw_base g)) h)
   }"

definition arm_gic_set_binary_point :: "'h mmio \<Rightarrow> gic_state \<Rightarrow> nat \<Rightarrow> u32 \<Rightarrow> 'h \<Rightarrow> 'h option" where
  "arm_gic_set_binary_point io G index binary_point h = do {
     g \<leftarrow> gic_at G index;
     Some (write32 io (GIC_CPU_BINPOINT (cpu_hw_base g)) (binary_point AND 7) h)
   }"

definition arm_gic_get_binary_point :: "'h mmio \<Rightarrow> gic_state \<Rightarrow> nat \<Rightarrow> 'h \<Rightarrow> (u32 \<times> 'h) option" where
  "arm_gic_get_binary_point io G index h = do {
     g \<leftarrow> gic_at G index;
     Some (read32 io (GIC_CPU_BINPOINT (cpu_hw_base g)) h)
   }"

definition arm_gic_get_irq_status :: "'h mmio \<Rightarrow> gic_state \<Rightarrow> nat \<Rightarrow> u32 \<Rightarrow> 'h \<Rightarrow> (u32 \<times> 'h) option" where
  "arm_gic_get_irq_status io G index irq h = do {
     g \<leftarrow> gic_at G index;
     let irq = irq - gic_offset g;
     (case read32 io (GIC_DIST_ACTIVE_SET (dist_hw_base g) irq) h of (va, h) \<Rightarrow>
      case read32 io (GIC_DIST_PENDING_SET (dist_hw_base g) irq) h of (vp, h) \<Rightarrow>
        let active = drop_bit (unat (irq mod 32)) va AND 1;
            pending = drop_bit (unat (irq mod 32)) vp AND 1
        in Some (push_bit 1 active OR pending, h))
   }"

definition arm_gic_send_sgi :: "'h mmio \<Rightarrow> gic_state \<Rightarrow> nat \<Rightarrow> u32 \<Rightarrow> u32 \<Rightarrow> u32 \<Rightarrow> 'h \<Rightarrow> 'h option" where
  "arm_gic_send_sgi io G index irq target_list filter_list h = do {
     g \<leftarrow> gic_at G index;
     let irq = irq - gic_offset g;
     Some (write32 io (GIC_DIST_SOFTINT (dist_hw_base g))
       (push_bit 24 (filter_list AND 3) OR push_bit 16 (target_list AND 0xFF) OR (irq AND 0xF)) h)
   }"

definition arm_gic_get_high_pending_irq :: "'h mmio \<Rightarrow> gic_state \<Rightarrow> nat \<Rightarrow> 'h \<Rightarrow> (u32 \<times> 'h) option" where
  "arm_gic_get_high_pending_irq io G index h = do {
     g \<leftarrow> gic_at G index;
     Some (read32 io (GIC_CPU_HIGHPRI (cpu_hw_base g)) h)
   }"

definition arm_gic_get_interface_id :: "'h mmio \<Rightarrow> gic_state \<Rightarrow> nat \<Rightarrow> 'h \<Rightarrow> (u32 \<times> 'h) option" where
  "arm_gic_get_interface_id io G index h = do {
     g \<leftarrow> gic_at G index;
     Some (read32 io (GIC_CPU_IIDR (cpu_hw_base g)) h)
   }"

definition arm_gic_set_group :: "'h mmio \<Rightarrow> gic_state \<Rightarrow> nat \<Rightarrow> u32 \<Rightarrow> u32 \<Rightarrow> 'h \<Rightarrow> 'h option" where
  "arm_gic_set_group io G index irq grp h = do {
     g \<leftarrow> gic_at G index;
     let irq = irq - gic_offset g;
     let shift = unat (irq mod 32);
     Some (update32 io (GIC_DIST_IGROUP (dist_hw_base g) irq)
       (\<lambda>igroupr. (igroupr AND NOT (push_bit shift 1)) OR push_bit shift (grp AND 1)) h)
   }"

definition arm_gic_get_group :: "'h mmio \<Rightarrow> gic_state \<Rightarrow> nat \<Rightarrow> u32 \<Rightarrow> 'h \<Rightarrow> (u32 \<times> 'h) option" where
  "arm_gic_get_group io G index irq h = do {
     g \<leftarrow> gic_at G index;
     let irq = irq - gic_offset g;
     (case read32 io (GIC_DIST_IGROUP (dist_hw_base g) irq) h of (val, h) \<Rightarrow>
        Some (drop_bit (unat (irq mod 32)) val AND 1, h))
   }"

text \<open>A loop \<^verbatim>\<open>for (i = from; i < max; i += step) REG(i) = val\<close>; \<open>max\<close> is at most 1020.\<close>

function fill_regs :: "'h mmio \<Rightarrow> (u32 \<Rightarrow> u32) \<Rightarrow> u32 \<Rightarrow> nat \<Rightarrow> nat \<Rightarrow> nat \<Rightarrow> 'h \<Rightarrow> 'h" where
  "fill_regs io reg val i bound step h =
     (if i < bound \<and> 0 < step then fill_regs io reg val (i + step) bound step (write32 io (reg (of_nat i)) val h)
      else h)"
  by pat_completeness auto
termination
  by (relation "measure (\<lambda>(io, reg, val, i, bound, step, h). bound - i)") auto

declare fill_regs.simps [simp del]

definition gic_limit :: "u32 \<Rightarrow> u32" where
  "gic_limit gic_type =
     (let n = ((gic_type AND 0x1F) + 1) * 32;
          n = (if n > 1020 then 1020 else n)
      in if n > ARM_GIC_NR_IRQS then ARM_GIC_NR_IRQS else n)"

definition arm_gic_dist_init ::
  "'h mmio \<Rightarrow> gic_state \<Rightarrow> nat \<Rightarrow> u32 \<Rightarrow> u32 \<Rightarrow> 'h \<Rightarrow> (int \<times> gic_state \<times> 'h) option" where
  "arm_gic_dist_init io G index dist_base irq_start h = do {
     g \<leftarrow> gic_at G index;
     let G = G\<lparr>gic_table := (gic_table G)[index := g\<lparr>dist_hw_base := dist_base, gic_offset := irq_start\<rparr>]\<rparr>;
     (case read32 io (GIC_DIST_TYPE dist_base) h of (gic_type, h) \<Rightarrow>
        let G = G\<lparr>gic_max_irq := gic_limit gic_type\<rparr>;
            bound = unat (gic_max_irq G);
            cpumask = 1;
            cpumask = cpumask OR push_bit 8 cpumask;
            cpumask = cpumask OR push_bit 16 cpumask;
            cpumask = cpumask OR push_bit 24 cpumask;
            h = write32 io (GIC_DIST_CTRL dist_base) 0 h;
            h = fill_regs io (GIC_DIST_CONFIG dist_base) 0 32 bound 16 h;
            h = fill_regs io (GIC_DIST_TARGET dist_base) cpumask 32 bound 4 h;
            h = fill_regs io (GIC_DIST_PRI dist_base) 0xA0A0A0A0 0 bound 4 h;
            h = fill_regs io (GIC_DIST_ENABLE_CLEAR dist_base) 0xFFFFFFFF 0 bound 32 h;
            h = fill_regs io (GIC_DIST_IGROUP dist_base) 0 0 bound 32 h
        in Some (0, G, write32 io (GIC_DIST_CTRL dist_base) 1 h))
   }"

definition arm_gic_cpu_init ::
  "'h mmio \<Rightarrow> gic_state \<Rightarrow> nat \<Rightarrow> u32 \<Rightarrow> 'h \<Rightarrow> (int \<times> gic_state \<times> 'h) option" where
  "arm_gic_cpu_init io G index cpu_base h = do {
     g \<leftarrow> gic_at G index;
     let G = G\<lparr>gic_table := (gic_table G)[index := g\<lparr>cpu_hw_base := cpu_base\<rparr>]\<rparr>;
     let h = write32 io (GIC_CPU_PRIMASK cpu_base) 0xF0 h;
     let h = write32 io (GIC_CPU_BINPOINT cpu_base) 7 h;
     Some (0, G, write32 io (GIC_CPU_CTRL cpu_base) 1 h)
   }"

section \<open>Interrupts\<close>

text \<open>
  A handler is a value of the type \<open>'f\<close> of function pointers, its parameter one of \<open>'p\<close>;
  \<^term>\<open>None\<close> is the null pointer.
\<close>

record ('f, 'p) irq_desc =
  isr_handler :: "'f option"
  isr_param :: "'p option"

definition isr_table_init :: "('f, 'p) irq_desc list" where
  "isr_table_init = replicate MAX_HANDLERS \<lparr>isr_handler = None, isr_param = None\<rparr>"

definition interrupt_init :: "'h mmio \<Rightarrow> gic_state \<Rightarrow> 'h \<Rightarrow> (gic_state \<times> 'h) option" where
  "interrupt_init io G h = do {
     (_, G, h) \<leftarrow> arm_gic_dist_init io G 0 0x03021000 GIC_IRQ_START h;
     (_, G, h) \<leftarrow> arm_gic_cpu_init io G 0 0x03022000 h;
     Some (G, h)
   }"

definition interrupt_mask :: "'h mmio \<Rightarrow> gic_state \<Rightarrow> u32 \<Rightarrow> 'h \<Rightarrow> 'h option" where
  "interrupt_mask io G vector h = arm_gic_mask io G 0 vector h"

definition interrupt_umask :: "'h mmio \<Rightarrow> gic_state \<Rightarrow> u32 \<Rightarrow> 'h \<Rightarrow> 'h option" where
  "interrupt_umask io G vector h = arm_gic_umask io G 0 vector h"

definition interrupt_get_irq :: "'h mmio \<Rightarrow> gic_state \<Rightarrow> 'h \<Rightarrow> (u32 \<times> 'h) option" where
  "interrupt_get_irq io G h = arm_gic_get_active_irq io G 0 h"

definition interrupt_ack :: "'h mmio \<Rightarrow> gic_state \<Rightarrow> u32 \<Rightarrow> 'h \<Rightarrow> 'h option" where
  "interrupt_ack io G vector h = arm_gic_ack io G 0 vector h"

definition interrupt_set_target_cpus :: "'h mmio \<Rightarrow> gic_state \<Rightarrow> u32 \<Rightarrow> u32 \<Rightarrow> 'h \<Rightarrow> 'h option" where
  "interrupt_set_target_cpus io G vector cpu_mask h = arm_gic_set_cpu io G 0 vector cpu_mask h"

definition interrupt_get_target_cpus :: "'h mmio \<Rightarrow> gic_state \<Rightarrow> u32 \<Rightarrow> 'h \<Rightarrow> (u32 \<times> 'h) option" where
  "interrupt_get_target_cpus io G vector h = arm_gic_get_target_cpu io G 0 vector h"

definition interrupt_set_triger_mode :: "'h mmio \<Rightarrow> gic_state \<Rightarrow> u32 \<Rightarrow> u32 \<Rightarrow> 'h \<Rightarrow> 'h option" where
  "interrupt_set_triger_mode io G vector mode h = arm_gic_set_configuration io G 0 vector mode h"

definition interrupt_get_triger_mode :: "'h mmio \<Rightarrow> gic_state \<Rightarrow> u32 \<Rightarrow> 'h \<Rightarrow> (u32 \<times> 'h) option" where
  "interrupt_get_triger_mode io G vector h = arm_gic_get_configuration io G 0 vector h"

definition interrupt_set_pending :: "'h mmio \<Rightarrow> gic_state \<Rightarrow> u32 \<Rightarrow> 'h \<Rightarrow> 'h option" where
  "interrupt_set_pending io G vector h = arm_gic_set_pending_irq io G 0 vector h"

definition interrupt_get_pending :: "'h mmio \<Rightarrow> gic_state \<Rightarrow> u32 \<Rightarrow> 'h \<Rightarrow> (u32 \<times> 'h) option" where
  "interrupt_get_pending io G vector h = arm_gic_get_pending_irq io G 0 vector h"

definition interrupt_clear_pending :: "'h mmio \<Rightarrow> gic_state \<Rightarrow> u32 \<Rightarrow> 'h \<Rightarrow> 'h option" where
  "interrupt_clear_pending io G vector h = arm_gic_clear_pending_irq io G 0 vector h"

definition interrupt_set_priority :: "'h mmio \<Rightarrow> gic_state \<Rightarrow> u32 \<Rightarrow> u32 \<Rightarrow> 'h \<Rightarrow> 'h option" where
  "interrupt_set_priority io G vector priority h = arm_gic_set_priority io G 0 vector priority h"

definition interrupt_get_priority :: "'h mmio \<Rightarrow> gic_state \<Rightarrow> u32 \<Rightarrow> 'h \<Rightarrow> (u32 \<times> 'h) option" where
  "interrupt_get_priority io G vector h = arm_gic_get_priority io G 0 vector h"

definition interrupt_set_priority_mask :: "'h mmio \<Rightarrow> gic_state \<Rightarrow> u32 \<Rightarrow> 'h \<Rightarrow> 'h option" where
  "interrupt_set_priority_mask io G priority h = arm_gic_set_interface_prior_mask io G 0 priority h"

definition interrupt_get_priority_mask :: "'h mmio \<Rightarrow> gic_state \<Rightarrow> 'h \<Rightarrow> (u32 \<times> 'h) option" where
  "interrupt_get_priority_mask io G h = arm_gic_get_interface_prior_mask io G 0 h"

definition interrupt_set_prior_group_bits :: "'h mmio \<Rightarrow> gic_state \<Rightarrow> u32 \<Rightarrow> 'h \<Rightarrow> (int \<times> 'h) option" where
  "interrupt_set_prior_group_bits io G bits h =
     (if bits < 8 then map_option (\<lambda>h. (0, h)) (arm_gic_set_binary_point io G 0 (7 - bits) h)
      else Some (-1, h))"

definition interrupt_get_prior_group_bits :: "'h mmio \<Rightarrow> gic_state \<Rightarrow> 'h \<Rightarrow> (u32 \<times> 'h) option" where
  "interrupt_get_prior_group_bits io G h = do {
     (bp, h) \<leftarrow> arm_gic_get_binary_point io G 0 h;
     Some (7 - (bp AND 7), h)
   }"

text \<open>The comparison of \<open>vector\<close> is signed: a negative number passes it.\<close>

definition interrupt_install ::
  "u32 \<Rightarrow> 'f option \<Rightarrow> 'p option \<Rightarrow> ('f, 'p) irq_desc list \<Rightarrow> ('f option \<times> ('f, 'p) irq_desc list) option" where
  "interrupt_install vector handler param isr =
     (if sint vector < int MAX_HANDLERS
      then if 0 \<le> sint vector \<and> nat (sint vector) < length isr
        then let d = isr ! nat (sint vector) in
          Some (isr_handler d,
            if handler \<noteq> None then isr[nat (sint vector) := \<lparr>isr_handler = handler, isr_param = param\<rparr>] else isr)
        else None
      else Some (None, isr))"

text \<open>\<open>run f ir param s\<close> is the call of a handler.\<close>

definition trap_irq ::
  "('f \<Rightarrow> u32 \<Rightarrow> 'p option \<Rightarrow> 's \<Rightarrow> 's option) \<Rightarrow> 's mmio \<Rightarrow> gic_state \<Rightarrow> ('f, 'p) irq_desc list \<Rightarrow> 's \<Rightarrow> 's option" where
  "trap_irq run io G isr s = do {
     (int_ack, s) \<leftarrow> interrupt_get_irq io G s;
     let ir = int_ack AND GIC_ACK_INTID_MASK;
     if ir = 1023 then Some s
     else if unat ir < length isr then do {
       s \<leftarrow> (case isr_handler (isr ! unat ir) of
               None \<Rightarrow> Some s
             | Some f \<Rightarrow> run f ir (isr_param (isr ! unat ir)) s);
       interrupt_ack io G int_ack s
     } else None
   }"

end
