(* ===== verification/Gic_Facts.thy ===== *)
theory Gic_Facts
  imports Gic
begin

text \<open>
  What the interrupt controller's registers say after the driver has written them, and what the
  dispatcher runs.
\<close>

section \<open>Byte fields\<close>


lemma byte_shift_eq: "byte_shift irq = 8 * (unat irq mod 4)"
proof -
  have "unat (irq mod 4) = unat irq mod 4"
    by (simp add: unat_mod)
  moreover have "unat irq mod 4 < 4"
    by simp
  ultimately have "unat ((irq mod 4) * 8) = (unat irq mod 4) * 8"
    by (simp add: unat_word_ariths)
  then show ?thesis
    by (simp add: byte_shift_def)
qed

lemma byte_mask: "(0xFF :: u32) = mask 8"
  by (simp add: mask_eq_exp_minus_1)

text \<open>Writing one byte of a word: what is read from it and from the others.\<close>

lemma byte_field:
  fixes v x :: u32
  defines "w \<equiv> \<lambda>s. (v AND NOT (push_bit s 0xFF)) OR push_bit s (x AND 0xFF)"
  shows "s \<le> 24 \<Longrightarrow> drop_bit s (w s) AND 0xFF = x AND 0xFF"
    and "s + 8 \<le> t \<or> t + 8 \<le> s \<Longrightarrow> drop_bit t (w s) AND 0xFF = drop_bit t v AND 0xFF"
  unfolding w_def byte_mask by (rule bit_word_eqI; auto simp: bit_simps dest: bit_u32_lt)+

text \<open>Two interrupts whose byte fields share a register differ in the field.\<close>

lemma byte_reg_eq:
  fixes a b :: u32
  assumes "(a div 4) * 4 = (b div 4) * 4" "a \<noteq> b"
  shows "byte_shift a + 8 \<le> byte_shift b \<or> byte_shift b + 8 \<le> byte_shift a"
proof -
  have u: "unat ((x div 4) * 4) = (unat x div 4) * 4" for x :: u32
  proof -
    have "unat x < 2 ^ 32"
      using unsigned_less [of x] by simp
    then show ?thesis
      by (simp add: unat_word_ariths unat_div)
  qed
  have "(unat a div 4) * 4 = (unat b div 4) * 4"
    using arg_cong [OF assms(1), of unat] by (simp only: u)
  moreover have "unat a \<noteq> unat b"
    using assms(2) by (simp add: word_unat_eq_iff)
  ultimately have "unat a mod 4 \<noteq> unat b mod 4"
    by (metis div_mult_mod_eq)
  then show ?thesis
    by (auto simp: byte_shift_eq)
qed

section \<open>Settings\<close>

text \<open>The numbers of the board's interrupts, and the bits of the priority field of one that exist.\<close>

definition board_irqs :: "u32 set" where
  "board_irqs = {irq. unat irq < MAX_HANDLERS}"

definition pri_bits :: "(u32 \<Rightarrow> u32) \<Rightarrow> u32 \<Rightarrow> u32 \<Rightarrow> u32" where
  "pri_bits M hw irq = drop_bit (byte_shift irq) (M (GIC_DIST_PRI hw irq)) AND 0xFF"

lemma byte_of_and: "drop_bit n (v AND w) AND 0xFF = (drop_bit n v AND 0xFF) AND drop_bit n w" for v w :: u32
  by (simp add: and.assoc and.left_commute and.commute)

text \<open>C17: priorities are read back as they were set, as far as the bits exist.  The priority registers of the
  board's interrupts may implement any of their bits, the others read as zero; the interface offset is 0.
  Then \<^verbatim>\<open>interrupt_get_priority\<close> returns the existing bits of what \<^verbatim>\<open>interrupt_set_priority\<close> was
  given for the same interrupt, and the priority of every other interrupt of the board, in the same
  register or another, is unchanged.\<close>

theorem interrupt_priority_roundtrip:
  assumes "gic_at G 0 = Some g" "gic_offset g = 0"
    and "masked_regs io reg M (GIC_DIST_PRI (dist_hw_base g) ` board_irqs)" "irq \<in> board_irqs"
  shows "\<exists>h'. interrupt_set_priority io G irq priority h = Some h' \<and>
    interrupt_get_priority io G irq h' = Some (priority AND pri_bits M (dist_hw_base g) irq, h') \<and>
    (\<forall>other \<in> board_irqs. other \<noteq> irq \<longrightarrow>
      map_option fst (interrupt_get_priority io G other h') = map_option fst (interrupt_get_priority io G other h))"
proof -
  let ?r = "GIC_DIST_PRI (dist_hw_base g)"
  let ?A = "?r ` board_irqs"
  define f where "f = (\<lambda>v. (v AND NOT (push_bit (byte_shift irq) 0xFF)) OR push_bit (byte_shift irq) (priority AND 0xFF))"
  define h' where "h' = update32 io (?r irq) f h"
  have set: "interrupt_set_priority io G irq priority h = Some h'"
    by (simp add: interrupt_set_priority_def arm_gic_set_priority_def assms(1,2) h'_def f_def)
  have get_prio: "interrupt_get_priority io G i x = Some (drop_bit (byte_shift i) (reg x (?r i)) AND 0xFF, x)"
    if "i \<in> board_irqs" for i x
    by (simp add: interrupt_get_priority_def arm_gic_get_priority_def assms(1,2) masked_read [OF assms(3) imageI [OF that]])
  have reg': "reg h' (?r i) = (if ?r i = ?r irq then f (reg h (?r irq)) AND M (?r irq) else reg h (?r i))"
    if "i \<in> board_irqs" for i
    unfolding h'_def using assms(4) that by (intro masked_update [OF assms(3)]) simp_all
  have "unat irq mod 4 < 4"
    by simp
  then have le: "byte_shift irq \<le> 24"
    by (simp add: byte_shift_eq)
  have "interrupt_get_priority io G irq h' = Some (priority AND pri_bits M (dist_hw_base g) irq, h')"
  proof -
    have "drop_bit (byte_shift irq) (f v AND m) AND 0xFF = priority AND (drop_bit (byte_shift irq) m AND 0xFF)" for v m
      unfolding byte_of_and f_def byte_field(1) [OF le] by (simp only: and.assoc and.left_commute and.commute)
    then show ?thesis
      by (simp add: get_prio [OF assms(4)] reg' [OF assms(4)] pri_bits_def)
  qed
  moreover have "map_option fst (interrupt_get_priority io G other h') = map_option fst (interrupt_get_priority io G other h)"
    if o: "other \<in> board_irqs" "other \<noteq> irq" for other
  proof (cases "?r other = ?r irq")
    case True
    then have "(irq div 4) * 4 = (other div 4) * 4"
      by (simp add: GIC_DIST_PRI_def)
    then have "byte_shift irq + 8 \<le> byte_shift other \<or> byte_shift other + 8 \<le> byte_shift irq"
      using byte_reg_eq o(2) by blast
    then have "drop_bit (byte_shift other) (f v) AND 0xFF = drop_bit (byte_shift other) v AND 0xFF" for v
      unfolding f_def by (rule byte_field(2))
    then have "drop_bit (byte_shift other) (f v AND m) AND 0xFF = drop_bit (byte_shift other) (v AND m) AND 0xFF" for v m
      unfolding byte_of_and by simp
    moreover have "reg h' (?r irq) = f (reg h (?r irq)) AND M (?r irq)"
      by (simp only: reg' [OF assms(4)] refl if_True)
    ultimately have "drop_bit (byte_shift other) (reg h' (?r other)) AND 0xFF =
        drop_bit (byte_shift other) (reg h (?r other)) AND 0xFF"
      unfolding True by (simp only: masked_bits [OF assms(3) imageI [OF assms(4)]])
    then show ?thesis
      by (simp only: get_prio [OF o(1)] option.map fst_conv)
  next
    case False
    then have "reg h' (?r other) = reg h (?r other)"
      unfolding reg' [OF o(1)] by (rule if_not_P)
    then show ?thesis
      by (simp only: get_prio [OF o(1)] option.map fst_conv)
  qed
  ultimately show ?thesis
    using set by blast
qed

definition demo_gic :: gic_state where
  "demo_gic = \<lparr>gic_table = [\<lparr>gic_offset = 0, dist_hw_base = 0x03021000, cpu_hw_base = 0x03022000\<rparr>], gic_max_irq = 223\<rparr>"

lemma demo_gic_at: "gic_at demo_gic 0 = Some \<lparr>gic_offset = 0, dist_hw_base = 0x03021000, cpu_hw_base = 0x03022000\<rparr>"
  by (simp add: gic_at_def demo_gic_def)

text \<open>A controller with five bits of priority.\<close>

definition five_bits :: "u32 \<Rightarrow> u32" where
  "five_bits a = 0xF8F8F8F8"

lemma interrupt_priority_roundtrip_witness:
  "\<exists>h'. interrupt_set_priority (masked_io five_bits) demo_gic 34 0x1F7 (\<lambda>_. 0xA0A0A0A0) = Some h' \<and>
    interrupt_get_priority (masked_io five_bits) demo_gic 34 h' = Some (0xF0, h') \<and>
    map_option fst (interrupt_get_priority (masked_io five_bits) demo_gic 35 h') = Some 0xA0"
proof -
  have old: "map_option fst (interrupt_get_priority (masked_io five_bits) demo_gic 35 (\<lambda>_. 0xA0A0A0A0)) = Some 0xA0"
    by (simp add: interrupt_get_priority_def arm_gic_get_priority_def demo_gic_at ram_io_def masked_io_def byte_shift_def five_bits_def)
  have irqs: "34 \<in> board_irqs" "35 \<in> board_irqs"
    by (simp_all add: board_irqs_def MAX_HANDLERS_def)
  obtain h' where h': "interrupt_set_priority (masked_io five_bits) demo_gic 34 0x1F7 (\<lambda>_. 0xA0A0A0A0) = Some h'"
    "interrupt_get_priority (masked_io five_bits) demo_gic 34 h' = Some (0x1F7 AND pri_bits five_bits 0x03021000 34, h')"
    and other: "\<forall>other \<in> board_irqs. other \<noteq> 34 \<longrightarrow> map_option fst (interrupt_get_priority (masked_io five_bits) demo_gic other h') =
      map_option fst (interrupt_get_priority (masked_io five_bits) demo_gic other (\<lambda>_. 0xA0A0A0A0))"
    using interrupt_priority_roundtrip [OF demo_gic_at _ masked_ram irqs(1), where M = five_bits and priority = "0x1F7" and h = "\<lambda>_. 0xA0A0A0A0"]
    by auto
  have "map_option fst (interrupt_get_priority (masked_io five_bits) demo_gic 35 h') = Some 0xA0"
    using other irqs(2) old by simp
  then show ?thesis
    using h' by (auto simp: pri_bits_def five_bits_def byte_shift_def)
qed




section \<open>The dispatcher\<close>

text \<open>C16: an interrupt runs the handler installed for it.  After \<^verbatim>\<open>interrupt_install\<close> of a handler for a
  vector below \<^verbatim>\<open>MAX_HANDLERS\<close>, \<^verbatim>\<open>trap_irq\<close> on an acknowledge of that number (whatever CPU bits come with
  it) calls that handler once with its parameter, then acknowledges with the value read; the number 1023
  of a spurious interrupt runs and acknowledges nothing; and the handlers of the other vectors stay.\<close>

theorem trap_irq_runs_installed_handler:
  assumes "length isr = MAX_HANDLERS" "unat vector < MAX_HANDLERS" "gic_at G 0 = Some g" "gic_offset g = 0"
    and "read32 io (GIC_CPU_INTACK (cpu_hw_base g)) s = (ack, s1)"
  shows "\<exists>isr'. interrupt_install vector (Some f) param isr = Some (isr_handler (isr ! unat vector), isr') \<and>
    length isr' = MAX_HANDLERS \<and>
    (\<forall>v. v \<noteq> unat vector \<longrightarrow> isr' ! v = isr ! v) \<and>
    (ack AND 0x3FF = vector \<longrightarrow>
      trap_irq run io G isr' s = Option.bind (run f vector param s1) (interrupt_ack io G ack)) \<and>
    (ack AND 0x3FF = 0x3FF \<longrightarrow> trap_irq run io G isr' s = Some s1)"
proof -
  have v: "sint vector = int (unat vector)"
  proof -
    have n: "uint vector = int (unat vector)"
      by simp
    have "uint vector < 223" "0 \<le> uint vector"
      using assms(2) n unfolding MAX_HANDLERS_def by linarith+
    then have less: "uint vector < 2 ^ 31"
      by simp
    have "- (2 ^ 31) \<le> (0 :: int)"
      by simp
    then have le: "- (2 ^ 31) \<le> uint vector"
      using \<open>0 \<le> uint vector\<close> by (rule order_trans)
    have "sint vector = signed_take_bit 31 (uint vector)"
      using sint_uint [of vector] by simp
    also have "\<dots> = uint vector"
      by (rule signed_take_bit_int_eq_self [OF le less])
    finally show ?thesis
      by simp
  qed
  have lt: "sint vector < int MAX_HANDLERS" "0 \<le> sint vector" "nat (sint vector) = unat vector"
    using assms(2) unfolding v by (simp_all only: of_nat_less_iff of_nat_0_le_iff nat_int)
  let ?isr = "isr[unat vector := \<lparr>isr_handler = Some f, isr_param = param\<rparr>]"
  have "interrupt_install vector (Some f) param isr = Some (isr_handler (isr ! unat vector), ?isr)"
    using assms(1,2) by (simp add: interrupt_install_def lt Let_def)
  moreover have "vector \<noteq> 0x3FF"
    using assms(2) by (auto simp: MAX_HANDLERS_def)
  moreover have "interrupt_get_irq io G s = Some (ack, s1)"
    using assms(3,4,5) by (simp add: interrupt_get_irq_def arm_gic_get_active_irq_def)
  ultimately show ?thesis
    using assms(1,2) by (intro exI [of _ ?isr]) (auto simp: trap_irq_def GIC_ACK_INTID_MASK_def Let_def)
qed

lemma trap_irq_runs_installed_handler_witness:
  "\<exists>isr'. interrupt_install 34 (Some ()) (Some ()) isr_table_init = Some (None, isr') \<and>
    trap_irq (\<lambda>_ ir _ s. Some (s(0 := ir))) ram_io demo_gic isr' ((\<lambda>_. 0)(0x0302200C := 0x822)) =
      interrupt_ack ram_io demo_gic 0x822 ((\<lambda>_. 0)(0x0302200C := 0x822, 0 := 34))"
proof -
  have "length (isr_table_init :: (unit, unit) irq_desc list) = MAX_HANDLERS"
    by (simp add: isr_table_init_def)
  from trap_irq_runs_installed_handler [OF this _ demo_gic_at, where vector = 34 and io = ram_io and s = "(\<lambda>_. 0)(0x0302200C := 0x822)"
      and ack = "0x822" and ?s1.0 = "(\<lambda>_. 0)(0x0302200C := 0x822)" and f = "()" and param = "Some ()" and run = "\<lambda>_ ir _ s. Some (s(0 := ir))"]
  show ?thesis
    by (auto simp: MAX_HANDLERS_def isr_table_init_def ram_io_def GIC_CPU_INTACK_def)
qed

end
