(* ===== verification/Uart.thy ===== *)
theory Uart
  imports Iomux Clk Gic Shell Ymodem
begin

text \<open>
  The serial driver \<^verbatim>\<open>boards/drv_uart.c\<close> with its software FIFO, and the ports that connect it to the
  shell (\<^verbatim>\<open>boards/port/shell_port.c\<close>) and to the YMODEM receiver (\<^verbatim>\<open>boards/port/ymodem_port.c\<close>).

  The registers are reached through an \<open>mmio\<close> record.  A handle that may be a null pointer is an
  option; the functions return the changed handle.
\<close>

section \<open>The handle\<close>

definition REG_UART_RBR :: u32 where "REG_UART_RBR = 0x00"
definition REG_UART_THR :: u32 where "REG_UART_THR = 0x00"
definition REG_UART_DLL :: u32 where "REG_UART_DLL = 0x00"
definition REG_UART_DLH :: u32 where "REG_UART_DLH = 0x04"
definition REG_UART_IER :: u32 where "REG_UART_IER = 0x04"
definition REG_UART_FCR :: u32 where "REG_UART_FCR = 0x08"
definition REG_UART_LCR :: u32 where "REG_UART_LCR = 0x0C"
definition REG_UART_MCR :: u32 where "REG_UART_MCR = 0x10"
definition REG_UART_USR :: u32 where "REG_UART_USR = 0x7C"
definition REG_UART_RFL :: u32 where "REG_UART_RFL = 0x84"
definition REG_UART_HALT :: u32 where "REG_UART_HALT = 0xA4"

definition UART_SOFT_FIFO_SIZE :: nat where "UART_SOFT_FIFO_SIZE = 2048"

record uart_fifo =
  fifo_buffer :: "u8 list"
  put_index :: u32
  get_index :: u32
  is_full :: int

record uart_configure =
  uc_baud_rate :: u32
  uc_data_bits :: u32
  uc_stop_bits :: u32
  uc_parity :: u32

record uart_handle =
  ua_base :: u32
  ua_irq :: u32
  ua_id :: u32
  ua_cfg :: uart_configure
  ua_tx :: iomux_cfg
  ua_rx :: iomux_cfg
  ua_fifo :: uart_fifo

text \<open>What the interrupt controller calls: the handler of this driver with the handle as parameter.\<close>

datatype isr = Uart_Irq_Handler | Spi_Irq_Handler

section \<open>Loops with a time-out\<close>

text \<open>
  \<^verbatim>\<open>while (waiting(read32(addr)) && time_out--);\<close> The counter is decremented after it is compared, so
  a loop that runs out leaves \<open>0xFFFFFFFF\<close> in it, not 0.
\<close>

fun timeout_loop :: "'h mmio \<Rightarrow> u32 \<Rightarrow> (u32 \<Rightarrow> bool) \<Rightarrow> nat \<Rightarrow> 'h \<Rightarrow> u32 \<times> 'h" where
  "timeout_loop io addr waiting 0 h =
     (case read32 io addr h of (val, h) \<Rightarrow> if waiting val then (- 1, h) else (0, h))"
| "timeout_loop io addr waiting (Suc t) h =
     (case read32 io addr h of (val, h) \<Rightarrow>
        if waiting val then timeout_loop io addr waiting t h else (of_nat (Suc t), h))"

section \<open>Configuration\<close>

definition lcr_data_bits :: "u32 \<Rightarrow> u32 \<Rightarrow> u32 option" where
  "lcr_data_bits bits val =
     (if bits = 5 then Some val else if bits = 6 then Some (val OR 1)
      else if bits = 7 then Some (val OR 2) else if bits = 8 then Some (val OR 3) else None)"

definition lcr_stop_bits :: "u32 \<Rightarrow> u32 \<Rightarrow> u32 option" where
  "lcr_stop_bits bits val =
     (if bits = 1 then Some val else if bits = 2 then Some (val OR push_bit 2 1) else None)"

definition lcr_parity :: "u32 \<Rightarrow> u32 \<Rightarrow> u32 option" where
  "lcr_parity par val =
     (if par = 0 then Some val else if par = 1 then Some (val OR push_bit 3 1)
      else if par = 2 then Some (val OR push_bit 3 1 OR push_bit 4 1) else None)"

definition lcr_value :: "uart_configure \<Rightarrow> u32 \<Rightarrow> u32 option" where
  "lcr_value cfg val = do {
     val \<leftarrow> lcr_data_bits (uc_data_bits cfg) (clear_bits 2 val);
     val \<leftarrow> lcr_stop_bits (uc_stop_bits cfg) (clear_bits (bit_of 2) val);
     lcr_parity (uc_parity cfg) (clear_bits (push_bit 3 7) val)
   }"

text \<open>
  The shifts by \<^verbatim>\<open>uart->id\<close> are defined for the ids of the enumeration, and the divisor is not 0 for
  a baud rate that is not 0.
\<close>

definition uart_hw_init :: "'h mmio \<Rightarrow> uart_handle option \<Rightarrow> 'h \<Rightarrow> (int \<times> 'h) option" where
  "uart_hw_init io uart h =
     (case uart of None \<Rightarrow> Some (-1, h)
      | Some u \<Rightarrow>
          let h = snd (iomux_set_sel io (ua_tx u) h);
              h = snd (iomux_set_sel io (ua_rx u) h)
          in if 16 \<le> ua_id u then None
          else
          let h = update32 io (0x02001000 + 0x90C) (set_bits (bit_of (unat (ua_id u)))) h;
              h = update32 io (0x02001000 + 0x90C) (set_bits (bit_of (16 + unat (ua_id u)))) h;
              addr = ua_base u;
              h = update32 io (addr + REG_UART_HALT) (\<lambda>val. clear_bits 3 val OR 3) h
          in case read32 io (addr + REG_UART_LCR) h of (val, h) \<Rightarrow>
            (case lcr_value (ua_cfg u) val of None \<Rightarrow> Some (-1, h)
             | Some val \<Rightarrow>
                 let h = write32 io (addr + REG_UART_LCR) val h;
                     h = update32 io (addr + REG_UART_LCR) (set_bits (bit_of 7)) h;
                     (sclk, h) = drv_clk_get_apb1_clk io h;
                     div16 = 16 * uc_baud_rate (ua_cfg u)
                 in if div16 = 0 then None
                 else
                 let h = write32 io (addr + REG_UART_DLL) ((sclk div div16) AND 0xFF) h;
                     h = write32 io (addr + REG_UART_DLH) (drop_bit 8 (sclk div div16) AND 0xFF) h;
                     h = update32 io (addr + REG_UART_LCR) (clear_bits (bit_of 7)) h;
                     h = write32 io (addr + REG_UART_FCR) 0xF7 h;
                     h = write32 io (addr + REG_UART_MCR) 0 h;
                     h = update32 io (addr + REG_UART_HALT)
                           (\<lambda>val. clear_bits (bit_of 0) (clear_bits (bit_of 2) val) OR bit_of 2) h;
                     (time_out, h) = timeout_loop io (addr + REG_UART_HALT) (\<lambda>val. val AND bit_of 2 \<noteq> 0) 1000 h
                 in Some (if time_out = 0 then -1 else 0, h)))"

definition fifo_init :: uart_fifo where
  "fifo_init = \<lparr>fifo_buffer = replicate UART_SOFT_FIFO_SIZE 0, put_index = 0, get_index = 0, is_full = 0\<rparr>"

text \<open>\<open>uart_ptr\<close> is the address of the handle, the parameter of the handler.\<close>

definition uart_init ::
  "'h mmio \<Rightarrow> gic_state \<Rightarrow> u32 \<Rightarrow> uart_handle option \<Rightarrow> (isr, u32) irq_desc list \<Rightarrow> 'h \<Rightarrow>
    (int \<times> uart_handle option \<times> (isr, u32) irq_desc list \<times> 'h) option" where
  "uart_init io G uart_ptr uart isrs h = do {
     (ret, h) \<leftarrow> uart_hw_init io uart h;
     if ret \<noteq> 0 then Some (ret, uart, isrs, h)
     else do {
       u \<leftarrow> uart;
       let u = u\<lparr>ua_fifo := fifo_init\<rparr>;
       (_, isrs) \<leftarrow> interrupt_install (ua_irq u) (Some Uart_Irq_Handler) (Some uart_ptr) isrs;
       h \<leftarrow> interrupt_umask io G (ua_irq u) h;
       Some (0, Some u, isrs, update32 io (ua_base u + REG_UART_IER) (set_bits (bit_of 0 OR bit_of 2)) h)
     }
   }"

definition uart_deinit :: "'h mmio \<Rightarrow> gic_state \<Rightarrow> uart_handle option \<Rightarrow> 'h \<Rightarrow> (int \<times> 'h) option" where
  "uart_deinit io G uart h =
     (case uart of None \<Rightarrow> Some (-1, h)
      | Some u \<Rightarrow> do {
          let h = update32 io (ua_base u + REG_UART_IER) (clear_bits (bit_of 0 OR bit_of 2)) h;
          h \<leftarrow> interrupt_mask io G (ua_irq u) h;
          Some (0, h)
        })"

section \<open>The software FIFO\<close>

text \<open>One round of the loop of the handler.\<close>

definition fifo_put :: "u8 \<Rightarrow> uart_fifo \<Rightarrow> uart_fifo option" where
  "fifo_put c f =
     (if unat (put_index f) < length (fifo_buffer f) then
        let f = f\<lparr>fifo_buffer := (fifo_buffer f)[unat (put_index f) := c]\<rparr>;
            f = f\<lparr>put_index := put_index f + 1\<rparr>;
            f = (if put_index f \<ge> of_nat UART_SOFT_FIFO_SIZE then f\<lparr>put_index := 0\<rparr> else f)
        in Some (if put_index f = get_index f then
             let f = f\<lparr>get_index := get_index f + 1, is_full := 1\<rparr>
             in if get_index f \<ge> of_nat UART_SOFT_FIFO_SIZE then f\<lparr>get_index := 0\<rparr> else f
           else f)
      else None)"

fun rx_loop :: "'h mmio \<Rightarrow> u32 \<Rightarrow> nat \<Rightarrow> uart_fifo \<Rightarrow> 'h \<Rightarrow> (uart_fifo \<times> 'h) option" where
  "rx_loop io base 0 f h = Some (f, h)"
| "rx_loop io base (Suc n) f h =
     (case read32 io (base + REG_UART_RBR) h of (val, h) \<Rightarrow> do {
        f \<leftarrow> fifo_put (ucast val) f;
        rx_loop io base n f h
      })"

text \<open>\<open>callback\<close> is \<^verbatim>\<open>uart_recv_callback\<close>, which \<^verbatim>\<open>uart_bind_recv_callback\<close> sets.\<close>

definition uart_irq_handler ::
  "(uart_handle \<Rightarrow> 'h \<Rightarrow> uart_handle \<times> 'h) option \<Rightarrow> 'h mmio \<Rightarrow> uart_handle \<Rightarrow> 'h \<Rightarrow> (uart_handle \<times> 'h) option" where
  "uart_irq_handler callback io uart h =
     (case read32 io (ua_base uart + REG_UART_RFL) h of (rx_len, h) \<Rightarrow>
        if rx_len > 0 then do {
          (f, h) \<leftarrow> rx_loop io (ua_base uart) (unat rx_len) (ua_fifo uart) h;
          let uart = uart\<lparr>ua_fifo := f\<rparr>;
          Some (case callback of None \<Rightarrow> (uart, h) | Some cb \<Rightarrow> cb uart h)
        } else Some (uart, h))"

definition uart_bind_recv_callback :: "'c option \<Rightarrow> 'c option \<Rightarrow> int \<times> 'c option" where
  "uart_bind_recv_callback callback uart_recv_callback = (0, callback)"

definition uart_putc :: "'h mmio \<Rightarrow> uart_handle option \<Rightarrow> u8 \<Rightarrow> 'h \<Rightarrow> int \<times> 'h" where
  "uart_putc io uart c h =
     (case uart of None \<Rightarrow> (-1, h)
      | Some u \<Rightarrow>
          (case timeout_loop io (ua_base u + REG_UART_USR) (\<lambda>val. val AND bit_of 2 = 0) 1000 h of
             (time_out, h) \<Rightarrow>
               if time_out = 0 then (-1, h)
               else (0, write32 io (ua_base u + REG_UART_THR) (ucast c) h)))"

definition fifo_get :: "uart_fifo \<Rightarrow> (int \<times> uart_fifo) option" where
  "fifo_get f =
     (if get_index f = put_index f \<and> is_full f = 0 then Some (-1, f)
      else if unat (get_index f) < length (fifo_buffer f) then
        let ch = fifo_buffer f ! unat (get_index f);
            f = f\<lparr>get_index := get_index f + 1\<rparr>;
            f = (if get_index f \<ge> of_nat UART_SOFT_FIFO_SIZE then f\<lparr>get_index := 0\<rparr> else f);
            f = (if is_full f = 1 then f\<lparr>is_full := 0\<rparr> else f)
        in Some (uint ch, f)
      else None)"

definition uart_getc :: "uart_handle option \<Rightarrow> (int \<times> uart_handle option) option" where
  "uart_getc uart =
     (case uart of None \<Rightarrow> Some (-1, None)
      | Some u \<Rightarrow> map_option (\<lambda>(r, f). (r, Some (u\<lparr>ua_fifo := f\<rparr>))) (fifo_get (ua_fifo u)))"

section \<open>The ports of the board\<close>

definition UART_pins :: "u32 \<Rightarrow> u32 \<Rightarrow> iomux_cfg" where
  "UART_pins port pin = \<lparr>io_port = port, io_pin = pin, io_mux = 7, io_pull = IO_PULL_RESERVE\<rparr>"

definition uart_8n1 :: uart_configure where
  "uart_8n1 = \<lparr>uc_baud_rate = 115200, uc_data_bits = 8, uc_stop_bits = 1, uc_parity = 0\<rparr>"

definition fifo_bss :: uart_fifo where
  "fifo_bss = \<lparr>fifo_buffer = replicate UART_SOFT_FIFO_SIZE 0, put_index = 0, get_index = 0, is_full = 0\<rparr>"

definition uart0 :: uart_handle where
  "uart0 = \<lparr>ua_base = 0x02500000, ua_irq = 34, ua_id = 0, ua_cfg = uart_8n1,
     ua_tx = UART_pins IO_PORTG 17, ua_rx = UART_pins IO_PORTG 18, ua_fifo = fifo_bss\<rparr>"

definition uart1 :: uart_handle where
  "uart1 = \<lparr>ua_base = 0x02500400, ua_irq = 35, ua_id = 1, ua_cfg = uart_8n1,
     ua_tx = UART_pins IO_PORTB 8, ua_rx = UART_pins IO_PORTB 9, ua_fifo = fifo_bss\<rparr>"

definition shell_uart_putc :: "'h mmio \<Rightarrow> uart_handle \<Rightarrow> u8 \<Rightarrow> 'h \<Rightarrow> 'h" where
  "shell_uart_putc io uart c h = snd (uart_putc io (Some uart) c h)"

text \<open>\<^verbatim>\<open>return -1\<close> from a function of type \<^verbatim>\<open>char\<close>, which is unsigned on the target.\<close>

definition shell_uart_getc :: "uart_handle \<Rightarrow> (u8 \<times> uart_handle) option" where
  "shell_uart_getc uart = do {
     (ret, f) \<leftarrow> fifo_get (ua_fifo uart);
     Some (if ret < 0 then of_int (-1) else of_int ret, uart\<lparr>ua_fifo := f\<rparr>)
   }"

definition ymodem_uart_putc :: "'h mmio \<Rightarrow> uart_handle \<Rightarrow> u8 \<Rightarrow> 'h \<Rightarrow> 'h" where
  "ymodem_uart_putc io uart c h = snd (uart_putc io (Some uart) c h)"

text \<open>
  \<open>wait1\<close> is what happens to the world during \<^verbatim>\<open>ms_delay(1)\<close>: interrupts put bytes into the FIFO.
\<close>

fun getc_retry :: "(uart_handle \<times> 'h \<Rightarrow> uart_handle \<times> 'h) \<Rightarrow> nat \<Rightarrow> u8 \<Rightarrow> uart_handle \<times> 'h \<Rightarrow>
    (int \<times> u8 \<times> uart_handle \<times> 'h) option" where
  "getc_retry wait1 0 ch (u, h) = Some (-1, ch, u, h)"
| "getc_retry wait1 (Suc t) ch (u, h) = do {
     (c, f) \<leftarrow> fifo_get (ua_fifo u);
     let u = u\<lparr>ua_fifo := f\<rparr>;
     if c \<ge> 0 then Some (0, of_int c, u, h)
     else getc_retry wait1 t ch (wait1 (u, h))
   }"

definition ymodem_uart_getc :: "(uart_handle \<times> 'h \<Rightarrow> uart_handle \<times> 'h) \<Rightarrow> u8 \<Rightarrow> u32 \<Rightarrow> uart_handle \<times> 'h \<Rightarrow>
    (int \<times> u8 \<times> uart_handle \<times> 'h) option" where
  "ymodem_uart_getc wait1 ch timeout w = getc_retry wait1 (unat timeout) ch w"

text \<open>When the serial port cannot be set up, \<^verbatim>\<open>ymodem_register\<close> prints a message and returns 0.\<close>

definition ymodem_register ::
  "(u8 \<Rightarrow> 'h \<Rightarrow> 'h) option \<Rightarrow> 'h mmio \<Rightarrow> gic_state \<Rightarrow> u32 \<Rightarrow> uart_handle \<Rightarrow> (isr, u32) irq_desc list \<Rightarrow>
    's ymodem_state \<Rightarrow> 'h \<Rightarrow>
    (int \<times> uart_handle option \<times> (isr, u32) irq_desc list \<times> 's ymodem_state \<times> 'h) option" where
  "ymodem_register port io G uart_ptr uart isrs S h = do {
     (ret, u, isrs, h) \<leftarrow> uart_init io G uart_ptr (Some uart) isrs h;
     if ret \<noteq> 0 then do {
       h \<leftarrow> s_printf port (''usrt1 init err.'' @ CRLF) [] h;
       Some (0, u, isrs, S, h)
     } else (case ymodem_init False S of (r, S) \<Rightarrow> Some (r, u, isrs, S, h))
   }"

text \<open>
  \<^verbatim>\<open>shell_servise\<close> with the port of the board: the character comes from the FIFO of the handle, the
  output goes to the same handle.
\<close>

definition shell_servise_uart ::
  "'h mmio \<Rightarrow> (uart_handle \<times> 'h) shell_command list \<Rightarrow> shell_line \<Rightarrow> uart_handle \<times> 'h \<Rightarrow>
    (shell_line \<times> uart_handle \<times> 'h) option" where
  "shell_servise_uart io cmds l w = do {
     (ch, u) \<leftarrow> shell_uart_getc (fst w);
     console_input_char (\<lambda>c (u, h). (u, shell_uart_putc io u c h)) cmds ch l (u, snd w)
   }"

end
