(* ===== verification/Uart_Facts.thy ===== *)
theory Uart_Facts
  imports Uart
begin

text \<open>
  The software FIFO of the serial driver as a queue of bytes, and the interrupt handler that may
  run between any two statements of \<^verbatim>\<open>uart_getc\<close>.
\<close>

section \<open>The queue\<close>

abbreviation fifo_cap :: nat where "fifo_cap \<equiv> 2047"

definition fifo_ok :: "uart_fifo \<Rightarrow> bool" where
  "fifo_ok f \<longleftrightarrow> length (fifo_buffer f) = 2048 \<and> unat (put_index f) < 2048 \<and> unat (get_index f) < 2048 \<and>
     is_full f \<in> {0, 1} \<and> (get_index f = put_index f \<longrightarrow> is_full f = 0)"

definition fifo_count :: "nat \<Rightarrow> nat \<Rightarrow> nat" where
  "fifo_count g p = (p + 2048 - g) mod 2048"

definition fifo_queue :: "uart_fifo \<Rightarrow> u8 list" where
  "fifo_queue f = map (\<lambda>k. fifo_buffer f ! ((unat (get_index f) + k) mod 2048))
     [0..<fifo_count (unat (get_index f)) (unat (put_index f))]"

text \<open>The queue the driver promises: it keeps the last 2047 bytes.\<close>

definition enq_drop :: "u8 list \<Rightarrow> u8 \<Rightarrow> u8 list" where
  "enq_drop q b = (if length q < fifo_cap then q @ [b] else tl q @ [b])"

lemma fifo_count_lt: "fifo_count g p < 2048"
  by (simp add: fifo_count_def)

lemma length_fifo_queue: "length (fifo_queue f) = fifo_count (unat (get_index f)) (unat (put_index f))"
  by (simp add: fifo_queue_def)

lemma fifo_count_0: "g < 2048 \<Longrightarrow> p < 2048 \<Longrightarrow> fifo_count g p = 0 \<longleftrightarrow> g = p"
  unfolding fifo_count_def by (cases "g \<le> p") (auto simp: mod_if)

lemma fifo_count_put:
  "g < 2048 \<Longrightarrow> p < 2048 \<Longrightarrow>
   fifo_count g (Suc p mod 2048) = (if fifo_count g p = 2047 then 0 else Suc (fifo_count g p))"
  unfolding fifo_count_def by (auto simp: mod_if split: if_splits)

lemma fifo_count_get:
  "g < 2048 \<Longrightarrow> p < 2048 \<Longrightarrow> 0 < fifo_count g p \<Longrightarrow> fifo_count (Suc g mod 2048) p = fifo_count g p - 1"
  unfolding fifo_count_def by (auto simp: mod_if split: if_splits)

lemma fifo_pos: "g < 2048 \<Longrightarrow> p < 2048 \<Longrightarrow> (g + fifo_count g p) mod 2048 = p"
  unfolding fifo_count_def by (auto simp: mod_if split: if_splits)

lemma next_index:
  fixes i :: u32
  assumes "unat i < 2048"
  shows "unat (if i + 1 \<ge> of_nat UART_SOFT_FIFO_SIZE then 0 else i + 1) = Suc (unat i) mod 2048"
proof -
  have "unat (i + 1) = unat i + 1"
    using assms by (simp add: unat_add_no_wrap)
  then show ?thesis
    using assms by (auto simp: word_le_nat_alt UART_SOFT_FIFO_SIZE_def mod_if)
qed

text \<open>Reading the queue slot by slot.\<close>

lemma fifo_queue_nth:
  "k < fifo_count (unat (get_index f)) (unat (put_index f)) \<Longrightarrow>
   fifo_queue f ! k = fifo_buffer f ! ((unat (get_index f) + k) mod 2048)"
  by (simp add: fifo_queue_def)

lemma slot_neq: "g < 2048 \<Longrightarrow> k < 2048 \<Longrightarrow> j < 2048 \<Longrightarrow> j \<noteq> k \<Longrightarrow> (g + k) mod 2048 \<noteq> (g + j) mod (2048 :: nat)"
  by (auto simp: mod_if split: if_splits)

definition put_raw :: "u8 \<Rightarrow> uart_fifo \<Rightarrow> uart_fifo" where
  "put_raw c f = f\<lparr>fifo_buffer := (fifo_buffer f)[unat (put_index f) := c],
     put_index := if put_index f + 1 \<ge> of_nat UART_SOFT_FIFO_SIZE then 0 else put_index f + 1\<rparr>"

definition get_raw :: "uart_fifo \<Rightarrow> uart_fifo" where
  "get_raw f = f\<lparr>get_index := if get_index f + 1 \<ge> of_nat UART_SOFT_FIFO_SIZE then 0 else get_index f + 1\<rparr>"

lemma fifo_put_raw:
  "unat (put_index f) < length (fifo_buffer f) \<Longrightarrow>
   fifo_put c f = Some (if put_index (put_raw c f) = get_index f then (get_raw (put_raw c f))\<lparr>is_full := 1\<rparr> else put_raw c f)"
  by (simp add: fifo_put_def put_raw_def get_raw_def Let_def)

lemma queue_put_raw:
  assumes "fifo_ok f" "length (fifo_queue f) < fifo_cap"
  shows "fifo_queue (put_raw c f) = fifo_queue f @ [c]" "put_index (put_raw c f) \<noteq> get_index f"
proof -
  let ?g = "unat (get_index f)" and ?p = "unat (put_index f)"
  have b: "?g < 2048" "?p < 2048" "length (fifo_buffer f) = 2048"
    using assms(1) by (auto simp: fifo_ok_def)
  have n: "fifo_count ?g ?p < 2047"
    using assms(2) by (simp add: length_fifo_queue)
  have p': "unat (put_index (put_raw c f)) = Suc ?p mod 2048"
    using next_index [OF b(2)] by (simp add: put_raw_def)
  have c': "fifo_count ?g (Suc ?p mod 2048) = Suc (fifo_count ?g ?p)"
    using fifo_count_put [OF b(1,2)] n by simp
  then show "put_index (put_raw c f) \<noteq> get_index f"
    using fifo_count_0 [OF b(1), of "Suc ?p mod 2048"] p' by auto
  have sel: "get_index (put_raw c f) = get_index f" "fifo_buffer (put_raw c f) = (fifo_buffer f)[?p := c]"
    by (simp_all add: put_raw_def)
  show "fifo_queue (put_raw c f) = fifo_queue f @ [c]"
  proof (rule nth_equalityI)
    show len: "length (fifo_queue (put_raw c f)) = length (fifo_queue f @ [c])"
      by (simp add: length_fifo_queue sel p' c')
    fix k assume "k < length (fifo_queue (put_raw c f))"
    then have k: "k \<le> fifo_count ?g ?p" "k < fifo_count ?g ?p + 1"
      by (simp_all add: length_fifo_queue sel p' c')
    have *: "fifo_queue (put_raw c f) ! k = (fifo_buffer f)[?p := c] ! ((?g + k) mod 2048)"
      using k by (subst fifo_queue_nth) (simp_all add: sel p' c')
    show "fifo_queue (put_raw c f) ! k = (fifo_queue f @ [c]) ! k"
    proof (cases "k = fifo_count ?g ?p")
      case True
      then show ?thesis
        using * fifo_pos [OF b(1,2)] b by (simp add: nth_append length_fifo_queue)
    next
      case False
      then have "(?g + k) mod 2048 \<noteq> ?p"
        using slot_neq [OF b(1), of k "fifo_count ?g ?p"] fifo_pos [OF b(1,2)] k n by auto
      then show ?thesis
        using False k by (simp add: * nth_append length_fifo_queue fifo_queue_nth)
    qed
  qed
qed

lemma queue_get_raw:
  assumes "fifo_ok f" "fifo_queue f \<noteq> []"
  shows "fifo_queue f = fifo_buffer f ! unat (get_index f) # fifo_queue (get_raw f)"
    "unat (get_index (get_raw f)) < 2048"
proof -
  let ?g = "unat (get_index f)" and ?p = "unat (put_index f)"
  have b: "?g < 2048" "?p < 2048"
    using assms(1) by (auto simp: fifo_ok_def)
  have n: "0 < fifo_count ?g ?p"
    using assms(2) length_fifo_queue [of f] by (cases "fifo_queue f") auto
  have g': "unat (get_index (get_raw f)) = Suc ?g mod 2048"
    using next_index [OF b(1)] by (simp add: get_raw_def)
  have sel: "put_index (get_raw f) = put_index f" "fifo_buffer (get_raw f) = fifo_buffer f"
    by (simp_all add: get_raw_def)
  note c' = fifo_count_get [OF b n]
  show "unat (get_index (get_raw f)) < 2048"
    by (simp add: g')
  show "fifo_queue f = fifo_buffer f ! ?g # fifo_queue (get_raw f)"
  proof (rule nth_equalityI)
    show "length (fifo_queue f) = length (fifo_buffer f ! ?g # fifo_queue (get_raw f))"
      using n by (simp add: length_fifo_queue sel g' c')
    fix k assume k: "k < length (fifo_queue f)"
    then show "fifo_queue f ! k = (fifo_buffer f ! ?g # fifo_queue (get_raw f)) ! k"
    proof (cases k)
      case 0
      then show ?thesis
        using b n by (simp add: fifo_queue_nth)
    next
      case (Suc j)
      then have "j < fifo_count (unat (get_index (get_raw f))) (unat (put_index (get_raw f)))"
        using k by (simp add: length_fifo_queue sel g' c')
      then show ?thesis
        using Suc k by (simp add: fifo_queue_nth length_fifo_queue sel g' mod_simps)
    qed
  qed
qed

lemma get_raw_sel [simp]:
  "put_index (get_raw f) = put_index f" "fifo_buffer (get_raw f) = fifo_buffer f" "is_full (get_raw f) = is_full f"
  by (simp_all add: get_raw_def)

lemma put_raw_sel [simp]:
  "get_index (put_raw c f) = get_index f" "length (fifo_buffer (put_raw c f)) = length (fifo_buffer f)"
  "is_full (put_raw c f) = is_full f"
  by (simp_all add: put_raw_def)

lemma put_raw_lt: "unat (put_index f) < 2048 \<Longrightarrow> unat (put_index (put_raw c f)) < 2048"
  using next_index [of "put_index f"] by (simp add: put_raw_def)

lemma is_full_irrelevant [simp]: "fifo_queue (f\<lparr>is_full := n\<rparr>) = fifo_queue f"
  by (simp add: fifo_queue_def)

lemma queue_Nil_iff: "fifo_ok f \<Longrightarrow> fifo_queue f = [] \<longleftrightarrow> get_index f = put_index f"
  using length_fifo_queue [of f] fifo_count_0 [of "unat (get_index f)" "unat (put_index f)"]
  by (auto simp: fifo_ok_def word_unat_eq_iff)

text \<open>In a full queue the byte that is stored and the oldest byte go at the same time.\<close>

lemma queue_overrun:
  assumes "fifo_ok f" "length (fifo_queue f) = fifo_cap"
  shows "put_index (put_raw c f) = get_index f" "fifo_queue (get_raw (put_raw c f)) = tl (fifo_queue f) @ [c]"
proof -
  have ne: "fifo_queue f \<noteq> []"
    using assms(2) by auto
  let ?h = "(get_raw f)\<lparr>is_full := 0\<rparr>"
  have tl: "fifo_queue ?h = tl (fifo_queue f)"
    using queue_get_raw(1) [OF assms(1) ne] by (metis is_full_irrelevant list.sel(3))
  have ok: "fifo_ok ?h"
    using assms(1) queue_get_raw(2) [OF assms(1) ne] by (simp add: fifo_ok_def)
  have len: "length (fifo_queue ?h) < fifo_cap"
    using tl assms(2) by simp
  have "get_raw (put_raw c f)\<lparr>is_full := 0\<rparr> = put_raw c ?h"
    by (simp add: get_raw_def put_raw_def)
  then have "fifo_queue (get_raw (put_raw c f)) = fifo_queue (put_raw c ?h)"
    by (metis is_full_irrelevant)
  then show "fifo_queue (get_raw (put_raw c f)) = tl (fifo_queue f) @ [c]"
    using queue_put_raw(1) [OF ok len] tl by simp
  let ?g = "unat (get_index f)" and ?p = "unat (put_index f)"
  have b: "?g < 2048" "?p < 2048"
    using assms(1) by (auto simp: fifo_ok_def)
  have "fifo_count ?g (Suc ?p mod 2048) = 0"
    using fifo_count_put [OF b] assms(2) by (simp add: length_fifo_queue)
  then have "?g = Suc ?p mod 2048"
    using fifo_count_0 [OF b(1), of "Suc ?p mod 2048"] by simp
  then have "unat (put_index (put_raw c f)) = ?g"
    using next_index [OF b(2)] by (simp add: put_raw_def)
  then show "put_index (put_raw c f) = get_index f"
    by (simp only: word_unat_eq_iff)
qed

lemma fifo_put_queue:
  assumes "fifo_ok f"
  obtains f' where "fifo_put c f = Some f'" "fifo_ok f'" "fifo_queue f' = enq_drop (fifo_queue f) c"
    "length (fifo_queue f) < fifo_cap \<Longrightarrow> f' = put_raw c f"
proof (cases "length (fifo_queue f) < fifo_cap")
  case True
  note q = queue_put_raw [OF assms True, of c]
  have "fifo_ok (put_raw c f)"
    using assms put_raw_lt [of f c] q(2) by (auto simp: fifo_ok_def)
  then show thesis
    using that [of "put_raw c f"] q assms True fifo_put_raw [of f c]
    by (simp add: enq_drop_def fifo_ok_def)
next
  case False
  then have full: "length (fifo_queue f) = fifo_cap"
    using fifo_count_lt [of "unat (get_index f)" "unat (put_index f)"] by (simp add: length_fifo_queue)
  note q = queue_overrun [OF assms full, of c]
  let ?f = "(get_raw (put_raw c f))\<lparr>is_full := 1\<rparr>"
  have b: "unat (get_index f) < 2048" "unat (put_index f) < 2048" "length (fifo_buffer f) = 2048"
    using assms by (auto simp: fifo_ok_def)
  have g: "unat (get_index ?f) = Suc (unat (get_index f)) mod 2048"
    using next_index [OF b(1)] by (auto simp: get_raw_def split: if_splits)
  have "unat (get_index ?f) \<noteq> unat (put_index ?f)"
    using g b(1) q(1) by (simp add: mod_if)
  then have "fifo_ok ?f"
    using b g put_raw_lt [OF b(2)] q(1) by (auto simp: fifo_ok_def)
  then show thesis
    using that [of ?f] q b False fifo_put_raw [of f c] by (simp add: enq_drop_def)
qed

lemma fifo_get_empty: "fifo_ok f \<Longrightarrow> fifo_queue f = [] \<Longrightarrow> fifo_get f = Some (-1, f)"
  by (auto simp: queue_Nil_iff fifo_get_def fifo_ok_def)

lemma fifo_get_raw:
  "fifo_ok f \<Longrightarrow> fifo_queue f \<noteq> [] \<Longrightarrow>
   fifo_get f = Some (uint (fifo_buffer f ! unat (get_index f)), (get_raw f)\<lparr>is_full := 0\<rparr>)"
  by (auto simp: queue_Nil_iff fifo_get_def fifo_ok_def get_raw_def Let_def)

lemma fifo_get_queue:
  assumes "fifo_ok f" "fifo_queue f = b # q"
  obtains f' where "fifo_get f = Some (uint b, f')" "fifo_ok f'" "fifo_queue f' = q"
proof -
  have ne: "fifo_queue f \<noteq> []"
    using assms(2) by simp
  note g = queue_get_raw [OF assms(1) ne]
  have "fifo_ok ((get_raw f)\<lparr>is_full := 0\<rparr>)"
    using assms(1) g(2) by (simp add: fifo_ok_def)
  then show thesis
    using that fifo_get_raw [OF assms(1) ne] g(1) assms(2) by simp
qed

lemma fifo_init_ok: "fifo_ok fifo_init" "fifo_queue fifo_init = []"
  by (simp_all add: fifo_ok_def fifo_init_def fifo_queue_def fifo_count_def UART_SOFT_FIFO_SIZE_def)

section \<open>A queue behind an interrupt handler\<close>

text \<open>
  What the two sides of the driver promise: \<open>enq\<close> keeps the last 2047 bytes, \<open>deq\<close> hands them out
  in order.  A client sees a sequence of arrivals and reads.
\<close>

datatype fifo_event = Arrive "u8 list" | Take

fun fifo_puts :: "(u8 \<Rightarrow> 'f \<Rightarrow> 'f option) \<Rightarrow> u8 list \<Rightarrow> 'f \<Rightarrow> 'f option" where
  "fifo_puts enq [] f = Some f"
| "fifo_puts enq (c # cs) f = do { f \<leftarrow> enq c f; fifo_puts enq cs f }"

fun fifo_run :: "(u8 \<Rightarrow> 'f \<Rightarrow> 'f option) \<Rightarrow> ('f \<Rightarrow> (int \<times> 'f) option) \<Rightarrow> fifo_event list \<Rightarrow> 'f \<Rightarrow>
    (int list \<times> 'f) option" where
  "fifo_run enq deq [] f = Some ([], f)"
| "fifo_run enq deq (Arrive cs # evs) f = do { f \<leftarrow> fifo_puts enq cs f; fifo_run enq deq evs f }"
| "fifo_run enq deq (Take # evs) f = do {
     (r, f) \<leftarrow> deq f;
     (rs, f) \<leftarrow> fifo_run enq deq evs f;
     Some (r # rs, f)
   }"

definition keep_last :: "u8 list \<Rightarrow> u8 list" where
  "keep_last q = drop (length q - fifo_cap) q"

fun queue_run :: "fifo_event list \<Rightarrow> u8 list \<Rightarrow> int list \<times> u8 list" where
  "queue_run [] q = ([], q)"
| "queue_run (Arrive cs # evs) q = queue_run evs (keep_last (q @ cs))"
| "queue_run (Take # evs) [] = (case queue_run evs [] of (rs, q) \<Rightarrow> (-1 # rs, q))"
| "queue_run (Take # evs) (b # q) = (case queue_run evs q of (rs, q) \<Rightarrow> (uint b # rs, q))"

lemma keep_last_enq: "length q \<le> fifo_cap \<Longrightarrow> keep_last (enq_drop q c @ cs) = keep_last (q @ c # cs)"
  by (cases q) (auto simp: keep_last_def enq_drop_def Suc_diff_le simp del: drop_append)

lemma keep_last_short: "length q \<le> fifo_cap \<Longrightarrow> keep_last q = q"
  by (simp add: keep_last_def)

locale byte_queue =
  fixes ok :: "'f \<Rightarrow> bool" and queue :: "'f \<Rightarrow> u8 list"
    and enq :: "u8 \<Rightarrow> 'f \<Rightarrow> 'f option" and deq :: "'f \<Rightarrow> (int \<times> 'f) option"
  assumes bounded: "ok f \<Longrightarrow> length (queue f) \<le> fifo_cap"
    and put_queue: "ok f \<Longrightarrow> \<exists>f'. enq c f = Some f' \<and> ok f' \<and> queue f' = enq_drop (queue f) c"
    and get_empty: "ok f \<Longrightarrow> queue f = [] \<Longrightarrow> deq f = Some (-1, f)"
    and get_queue: "ok f \<Longrightarrow> queue f = b # q \<Longrightarrow> \<exists>f'. deq f = Some (uint b, f') \<and> ok f' \<and> queue f' = q"
begin

lemma puts_queue:
  "ok f \<Longrightarrow> \<exists>f'. fifo_puts enq cs f = Some f' \<and> ok f' \<and> queue f' = keep_last (queue f @ cs)"
proof (induction cs arbitrary: f)
  case Nil
  then show ?case
    using bounded by (simp add: keep_last_short)
next
  case (Cons c cs)
  obtain f1 where f1: "enq c f = Some f1" "ok f1" "queue f1 = enq_drop (queue f) c"
    using put_queue [OF Cons.prems] by blast
  show ?case
    using Cons.IH [OF f1(2)] f1 keep_last_enq [OF bounded [OF Cons.prems]] by auto
qed

lemma run_queue:
  "ok f \<Longrightarrow> \<exists>f'. fifo_run enq deq evs f = Some (fst (queue_run evs (queue f)), f') \<and> ok f' \<and>
     queue f' = snd (queue_run evs (queue f))"
proof (induction evs arbitrary: f)
  case (Cons ev evs)
  note Cons_IH = Cons.IH and prems = Cons.prems
  show ?case
  proof (cases ev)
    case (Arrive cs)
    then show ?thesis
      using puts_queue [OF Cons.prems, of cs] Cons.IH by force
  next
    case Take
    show ?thesis
    proof (cases "queue f")
      case Nil
      then show ?thesis
        using Cons.IH [OF Cons.prems] get_empty [OF Cons.prems Nil] Take by (auto split: prod.splits)
    next
      case (Cons b q)
      then show ?thesis
        using Cons_IH get_queue [OF prems Cons] Take by (fastforce split: prod.splits)
    qed
  qed
qed simp

end

interpretation soft_fifo: byte_queue fifo_ok fifo_queue fifo_put fifo_get
proof
  show "length (fifo_queue f) \<le> fifo_cap" for f
    using fifo_count_lt [of "unat (get_index f)" "unat (put_index f)"] by (simp add: length_fifo_queue)
qed (blast elim: fifo_put_queue, erule (1) fifo_get_empty, blast elim: fifo_get_queue)

section \<open>The driver\<close>

text \<open>
  The receiver of the serial port: the register \<^verbatim>\<open>RFL\<close> tells how many bytes it holds, every read of
  \<^verbatim>\<open>RBR\<close> takes the oldest one.
\<close>

definition rx_device :: "'h mmio \<Rightarrow> u32 \<Rightarrow> ('h \<Rightarrow> u8 list) \<Rightarrow> bool" where
  "rx_device io base rxq \<longleftrightarrow>
     (\<forall>h. read32 io (base + REG_UART_RFL) h = (of_nat (length (rxq h)), h) \<and> length (rxq h) \<le> 256 \<and>
        (\<forall>b q. rxq h = b # q \<longrightarrow>
          (\<exists>v h'. read32 io (base + REG_UART_RBR) h = (v, h') \<and> ucast v = b \<and> rxq h' = q)))"

lemma rx_loop_queue:
  assumes "rx_device io base rxq"
  shows "rxq h = cs \<Longrightarrow> fifo_ok f \<Longrightarrow>
    \<exists>f' h'. rx_loop io base (length cs) f h = Some (f', h') \<and> fifo_puts fifo_put cs f = Some f'"
proof (induction cs arbitrary: f h)
  case (Cons c cs)
  obtain v h1 where r: "read32 io (base + REG_UART_RBR) h = (v, h1)" "ucast v = c" "rxq h1 = cs"
    using assms Cons.prems(1) unfolding rx_device_def by blast
  obtain f1 where f1: "fifo_put c f = Some f1" "fifo_ok f1"
    using fifo_put_queue [OF Cons.prems(2)] by blast
  show ?case
    using Cons.IH [OF r(3) f1(2)] r f1 by auto
qed simp

lemma uart_irq_handler_queue:
  assumes "rx_device io (ua_base u) rxq" "fifo_ok (ua_fifo u)"
  obtains f' h' where "uart_irq_handler None io u h = Some (u\<lparr>ua_fifo := f'\<rparr>, h')" "fifo_ok f'"
    "fifo_queue f' = keep_last (fifo_queue (ua_fifo u) @ rxq h)"
proof -
  have rfl: "read32 io (ua_base u + REG_UART_RFL) h = (of_nat (length (rxq h)), h)" "length (rxq h) \<le> 256"
    using assms(1) unfolding rx_device_def by blast+
  have n: "unat (of_nat (length (rxq h)) :: u32) = length (rxq h)"
    using rfl(2) by (simp add: unat_of_nat)
  obtain f' h' where l: "rx_loop io (ua_base u) (length (rxq h)) (ua_fifo u) h = Some (f', h')"
    "fifo_puts fifo_put (rxq h) (ua_fifo u) = Some f'"
    using rx_loop_queue [OF assms(1) refl assms(2)] by blast
  have q: "fifo_ok f'" "fifo_queue f' = keep_last (fifo_queue (ua_fifo u) @ rxq h)"
    using soft_fifo.puts_queue [OF assms(2), of "rxq h"] l(2) by auto
  show thesis
  proof (cases "rxq h = []")
    case True
    have "uart_irq_handler None io u h = Some (u\<lparr>ua_fifo := ua_fifo u\<rparr>, h)"
      unfolding uart_irq_handler_def rfl(1) using True by simp
    moreover have "fifo_queue (ua_fifo u) = keep_last (fifo_queue (ua_fifo u) @ rxq h)"
      using True soft_fifo.bounded [OF assms(2)] by (simp add: keep_last_short)
    ultimately show thesis
      by (rule that [OF _ assms(2)])
  next
    case False
    then have pos: "(of_nat (length (rxq h)) :: u32) > 0"
      using n by (metis length_0_conv unat_0 word_neq_0_conv)
    have "uart_irq_handler None io u h = Some (u\<lparr>ua_fifo := f'\<rparr>, h')"
      unfolding uart_irq_handler_def rfl(1) prod.case n using pos l(1) by simp
    then show thesis
      by (rule that [OF _ q])
  qed
qed

text \<open>
  What happens at a serial port: interrupts, each with the state the device is in by then, and reads.
\<close>

datatype 'h uart_event = Rx_Interrupt 'h | Getc

fun serial_run :: "'h mmio \<Rightarrow> 'h uart_event list \<Rightarrow> uart_handle \<times> 'h \<Rightarrow> (int list \<times> uart_handle \<times> 'h) option" where
  "serial_run io [] w = Some ([], w)"
| "serial_run io (Rx_Interrupt h' # evs) (u, h) = do {
     w \<leftarrow> uart_irq_handler None io u h';
     serial_run io evs w
   }"
| "serial_run io (Getc # evs) (u, h) = do {
     (r, u') \<leftarrow> uart_getc (Some u);
     u \<leftarrow> u';
     (rs, w) \<leftarrow> serial_run io evs (u, h);
     Some (r # rs, w)
   }"

fun event_of :: "('h \<Rightarrow> u8 list) \<Rightarrow> 'h uart_event \<Rightarrow> fifo_event" where
  "event_of rxq (Rx_Interrupt h) = Arrive (rxq h)"
| "event_of rxq Getc = Take"

lemma serial_run_fifo:
  assumes "rx_device io base rxq"
  shows "ua_base u = base \<Longrightarrow> fifo_ok (ua_fifo u) \<Longrightarrow>
    \<exists>f' h'. serial_run io evs (u, h) = Some (fst (queue_run (map (event_of rxq) evs) (fifo_queue (ua_fifo u))),
        u\<lparr>ua_fifo := f'\<rparr>, h') \<and> fifo_ok f' \<and>
      fifo_queue f' = snd (queue_run (map (event_of rxq) evs) (fifo_queue (ua_fifo u)))"
proof (induction evs arbitrary: u h)
  case Nil
  then show ?case
    by (auto intro: exI [of _ "ua_fifo u"])
next
  case (Cons ev evs)
  note IH = Cons.IH and prems = Cons.prems
  show ?case
  proof (cases ev)
    case (Rx_Interrupt h1)
    obtain f1 h2 where i: "uart_irq_handler None io u h1 = Some (u\<lparr>ua_fifo := f1\<rparr>, h2)" "fifo_ok f1"
      "fifo_queue f1 = keep_last (fifo_queue (ua_fifo u) @ rxq h1)"
      using uart_irq_handler_queue [of io u rxq h1] assms prems by metis
    show ?thesis
      using IH [of "u\<lparr>ua_fifo := f1\<rparr>" h2] i prems Rx_Interrupt by auto
  next
    case Getc
    show ?thesis
    proof (cases "fifo_queue (ua_fifo u)")
      case Nil
      then show ?thesis
        using IH [OF prems, of h] fifo_get_empty [OF prems(2) Nil] Getc
        by (auto simp: uart_getc_def split: prod.splits)
    next
      case (Cons b q)
      obtain f1 where f1: "fifo_get (ua_fifo u) = Some (uint b, f1)" "fifo_ok f1" "fifo_queue f1 = q"
        using fifo_get_queue [OF prems(2) Cons] by blast
      show ?thesis
        using IH [of "u\<lparr>ua_fifo := f1\<rparr>" h] prems f1 Cons Getc
        by (auto simp: uart_getc_def split: prod.splits)
    qed
  qed
qed

section \<open>Interrupts inside a read\<close>

text \<open>
  \<^verbatim>\<open>uart_getc\<close> statement by statement.  Between two of them the handler may put bytes into the FIFO.
\<close>

datatype getc_pc = At_Test | At_Load | At_Inc u8 | At_Wrap u8 | At_Full u8 | Returned int

fun getc_step :: "uart_fifo \<Rightarrow> getc_pc \<Rightarrow> (uart_fifo \<times> getc_pc) option" where
  "getc_step f At_Test =
     Some (f, if get_index f = put_index f \<and> is_full f = 0 then Returned (-1) else At_Load)"
| "getc_step f At_Load =
     (if unat (get_index f) < length (fifo_buffer f)
      then Some (f, At_Inc (fifo_buffer f ! unat (get_index f))) else None)"
| "getc_step f (At_Inc ch) = Some (f\<lparr>get_index := get_index f + 1\<rparr>, At_Wrap ch)"
| "getc_step f (At_Wrap ch) =
     Some (if get_index f \<ge> of_nat UART_SOFT_FIFO_SIZE then f\<lparr>get_index := 0\<rparr> else f, At_Full ch)"
| "getc_step f (At_Full ch) = Some (if is_full f = 1 then f\<lparr>is_full := 0\<rparr> else f, Returned (uint ch))"
| "getc_step f (Returned r) = None"

inductive uart_step :: "uart_fifo \<times> getc_pc \<Rightarrow> u8 list \<Rightarrow> uart_fifo \<times> getc_pc \<Rightarrow> bool" where
  Reader: "getc_step f pc = Some x \<Longrightarrow> uart_step (f, pc) [] x"
| Handler: "fifo_put c f = Some f' \<Longrightarrow> uart_step (f, pc) [c] (f', pc)"

inductive uart_steps :: "uart_fifo \<times> getc_pc \<Rightarrow> u8 list \<Rightarrow> uart_fifo \<times> getc_pc \<Rightarrow> bool" where
  Refl: "uart_steps x [] x"
| Step: "uart_step x cs y \<Longrightarrow> uart_steps y ds z \<Longrightarrow> uart_steps x (cs @ ds) z"

inductive_cases uart_stepE: "uart_step (f, pc) cs y"

lemma reader_first: "getc_step f pc = Some y \<Longrightarrow> uart_steps y ds z \<Longrightarrow> uart_steps (f, pc) ds z"
  using Step [OF Reader, of f pc y ds z] by simp

lemma handler_first: "fifo_put c f = Some f' \<Longrightarrow> uart_steps (f', pc) ds z \<Longrightarrow> uart_steps (f, pc) (c # ds) z"
  using Step [OF Handler, of c f f' pc ds z] by simp

text \<open>Without an interrupt the steps are those of the function.\<close>

lemma getc_steps_fifo_get:
  assumes "fifo_get f = Some (r, f')"
  shows "uart_steps (f, At_Test) [] (f', Returned r)"
proof -
  show ?thesis
  proof (cases "get_index f = put_index f \<and> is_full f = 0")
    case True
    then show ?thesis
      using assms by (intro reader_first [OF _ Refl]) (auto simp: fifo_get_def)
  next
    case False
    then have lt: "unat (get_index f) < length (fifo_buffer f)"
      using assms by (auto simp: fifo_get_def split: if_splits)
    let ?ch = "fifo_buffer f ! unat (get_index f)"
    let ?f1 = "f\<lparr>get_index := get_index f + 1\<rparr>"
    let ?f2 = "if get_index ?f1 \<ge> of_nat UART_SOFT_FIFO_SIZE then ?f1\<lparr>get_index := 0\<rparr> else ?f1"
    have "f' = (if is_full ?f2 = 1 then ?f2\<lparr>is_full := 0\<rparr> else ?f2)" "r = uint ?ch"
      using assms False lt by (simp_all only: fifo_get_def if_False Let_def if_True option.inject prod.inject)
    then show ?thesis
      using False lt
      by (intro reader_first [of f At_Test "(f, At_Load)"] reader_first [of f At_Load "(f, At_Inc ?ch)"]
          reader_first [of f "At_Inc ?ch" "(?f1, At_Wrap ?ch)"] reader_first [of ?f1 "At_Wrap ?ch" "(?f2, At_Full ?ch)"]
          reader_first [of ?f2 "At_Full ?ch" "(f', Returned r)"] Refl)
        (simp_all only: getc_step.simps if_True if_False)
  qed
qed

text \<open>
  The FIFO as the finished call will leave it: inside the call \<open>get_index\<close> may be one past the end of
  the buffer, and \<open>is_full\<close> is still to be cleared.
\<close>

definition settled :: "uart_fifo \<Rightarrow> uart_fifo" where
  "settled f = f\<lparr>get_index := if get_index f \<ge> of_nat UART_SOFT_FIFO_SIZE then 0 else get_index f, is_full := 0\<rparr>"

definition unsettled_ok :: "uart_fifo \<Rightarrow> bool" where
  "unsettled_ok f \<longleftrightarrow> fifo_ok (settled f) \<and> unat (get_index f) \<le> 2048 \<and> is_full f \<in> {0, 1}"

fun read_inv :: "u8 list \<Rightarrow> u8 list \<Rightarrow> uart_fifo \<times> getc_pc \<Rightarrow> bool" where
  "read_inv q cs (f, At_Test) \<longleftrightarrow> fifo_ok f \<and> fifo_queue f = q @ cs"
| "read_inv q cs (f, At_Load) \<longleftrightarrow> fifo_ok f \<and> fifo_queue f = q @ cs \<and> q @ cs \<noteq> []"
| "read_inv q cs (f, At_Inc b) \<longleftrightarrow> fifo_ok f \<and> fifo_queue f = q @ cs \<and> (\<exists>q'. q @ cs = b # q')"
| "read_inv q cs (f, At_Wrap b) \<longleftrightarrow> unsettled_ok f \<and> b # fifo_queue (settled f) = q @ cs"
| "read_inv q cs (f, At_Full b) \<longleftrightarrow> unsettled_ok f \<and> get_index f < of_nat UART_SOFT_FIFO_SIZE \<and>
     b # fifo_queue (settled f) = q @ cs"
| "read_inv q cs (f, Returned r) \<longleftrightarrow> fifo_ok f \<and>
     (if r = -1 then q = [] \<and> fifo_queue f = cs else \<exists>b. r = uint b \<and> b # fifo_queue f = q @ cs)"

lemma size_word [simp]: "unat (of_nat UART_SOFT_FIFO_SIZE :: u32) = 2048"
  by (simp add: UART_SOFT_FIFO_SIZE_def)

lemma settled_ok: "fifo_ok f \<Longrightarrow> fifo_ok (settled f) \<and> fifo_queue (settled f) = fifo_queue f \<and> unsettled_ok f"
  by (auto simp: settled_def unsettled_ok_def fifo_ok_def fifo_queue_def word_le_nat_alt)

lemma put_unsettled:
  assumes "unsettled_ok f" "length (fifo_queue (settled f)) < fifo_cap"
  shows "fifo_put c f = Some (put_raw c f)" "settled (put_raw c f) = put_raw c (settled f)"
    "unsettled_ok (put_raw c f)" "fifo_queue (settled (put_raw c f)) = fifo_queue (settled f) @ [c]"
proof -
  have ok: "fifo_ok (settled f)" "unat (get_index f) \<le> 2048"
    using assms(1) by (auto simp: unsettled_ok_def)
  note q = queue_put_raw [OF ok(1) assms(2), of c]
  have sel: "put_index (put_raw c (settled f)) = put_index (put_raw c f)"
    by (simp add: put_raw_def settled_def)
  have lt: "unat (put_index f) < 2048" "length (fifo_buffer f) = 2048"
    using ok(1) by (auto simp: fifo_ok_def settled_def)
  have "put_index (put_raw c f) \<noteq> get_index f"
  proof (cases "get_index f \<ge> of_nat UART_SOFT_FIFO_SIZE")
    case True
    then show ?thesis
      using put_raw_lt [OF lt(1), of c] by (auto simp: word_le_nat_alt)
  next
    case False
    then show ?thesis
      using q(2) sel by (simp add: settled_def)
  qed
  then show "fifo_put c f = Some (put_raw c f)"
    using fifo_put_raw [of f c] lt by simp
  show s: "settled (put_raw c f) = put_raw c (settled f)"
    by (simp add: put_raw_def settled_def)
  show "fifo_queue (settled (put_raw c f)) = fifo_queue (settled f) @ [c]"
    using q(1) s by simp
  obtain f1 where "fifo_put c (settled f) = Some f1" "fifo_ok f1" "f1 = put_raw c (settled f)"
    using fifo_put_queue [OF ok(1)] assms(2) by metis
  then show "unsettled_ok (put_raw c f)"
    using assms(1) s by (simp add: unsettled_ok_def)
qed

lemma put_unsettled_word:
  "unsettled_ok f \<Longrightarrow> get_index f < of_nat UART_SOFT_FIFO_SIZE \<Longrightarrow> settled f = f\<lparr>is_full := 0\<rparr>"
  by (simp add: settled_def)

lemma read_inv_handler:
  assumes "read_inv q cs (f, pc)" "length q + length cs < fifo_cap" "fifo_put c f = Some f'"
  shows "read_inv q (cs @ [c]) (f', pc)"
proof -
  have live: "fifo_ok f \<Longrightarrow> length (fifo_queue f) < fifo_cap \<Longrightarrow> fifo_ok f' \<and> fifo_queue f' = fifo_queue f @ [c]"
    using fifo_put_queue [of f c] assms(3) by (fastforce simp: enq_drop_def)
  have busy: "unsettled_ok f \<Longrightarrow> length (fifo_queue (settled f)) < fifo_cap \<Longrightarrow>
      unsettled_ok f' \<and> fifo_queue (settled f') = fifo_queue (settled f) @ [c] \<and> get_index f' = get_index f"
    using put_unsettled [of f c] assms(3) by auto
  show ?thesis
  proof (cases pc)
    case (At_Inc b)
    then obtain q' where q: "q @ cs = b # q'" "fifo_ok f" "fifo_queue f = q @ cs"
      using assms(1) by auto
    have "fifo_ok f' \<and> fifo_queue f' = (q @ cs) @ [c]"
      using live [OF q(2)] assms(2) q(3) by simp
    then show ?thesis
      using q(1) At_Inc by (metis append_Cons append_assoc read_inv.simps(3))
  next
    case (At_Wrap b)
    then have "Suc (length (fifo_queue (settled f))) = length q + length cs"
      using assms(1) by (metis length_Cons length_append read_inv.simps(4))
    then show ?thesis
      using assms(1,2) busy At_Wrap by auto
  next
    case (At_Full b)
    then have "Suc (length (fifo_queue (settled f))) = length q + length cs"
      using assms(1) by (metis length_Cons length_append read_inv.simps(5))
    then show ?thesis
      using assms(1,2) busy At_Full by auto
  next
    case (Returned r)
    then have "length (fifo_queue f) \<le> length q + length cs"
      using assms(1) by (auto split: if_splits dest: arg_cong [of _ _ length])
    then show ?thesis
      using assms(1,2) live Returned by (auto split: if_splits)
  qed (use assms(1,2) live in auto)
qed

lemma read_inv_reader:
  assumes "read_inv q cs (f, pc)" "getc_step f pc = Some y"
  shows "read_inv q cs y"
proof (cases pc)
  case At_Test
  then show ?thesis
    using assms queue_Nil_iff [of f] by (auto simp: fifo_ok_def)
next
  case At_Load
  then have "fifo_queue f \<noteq> []" "fifo_ok f"
    using assms(1) by auto
  then show ?thesis
    using assms At_Load queue_get_raw(1) [of f] by (auto split: if_splits)
next
  case (At_Inc b)
  then have f: "fifo_queue f \<noteq> []" "fifo_ok f" "b = hd (fifo_queue f)"
    using assms(1) by auto
  have s: "settled (f\<lparr>get_index := get_index f + 1\<rparr>) = (get_raw f)\<lparr>is_full := 0\<rparr>"
    by (simp add: settled_def get_raw_def)
  have "unat (get_index f + 1) \<le> 2048"
    using f(2) by (simp add: fifo_ok_def unat_add_no_wrap)
  then show ?thesis
    using assms At_Inc queue_get_raw [OF f(2,1)] s f(2,3) by (auto simp: unsettled_ok_def fifo_ok_def)
next
  case (At_Wrap b)
  then show ?thesis
    using assms by (auto simp: unsettled_ok_def settled_def word_le_nat_alt word_less_nat_alt)
next
  case (At_Full b)
  then have "settled f = f\<lparr>is_full := 0\<rparr>" "unsettled_ok f"
    using assms(1) put_unsettled_word by auto
  moreover have "y = (settled f, Returned (uint b))"
    using calculation assms(2) At_Full by (cases f) (auto simp: unsettled_ok_def)
  moreover have "uint b \<noteq> -1"
    using uint_ge_0 [of b] by linarith
  ultimately show ?thesis
    using assms(1) At_Full by (auto simp: unsettled_ok_def)
qed (use assms in auto)

lemma read_inv_steps:
  "uart_steps x ds y \<Longrightarrow> read_inv q cs x \<Longrightarrow> length q + length (cs @ ds) \<le> fifo_cap \<Longrightarrow> read_inv q (cs @ ds) y"
proof (induction arbitrary: cs rule: uart_steps.induct)
  case (Step x cs1 y ds z)
  obtain f pc where x: "x = (f, pc)"
    by (cases x)
  have "read_inv q (cs @ cs1) y"
    using Step.hyps(1) Step.prems unfolding x
    by (cases rule: uart_step.cases) (auto intro: read_inv_reader read_inv_handler)
  then show ?case
    using Step.IH [of "cs @ cs1"] Step.prems(2) by simp
qed simp

end
