(* ===== verification/Serial_Props.thy ===== *)
theory Serial_Props
  imports Uart_Facts Shell_Props
begin

text \<open>
  Properties of the serial port: the software FIFO is a queue for every sequence of interrupts and
  reads, what an interrupt inside a read can do to it, and what the value that the shell's port
  returns for an empty FIFO does to the escape sequences of the arrow keys.
\<close>

section \<open>The FIFO\<close>

text \<open>C15: the software FIFO of the serial driver is a queue that keeps the last 2047 bytes.  For every
  sequence of receive interrupts (each with whatever bytes the device holds by then) and calls of
  \<^verbatim>\<open>uart_getc\<close>, the calls return what the abstract queue returns, -1 exactly when it is empty, and the
  representation invariant is kept: no index leaves the buffer.
\<close>

theorem uart_fifo_refines_queue:
  assumes "rx_device io (ua_base u) rxq" "fifo_ok (ua_fifo u)"
  shows "\<exists>f' h'. serial_run io evs (u, h) =
      Some (fst (queue_run (map (event_of rxq) evs) (fifo_queue (ua_fifo u))), u\<lparr>ua_fifo := f'\<rparr>, h') \<and>
    fifo_ok f' \<and> fifo_queue f' = snd (queue_run (map (event_of rxq) evs) (fifo_queue (ua_fifo u)))"
  using serial_run_fifo [OF assms(1) refl assms(2)] by blast

text \<open>A receiver whose state is the list of the bytes it holds.\<close>

definition list_rxq :: "u8 list \<Rightarrow> u8 list" where
  "list_rxq h = (if length h \<le> 256 then h else [])"

definition list_uart :: "u8 list mmio" where
  "list_uart = \<lparr>read32 = (\<lambda>a h. if a = 0x02500000 + REG_UART_RFL then (of_nat (length (list_rxq h)), h)
       else if a = 0x02500000 + REG_UART_RBR then (ucast (hd h), tl h) else (4, h)),
     write32 = (\<lambda>a v h. h), read8 = (\<lambda>a h. (0, h)), write8 = (\<lambda>a v h. h)\<rparr>"

lemma ucast_u8_back: "ucast (ucast (b :: u8) :: u32) = b"
  by (rule bit_word_eqI) (simp add: bit_simps)

lemma list_uart_rx: "rx_device list_uart (ua_base uart0) list_rxq"
  by (auto simp: rx_device_def list_uart_def list_rxq_def uart0_def REG_UART_RFL_def REG_UART_RBR_def
      ucast_u8_back split: if_splits)

lemma uart0_ok: "fifo_ok (ua_fifo uart0)" "fifo_queue (ua_fifo uart0) = []"
  using fifo_init_ok by (simp_all add: uart0_def fifo_bss_def fifo_init_def)

lemma uart_fifo_refines_queue_witness:
  "\<exists>f' h'. serial_run list_uart [Getc, Rx_Interrupt [0x61, 0x62], Getc, Rx_Interrupt [0x63], Getc, Getc, Getc] (uart0, [])
      = Some ([-1, 0x61, 0x62, 0x63, -1], uart0\<lparr>ua_fifo := f'\<rparr>, h') \<and> fifo_ok f' \<and> fifo_queue f' = []"
  using uart_fifo_refines_queue [OF list_uart_rx uart0_ok(1),
      of "[Getc, Rx_Interrupt [0x61, 0x62], Getc, Rx_Interrupt [0x63], Getc, Getc, Getc]" "[]"]
  by (simp add: uart0_ok(2) list_rxq_def keep_last_def)

section \<open>Interrupts inside a read\<close>

text \<open>C14: as long as the FIFO does not run over, interrupts between the statements of \<^verbatim>\<open>uart_getc\<close> do
  no harm.  Whatever bytes \<open>cs\<close> the handler stores while a call runs, if the bytes in the FIFO and
  \<open>cs\<close> are at most 2047, the call returns the first of them and the FIFO holds the rest in order,
  or it returns -1, found the FIFO empty and left \<open>cs\<close> in it: nothing is lost, repeated or
  reordered.\<close>

theorem uart_getc_interrupted_in_order:
  assumes "uart_steps (f, At_Test) cs (f', Returned r)" "fifo_ok f" "length (fifo_queue f) + length cs \<le> fifo_cap"
  shows "fifo_ok f' \<and>
    (if r = -1 then fifo_queue f = [] \<and> fifo_queue f' = cs
     else \<exists>b. r = uint b \<and> b # fifo_queue f' = fifo_queue f @ cs)"
  using read_inv_steps [OF assms(1), of "fifo_queue f" "[]"] assms(2,3) by simp

text \<open>C37: when the FIFO is full, two bytes that arrive between the increment of \<^verbatim>\<open>get_index\<close> and the test
  for its end make the driver forget everything.  With \<^verbatim>\<open>get_index\<close> at the last slot, the handler
  compares \<^verbatim>\<open>put_index\<close> with an index that is one past the end, does not notice that the buffer is
  full, and the two indices meet: the call returns the oldest byte and leaves an empty FIFO, 2048
  bytes are lost.\<close>

theorem uart_getc_race_empties_fifo:
  assumes "fifo_ok f" "get_index f = 2047" "put_index f = 2046"
  shows "\<exists>f'. uart_steps (f, At_Test) [c, d] (f', Returned (uint (fifo_buffer f ! 2047))) \<and>
    length (fifo_queue f) = 2047 \<and> fifo_queue f' = [] \<and> fifo_ok f'"
proof -
  have b: "length (fifo_buffer f) = 2048" "is_full f = 0 \<or> is_full f = 1"
    using assms(1) by (auto simp: fifo_ok_def)
  let ?b = "fifo_buffer f ! 2047"
  define f1 where "f1 = f\<lparr>get_index := 2048\<rparr>"
  define f2 where "f2 = f1\<lparr>fifo_buffer := (fifo_buffer f)[2046 := c], put_index := 2047\<rparr>"
  define f3 where "f3 = f2\<lparr>fifo_buffer := (fifo_buffer f2)[2047 := d], put_index := 0\<rparr>"
  define f4 where "f4 = f3\<lparr>get_index := 0\<rparr>"
  define f5 where "f5 = (if is_full f4 = 1 then f4\<lparr>is_full := 0\<rparr> else f4)"
  note defs = f1_def f2_def f3_def f4_def
  have "uart_steps (f4, At_Full ?b) [] (f5, Returned (uint ?b))"
    by (rule reader_first [OF _ Refl]) (simp add: f5_def)
  then have "uart_steps (f3, At_Wrap ?b) [] (f5, Returned (uint ?b))"
    by (rule reader_first [rotated]) (simp add: defs UART_SOFT_FIFO_SIZE_def)
  then have "uart_steps (f2, At_Wrap ?b) [d] (f5, Returned (uint ?b))"
    by (rule handler_first [rotated]) (simp add: defs fifo_put_def b UART_SOFT_FIFO_SIZE_def Let_def)
  then have "uart_steps (f1, At_Wrap ?b) [c, d] (f5, Returned (uint ?b))"
    by (rule handler_first [rotated]) (simp add: defs fifo_put_def assms b UART_SOFT_FIFO_SIZE_def Let_def)
  then have "uart_steps (f, At_Inc ?b) [c, d] (f5, Returned (uint ?b))"
    by (rule reader_first [rotated]) (simp add: f1_def assms)
  then have "uart_steps (f, At_Load) [c, d] (f5, Returned (uint ?b))"
    by (rule reader_first [rotated]) (simp add: assms b)
  then have "uart_steps (f, At_Test) [c, d] (f5, Returned (uint ?b))"
    by (rule reader_first [rotated]) (simp add: assms)
  moreover have "fifo_queue f5 = []" "fifo_ok f5"
    using b by (auto simp: f5_def defs fifo_queue_def fifo_count_def fifo_ok_def)
  moreover have "length (fifo_queue f) = 2047"
    by (simp add: length_fifo_queue assms fifo_count_def)
  ultimately show ?thesis
    by blast
qed

definition demo_full :: uart_fifo where
  "demo_full = \<lparr>fifo_buffer = replicate 2048 0x55, put_index = 2046, get_index = 2047, is_full = 1\<rparr>"

lemma uart_getc_race_empties_fifo_witness:
  "\<exists>f'. uart_steps (demo_full, At_Test) [0x61, 0x62] (f', Returned (uint (fifo_buffer demo_full ! 2047))) \<and>
    length (fifo_queue demo_full) = 2047 \<and> fifo_queue f' = [] \<and> fifo_ok f'"
  by (rule uart_getc_race_empties_fifo) (simp_all add: demo_full_def fifo_ok_def)

lemma uart_getc_interrupted_in_order_witness:
  "\<exists>f' b. uint (0x61 :: u8) = uint b \<and> b # fifo_queue f' = [0x61] @ [0x62 :: u8] \<and> fifo_ok f'"
proof -
  obtain f where f: "fifo_put 0x61 (ua_fifo uart0) = Some f" "fifo_ok f" "fifo_queue f = [0x61]"
    using fifo_put_queue [OF uart0_ok(1), where c = "0x61"] by (auto simp: uart0_ok(2) enq_drop_def)
  obtain g where g: "fifo_put 0x62 f = Some g" "fifo_ok g" "fifo_queue g = [0x61, 0x62]"
    using fifo_put_queue [OF f(2), where c = "0x62"] by (auto simp: f(3) enq_drop_def)
  obtain f' where f': "fifo_get g = Some (uint (0x61 :: u8), f')"
    using fifo_get_queue [OF g(2,3)] by blast
  have "uart_steps (f, At_Test) ([0x62] @ []) (f', Returned (uint (0x61 :: u8)))"
    by (rule Step [OF Handler [OF g(1)] getc_steps_fifo_get [OF f']])
  then have "fifo_ok f' \<and> (\<exists>b. uint (0x61 :: u8) = uint b \<and> b # fifo_queue f' = [0x61] @ [0x62])"
    using uart_getc_interrupted_in_order [of f "[0x62]" f' "uint (0x61 :: u8)"] f by simp
  then show ?thesis
    by blast
qed

section \<open>The shell behind the FIFO\<close>

text \<open>Bytes arrive in the FIFO, the main loop of the boot loader polls the shell.\<close>

fun shell_polls :: "'h mmio \<Rightarrow> (uart_handle \<times> 'h) shell_command list \<Rightarrow> fifo_event list \<Rightarrow> shell_line \<Rightarrow>
    uart_handle \<times> 'h \<Rightarrow> (shell_line \<times> uart_handle \<times> 'h) option" where
  "shell_polls io cmds [] l w = Some (l, w)"
| "shell_polls io cmds (Arrive cs # evs) l (u, h) = do {
     f \<leftarrow> fifo_puts fifo_put cs (ua_fifo u);
     shell_polls io cmds evs l (u\<lparr>ua_fifo := f\<rparr>, h)
   }"
| "shell_polls io cmds (Take # evs) l (u, h) = do {
     (l, w) \<leftarrow> shell_servise_uart io cmds l (u, h);
     shell_polls io cmds evs l w
   }"

definition uart_pc :: "'h mmio \<Rightarrow> u8 \<Rightarrow> uart_handle \<times> 'h \<Rightarrow> uart_handle \<times> 'h" where
  "uart_pc io c w = (fst w, shell_uart_putc io (fst w) c (snd w))"

lemma uart_pc_fst: "fst (puts (uart_pc io) cs w) = fst w"
  by (induction cs arbitrary: w) (simp_all add: puts_def uart_pc_def)

lemma shell_servise_uart_char:
  assumes "fifo_ok (ua_fifo u)" "fifo_queue (ua_fifo u) = b # q"
  obtains f' where "fifo_ok f'" "fifo_queue f' = q"
    "shell_servise_uart io cmds l (u, h) = console_input_char (uart_pc io) cmds b l (u\<lparr>ua_fifo := f'\<rparr>, h)"
proof -
  have "(of_int (uint b) :: u8) = b" "\<not> uint b < 0"
    using uint_ge_0 [of b] by auto
  moreover have "(\<lambda>c (u, h). (u, shell_uart_putc io u c h)) = uart_pc io"
    by (simp add: uart_pc_def fun_eq_iff)
  moreover obtain f' where "fifo_get (ua_fifo u) = Some (uint b, f')" "fifo_ok f'" "fifo_queue f' = q"
    using fifo_get_queue [OF assms] by blast
  ultimately show thesis
    using that [of f'] by (simp add: shell_servise_uart_def shell_uart_getc_def)
qed

text \<open>On an empty FIFO the shell is given the byte \<open>0xFF\<close>.\<close>

lemma shell_servise_uart_idle:
  assumes "fifo_ok (ua_fifo u)" "fifo_queue (ua_fifo u) = []"
  shows "shell_servise_uart io cmds l (u, h) = console_input_char (uart_pc io) cmds 0xFF l (u, h)"
proof -
  have "(\<lambda>c (u, h). (u, shell_uart_putc io u c h)) = uart_pc io"
    by (simp add: uart_pc_def fun_eq_iff)
  moreover have "shell_uart_getc u = Some (0xFF, u)"
    using fifo_get_empty [OF assms] by (simp add: shell_uart_getc_def)
  ultimately show ?thesis
    by (simp add: shell_servise_uart_def)
qed

lemma arrive_one:
  assumes "fifo_ok (ua_fifo u)" "fifo_queue (ua_fifo u) = []"
  obtains f where "fifo_ok f" "fifo_queue f = [b]"
    "shell_polls io cmds (Arrive [b] # evs) l (u, h) = shell_polls io cmds evs l (u\<lparr>ua_fifo := f\<rparr>, h)"
proof -
  obtain f where "fifo_put b (ua_fifo u) = Some f" "fifo_ok f" "fifo_queue f = [b]"
    using fifo_put_queue [OF assms(1), where c = b] assms(2) by (auto simp: enq_drop_def)
  then show thesis
    using that [of f] by simp
qed

text \<open>One byte that arrives and is read.\<close>

lemma arrive_poll:
  assumes "fifo_ok (ua_fifo u)" "fifo_queue (ua_fifo u) = []"
  obtains f where "fifo_ok f" "fifo_queue f = []"
    "shell_polls io cmds (Arrive [b] # Take # evs) l (u, h) = do {
       (l, w) \<leftarrow> console_input_char (uart_pc io) cmds b l (u\<lparr>ua_fifo := f\<rparr>, h);
       shell_polls io cmds evs l w
     }"
proof -
  obtain f1 where f1: "fifo_ok f1" "fifo_queue f1 = [b]"
    "shell_polls io cmds (Arrive [b] # Take # evs) l (u, h) = shell_polls io cmds (Take # evs) l (u\<lparr>ua_fifo := f1\<rparr>, h)"
    using arrive_one [OF assms, of b io cmds "Take # evs" l h] by blast
  obtain f where "fifo_ok f" "fifo_queue f = []"
    "shell_servise_uart io cmds l (u\<lparr>ua_fifo := f1\<rparr>, h)
      = console_input_char (uart_pc io) cmds b l (u\<lparr>ua_fifo := f1\<rparr>\<lparr>ua_fifo := f\<rparr>, h)"
    using shell_servise_uart_char [of "u\<lparr>ua_fifo := f1\<rparr>" b "[]" io cmds l h] f1(1,2) by auto
  then show thesis
    using that [of f] f1(3) by simp
qed

lemma idle_poll:
  "fifo_ok (ua_fifo u) \<Longrightarrow> fifo_queue (ua_fifo u) = [] \<Longrightarrow>
   shell_polls io cmds (Take # evs) l (u, h) = do {
     (l, w) \<leftarrow> console_input_char (uart_pc io) cmds 0xFF l (u, h);
     shell_polls io cmds evs l w
   }"
  by (simp add: shell_servise_uart_idle)

lemma typed_key:
  assumes "plain l" "printable c" "ed_right (editor_of l) = []" "length (ed_left (editor_of l)) + 1 < CMD_BUF_SIZE"
  obtains l' where "console_input_char pc cmds c l s = Some (l', pc c s)" "plain l'"
    "editor_of l' = (editor_of l)\<lparr>ed_left := ed_left (editor_of l) @ [c]\<rparr>"
  using feed_typed [of l "[c]" pc cmds s] assms
  by (auto simp: puts_def bind_eq_Some_conv split: option.splits)

lemma arrow_together:
  fixes io :: "'h mmio" and h :: 'h
  assumes "plain l" "fifo_ok (ua_fifo u)" "fifo_queue (ua_fifo u) = []"
  shows "\<exists>l' w'. shell_polls io cmds [Arrive [ESC, 0x5B, 0x41], Take, Take, Take] l (u, h) = Some (l', w') \<and>
    plain l' \<and> ed_key Key_up (editor_of l) = Some (editor_of l')"
proof -
  have norm: "sh_state l = STATE_NORMAL"
    using assms(1) by (simp add: plain_def)
  obtain f0 where f0: "fifo_puts fifo_put [ESC, 0x5B, 0x41] (ua_fifo u) = Some f0" "fifo_ok f0"
    "fifo_queue f0 = [ESC, 0x5B, 0x41]"
    using soft_fifo.puts_queue [OF assms(2), of "[ESC, 0x5B, 0x41]"] assms(3) by (auto simp: keep_last_def)
  let ?u = "\<lambda>f. u\<lparr>ua_fifo := f\<rparr>" and ?pc = "uart_pc io"
  let ?l1 = "l\<lparr>sh_state := STATE_ESC_RECEIVED\<rparr>" and ?l2 = "l\<lparr>sh_state := STATE_BRACKET_RECEIVED\<rparr>"
  obtain f1 where f1: "fifo_ok f1" "fifo_queue f1 = [0x5B, 0x41]"
    "shell_servise_uart io cmds l (?u f0, h) = console_input_char ?pc cmds ESC l (?u f1, h)"
    using shell_servise_uart_char [of "?u f0" ESC "[0x5B, 0x41]" io cmds l h] f0(2,3) by auto
  obtain f2 where f2: "fifo_ok f2" "fifo_queue f2 = [0x41]"
    "shell_servise_uart io cmds ?l1 (?u f1, h) = console_input_char ?pc cmds 0x5B ?l1 (?u f2, h)"
    using shell_servise_uart_char [of "?u f1" "0x5B" "[0x41]" io cmds ?l1 h] f1(1,2) by auto
  obtain f3 where f3: "shell_servise_uart io cmds ?l2 (?u f2, h) = console_input_char ?pc cmds 0x41 ?l2 (?u f3, h)"
    using shell_servise_uart_char [of "?u f2" "0x41" "[]" io cmds ?l2 h] f2(1,2) by auto
  have "shell_polls io cmds [Arrive [ESC, 0x5B, 0x41], Take, Take, Take] l (u, h)
      = feed ?pc cmds [ESC, 0x5B, 0x41] l (?u f3, h)"
    using f0(1) f1(3) f2(3) f3 norm
    by (cases "console_input_char ?pc cmds 0x41 ?l2 (?u f3, h)") (auto simp: console_input_char_def)
  moreover have "key_effect (feed ?pc cmds [ESC, 0x5B, 0x41] l (?u f3, h)) (ed_key Key_up (editor_of l))"
    by (rule feed_up [OF assms(1)])
  moreover have "ed_key Key_up (editor_of l) \<noteq> None"
    by simp
  ultimately show ?thesis
    unfolding key_effect_def by (auto split: option.splits simp del: ed_key.simps)
qed

lemma arrow_apart:
  fixes io :: "'h mmio" and h :: 'h
  assumes "plain l" "ed_right (editor_of l) = []" "length (ed_left (editor_of l)) + 2 < CMD_BUF_SIZE"
    and "fifo_ok (ua_fifo u)" "fifo_queue (ua_fifo u) = []"
  shows "\<exists>l' w'. shell_polls io cmds [Arrive [ESC], Take, Take, Arrive [0x5B], Take, Arrive [0x41], Take] l (u, h)
      = Some (l', w') \<and> plain l' \<and>
      editor_of l' = (editor_of l)\<lparr>ed_left := ed_left (editor_of l) @ [0x5B, 0x41]\<rparr>"
proof -
  have norm: "sh_state l = STATE_NORMAL"
    using assms(1) by (simp add: plain_def)
  let ?pc = "uart_pc io" and ?u = "\<lambda>f. u\<lparr>ua_fifo := f\<rparr>"
  have p: "printable 0x5B" "printable 0x41"
    by (simp_all add: printable_def)
  let ?e1 = "[Take, Arrive [0x5B], Take, Arrive [0x41], Take]"
  obtain f1 where f1: "fifo_ok f1" "fifo_queue f1 = []"
    "shell_polls io cmds (Arrive [ESC] # Take # ?e1) l (u, h) = do {
       (l, w) \<leftarrow> console_input_char ?pc cmds ESC l (?u f1, h);
       shell_polls io cmds ?e1 l w }"
    by (rule arrive_poll [OF assms(4,5), where b = ESC and io = io and cmds = cmds and evs = ?e1 and l = l and h = h])
  have esc: "console_input_char ?pc cmds ESC l (?u f1, h) = Some (l\<lparr>sh_state := STATE_ESC_RECEIVED\<rparr>, ?u f1, h)"
    using norm by (simp add: console_input_char_def)
  have idle: "console_input_char ?pc cmds 0xFF (l\<lparr>sh_state := STATE_ESC_RECEIVED\<rparr>) (?u f1, h) = Some (l, ?u f1, h)"
    using norm by (cases l) (simp add: console_input_char_def)
  let ?e2 = "[Arrive [0x41], Take]"
  have u1: "fifo_ok (ua_fifo (?u f1))" "fifo_queue (ua_fifo (?u f1)) = []"
    using f1 by simp_all
  have first: "shell_polls io cmds (Arrive [ESC] # Take # ?e1) l (u, h)
      = shell_polls io cmds (Arrive [0x5B] # Take # ?e2) l (?u f1, h)"
    using f1(3) esc idle_poll [OF u1, of io cmds "Arrive [0x5B] # Take # ?e2"] idle by simp
  obtain f2 where f2: "fifo_ok f2" "fifo_queue f2 = []"
    "shell_polls io cmds (Arrive [0x5B] # Take # ?e2) l (?u f1, h) = do {
       (l, w) \<leftarrow> console_input_char ?pc cmds 0x5B l (?u f1\<lparr>ua_fifo := f2\<rparr>, h);
       shell_polls io cmds ?e2 l w }"
    by (rule arrive_poll [OF u1, where b = "0x5B" and io = io and cmds = cmds and evs = ?e2 and l = l and h = h])
  obtain l2 where l2: "console_input_char ?pc cmds 0x5B l (?u f1\<lparr>ua_fifo := f2\<rparr>, h)
      = Some (l2, ?pc 0x5B (?u f1\<lparr>ua_fifo := f2\<rparr>, h))" "plain l2"
    "editor_of l2 = (editor_of l)\<lparr>ed_left := ed_left (editor_of l) @ [0x5B]\<rparr>"
    using typed_key [OF assms(1) p(1) assms(2), of ?pc cmds "(?u f1\<lparr>ua_fifo := f2\<rparr>, h)"] assms(3) by auto
  define h2 where "h2 = snd (?pc 0x5B (?u f1\<lparr>ua_fifo := f2\<rparr>, h))"
  have w2: "?pc 0x5B (?u f1\<lparr>ua_fifo := f2\<rparr>, h) = (?u f2, h2)"
    by (simp add: h2_def uart_pc_def)
  have u2: "fifo_ok (ua_fifo (?u f2))" "fifo_queue (ua_fifo (?u f2)) = []"
    using f2 by simp_all
  obtain f3 where f3: "shell_polls io cmds (Arrive [0x41] # Take # []) l2 (?u f2, h2) = do {
       (l, w) \<leftarrow> console_input_char ?pc cmds 0x41 l2 (?u f2\<lparr>ua_fifo := f3\<rparr>, h2);
       shell_polls io cmds [] l w }"
    by (rule arrive_poll [OF u2, where b = "0x41" and io = io and cmds = cmds and evs = "[]" and l = l2 and h = h2])
  obtain l3 where l3: "console_input_char ?pc cmds 0x41 l2 (?u f2\<lparr>ua_fifo := f3\<rparr>, h2)
      = Some (l3, ?pc 0x41 (?u f2\<lparr>ua_fifo := f3\<rparr>, h2))" "plain l3"
    "editor_of l3 = (editor_of l2)\<lparr>ed_left := ed_left (editor_of l2) @ [0x41]\<rparr>"
    using typed_key [OF l2(2) p(2), of ?pc cmds "(?u f2\<lparr>ua_fifo := f3\<rparr>, h2)"] assms(2,3) l2(3) by auto
  show ?thesis
    using first f2(3) l2 w2 f3 l3 by simp
qed

text \<open>C38: an idle poll breaks an arrow key.  \<^verbatim>\<open>char\<close> is unsigned on the target, so the -1 that the port of
  the shell returns for an empty FIFO is the byte \<open>0xFF\<close>, and \<^verbatim>\<open>shell_servise\<close> passes it on.  When the
  three bytes of the up arrow are in the FIFO together, three polls browse the history.  When the
  FIFO is polled once while only the first has arrived, the escape sequence is dropped and the two
  other bytes are typed into the line.\<close>

theorem shell_idle_poll_breaks_arrow:
  fixes io :: "'h mmio" and h :: 'h
  assumes "plain l" "ed_right (editor_of l) = []" "length (ed_left (editor_of l)) + 2 < CMD_BUF_SIZE"
    and "fifo_ok (ua_fifo u)" "fifo_queue (ua_fifo u) = []"
  shows "(\<exists>l' w'. shell_polls io cmds [Arrive [ESC, 0x5B, 0x41], Take, Take, Take] l (u, h) = Some (l', w') \<and>
      plain l' \<and> ed_key Key_up (editor_of l) = Some (editor_of l')) \<and>
    (\<exists>l' w'. shell_polls io cmds [Arrive [ESC], Take, Take, Arrive [0x5B], Take, Arrive [0x41], Take] l (u, h)
      = Some (l', w') \<and> plain l' \<and>
      editor_of l' = (editor_of l)\<lparr>ed_left := ed_left (editor_of l) @ [0x5B, 0x41]\<rparr>)"
  by (intro conjI arrow_together [OF assms(1,4,5)] arrow_apart [OF assms])

lemma shell_idle_poll_breaks_arrow_witness:
  "\<exists>l' w'. shell_polls list_uart [] [Arrive [ESC], Take, Take, Arrive [0x5B], Take, Arrive [0x41], Take]
      shell_line_init (uart0, []) = Some (l', w') \<and> plain l' \<and>
    editor_of l' = \<lparr>ed_left = [0x5B, 0x41], ed_right = [], ed_hist = [], ed_cur = 0\<rparr>"
  using shell_idle_poll_breaks_arrow [OF plain_init(1) _ _ uart0_ok, of list_uart "[]" "[]"]
  by (simp add: plain_init(2) CMD_BUF_SIZE_def)

end
