(* ===== verification/Mmu.thy ===== *)
theory Mmu
  imports HG_Prelude
begin

text \<open>
  The page table of \<^verbatim>\<open>libcpu/mmu.c\<close> and the regions of \<^verbatim>\<open>application/board.c\<close>.  The table has one word for
  each MiB of the address space; a store outside it is \<^term>\<open>None\<close>.
\<close>

section \<open>Attributes\<close>

definition DESC_SEC :: u32 where "DESC_SEC = 0x2"
definition MEMWBWA :: u32 where "MEMWBWA = push_bit 12 1 OR push_bit 2 3"
definition SHAREDEVICE :: u32 where "SHAREDEVICE = push_bit 2 1"
definition XN :: u32 where "XN = push_bit 4 1"
definition AP_RW :: u32 where "AP_RW = push_bit 10 3"
definition SHARED :: u32 where "SHARED = push_bit 16 1"
definition DOMAIN0 :: u32 where "DOMAIN0 = push_bit 5 0"
definition DEVICE_MEM :: u32 where "DEVICE_MEM = SHARED OR AP_RW OR DOMAIN0 OR SHAREDEVICE OR DESC_SEC OR XN"
definition NORMAL_MEM :: u32 where "NORMAL_MEM = SHARED OR AP_RW OR DOMAIN0 OR MEMWBWA OR DESC_SEC"

lemmas mem_attrs = DESC_SEC_def MEMWBWA_def SHAREDEVICE_def XN_def AP_RW_def SHARED_def DOMAIN0_def
  DEVICE_MEM_def NORMAL_MEM_def

record mem_desc =
  vaddr_start :: u32
  vaddr_end :: u32
  paddr_start :: u32
  md_attr :: u32

definition platform_mem_desc :: "mem_desc list" where
  "platform_mem_desc =
     [\<lparr>vaddr_start = 0x00000000, vaddr_end = 0x00007FFF, paddr_start = 0x00000000, md_attr = DEVICE_MEM\<rparr>,
      \<lparr>vaddr_start = 0x02000000, vaddr_end = 0x04FFFFFF, paddr_start = 0x02000000, md_attr = DEVICE_MEM\<rparr>,
      \<lparr>vaddr_start = 0x40000000, vaddr_end = 0x4FFFFFFF, paddr_start = 0x40000000, md_attr = NORMAL_MEM\<rparr>]"

definition platform_mem_desc_size :: nat where
  "platform_mem_desc_size = length platform_mem_desc"

section \<open>Filling the table\<close>

fun mtt_loop :: "nat \<Rightarrow> nat \<Rightarrow> u32 \<Rightarrow> u32 \<Rightarrow> u32 \<Rightarrow> u32 list \<Rightarrow> u32 list option" where
  "mtt_loop 0 p i attr base T = Some T"
| "mtt_loop (Suc k) p i attr base T =
     (if p < length T then mtt_loop k (Suc p) (i + 1) attr base (T[p := attr OR push_bit 20 (base + i)]) else None)"

definition mmu_setmtt :: "u32 \<Rightarrow> u32 \<Rightarrow> u32 \<Rightarrow> u32 \<Rightarrow> u32 list \<Rightarrow> u32 list option" where
  "mmu_setmtt vaddrStart vaddrEnd paddrStart attr T =
     (let pTT = unat (drop_bit 20 vaddrStart);
          nSec = sint (drop_bit 20 vaddrEnd - drop_bit 20 vaddrStart)
      in mtt_loop (nat (nSec + 1)) pTT 0 attr (drop_bit 20 paddrStart) T)"

fun init_mmu_table :: "mem_desc list \<Rightarrow> nat \<Rightarrow> u32 list \<Rightarrow> u32 list option" where
  "init_mmu_table mdesc 0 T = Some T"
| "init_mmu_table [] (Suc n) T = None"
| "init_mmu_table (d # mdesc) (Suc n) T = do {
     T \<leftarrow> mmu_setmtt (vaddr_start d) (vaddr_end d) (paddr_start d) (md_attr d) T;
     init_mmu_table mdesc n T
   }"

section \<open>What the table translates\<close>

text \<open>
  How the processor reads a first-level table of sections: the entry of the MiB gives the physical
  base and the attributes, an entry without the section type faults.
\<close>

definition section_walk :: "u32 list \<Rightarrow> u32 \<Rightarrow> (u32 \<times> u32) option" where
  "section_walk T va =
     (let e = T ! unat (drop_bit 20 va)
      in if e AND 3 = DESC_SEC then Some ((e AND 0xFFF00000) OR (va AND 0xFFFFF), e AND 0xFFFFF) else None)"

lemma mtt_loop_entries:
  "p + k \<le> length T \<Longrightarrow>
   \<exists>T'. mtt_loop k p i attr base T = Some T' \<and> length T' = length T \<and>
     (\<forall>j < length T. T' ! j = (if p \<le> j \<and> j < p + k then attr OR push_bit 20 (base + i + of_nat (j - p)) else T ! j))"
proof (induction k arbitrary: p i T)
  case (Suc k)
  let ?T = "T[p := attr OR push_bit 20 (base + i)]"
  obtain T' where T': "mtt_loop k (Suc p) (i + 1) attr base ?T = Some T'" "length T' = length T"
    "\<forall>j < length T. T' ! j = (if Suc p \<le> j \<and> j < Suc p + k
       then attr OR push_bit 20 (base + (i + 1) + of_nat (j - Suc p)) else ?T ! j)"
    using Suc.IH [of "Suc p" ?T "i + 1"] Suc.prems by auto
  have "T' ! j = (if p \<le> j \<and> j < p + Suc k then attr OR push_bit 20 (base + i + of_nat (j - p)) else T ! j)"
    if "j < length T" for j
  proof (cases "Suc p \<le> j")
    case True
    then have "j - p = Suc (j - Suc p)"
      by simp
    then have "(of_nat (j - p) :: u32) = 1 + of_nat (j - Suc p)"
      by (simp only: of_nat_Suc)
    then show ?thesis
      using T'(3) that True by (auto simp: ac_simps)
  next
    case False
    then show ?thesis
      using T'(3) that Suc.prems by (cases "j = p") auto
  qed
  then show ?case
    using T'(1,2) Suc.prems by auto
qed auto

text \<open>The entry of the k-th MiB after the set-up.\<close>

definition platform_entry :: "nat \<Rightarrow> u32" where
  "platform_entry k = (if k = 0 \<or> 0x20 \<le> k \<and> k < 0x50 then DEVICE_MEM OR push_bit 20 (of_nat k)
     else if 0x400 \<le> k \<and> k < 0x500 then NORMAL_MEM OR push_bit 20 (of_nat k) else 0)"

lemma platform_table:
  "\<exists>T. init_mmu_table platform_mem_desc platform_mem_desc_size (replicate 4096 0) = Some T \<and> length T = 4096 \<and>
     (\<forall>k < 4096. T ! k = platform_entry k)"
proof -
  obtain T1 where T1: "mtt_loop 1 0 0 DEVICE_MEM 0 (replicate 4096 0) = Some T1" "length T1 = 4096"
    "\<forall>j < 4096. T1 ! j = (if j < 1 then DEVICE_MEM OR push_bit 20 (of_nat j) else 0)"
    using mtt_loop_entries [of 0 1 "replicate 4096 0" 0 DEVICE_MEM 0] by auto
  obtain T2 where T2: "mtt_loop 0x30 0x20 0 DEVICE_MEM 0x20 T1 = Some T2" "length T2 = 4096"
    "\<forall>j < 4096. T2 ! j = (if 0x20 \<le> j \<and> j < 0x50 then DEVICE_MEM OR push_bit 20 (0x20 + of_nat (j - 0x20)) else T1 ! j)"
    using mtt_loop_entries [of "0x20" "0x30" T1 0 DEVICE_MEM "0x20"] T1(2) by auto
  obtain T3 where T3: "mtt_loop 0x100 0x400 0 NORMAL_MEM 0x400 T2 = Some T3" "length T3 = 4096"
    "\<forall>j < 4096. T3 ! j = (if 0x400 \<le> j \<and> j < 0x500 then NORMAL_MEM OR push_bit 20 (0x400 + of_nat (j - 0x400)) else T2 ! j)"
    using mtt_loop_entries [of "0x400" "0x100" T2 0 NORMAL_MEM "0x400"] T2(2) by auto
  have "init_mmu_table platform_mem_desc platform_mem_desc_size (replicate 4096 0) = Some T3"
    using T1(1) T2(1) T3(1)
    by (simp add: platform_mem_desc_size_def platform_mem_desc_def mmu_setmtt_def)
  moreover have "T3 ! k = platform_entry k" if "k < 4096" for k
  proof -
    have "0x20 \<le> k \<Longrightarrow> (0x20 + of_nat (k - 0x20) :: u32) = of_nat k"
      "0x400 \<le> k \<Longrightarrow> (0x400 + of_nat (k - 0x400) :: u32) = of_nat k"
      by (simp_all add: of_nat_diff)
    then show ?thesis
      using T1(3) T2(3) T3(3) that by (auto simp: platform_entry_def)
  qed
  ultimately show ?thesis
    using T3(2) by blast
qed

lemma section_entry:
  fixes k :: u32
  assumes "attr AND 0xFFF00000 = 0"
  shows "(attr OR push_bit 20 k) AND 0xFFF00000 = push_bit 20 k" "(attr OR push_bit 20 k) AND 0xFFFFF = attr"
    "(attr OR push_bit 20 k) AND 3 = attr AND 3"
proof -
  have top: "(0xFFF00000 :: u32) = NOT (mask 20)" and low: "(0xFFFFF :: u32) = mask 20" and two: "(3 :: u32) = mask 2"
    by (simp_all add: mask_eq_exp_minus_1)
  have attr: "\<not> bit attr n" if "20 \<le> n" for n
  proof
    assume b: "bit attr n"
    then have "bit (attr AND NOT (mask 20)) n"
      using that bit_u32_lt [OF b] by (simp add: bit_simps)
    then show False
      using assms by (simp add: top)
  qed
  have lt: "bit attr n \<Longrightarrow> n < 20" for n
    using attr [of n] by (rule_tac ccontr) simp
  show "(attr OR push_bit 20 k) AND 0xFFF00000 = push_bit 20 k"
    unfolding top by (rule bit_word_eqI) (auto simp: bit_simps dest: lt)
  show "(attr OR push_bit 20 k) AND 0xFFFFF = attr"
    unfolding low by (rule bit_word_eqI) (auto simp: bit_simps dest: lt)
  show "(attr OR push_bit 20 k) AND 3 = attr AND 3"
    unfolding two by (rule bit_word_eqI) (auto simp: bit_simps)
qed

lemma rejoin: "push_bit 20 (drop_bit 20 va) OR (va AND 0xFFFFF) = (va :: u32)"
proof -
  have low: "(0xFFFFF :: u32) = mask 20"
    by (simp add: mask_eq_exp_minus_1)
  show ?thesis
    unfolding low by (rule bit_word_eqI) (auto simp: bit_simps)
qed

text \<open>C19: the page table of the board is an identity map of three regions.  \<^verbatim>\<open>init_mmu_table\<close> stays inside the
  table and returns, and afterwards every virtual address either translates to itself or faults: the
  first MiB and the peripherals from 0x02000000 to 0x04FFFFFF as device memory that cannot be
  executed, the DRAM from 0x40000000 to 0x4FFFFFFF as normal memory, nothing else.  (The first region
  is described as the 32 KiB of SRAM A1, but sections map the whole MiB.)\<close>

theorem mmu_identity_map:
  "\<exists>T. init_mmu_table platform_mem_desc platform_mem_desc_size (replicate 4096 0) = Some T \<and> length T = 4096 \<and>
    (\<forall>va. section_walk T va =
      (if va < 0x00100000 \<or> (0x02000000 \<le> va \<and> va < 0x05000000) then Some (va, DEVICE_MEM)
       else if 0x40000000 \<le> va \<and> va < 0x50000000 then Some (va, NORMAL_MEM) else None))"
proof -
  obtain T where T: "init_mmu_table platform_mem_desc platform_mem_desc_size (replicate 4096 0) = Some T"
    "length T = 4096" "\<forall>k < 4096. T ! k = platform_entry k"
    using platform_table by blast
  have "section_walk T va =
      (if va < 0x00100000 \<or> (0x02000000 \<le> va \<and> va < 0x05000000) then Some (va, DEVICE_MEM)
       else if 0x40000000 \<le> va \<and> va < 0x50000000 then Some (va, NORMAL_MEM) else None)" for va
  proof -
    define k where "k = unat (drop_bit 20 va)"
    have kv: "k = unat va div 2 ^ 20"
      by (simp only: k_def unat_drop_bit_eq) (simp add: drop_bit_eq_div)
    have "unat va < 2 ^ 32"
      using unsigned_less [of va] by simp
    then have "k < 4096"
      by (simp add: kv less_mult_imp_div_less)
    then have e: "T ! k = platform_entry k"
      using T(3) by blast
    have w: "of_nat k = drop_bit 20 va"
      by (simp add: k_def)
    have r1: "va < 0x00100000 \<longleftrightarrow> k = 0" "0x02000000 \<le> va \<and> va < 0x05000000 \<longleftrightarrow> 0x20 \<le> k \<and> k < 0x50"
      "0x40000000 \<le> va \<and> va < 0x50000000 \<longleftrightarrow> 0x400 \<le> k \<and> k < 0x500"
      by (simp_all add: kv word_less_nat_alt word_le_nat_alt; arith)+
    have attrs: "DEVICE_MEM AND 0xFFF00000 = 0" "NORMAL_MEM AND 0xFFF00000 = 0"
      "DEVICE_MEM AND 3 = DESC_SEC" "NORMAL_MEM AND 3 = DESC_SEC"
      by (simp_all add: mem_attrs)
    note dev = section_entry [OF attrs(1), of "drop_bit 20 va"] and nor = section_entry [OF attrs(2), of "drop_bit 20 va"]
    show ?thesis
      unfolding section_walk_def k_def [symmetric] e r1 Let_def
      by (auto simp: platform_entry_def w dev nor attrs rejoin DESC_SEC_def)
  qed
  with T show ?thesis
    by blast
qed

end
