(* ===== verification/Partition_Cmd.thy ===== *)
theory Partition_Cmd
  imports Nand_Port Shell
begin

text \<open>
  The shell command of the partition device in \<^verbatim>\<open>boards/port/partition_port.c\<close> and the end of its
  registration.  The world \<open>'s\<close> holds the storage behind the device operations and the terminal
  behind \<^verbatim>\<open>putchar\<close>.

  The local variables \<^verbatim>\<open>offset\<close> and \<^verbatim>\<open>len\<close> of the command have no initial value, and the code goes
  on after a number it could not read; their values at that point are the parameters \<open>off0\<close> and
  \<open>len0\<close>, the bytes of the local buffer are \<open>buf\<close>.
\<close>

section \<open>The command\<close>

text \<open>
  With the log level of \<^verbatim>\<open>partition.h\<close>, \<^verbatim>\<open>PARTITION_LOG_ERROR\<close>, the macro \<^verbatim>\<open>PART_INFO\<close> expands to
  nothing: the header lines vanish and the loop over the table has an empty body.
\<close>

definition PARTITION_LOG_ERROR :: nat where "PARTITION_LOG_ERROR = 1"
definition PARTITION_LOG_INFO :: nat where "PARTITION_LOG_INFO = 3"
definition PARTITION_LOG_LEVEL :: nat where "PARTITION_LOG_LEVEL = PARTITION_LOG_ERROR"

definition part_info :: "(u8 \<Rightarrow> 's \<Rightarrow> 's) option \<Rightarrow> string \<Rightarrow> xarg list \<Rightarrow> 's \<Rightarrow> 's option" where
  "part_info port fmt args s =
     (if PARTITION_LOG_LEVEL \<ge> PARTITION_LOG_INFO
      then do { s \<leftarrow> s_printf port ''[I]'' [] s; s_printf port fmt args s }
      else Some s)"

fun show_partitions :: "(u8 \<Rightarrow> 's \<Rightarrow> 's) option \<Rightarrow> part_tables \<Rightarrow> part_entry list \<Rightarrow> 's \<Rightarrow> 's option" where
  "show_partitions port T [] s = Some s"
| "show_partitions port T (p # ps) s = do {
     s \<leftarrow> part_info port (''| %-16s | 0x%08x | 0x%08x | %-16s |'' @ CRLF)
           [fmt_str (pt_name p), Arg_int (pt_start p), Arg_int (pt_size p),
            Arg_str (map_option pd_name (dev_deref T (pt_dev p)))] s;
     show_partitions port T ps s
   }"

definition show_partition_info :: "(u8 \<Rightarrow> 's \<Rightarrow> 's) option \<Rightarrow> part_tables \<Rightarrow> 's \<Rightarrow> 's option" where
  "show_partition_info port T s = do {
     s \<leftarrow> part_info port (CRLF @ ''partition info : '' @ CRLF) [] s;
     s \<leftarrow> part_info port (''| name             | start      | size       | device           |'' @ CRLF) [] s;
     s \<leftarrow> part_info port (''| ---------------- | ---------- | ---------- | ---------------- |'' @ CRLF) [] s;
     show_partitions port T (take (unat (part_num T)) (part_table T)) s
   }"


fun print_bytes :: "(u8 \<Rightarrow> 's \<Rightarrow> 's) option \<Rightarrow> u8 list \<Rightarrow> 's \<Rightarrow> 's option" where
  "print_bytes port [] s = Some s"
| "print_bytes port (b # bs) s = do {
     s \<leftarrow> s_printf port ''%02x '' [Arg_int (ucast b)] s;
     print_bytes port bs s
   }"

text \<open>
  The loop of \<^verbatim>\<open>partition read\<close>.  The second branch clears \<^verbatim>\<open>len\<close> before the loop that prints
  \<^verbatim>\<open>len\<close> bytes.
\<close>

partial_function (option) dump_loop ::
  "(u8 \<Rightarrow> 's \<Rightarrow> 's) option \<Rightarrow> 's ops_env \<Rightarrow> part_tables \<Rightarrow> u8 list \<Rightarrow> u8 list \<Rightarrow> u32 \<Rightarrow> u32 \<Rightarrow> 's \<Rightarrow>
    (u32 \<times> 's) option" where
  "dump_loop port E T part_name buf offset len s =
     (if len = 0 then Some (0, s)
      else if len \<ge> 16 then do {
        (ret, bs, s) \<leftarrow> partition_read E T (Some (str_of part_name)) False offset 16 s;
        if ret \<noteq> 0 then do {
          s \<leftarrow> s_printf port (''read patition %s offset %d err.'' @ CRLF) [fmt_str part_name, Arg_int offset] s;
          Some (-1, s)
        } else do {
          let buf = overlay bs buf;
          s \<leftarrow> print_bytes port (take 16 buf) s;
          s \<leftarrow> s_printf port CRLF [] s;
          dump_loop port E T part_name buf (offset + 16) (len - 16) s
        }
      } else do {
        (ret, bs, s) \<leftarrow> partition_read E T (Some (str_of part_name)) False offset len s;
        if ret \<noteq> 0 then do {
          s \<leftarrow> s_printf port (''read patition %s offset %d err.'' @ CRLF) [fmt_str part_name, Arg_int offset] s;
          Some (-1, s)
        } else do {
          let buf = overlay bs buf;
          s \<leftarrow> print_bytes port (take 0 buf) s;
          s \<leftarrow> s_printf port CRLF [] s;
          dump_loop port E T part_name buf offset 0 s
        }
      })"

text \<open>A number that cannot be read leaves the variable as it was.\<close>

definition read_number :: "(u8 \<Rightarrow> 's \<Rightarrow> 's) option \<Rightarrow> string \<Rightarrow> u8 list \<Rightarrow> u32 \<Rightarrow> 's \<Rightarrow> (u32 \<times> 's) option" where
  "read_number port fmt arg old s = do {
     (ret, val) \<leftarrow> xstrtol arg;
     s \<leftarrow> (if ret \<noteq> 0 then s_printf port fmt [fmt_str arg] s else Some s);
     Some (case val of None \<Rightarrow> old | Some v \<Rightarrow> v, s)
   }"

definition partiton_func ::
  "(u8 \<Rightarrow> 's \<Rightarrow> 's) option \<Rightarrow> 's ops_env \<Rightarrow> part_tables \<Rightarrow> u8 list \<Rightarrow> u32 \<Rightarrow> u32 \<Rightarrow> u8 list list \<Rightarrow> 's \<Rightarrow>
    (u32 \<times> 's) option" where
  "partiton_func port E T buf off0 len0 argv s =
     (if length argv < 2 then map_option (\<lambda>s. (0, s)) (show_partition_info port T s)
      else do {
        r \<leftarrow> xstrncmp (argv ! 1) (cstr ''help'' @ [0]) 5;
        s \<leftarrow> (if r = 0 then do {
            s \<leftarrow> s_printf port (''Usage: '' @ CRLF) [] s;
            s \<leftarrow> s_printf port ('' show help info     - help '' @ CRLF) [] s;
            s_printf port ('' read partiton data - read <partition name> <offset> <len>'' @ CRLF) [] s
          } else Some s);
        r \<leftarrow> xstrncmp (argv ! 1) (cstr ''read'' @ [0]) 5;
        if r \<noteq> 0 then Some (0, s)
        else if length argv < 5 then do {
          s \<leftarrow> s_printf port (''Usage : '' @ CRLF) [] s;
          s \<leftarrow> s_printf port (''partition read <partition name> <offset> <len>'' @ CRLF) [] s;
          Some (0, s)
        } else do {
          (offset, s) \<leftarrow> read_number port (''Invalid offset: %s'' @ CRLF) (argv ! 3) off0 s;
          (len, s) \<leftarrow> read_number port (''Invalid len: %s'' @ CRLF) (argv ! 4) len0 s;
          dump_loop port E T (argv ! 2) buf offset len s
        }
      })"

definition partition_cmd ::
  "(u8 \<Rightarrow> 's \<Rightarrow> 's) option \<Rightarrow> 's ops_env \<Rightarrow> part_tables \<Rightarrow> u8 list \<Rightarrow> u32 \<Rightarrow> u32 \<Rightarrow> 's shell_command" where
  "partition_cmd port E T buf off0 len0 =
     Shell_Command 4 (cstr ''partition'' @ [0]) (cstr ''partiton options'' @ [0])
       (\<lambda>names argv. partiton_func port E T buf off0 len0 argv)"

section \<open>Registration\<close>

text \<open>The tables it leaves behind are those the command reads when it runs.\<close>

definition partition_nand_register ::
  "(u8 \<Rightarrow> 's \<Rightarrow> 's) option \<Rightarrow> 's ops_env \<Rightarrow> u8 list \<Rightarrow> u32 \<Rightarrow> u32 \<Rightarrow> u32 \<Rightarrow> spi_nand_info \<Rightarrow> part_tables \<Rightarrow>
    's shell_command list \<Rightarrow> 's \<Rightarrow> (int \<times> part_tables \<times> 's shell_command list \<times> 's) option" where
  "partition_nand_register port E buf off0 len0 ops info T cmds s =
     (case nand_register_tables ops info T of
        (ret, T) \<Rightarrow>
          if ret \<noteq> 0 then Some (-1, T, cmds, s)
          else do {
            s \<leftarrow> show_partition_info port T s;
            Some (0, T, shell_register_command (partition_cmd port E T buf off0 len0) cmds, s)
          })"

end
