(* ===== verification/Partition_Cmd_Facts.thy ===== *)
theory Partition_Cmd_Facts
  imports Partition_Cmd Shell_Facts Xformat_Facts Partition_Facts
begin

text \<open>
  What the shell command \<^verbatim>\<open>partition read\<close> prints.
\<close>

definition hex2 :: "u8 \<Rightarrow> u8 list" where
  "hex2 b = (let ds = digit_chars False (digits_text 16 (unat b)) in replicate (2 - length ds) 0x30 @ ds)"

definition hex_row :: "u8 list \<Rightarrow> u8 list" where
  "hex_row bs = concat (map (\<lambda>b. hex2 b @ [SP]) bs) @ [CR, LF]"

lemma puts_app: "puts pc (xs @ ys) s = puts pc ys (puts pc xs s)"
  by (simp add: puts_def)

lemma next_states_row:
  "next_state 2 (chr CHR ''2'') = 3" "next_state 7 SP = 0" "next_state 0 CR = 0" "next_state 0 LF = 0"
  by code_simp+

lemmas next_states_row' = next_states_row [simplified]

lemma s_printf_hex2:
  "s_printf (Some pc) ''%02x '' [Arg_int (ucast b)] s = Some (puts pc (hex2 b @ [SP]) s)"
proof -
  let ?p = "at_field xf_frame [] 0x30 2 3"
  have "prints (?p\<lparr>xf_state := 7\<rparr>) (digit_chars False (digits_text 16 (unat (ucast b :: u32))))
      (xf_type (chr CHR ''x'') (?p\<lparr>xf_state := 7\<rparr>) [Arg_int (ucast b)]) []"
    by (rule xf_type_unsigned [where r = 16]) simp_all
  then obtain p' where p': "xf_type (chr CHR ''x'') (?p\<lparr>xf_state := 7\<rparr>) [Arg_int (ucast b)] = Some (p', [])"
    "xf_sink p' = hex2 b" "xf_state p' = 7"
    by (auto simp: prints_def field_text_def hex2_def Let_def)
  have "xf_loop (cstr ''%02x '' @ [0]) (xf_start xf_frame) [Arg_int (ucast b)]
      = xf_loop [chr CHR ''x'', SP, 0] ?p [Arg_int (ucast b)]"
    by (simp add: xf_run_simps at_field_def next_states' next_states_row' xf_frame_def)
  also have "\<dots> = Some (xf_outchar SP (p'\<lparr>xf_state := 0\<rparr>))"
    using p' by (simp add: xf_step_states next_states' next_states_row')
  finally show ?thesis
    using p' by (simp add: s_printf_def xvformat_def xf_outchar_def)
qed

lemma s_printf_CRLF: "s_printf (Some pc) CRLF [] s = Some (puts pc [CR, LF] s)"
  by (simp add: s_printf_def xvformat_def CRLF_def xf_run_simps next_states' next_states_row' xf_frame_def)

lemma print_bytes_row: "print_bytes (Some pc) bs s = Some (puts pc (concat (map (\<lambda>b. hex2 b @ [SP]) bs)) s)"
  by (induction bs arbitrary: s) (simp_all add: s_printf_hex2 puts_app puts_def)


text \<open>The rows of the dump: a rest of less than 16 bytes leaves only an empty line.\<close>

function dump_text :: "u8 list \<Rightarrow> u8 list" where
  "dump_text bs = (if 16 \<le> length bs then hex_row (take 16 bs) @ dump_text (drop 16 bs)
     else if bs = [] then [] else [CR, LF])"
  by pat_completeness auto
termination
  by (relation "measure length") auto

declare dump_text.simps [simp del]

text \<open>
  A terminal \<open>out\<close> that records what \<open>pc\<close> puts out, and a partition that holds \<open>data\<close>; \<open>P\<close> is the
  state of the storage under which it can be read.
\<close>

definition prints_to :: "('s \<Rightarrow> bool) \<Rightarrow> ('s \<Rightarrow> u8 list) \<Rightarrow> (u8 \<Rightarrow> 's \<Rightarrow> 's) \<Rightarrow> bool" where
  "prints_to P out pc \<longleftrightarrow> (\<forall>c s. P s \<longrightarrow> P (pc c s) \<and> out (pc c s) = out s @ [c])"

definition readable ::
  "('s \<Rightarrow> bool) \<Rightarrow> ('s \<Rightarrow> u8 list) \<Rightarrow> 's ops_env \<Rightarrow> part_tables \<Rightarrow> u8 list \<Rightarrow> u8 list \<Rightarrow> bool" where
  "readable P out E T nm data \<longleftrightarrow>
     (\<forall>s off len. P s \<longrightarrow> unat off + unat len \<le> length data \<longrightarrow>
        (\<exists>s'. partition_read E T (Some nm) False off len s = Some (0, bslice (unat off) (unat len) data, s')
           \<and> P s' \<and> out s' = out s))"

lemma prints_to_puts:
  "prints_to P out pc \<Longrightarrow> P s \<Longrightarrow> P (puts pc cs s) \<and> out (puts pc cs s) = out s @ cs"
  by (induction cs arbitrary: s) (auto simp: prints_to_def puts_def)

lemma dump_text_step:
  assumes "16 \<le> len" "off + len \<le> length data"
  shows "dump_text (bslice off len data)
    = hex_row (bslice off 16 data) @ dump_text (bslice (off + 16) (len - 16) data)"
proof -
  have "bslice off len data = bslice off 16 data @ bslice (off + 16) (len - 16) data"
    using bslice_append [of off 16 "len - 16" data] assms by simp
  then show ?thesis
    using assms by (subst dump_text.simps) (simp add: bslice_def take_append)
qed

lemma dump_loop_row:
  assumes pc: "prints_to P out pc" and rd: "readable P out E T (str_of nm) data"
    and s: "P s" "unat off + unat len \<le> length data" "length buf = 16" "16 \<le> len"
  obtains s' buf' where "P s'" "length buf' = 16" "out s' = out s @ hex_row (bslice (unat off) 16 data)"
    "dump_loop (Some pc) E T nm buf off len s = dump_loop (Some pc) E T nm buf' (off + 16) (len - 16) s'"
proof -
  have l: "16 \<le> unat len"
    using s(4) by (simp add: word_le_nat_alt)
  have rd16: "unat off + unat (16 :: u32) \<le> length data"
    using s(2) l by simp
  obtain s1 where r: "partition_read E T (Some (str_of nm)) False off 16 s
      = Some (0, bslice (unat off) 16 data, s1)" "P s1" "out s1 = out s"
    using rd s(1) rd16 unfolding readable_def by fastforce
  have len16: "length (bslice (unat off) 16 data) = 16"
    using rd16 by simp
  have "dump_loop (Some pc) E T nm buf off len s
      = dump_loop (Some pc) E T nm (bslice (unat off) 16 data) (off + 16) (len - 16)
          (puts pc (hex_row (bslice (unat off) 16 data)) s1)"
    using r(1) s(3,4) l len16
    by (subst dump_loop.simps) (auto simp: print_bytes_row s_printf_CRLF hex_row_def puts_app Let_def)
  then show thesis
    using that prints_to_puts [OF pc r(2)] len16 r(3) by metis
qed

lemma dump_loop_rows:
  assumes pc: "prints_to P out pc" and rd: "readable P out E T (str_of nm) data"
    and small: "length data < 2 ^ 32"
  shows "P s \<Longrightarrow> unat off + unat len \<le> length data \<Longrightarrow> length buf = 16 \<Longrightarrow>
    \<exists>s'. dump_loop (Some pc) E T nm buf off len s = Some (0, s') \<and> P s' \<and>
      out s' = out s @ dump_text (bslice (unat off) (unat len) data)"
proof (induction "unat len" arbitrary: s off len buf rule: less_induct)
  case less
  show ?case
  proof (cases "16 \<le> len")
    case True
    have l: "16 \<le> unat len"
      using True by (simp add: word_le_nat_alt)
    obtain s1 buf1 where d: "P s1" "length buf1 = 16" "out s1 = out s @ hex_row (bslice (unat off) 16 data)"
      "dump_loop (Some pc) E T nm buf off len s = dump_loop (Some pc) E T nm buf1 (off + 16) (len - 16) s1"
      using dump_loop_row [OF pc rd less.prems True] by blast
    have u: "unat (len - 16) = unat len - 16" "unat (off + 16) = unat off + 16"
      using True l less.prems(2) small by (simp_all add: unat_sub_le unat_add_no_wrap)
    show ?thesis
      using less.hyps [of "len - 16" s1 "off + 16" buf1] d u l less.prems
        dump_text_step [OF l less.prems(2)] by auto
  next
    case False
    have l: "unat len < 16"
      using False by (simp add: word_le_nat_alt)
    obtain s1 where r: "partition_read E T (Some (str_of nm)) False off len s
        = Some (0, bslice (unat off) (unat len) data, s1)" "P s1" "out s1 = out s"
      using rd less.prems unfolding readable_def by blast
    show ?thesis
    proof (cases "len = 0")
      case True
      then show ?thesis
        using less.prems by (subst dump_loop.simps) (simp add: dump_text.simps)
    next
      case nz: False
      then have "0 < unat len"
        by (simp add: unat_gt_0)
      then have "dump_text (bslice (unat off) (unat len) data) = [CR, LF]"
        using l less.prems(2) by (subst dump_text.simps) (auto simp: bslice_def)
      moreover have "dump_loop (Some pc) E T nm buf off len s = Some (0, puts pc [CR, LF] s1)"
        using r nz False
        by (subst dump_loop.simps, simp add: s_printf_CRLF, subst dump_loop.simps) simp
      ultimately show ?thesis
        using prints_to_puts [OF pc r(2), of "[CR, LF]"] r(3) by auto
    qed
  qed
qed

section \<open>Property\<close>

text \<open>C40: the shell command \<^verbatim>\<open>partition read NAME OFFSET LEN\<close>.  On a partition that holds \<open>data\<close>, with two
  numbers that \<^verbatim>\<open>xstrtol\<close> accepts and a range inside the data, the command returns 0 and prints
  one row of hexadecimal bytes for every full 16 bytes of the range, in order; of a last chunk of
  less than 16 bytes it prints nothing but an end of line, although it has read it.\<close>

theorem partition_read_command_prints:
  assumes "prints_to P out pc" and "readable P out E T (str_of nm) data" and "length data < 2 ^ 32"
    and "terminated opt" "str_of opt = cstr ''read''"
    and "xstrtol a_off = Some (0, Some off)" "xstrtol a_len = Some (0, Some len)"
    and "P s" "unat off + unat len \<le> length data" "length buf = 16"
  shows "\<exists>s'. partiton_func (Some pc) E T buf off0 len0 [cmd, opt, nm, a_off, a_len] s = Some (0, s') \<and>
    P s' \<and> out s' = out s @ dump_text (bslice (unat off) (unat len) data)"
proof -
  have "\<exists>r. xstrncmp opt (cstr ''help'' @ [0]) 5 = Some r \<and> r \<noteq> 0"
    using xstrncmp_eq_prefix [OF assms(4), of 5 "cstr ''help'' @ [0]"] assms(5) by (auto simp: cstr_def)
  moreover have "xstrncmp opt (cstr ''read'' @ [0]) 5 = Some 0"
    using xstrncmp_eq_prefix [OF assms(4), of 5 "cstr ''read'' @ [0]"] assms(5) by (auto simp: cstr_def)
  moreover obtain s' where "dump_loop (Some pc) E T nm buf off len s = Some (0, s')" "P s'"
    "out s' = out s @ dump_text (bslice (unat off) (unat len) data)"
    using dump_loop_rows [OF assms(1-3,8-10)] by blast
  ultimately show ?thesis
    using assms(6,7) by (auto simp: partiton_func_def read_number_def)
qed

definition demo_data :: "u8 list" where
  "demo_data = map of_nat [100..<120]"

definition demo_env :: "u8 list ops_env" where
  "demo_env = (\<lambda>a. Some \<lparr>op_init = None,
     op_read = Some (\<lambda>addr len s. Some (0, bslice (unat addr - 0x1000) (unat len) demo_data, s)),
     op_write = None, op_erase = None\<rparr>)"

lemma demo_readable: "readable (\<lambda>_. True) (\<lambda>s. s) demo_env demo_three (cstr ''APP2'') demo_data"
  unfolding readable_def
proof (intro allI impI)
  fix s and off len :: u32
  assume le: "unat off + unat len \<le> length demo_data"
  have "unat (0x1000 + off) = 0x1000 + unat off"
    using le by (simp add: unat_add_no_wrap demo_data_def)
  then have off: "unat (0x1000 + off) - 0x1000 = unat off"
    by simp
  obtain d where d: "dev_deref demo_three (pt_dev (part_table demo_three ! 1)) = Some d"
    using demo_deref by blast
  have p: "pt_size (part_table demo_three ! 1) = 0x1000" "pt_start (part_table demo_three ! 1) = 0x1000"
    by (simp_all add: demo_three_def' demo_tables_eq part_tables_init_def demo_entry_def)
  have "off + len \<le> 0x1000"
    using le by (simp add: word_le_nat_alt unat_add_no_wrap demo_data_def)
  then show "\<exists>s'. partition_read demo_env demo_three (Some (cstr ''APP2'')) False off len s
      = Some (0, bslice (unat off) (unat len) demo_data, s') \<and> True \<and> s' = s"
    using partition_read_eq [OF demo_find(2) d, of demo_env] p off by (simp add: demo_env_def)
qed

lemma partition_read_command_prints_witness:
  "\<exists>s'. partiton_func (Some (\<lambda>c s. s @ [c])) demo_env demo_three (replicate 16 0) 0 0
      [cstr ''partition'' @ [0], cstr ''read'' @ [0], cstr ''APP2'' @ [0], cstr ''1'' @ [0], cstr ''0x12'' @ [0]] []
      = Some (0, s') \<and> True \<and> s' = [] @ dump_text (bslice (unat (1 :: u32)) (unat (18 :: u32)) demo_data)"
proof (rule partition_read_command_prints [where data = demo_data and P = "\<lambda>_. True" and out = "\<lambda>s. s"])
  show "readable (\<lambda>_. True) (\<lambda>s. s) demo_env demo_three (str_of (cstr ''APP2'' @ [0])) demo_data"
    using demo_readable by (simp add: cstr_def)
  show "xstrtol (cstr ''1'' @ [0]) = Some (0, Some 1)" "xstrtol (cstr ''0x12'' @ [0]) = Some (0, Some 18)"
    by code_simp+
qed (simp_all add: prints_to_def demo_data_def cstr_def)

end
