(* ===== verification/Spec2Isabelle.thy ===== *)
theory Spec2Isabelle
  imports HG_Prelude Crc Partition Partition_Facts Ymodem Ymodem_Facts Part_Store Ota Ota_Facts Boot
    Ram_Store Firmware Nand_Driver Nand_Port Nand_Store Nand_Board Nand_Chip Board_Facts
    Xstring Xformat Xformat_Facts Shell Shell_Facts Shell_Editor Shell_Props
    Memheap Memheap_Ring Memheap_Facts Memheap_Realloc Memheap_Props
    Mmio Iomux Clk Clk_Facts Gic Gic_Facts Uart Uart_Facts Serial_Props Mmu Partition_Cmd Partition_Cmd_Facts
begin

text \<open>
  A verification library for the HGBOOT loader of an Allwinner T113 board: the boot loader under
  \<^verbatim>\<open>src/boot1\<close>, which receives firmware over a serial line, stores it in partitions of an SPI NAND
  flash, switches between two slots, and loads and starts the running one.

  \<^bold>\<open>Parts of the program and their theories.\<close>  The firmware path is a tower: the shell or the boot
  code calls OTA and boot, these use the YMODEM receiver and the partition manager, the partition
  manager calls the access functions of a registered device, which use the NAND driver, which talks
  to the chip over the SPI bus.

  \<^item> \<^verbatim>\<open>HG_Prelude\<close>: words, C strings, little-endian layout, slices and patches of byte arrays,
    searching loops.
  \<^item> \<^verbatim>\<open>Crc\<close>: the CRC-32 of \<^verbatim>\<open>hgboot/boot/boot.c\<close> and \<^verbatim>\<open>hgboot/ota/ota.c\<close> with their tables and the
    CRC-16 of \<^verbatim>\<open>hgboot/ymodem/ymodem.c\<close>; the tables compute the division by the polynomial, and
    which changes of the data the checksums notice.
  \<^item> \<^verbatim>\<open>Partition\<close>, \<^verbatim>\<open>Partition_Facts\<close>: \<^verbatim>\<open>hgboot/partition/partition.c\<close>.  The static tables of devices and
    partitions are the record \<open>part_sys\<close>; the operations of a device are functions over an
    unspecified device state.  Bounds of the tables, lookup, registration, confinement of accesses.
  \<^item> \<^verbatim>\<open>Ymodem\<close>, \<^verbatim>\<open>Ymodem_Facts\<close>: \<^verbatim>\<open>hgboot/ymodem/ymodem.c\<close>.  The line is the list of results of the
    port's \<^verbatim>\<open>getchar\<close> (a byte or a timeout), the list of sent bytes is kept in the state.  A whole
    transfer, damaged packets, a silent sender, a cut packet.
  \<^item> \<^verbatim>\<open>Part_Store\<close>: the locales that say what OTA and boot need of a partition store (\<open>part_store\<close>,
    \<open>reliable_store\<close>, and their extensions \<open>ota_store\<close> and \<open>reliable_ota\<close> with the partitions they use).
  \<^item> \<^verbatim>\<open>Ota\<close>, \<^verbatim>\<open>Ota_Facts\<close>, \<^verbatim>\<open>Boot\<close>, \<^verbatim>\<open>Firmware\<close>: \<^verbatim>\<open>hgboot/ota/ota.c\<close> and \<^verbatim>\<open>hgboot/boot/boot.c\<close> over the four
    access functions of such a store; download, update, rollback and boot, alone and as a chain.
  \<^item> \<^verbatim>\<open>Ram_Store\<close>: a store in memory that keeps the contract, for concrete runs.
  \<^item> \<^verbatim>\<open>Nand_Driver\<close>: \<^verbatim>\<open>boards/drv_nand.c\<close>.  \<^verbatim>\<open>Nand_Port\<close>: the read, write and erase functions of
    \<^verbatim>\<open>boards/port/partition_port.c\<close>.  \<^verbatim>\<open>Nand_Board\<close>: the partition table it registers.
  \<^item> \<^verbatim>\<open>Nand_Store\<close>, \<^verbatim>\<open>Nand_Chip\<close>, \<^verbatim>\<open>Board_Facts\<close>: the contract of the page operations (\<open>nand_pages\<close>), the
    contract of the chip on the bus (\<open>nand_chip\<close>), the proofs that each level gives the next, a
    simulated chip that satisfies the lowest one, and the end-to-end theorem for the board.
  \<^item> \<^verbatim>\<open>Xstring\<close>: \<^verbatim>\<open>hgboot/shell/xstring.c\<close>.  \<^verbatim>\<open>Xformat\<close>, \<^verbatim>\<open>Xformat_Facts\<close>: \<^verbatim>\<open>hgboot/shell/xformat.c\<close>, its
    parser driven by the table \<^verbatim>\<open>formspec\<close>, and what a conversion prints.
  \<^item> \<^verbatim>\<open>Shell\<close>, \<^verbatim>\<open>Shell_Facts\<close>, \<^verbatim>\<open>Shell_Editor\<close>, \<^verbatim>\<open>Shell_Props\<close>: \<^verbatim>\<open>hgboot/shell/shell.c\<close>, the bounds of its arrays,
    the abstract line editor it refines, and what a typed line runs.

  \<^bold>\<open>Modelling conventions.\<close>  The target is a 32-bit ARM compiled by \<^verbatim>\<open>arm-none-eabi-gcc\<close>: \<^verbatim>\<open>char\<close> is
  unsigned and one byte, \<^verbatim>\<open>int\<close> and pointers have 32 bits, and integers are words that wrap.  A
  result of \<^term>\<open>None\<close> means that a call does not return normally: it runs off an array, follows a
  null pointer, or loops for ever.  Loops that may not end are \<open>partial_function\<close>s, so no fuel is
  needed anywhere; the theorems that a call returns state that the result is \<^term>\<open>Some\<close>.
  Bounded loops recurse on the number of rounds left, lists or words.  The static variables of a C
  file are a record that the functions take and return.  The log macros of the source only print
  and are left out of the models of partition, YMODEM, OTA and boot.

  \<^bold>\<open>Parameters.\<close>  Behaviour outside the C sources is an argument: the SPI controller with the chip
  behind it (\<open>spi_bus\<close>), the terminal behind \<^verbatim>\<open>putchar\<close> and \<^verbatim>\<open>getchar\<close>, the functions of
  commands that other files register, and the memory that \<^verbatim>\<open>hexdump\<close> reads.  What the
  theorems assume of the chip is the locale \<open>nand_chip\<close>, taken from its data sheet: page register,
  write enable, busy time, the failure bits, and blocks that may be worn out.

  \<^bold>\<open>What the theorems show.\<close>  On a chip that keeps its contract, the firmware a sender transmits is
  the firmware that boots; boot returns only an image whose CRC it has checked; an update never
  touches the running slot, a rollback is taken once; accesses of one partition leave the others
  alone; every key leaves the editor inside its arrays, except the down arrow.  Where the code does
  less than it says, a theorem states what it does do: range checks that wrap, a
  failed update reported as success, a lookup by prefix, endless waits for a busy chip or a sender
  that stops, a program failure noticed too late.

  \<^bold>\<open>Not modelled.\<close>  The vendored sources under \<^verbatim>\<open>src/application\<close> (RT-Thread, CherryUSB) and
  \<^verbatim>\<open>src/boot1/lfs\<close> (littlefs); the register-level drivers for SPI, UART, clocks and pins, the
  interrupt controller and the MMU code, whose effect lies in hardware this development has no
  description of; \<^verbatim>\<open>%f\<close> in \<^verbatim>\<open>xformat.c\<close> (floating point, used by no caller); the first stage
  \<^verbatim>\<open>src/boot0\<close>, which drives a binary library for the DRAM and the flash; the host tools.
\<close>

end
